(* ===== verification/Phira_Prelude.thy ===== *)
theory Phira_Prelude
  imports Main "HOL-Library.Word" "HOL-Library.AList" "HOL-Library.Sublist"
begin

text \<open>
  Shared vocabulary of the development.  Machine integers of the Go source are words of their
  width (\<open>uint8\<close>, \<open>uint16\<close>, \<open>uint32\<close>, \<open>uint64\<close> and the bit patterns of \<open>int8\<close>, \<open>int32\<close>,
  \<open>int64\<close>, \<open>float32\<close>); a Go \<open>int\<close> used as a length or an index is a \<open>nat\<close>.  A Go string is a
  byte sequence, here a \<open>string\<close> (an Isabelle character is one byte).  A panic or an error return
  is the left part of a sum.  The named collections gather the facts that the component theories
  use together: \<open>wire\<close> for the writer and reader equations, \<open>codec\<close> for the round-trip facts and
  \<open>inbounds\<close> for the readers that stay in their buffer.
\<close>

unbundle bit_operations_syntax

named_theorems wire \<open>writer and reader equations\<close>
named_theorems codec \<open>round-trip facts of the codecs\<close>
named_theorems inbounds \<open>readers never leave their buffer\<close>

type_synonym u8 = "8 word"
type_synonym u16 = "16 word"
type_synonym u32 = "32 word"
type_synonym u64 = "64 word"
type_synonym i8 = "8 word"
type_synonym i32 = "32 word"
type_synonym i64 = "64 word"
type_synonym float32 = "32 word"
type_synonym bytes = "8 word list"

section \<open>Strings as byte sequences\<close>

definition bytes_of_string :: "string \<Rightarrow> bytes" where
  "bytes_of_string s = map (\<lambda>c. word_of_nat (of_char c)) s"

definition string_of_bytes :: "bytes \<Rightarrow> string" where
  "string_of_bytes bs = map (\<lambda>b. char_of (unat b)) bs"

lemma length_bytes_of_string [simp]: "length (bytes_of_string s) = length s"
  by (simp add: bytes_of_string_def)

lemma length_string_of_bytes [simp]: "length (string_of_bytes bs) = length bs"
  by (simp add: string_of_bytes_def)

lemma unat_of_char [simp]: "unat (word_of_nat (of_char c) :: u8) = of_char c"
proof -
  have "(of_char c :: nat) < 256" by simp
  then show ?thesis by (simp add: unat_of_nat take_bit_eq_mod)
qed

lemma string_of_bytes_of_string [simp]: "string_of_bytes (bytes_of_string s) = s"
  by (simp add: string_of_bytes_def bytes_of_string_def o_def)

lemma bytes_of_string_of_bytes [simp]: "bytes_of_string (string_of_bytes bs) = bs"
proof -
  have "word_of_nat (of_char (char_of (unat b) :: char)) = b" for b :: u8
    using unsigned_less [where w = b and 'a = nat] by (simp add: of_char_of)
  then show ?thesis
    by (simp add: string_of_bytes_def bytes_of_string_def o_def)
qed

section \<open>Byte order\<close>

text \<open>\<open>binary.LittleEndian\<close> and \<open>binary.BigEndian\<close> of the Go library: least significant byte
  first, and the reverse.\<close>

primrec le_encode :: "nat \<Rightarrow> 'a::len word \<Rightarrow> bytes" where
  "le_encode 0 v = []"
| "le_encode (Suc n) v = ucast v # le_encode n (drop_bit 8 v)"

primrec le_decode :: "bytes \<Rightarrow> 'a::len word" where
  "le_decode [] = 0"
| "le_decode (b # bs) = ucast b OR push_bit 8 (le_decode bs)"

definition be_encode :: "nat \<Rightarrow> 'a::len word \<Rightarrow> bytes" where
  "be_encode n v = rev (le_encode n v)"

definition be_decode :: "bytes \<Rightarrow> 'a::len word" where
  "be_decode bs = le_decode (rev bs)"

lemma length_le_encode [simp]: "length (le_encode n v) = n"
  by (induction n arbitrary: v) auto

lemma length_be_encode [simp]: "length (be_encode n v) = n"
  by (simp add: be_encode_def)

lemma le_decode_encode: "le_decode (le_encode n (v :: 'a::len word)) = take_bit (8 * n) v"
proof (induction n arbitrary: v)
  case 0
  show ?case by simp
next
  case (Suc n)
  show ?case
    by (rule bit_word_eqI) (auto simp: Suc bit_simps dest: bit_imp_le_length)
qed

lemma le_roundtrip [simp]: "LENGTH('a) \<le> 8 * n \<Longrightarrow> le_decode (le_encode n v) = (v :: 'a::len word)"
  by (simp add: le_decode_encode take_bit_word_eq_self)

lemma be_roundtrip [simp]: "LENGTH('a) \<le> 8 * n \<Longrightarrow> be_decode (be_encode n v) = (v :: 'a::len word)"
  by (simp add: be_encode_def be_decode_def)

lemma bit_le_decode_bound: "bit (le_decode bs :: 'a::len word) k \<Longrightarrow> k < 8 * length bs"
proof (induction bs arbitrary: k)
  case Nil
  then show ?case by simp
next
  case (Cons b bs)
  from Cons.prems have "k < 8 \<or> bit (le_decode bs :: 'a word) (k - 8)"
    by (auto simp: bit_simps dest: bit_imp_le_length)
  then show ?case
    using Cons.IH [of "k - 8"] by auto
qed

lemma le_encode_decode:
  assumes "8 * length bs \<le> LENGTH('a::len)"
  shows "le_encode (length bs) (le_decode bs :: 'a word) = bs"
  using assms
proof (induction bs)
  case Nil
  show ?case by simp
next
  case (Cons b bs)
  have "ucast (le_decode (b # bs) :: 'a word) = b"
    using Cons.prems by (intro bit_word_eqI) (auto simp: bit_simps)
  moreover have "drop_bit 8 (le_decode (b # bs) :: 'a word) = le_decode bs"
    using Cons.prems
    by (intro bit_word_eqI) (auto simp: bit_simps dest: bit_imp_le_length bit_le_decode_bound)
  ultimately show ?case using Cons by simp
qed

lemma be_encode_decode:
  "8 * length bs \<le> LENGTH('a::len) \<Longrightarrow> be_encode (length bs) (be_decode bs :: 'a word) = bs"
  using le_encode_decode [of "rev bs"] by (simp add: be_encode_def be_decode_def rev_swap)

section \<open>Lists\<close>

lemma drop_length_append [simp]: "drop (length xs) (xs @ ys) = ys"
  by simp

lemma nth_length_append [simp]: "(xs @ y # ys) ! length xs = y"
  by simp

text \<open>The \<open>removeInt\<close> and \<open>slices.Delete\<close> idiom removes one occurrence, which on a list without
  duplicates is a filter.\<close>

lemma remove1_distinct_filter: "distinct xs \<Longrightarrow> remove1 x xs = filter (\<lambda>y. y \<noteq> x) xs"
proof (induction xs)
  case (Cons y ys)
  then show ?case by (cases "x = y") (auto intro: filter_True [symmetric])
qed simp

lemma sorted_map_of_distinct:
  "distinct (map fst xs) \<Longrightarrow> map (\<lambda>k. (k, the (map_of xs k))) (map fst xs) = xs"
  by (induction xs) (auto intro!: map_idI simp: image_iff)

lemma update_new: "k \<notin> fst ` set al \<Longrightarrow> AList.update k v al = al @ [(k, v)]"
  by (induction al) auto

end
