(* ===== verification/Agent_Log.thy ===== *)
theory Agent_Log
  imports Phira_Prelude
begin

text \<open>
  The record format that the outbox of the server and the inbox of the agent share
  (\<open>encodeRecord\<close> of \<open>agent/outbox/store.go\<close>, \<open>encode\<close> of \<open>agent/inbox/store.go\<close>): a length, a
  checksum and the JSON text of an envelope.  The checksum is \<open>crc32.ChecksumIEEE\<close>.  JSON itself is
  a parameter, a pair of functions for \<open>json.Marshal\<close> and \<open>json.Unmarshal\<close> on envelopes; what the
  stores rely on is \<open>faithful\<close>: a text that was produced is not empty and reads back as the same
  envelope.  The locale \<open>framed_log\<close> states what a log of framed records promises to a reader.
\<close>

record Envelope =
  Version :: int
  ID :: string
  Sequence :: nat
  Type :: string
  CreatedAt :: int
  Payload :: bytes

record Codec =
  Marshal :: "Envelope \<Rightarrow> bytes option"
  Unmarshal :: "bytes \<Rightarrow> Envelope option"

definition faithful :: "Codec \<Rightarrow> bool" where
  "faithful cd \<longleftrightarrow> (\<forall>e data. Marshal cd e = Some data \<longrightarrow> data \<noteq> [] \<and> Unmarshal cd data = Some e)"

definition ProtocolVersion :: int where "ProtocolVersion = 1"
definition maxRecordSize :: nat where "maxRecordSize = 1048576"
definition headerSize :: nat where "headerSize = 8"

section \<open>Checksums\<close>

definition crc_bit :: "u32 \<Rightarrow> u32" where
  "crc_bit c = (if c AND 1 = 1 then drop_bit 1 c XOR 0xEDB88320 else drop_bit 1 c)"

definition crc_byte :: "u32 \<Rightarrow> u8 \<Rightarrow> u32" where
  "crc_byte c b = (crc_bit ^^ 8) (c XOR ucast b)"

definition ChecksumIEEE :: "bytes \<Rightarrow> u32" where
  "ChecksumIEEE data = NOT (foldl crc_byte (NOT 0) data)"

section \<open>Records\<close>

definition frame :: "bytes \<Rightarrow> bytes" where
  "frame data = be_encode 4 (word_of_nat (length data) :: u32) @ be_encode 4 (ChecksumIEEE data) @ data"

definition encodeRecord :: "Codec \<Rightarrow> Envelope \<Rightarrow> string + bytes" where
  "encodeRecord cd e =
     (case Marshal cd e of
        None \<Rightarrow> Inl ''json''
      | Some data \<Rightarrow> if length data > maxRecordSize then Inl ''record is too large'' else Inr (frame data))"

datatype rec_read = RecEOF | RecShort | RecBadLength | RecBadSum | RecData bytes bytes

text \<open>One round of the loops of \<open>recoverLog\<close>, \<open>recover\<close> and \<open>ReadAfter\<close>: \<open>io.ReadFull\<close> of the header
  (no byte left is \<open>EOF\<close>, fewer than eight \<open>ErrUnexpectedEOF\<close>), the length, the data, the checksum.\<close>

definition read_record :: "bytes \<Rightarrow> rec_read" where
  "read_record bs =
     (if bs = [] then RecEOF
      else if length bs < headerSize then RecShort
      else let len = unat (be_decode (take 4 bs) :: u32)
           in if len = 0 \<or> len > maxRecordSize then RecBadLength
              else if length bs < headerSize + len then RecShort
              else let data = take len (drop headerSize bs)
                   in if ChecksumIEEE data \<noteq> be_decode (take 4 (drop 4 bs)) then RecBadSum
                      else RecData data (drop (headerSize + len) bs))"

lemma read_record_shorter: "read_record bs = RecData data rest \<Longrightarrow> length rest < length bs"
  by (auto simp: read_record_def Let_def headerSize_def split: if_splits)

lemma length_frame [simp]: "length (frame data) = headerSize + length data"
  by (simp add: frame_def headerSize_def)

lemma frame_length_word:
  "length data \<le> maxRecordSize \<Longrightarrow> unat (word_of_nat (length data) :: u32) = length data"
  by (simp add: maxRecordSize_def unat_of_nat take_bit_eq_mod)

lemma read_record_frame:
  assumes "data \<noteq> []" and "length data \<le> maxRecordSize"
  shows "read_record (frame data @ rest) = RecData data rest"
  using assms frame_length_word [OF assms(2)]
  by (simp add: read_record_def frame_def headerSize_def)

lemma read_record_cut:
  assumes "length data \<le> maxRecordSize" and "p = take n (frame data)" and "n < length (frame data)"
  shows "read_record p = RecEOF \<and> p = [] \<or> read_record p = RecShort \<or> read_record p = RecBadLength"
proof (cases "n < 8")
  case True
  then show ?thesis using assms(2,3) by (auto simp: read_record_def headerSize_def frame_def)
next
  case False
  then have "take 4 p = be_encode 4 (word_of_nat (length data) :: u32)"
    using assms(2) by (simp add: frame_def min_def)
  then show ?thesis
    using assms False frame_length_word [OF assms(1)]
    by (auto simp: read_record_def headerSize_def Let_def)
qed

section \<open>The contract of a framed log\<close>

locale framed_log =
  fixes encode :: "bytes \<Rightarrow> bytes"
    and read :: "bytes \<Rightarrow> rec_read"
    and valid :: "bytes \<Rightarrow> bool"
  assumes read_encode: "valid data \<Longrightarrow> read (encode data @ rest) = RecData data rest"
    and read_cut: "valid data \<Longrightarrow> n < length (encode data) \<Longrightarrow> (\<forall>d r. read (take n (encode data)) \<noteq> RecData d r)"
    and read_end: "read [] = RecEOF"
    and read_less: "read bs = RecData data rest \<Longrightarrow> length rest < length bs"
begin

text \<open>A log determines its records, and no record of it is a proper beginning of another.\<close>

lemma encode_nonempty: "valid data \<Longrightarrow> encode data \<noteq> []"
proof
  assume v: "valid data" and e: "encode data = []"
  show False using read_encode [OF v, of "[]"] by (simp add: e read_end)
qed

lemma logs_injective:
  "\<forall>d \<in> set ds. valid d \<Longrightarrow> \<forall>d \<in> set ds'. valid d
    \<Longrightarrow> concat (map encode ds) = concat (map encode ds') \<Longrightarrow> ds = ds'"
proof (induction ds arbitrary: ds')
  case Nil
  then show ?case using encode_nonempty by (cases ds') auto
next
  case (Cons d ds)
  have "ds' \<noteq> []" using Cons.prems(1,3) encode_nonempty [of d] by auto
  then obtain d' es where ds': "ds' = d' # es" by (cases ds') auto
  let ?A = "concat (map encode ds)" and ?B = "concat (map encode es)"
  have "read (encode d @ ?A) = RecData d ?A" "read (encode d' @ ?B) = RecData d' ?B"
    by (rule read_encode, use Cons.prems(1,2) in \<open>simp add: ds'\<close>)+
  moreover have "encode d @ ?A = encode d' @ ?B" using Cons.prems(3) by (simp add: ds')
  ultimately have "RecData d ?A = RecData d' ?B" by argo
  then have "d = d'" "?A = ?B" by (rule rec_read.inject [THEN iffD1, THEN conjunct1], rule rec_read.inject [THEN iffD1, THEN conjunct2])
  then show ?case using Cons.IH [of es] Cons.prems(1,2) by (auto simp: ds')
qed

end

interpretation rec_log: framed_log frame read_record "\<lambda>data. data \<noteq> [] \<and> length data \<le> maxRecordSize"
proof (unfold_locales, goal_cases)
  case (2 data n)
  then show ?case using read_record_cut [of data "take n (frame data)" n] by auto
next
  case 3
  show ?case by (simp add: read_record_def)
qed (auto simp: read_record_frame read_record_shorter)

section \<open>Records of envelopes\<close>

definition encodable :: "Codec \<Rightarrow> Envelope \<Rightarrow> bool" where
  "encodable cd e \<longleftrightarrow> (\<exists>r. encodeRecord cd e = Inr r)"

definition rec_of :: "Codec \<Rightarrow> Envelope \<Rightarrow> bytes" where
  "rec_of cd e = (case encodeRecord cd e of Inr r \<Rightarrow> r | Inl _ \<Rightarrow> [])"

lemma encodable_cases:
  assumes "encodable cd e" and "faithful cd"
  obtains data where "Marshal cd e = Some data" "rec_of cd e = frame data" "data \<noteq> []"
    "length data \<le> maxRecordSize" "Unmarshal cd data = Some e"
  using assms by (auto simp: encodable_def encodeRecord_def rec_of_def faithful_def split: option.splits if_splits)

lemma encodeRecord_rec_of: "encodeRecord cd e = Inr r \<Longrightarrow> encodable cd e \<and> rec_of cd e = r"
  by (simp add: encodable_def rec_of_def)

end
