(* ===== verification/Agent_Outbox.thy ===== *)
theory Agent_Outbox
  imports Agent_Log
begin

text \<open>
  The durable outbox of the server (\<open>agent/outbox/store.go\<close>): a log of records on the disk and the
  events that the agent has not acknowledged, in memory.  The disk is explicit: the bytes of
  \<open>events.log\<close> and the sequence number in \<open>checkpoint.json\<close>, which is replaced atomically.  The
  operations take the fate of their writes as an argument: a write may be cut at any byte or fail to
  be flushed, and each of the two replacements of an acknowledgement may fail before or after the
  rename.  A crash is such a failure followed by a new \<open>Open\<close>.  A sequence number is a \<open>uint64\<close>, its
  wrap-around is written out.
\<close>

datatype Priority = PriorityNormal | PriorityCritical

record Outbox =
  ob_max :: nat
  ob_events :: "Envelope list"
  ob_acked :: nat
  ob_latest :: nat
  ob_bytes :: nat
  ob_dropped :: nat
  ob_closed :: bool
  ob_failed :: "string option"

record Disk =
  log_file :: bytes
  checkpoint_file :: "nat option"

definition next_seq :: "nat \<Rightarrow> nat" where
  "next_seq n = (n + 1) mod 2 ^ 64"

section \<open>Recovery\<close>

record Recovery =
  rs_first :: bool
  rs_previous :: nat
  rs_offset :: nat
  rs_latest :: nat
  rs_events :: "Envelope list"

text \<open>The body of the loop for an envelope that was read: \<open>None\<close> when the tail is given up.\<close>

definition take_envelope :: "nat \<Rightarrow> nat \<Rightarrow> Envelope \<Rightarrow> Recovery \<Rightarrow> Recovery option" where
  "take_envelope acked len e st =
     (if Sequence e = 0 \<or> ID e = [] then None
      else if rs_first st \<and> Sequence e > next_seq acked then None
      else let st = (if rs_first st then st\<lparr>rs_previous := Sequence e - 1, rs_first := False\<rparr> else st)
           in if Sequence e \<noteq> next_seq (rs_previous st) then None
              else Some (st\<lparr>rs_previous := Sequence e, rs_offset := rs_offset st + headerSize + len,
                      rs_latest := (if Sequence e > rs_latest st then Sequence e else rs_latest st),
                      rs_events := (if Sequence e > acked then rs_events st @ [e] else rs_events st)\<rparr>))"

text \<open>The loop of \<open>recoverLog\<close>; the Boolean says whether the tail behind the offset is cut off.\<close>

function recover_loop :: "Codec \<Rightarrow> nat \<Rightarrow> Recovery \<Rightarrow> bytes \<Rightarrow> bool \<times> Recovery" where
  "recover_loop cd acked st bs =
     (case read_record bs of
        RecEOF \<Rightarrow> (False, st)
      | RecData data rest \<Rightarrow>
          (case Unmarshal cd data of
             None \<Rightarrow> (True, st)
           | Some e \<Rightarrow> (case take_envelope acked (length data) e st of
                 None \<Rightarrow> (True, st)
               | Some st' \<Rightarrow> recover_loop cd acked st' rest))
      | _ \<Rightarrow> (True, st))"
  by pat_completeness auto
termination
  by (relation "measure (\<lambda>(_, _, _, bs). length bs)") (auto dest: read_record_shorter)

declare recover_loop.simps [simp del]

definition recoverLog :: "Codec \<Rightarrow> Outbox \<Rightarrow> Disk \<Rightarrow> Outbox \<times> Disk" where
  "recoverLog cd s d =
     (case recover_loop cd (ob_acked s)
        \<lparr>rs_first = True, rs_previous = 0, rs_offset = 0, rs_latest = ob_acked s, rs_events = ob_events s\<rparr> (log_file d) of
        (torn, st) \<Rightarrow>
          (s\<lparr>ob_latest := rs_latest st, ob_events := rs_events st, ob_bytes := rs_offset st\<rparr>,
           if torn then d\<lparr>log_file := take (rs_offset st) (log_file d)\<rparr> else d))"

definition loadCheckpoint :: "Outbox \<Rightarrow> Disk \<Rightarrow> Outbox" where
  "loadCheckpoint s d = (case checkpoint_file d of None \<Rightarrow> s | Some n \<Rightarrow> s\<lparr>ob_acked := n\<rparr>)"

definition ob_Open :: "Codec \<Rightarrow> nat \<Rightarrow> Disk \<Rightarrow> string + (Outbox \<times> Disk)" where
  "ob_Open cd maxBytes d =
     (if maxBytes < maxRecordSize then Inl ''agent outbox max bytes must be at least 1048576''
      else let s = \<lparr>ob_max = maxBytes, ob_events = [], ob_acked = 0, ob_latest = 0, ob_bytes = 0,
                    ob_dropped = 0, ob_closed = False, ob_failed = None\<rparr>
           in Inr (recoverLog cd (loadCheckpoint s d) d))"

section \<open>Operations\<close>

datatype write_fate = Written | CutAt nat | Unflushed

definition ob_limit :: "Priority \<Rightarrow> Outbox \<Rightarrow> nat" where
  "ob_limit priority s = (if priority = PriorityNormal then ob_max s - ob_max s div 4 else ob_max s)"

text \<open>\<open>Append\<close> with the encoded payload (\<open>None\<close> when \<open>json.Marshal\<close> refuses it), the fresh identifier
  and the time as arguments.\<close>

definition ob_Append ::
  "Codec \<Rightarrow> string \<Rightarrow> bytes option \<Rightarrow> Priority \<Rightarrow> string \<Rightarrow> int \<Rightarrow> write_fate \<Rightarrow> Outbox \<Rightarrow> Disk
    \<Rightarrow> (string + Envelope) \<times> Outbox \<times> Disk" where
  "ob_Append cd eventType payload priority uuid t fate s d =
     (case payload of
        None \<Rightarrow> (Inl ''agent outbox marshal payload'', s, d)
      | Some payloadJSON \<Rightarrow>
          if ob_closed s then (Inl ''agent outbox is closed'', s, d)
          else case ob_failed s of Some err \<Rightarrow> (Inl err, s, d) | None \<Rightarrow>
          (let envelope = \<lparr>Version = ProtocolVersion, ID = uuid, Sequence = next_seq (ob_latest s),
                           Type = eventType, CreatedAt = t, Payload = payloadJSON\<rparr>
           in case encodeRecord cd envelope of
               Inl err \<Rightarrow> (Inl err, s, d)
             | Inr bs \<Rightarrow>
                 if ob_bytes s + length bs > ob_limit priority s
                 then (Inl ''agent outbox is full'',
                       if priority = PriorityNormal then s\<lparr>ob_dropped := next_seq (ob_dropped s)\<rparr> else s, d)
                 else case fate of
                     CutAt n \<Rightarrow> (Inl ''agent outbox append'', s\<lparr>ob_failed := Some ''agent outbox append''\<rparr>,
                                 d\<lparr>log_file := log_file d @ take n bs\<rparr>)
                   | Unflushed \<Rightarrow> (Inl ''agent outbox sync'', s\<lparr>ob_failed := Some ''agent outbox sync''\<rparr>,
                                   d\<lparr>log_file := log_file d @ bs\<rparr>)
                   | Written \<Rightarrow>
                       (Inr envelope,
                        s\<lparr>ob_events := ob_events s @ [envelope], ob_latest := Sequence envelope,
                          ob_bytes := ob_bytes s + length bs\<rparr>,
                        d\<lparr>log_file := log_file d @ bs\<rparr>)))"

definition ob_Events :: "nat \<Rightarrow> int \<Rightarrow> Outbox \<Rightarrow> string + Envelope list" where
  "ob_Events after limit s =
     (if after \<noteq> ob_acked s then Inl ''requested sequence does not match ACK''
      else if limit < 1 then Inl ''event limit must be positive''
      else Inr (take (nat (min limit (int (length (ob_events s))))) (ob_events s)))"

text \<open>The records that \<open>compactLocked\<close> writes to the new log.\<close>

fun compact_records :: "Codec \<Rightarrow> Envelope list \<Rightarrow> bytes option" where
  "compact_records cd [] = Some []"
| "compact_records cd (e # es) =
     (case encodeRecord cd e of
        Inl _ \<Rightarrow> None
      | Inr bs \<Rightarrow> (case compact_records cd es of None \<Rightarrow> None | Some rest \<Rightarrow> Some (bs @ rest)))"

text \<open>How far a replacement of a file gets: not to the rename, to the rename but not to the flush of
  the directory, or through.\<close>

datatype replace_fate = NotReplaced | ReplacedUnflushed | Replaced

definition compactLocked :: "Codec \<Rightarrow> replace_fate \<Rightarrow> Outbox \<Rightarrow> Disk \<Rightarrow> string option \<times> Outbox \<times> Disk" where
  "compactLocked cd fate s d =
     (case compact_records cd (ob_events s) of
        None \<Rightarrow> (Some ''agent outbox record'', s, d)
      | Some bs \<Rightarrow>
          (case fate of
             NotReplaced \<Rightarrow> (Some ''agent outbox compact'', s, d)
           | ReplacedUnflushed \<Rightarrow> (Some ''agent outbox compact'', s, d\<lparr>log_file := bs\<rparr>)
           | Replaced \<Rightarrow> (None, s\<lparr>ob_bytes := length bs\<rparr>, d\<lparr>log_file := bs\<rparr>)))"

fun index_of :: "nat \<Rightarrow> Envelope list \<Rightarrow> nat option" where
  "index_of n [] = None"
| "index_of n (e # es) = (if Sequence e = n then Some 0 else map_option Suc (index_of n es))"

definition ob_Ack :: "Codec \<Rightarrow> nat \<Rightarrow> replace_fate \<Rightarrow> replace_fate \<Rightarrow> Outbox \<Rightarrow> Disk \<Rightarrow> string option \<times> Outbox \<times> Disk" where
  "ob_Ack cd n cp_fate log_fate s d =
     (if n \<le> ob_acked s then (None, s, d)
      else if n > ob_latest s then (Some ''agent outbox ACK is out of range'', s, d)
      else case index_of n (ob_events s) of
          None \<Rightarrow> (Some ''agent outbox ACK is out of range'', s, d)
        | Some i \<Rightarrow>
            (case cp_fate of
               NotReplaced \<Rightarrow> (Some ''checkpoint'', s, d)
             | ReplacedUnflushed \<Rightarrow> (Some ''checkpoint'', s, d\<lparr>checkpoint_file := Some n\<rparr>)
             | Replaced \<Rightarrow>
                 compactLocked cd log_fate (s\<lparr>ob_acked := n, ob_events := drop (i + 1) (ob_events s)\<rparr>)
                   (d\<lparr>checkpoint_file := Some n\<rparr>)))"

definition RecordDroppedNormal :: "Outbox \<Rightarrow> Outbox" where
  "RecordDroppedNormal s = s\<lparr>ob_dropped := next_seq (ob_dropped s)\<rparr>"

definition ob_Close :: "Outbox \<Rightarrow> Outbox" where
  "ob_Close s = s\<lparr>ob_closed := True\<rparr>"

record Stats =
  AckedSequence :: nat
  LatestSequence :: nat
  PendingEvents :: nat
  Bytes :: nat
  DroppedNormal :: nat

definition ob_Stats :: "Outbox \<Rightarrow> Stats" where
  "ob_Stats s = \<lparr>AckedSequence = ob_acked s, LatestSequence = ob_latest s, PendingEvents = length (ob_events s),
     Bytes = ob_bytes s, DroppedNormal = ob_dropped s\<rparr>"

section \<open>The loop on a log of records\<close>

text \<open>Envelopes with consecutive numbers after \<open>k\<close>, each with an identifier and a record.\<close>

definition numbered :: "Codec \<Rightarrow> nat \<Rightarrow> Envelope list \<Rightarrow> bool" where
  "numbered cd k es \<longleftrightarrow> map Sequence es = [k + 1..<k + 1 + length es]
     \<and> (\<forall>e \<in> set es. ID e \<noteq> [] \<and> encodable cd e)"

definition log_of :: "Codec \<Rightarrow> Envelope list \<Rightarrow> bytes" where
  "log_of cd es = concat (map (rec_of cd) es)"

lemma log_of_simps [simp]: "log_of cd [] = []" "log_of cd (e # es) = rec_of cd e @ log_of cd es"
  "log_of cd (es @ es') = log_of cd es @ log_of cd es'"
  by (simp_all add: log_of_def)

lemma next_seq_less: "n + 1 < 2 ^ 64 \<Longrightarrow> next_seq n = n + 1"
  by (simp add: next_seq_def)

lemma numbered_Cons:
  "numbered cd k (e # es) \<longleftrightarrow> Sequence e = k + 1 \<and> ID e \<noteq> [] \<and> encodable cd e \<and> numbered cd (k + 1) es"
  by (auto simp: numbered_def upt_conv_Cons simp del: upt_Suc)

lemma numbered_Nil [simp]: "numbered cd k []"
  by (simp add: numbered_def)

lemma numbered_append:
  "numbered cd k (es @ es') \<longleftrightarrow> numbered cd k es \<and> numbered cd (k + length es) es'"
  by (induction es arbitrary: k) (auto simp: numbered_Cons)

lemma recover_numbered:
  assumes "faithful cd" and "numbered cd p es" and "p + length es < 2 ^ 64"
  shows "recover_loop cd a \<lparr>rs_first = False, rs_previous = p, rs_offset = off, rs_latest = max a p, rs_events = ev\<rparr> (log_of cd es @ t)
    = recover_loop cd a \<lparr>rs_first = False, rs_previous = p + length es, rs_offset = off + length (log_of cd es),
        rs_latest = max a (p + length es), rs_events = ev @ filter (\<lambda>e. Sequence e > a) es\<rparr> t"
  using assms(2,3)
proof (induction es arbitrary: p off ev)
  case (Cons e es)
  have e: "encodable cd e" "Sequence e = p + 1" "ID e \<noteq> []" and es: "numbered cd (p + 1) es"
    using Cons.prems(1) by (auto simp: numbered_Cons)
  obtain data where data: "rec_of cd e = frame data" "data \<noteq> []" "length data \<le> maxRecordSize" "Unmarshal cd data = Some e"
    using encodable_cases [OF e(1) assms(1)] by metis
  have "take_envelope a (length data) e \<lparr>rs_first = False, rs_previous = p, rs_offset = off, rs_latest = max a p, rs_events = ev\<rparr>
      = Some \<lparr>rs_first = False, rs_previous = p + 1, rs_offset = off + length (rec_of cd e), rs_latest = max a (p + 1),
          rs_events = ev @ filter (\<lambda>e. Sequence e > a) [e]\<rparr>"
    using Cons.prems(2) e by (auto simp: take_envelope_def data next_seq_less)
  then show ?case
    using Cons.IH [OF es, of "off + length (rec_of cd e)" "ev @ filter (\<lambda>e. Sequence e > a) [e]"] Cons.prems(2)
    by (subst recover_loop.simps) (simp add: data read_record_frame del: filter.simps, simp add: add.assoc)
qed simp

text \<open>The first record of the log may be older than the checkpoint, but must not leave a gap behind it.\<close>

lemma take_envelope_first:
  assumes "Sequence e = k + 1" and "ID e \<noteq> []" and "k \<le> a" and "a + 1 < 2 ^ 64"
  obtains st where
    "take_envelope a n e \<lparr>rs_first = True, rs_previous = 0, rs_offset = 0, rs_latest = a, rs_events = ev\<rparr> = Some st"
    "take_envelope a n e \<lparr>rs_first = False, rs_previous = k, rs_offset = 0, rs_latest = a, rs_events = ev\<rparr> = Some st"
  using assms that by (simp add: take_envelope_def next_seq_less Let_def)

lemma recover_first:
  assumes "faithful cd" and "numbered cd k (e # es)" and "k \<le> a" and "a + 1 < 2 ^ 64"
  shows "recover_loop cd a \<lparr>rs_first = True, rs_previous = 0, rs_offset = 0, rs_latest = a, rs_events = ev\<rparr> (log_of cd (e # es) @ t)
    = recover_loop cd a \<lparr>rs_first = False, rs_previous = k, rs_offset = 0, rs_latest = a, rs_events = ev\<rparr> (log_of cd (e # es) @ t)"
proof -
  have e: "encodable cd e" "Sequence e = k + 1" "ID e \<noteq> []" using assms(2) by (auto simp: numbered_Cons)
  obtain data where data: "rec_of cd e = frame data" "data \<noteq> []" "length data \<le> maxRecordSize" "Unmarshal cd data = Some e"
    using encodable_cases [OF e(1) assms(1)] by metis
  show ?thesis
  proof (rule take_envelope_first [OF e(2,3) assms(3,4), of "length data" ev])
  qed (subst (1 2) recover_loop.simps, simp add: data read_record_frame)
qed

definition unreadable :: "bytes \<Rightarrow> bool" where
  "unreadable t \<longleftrightarrow> t = [] \<or> read_record t = RecShort \<or> read_record t = RecBadLength"

lemma unreadable_cut:
  assumes "faithful cd" and "encodable cd e" and "n < length (rec_of cd e)"
  shows "unreadable (take n (rec_of cd e))"
proof -
  obtain data where data: "rec_of cd e = frame data" "length data \<le> maxRecordSize"
    using encodable_cases [OF assms(2,1)] by metis
  show ?thesis
    using read_record_cut [OF data(2), of "take n (frame data)" n] assms(3) by (auto simp: unreadable_def data(1))
qed

lemma recover_tail:
  "unreadable t \<Longrightarrow> recover_loop cd a st t = (t \<noteq> [], st)"
  by (subst recover_loop.simps) (auto simp: unreadable_def, simp add: read_record_def, auto simp: read_record_def)

lemma recover_whole:
  assumes "faithful cd" and es: "numbered cd k es" and "k \<le> a" and "a \<le> k + length es"
    and "k + length es + 1 < 2 ^ 64" and t: "unreadable t"
  obtains st where
    "recover_loop cd a \<lparr>rs_first = True, rs_previous = 0, rs_offset = 0, rs_latest = a, rs_events = []\<rparr> (log_of cd es @ t)
      = (t \<noteq> [], st)"
    "rs_offset st = length (log_of cd es)" "rs_latest st = k + length es" "rs_events st = filter (\<lambda>e. Sequence e > a) es"
proof (cases es)
  case Nil
  then show ?thesis using assms(3,4) that by (simp add: recover_tail [OF t])
next
  case (Cons e rest)
  have "recover_loop cd a \<lparr>rs_first = True, rs_previous = 0, rs_offset = 0, rs_latest = a, rs_events = []\<rparr> (log_of cd es @ t)
      = recover_loop cd a \<lparr>rs_first = False, rs_previous = k, rs_offset = 0, rs_latest = max a k, rs_events = []\<rparr> (log_of cd es @ t)"
    using recover_first [OF assms(1) es [unfolded Cons] assms(3), of "[]" t] assms(3-5) by (simp add: Cons max_def)
  then show ?thesis
    using that recover_numbered [OF assms(1) es, of a 0 "[]" t] assms(4,5) by (simp add: recover_tail [OF t])
qed

lemma numbered_seq: "numbered cd k es \<Longrightarrow> x \<in> set es \<Longrightarrow> k < Sequence x \<and> Sequence x \<le> k + length es"
  by (induction es arbitrary: k) (force simp: numbered_Cons)+

lemma numbered_filter:
  "numbered cd k es \<Longrightarrow> k \<le> a \<Longrightarrow> filter (\<lambda>e. Sequence e > a) es = drop (a - k) es"
proof (induction es arbitrary: k)
  case (Cons e es)
  show ?case
  proof (cases "k = a")
    case True
    then have "filter (\<lambda>e. Sequence e > a) (e # es) = e # es"
      using numbered_seq [OF Cons.prems(1)] unfolding filter_id_conv by blast
    then show ?thesis using True by simp
  next
    case False
    then have "a - k = Suc (a - (k + 1))" using Cons.prems(2) by simp
    then show ?thesis
      using Cons.IH [of "k + 1"] Cons.prems False by (simp add: numbered_Cons)
  qed
qed simp

section \<open>The invariant\<close>

definition cp_of :: "Disk \<Rightarrow> nat" where
  "cp_of d = (case checkpoint_file d of None \<Rightarrow> 0 | Some n \<Rightarrow> n)"

text \<open>Behind the records there is nothing, or the beginning of the record of an append that failed.\<close>

definition tail_ok :: "Codec \<Rightarrow> Outbox \<Rightarrow> nat \<Rightarrow> bytes \<Rightarrow> bool" where
  "tail_ok cd s len t \<longleftrightarrow> t = [] \<or> (ob_failed s \<noteq> None \<and> (\<exists>e n. numbered cd (ob_latest s) [e]
     \<and> t = take n (rec_of cd e) \<and> len + length (rec_of cd e) \<le> ob_max s))"

definition ob_log :: "Codec \<Rightarrow> nat \<Rightarrow> Envelope list \<Rightarrow> bytes \<Rightarrow> Outbox \<Rightarrow> Disk \<Rightarrow> bool" where
  "ob_log cd k old t s d \<longleftrightarrow> numbered cd k (old @ ob_events s) \<and> k + length old = ob_acked s
     \<and> ob_acked s + length (ob_events s) = ob_latest s
     \<and> log_file d = log_of cd (old @ ob_events s) @ t
     \<and> tail_ok cd s (length (log_of cd (old @ ob_events s))) t
     \<and> length (log_of cd (old @ ob_events s)) \<le> ob_bytes s \<and> ob_bytes s \<le> ob_max s"

definition ob_inv :: "Codec \<Rightarrow> Outbox \<Rightarrow> Disk \<Rightarrow> bool" where
  "ob_inv cd s d \<longleftrightarrow> (\<exists>k old t. ob_log cd k old t s d) \<and> ob_acked s \<le> cp_of d \<and> cp_of d \<le> ob_latest s"

lemma ob_inv_fields:
  assumes "ob_inv cd s d"
  shows "numbered cd (ob_acked s) (ob_events s)" and "ob_acked s + length (ob_events s) = ob_latest s"
    and "ob_bytes s \<le> ob_max s"
  using assms by (auto simp: ob_inv_def ob_log_def numbered_append)

lemma ob_inv_seq: "ob_inv cd s d \<Longrightarrow> x \<in> set (ob_events s) \<Longrightarrow> ob_acked s < Sequence x \<and> Sequence x \<le> ob_latest s"
  using ob_inv_fields [of cd s d] numbered_seq by metis

subsection \<open>Appending\<close>

lemma ob_Append_cases:
  assumes "ob_Append cd ty payload prio uuid t fate s d = (res, s', d')"
  obtains (refused) err where "res = Inl err" "d' = d" "s' = s \<or> (\<exists>n. s' = s\<lparr>ob_dropped := n\<rparr>)"
  | (torn) err e n where "res = Inl err" "ob_failed s = None" "s' = s\<lparr>ob_failed := Some err\<rparr>" "encodable cd e" "ID e = uuid"
      "Sequence e = next_seq (ob_latest s)" "d' = d\<lparr>log_file := log_file d @ take n (rec_of cd e)\<rparr>"
      "ob_bytes s + length (rec_of cd e) \<le> ob_max s"
  | (stored) e where "res = Inr e" "ob_failed s = None" "encodable cd e" "ID e = uuid" "Sequence e = next_seq (ob_latest s)"
      "s' = s\<lparr>ob_events := ob_events s @ [e], ob_latest := Sequence e, ob_bytes := ob_bytes s + length (rec_of cd e)\<rparr>"
      "d' = d\<lparr>log_file := log_file d @ rec_of cd e\<rparr>" "ob_bytes s + length (rec_of cd e) \<le> ob_max s"
proof -
  have lim: "ob_limit prio s \<le> ob_max s" by (simp add: ob_limit_def)
  define e where "e = \<lparr>Version = ProtocolVersion, ID = uuid, Sequence = next_seq (ob_latest s),
                           Type = ty, CreatedAt = t, Payload = the payload\<rparr>"
  show ?thesis
  proof (cases "payload \<noteq> None \<and> \<not> ob_closed s \<and> ob_failed s = None \<and> encodable cd e
      \<and> ob_bytes s + length (rec_of cd e) \<le> ob_limit prio s")
    case True
    then obtain y where y: "payload = Some y" by auto
    have r: "encodeRecord cd e = Inr (rec_of cd e)" using True by (auto simp: encodable_def rec_of_def)
    have eq: "ob_Append cd ty payload prio uuid t fate s d =
       (case fate of
          CutAt n \<Rightarrow> (Inl ''agent outbox append'', s\<lparr>ob_failed := Some ''agent outbox append''\<rparr>,
                                 d\<lparr>log_file := log_file d @ take n (rec_of cd e)\<rparr>)
        | Unflushed \<Rightarrow> (Inl ''agent outbox sync'', s\<lparr>ob_failed := Some ''agent outbox sync''\<rparr>,
                                   d\<lparr>log_file := log_file d @ take (length (rec_of cd e)) (rec_of cd e)\<rparr>)
        | Written \<Rightarrow> (Inr e, s\<lparr>ob_events := ob_events s @ [e], ob_latest := Sequence e,
                          ob_bytes := ob_bytes s + length (rec_of cd e)\<rparr>, d\<lparr>log_file := log_file d @ rec_of cd e\<rparr>))"
      using True r unfolding e_def ob_Append_def y by (auto simp: Let_def split: write_fate.splits)
    have "ob_failed s = None" "encodable cd e" "ID e = uuid" "Sequence e = next_seq (ob_latest s)"
      "ob_bytes s + length (rec_of cd e) \<le> ob_max s"
      using True lim by (auto simp: e_def)
    note facts = this
    show ?thesis
    proof (cases fate)
      case Written
      show ?thesis by (rule that(3) [of e]) (use assms eq facts in \<open>auto simp: Written\<close>)
    next
      case (CutAt n)
      show ?thesis by (rule that(2) [of _ e n]) (use assms eq facts in \<open>auto simp: CutAt\<close>)
    next
      case Unflushed
      show ?thesis by (rule that(2) [of _ e "length (rec_of cd e)"]) (use assms eq facts in \<open>auto simp: Unflushed\<close>)
    qed
  next
    case False
    then show ?thesis
      using assms that(1)
      by (auto simp: ob_Append_def e_def encodable_def rec_of_def split: option.splits sum.splits if_splits)
  qed
qed

lemma ob_inv_Append:
  assumes inv: "ob_inv cd s d" and step: "ob_Append cd ty payload prio uuid t fate s d = (res, s', d')"
    and room: "ob_latest s + 1 < 2 ^ 64" and "uuid \<noteq> []"
  shows "ob_inv cd s' d'"
proof -
  obtain k old tl where log: "ob_log cd k old tl s d" and cp: "ob_acked s \<le> cp_of d" "cp_of d \<le> ob_latest s"
    using inv by (auto simp: ob_inv_def)
  from step show ?thesis
  proof (cases rule: ob_Append_cases)
    case refused
    then have "ob_log cd k old tl s' d'" using log by (auto simp: ob_log_def tail_ok_def)
    then show ?thesis using refused cp by (auto simp: ob_inv_def)
  next
    case (torn err e n)
    have "tl = []" using log torn by (auto simp: ob_log_def tail_ok_def)
    moreover have "numbered cd (ob_latest s) [e]"
      using torn assms(4) next_seq_less [OF room] by (simp add: numbered_Cons)
    ultimately have "ob_log cd k old (take n (rec_of cd e)) s' d'"
      using log torn by (fastforce simp: ob_log_def tail_ok_def)
    then show ?thesis using torn cp by (auto simp: ob_inv_def cp_of_def)
  next
    case (stored e)
    have "tl = []" using log stored by (auto simp: ob_log_def tail_ok_def)
    moreover have "numbered cd (ob_latest s) [e]"
      using stored assms(4) next_seq_less [OF room] by (simp add: numbered_Cons)
    ultimately have "ob_log cd k old [] s' d'"
      using log stored next_seq_less [OF room] numbered_append [of cd k "old @ ob_events s" "[e]"]
      by (auto simp: ob_log_def tail_ok_def add.assoc [symmetric])
    then show ?thesis using stored cp next_seq_less [OF room] by (auto simp: ob_inv_def cp_of_def)
  qed
qed

subsection \<open>Acknowledging\<close>

lemma compact_records_numbered: "numbered cd k es \<Longrightarrow> compact_records cd es = Some (log_of cd es)"
proof (induction es arbitrary: k)
  case (Cons e es)
  then have "encodeRecord cd e = Inr (rec_of cd e)" by (auto simp: numbered_Cons encodable_def rec_of_def)
  then show ?case using Cons by (auto simp: numbered_Cons)
qed simp

lemma index_of_numbered:
  "numbered cd k es \<Longrightarrow> k < n \<Longrightarrow> n \<le> k + length es \<Longrightarrow> index_of n es = Some (n - k - 1)"
proof (induction es arbitrary: k)
  case (Cons e es)
  show ?case
  proof (cases "n = k + 1")
    case False
    then have "index_of n es = Some (n - (k + 1) - 1)"
      using Cons by (intro Cons.IH) (auto simp: numbered_Cons)
    then show ?thesis using Cons.prems False by (auto simp: numbered_Cons)
  qed (use Cons in \<open>auto simp: numbered_Cons\<close>)
qed simp

text \<open>The memory behind an acknowledgement whose checkpoint was written.\<close>

definition acked_to :: "nat \<Rightarrow> Outbox \<Rightarrow> Outbox" where
  "acked_to n s = s\<lparr>ob_acked := n, ob_events := drop (n - ob_acked s) (ob_events s)\<rparr>"

lemma acked_to_bytes: "(acked_to n s)\<lparr>ob_bytes := ob_bytes s\<rparr> = acked_to n s"
  by (cases s) (simp add: acked_to_def)

lemma ob_Ack_cases:
  assumes "ob_inv cd s d" and "ob_Ack cd n cf lf s d = (err, s', d')"
  obtains (nothing) "s' = s" "d' = d"
  | (unsure) "ob_acked s < n" "n \<le> ob_latest s" "err \<noteq> None" "s' = s" "d' = d\<lparr>checkpoint_file := Some n\<rparr>"
  | (acked) "ob_acked s < n" "n \<le> ob_latest s" "err \<noteq> None" "s' = acked_to n s" "d' = d\<lparr>checkpoint_file := Some n\<rparr>"
  | (compacted) b where "ob_acked s < n" "n \<le> ob_latest s" "s' = (acked_to n s)\<lparr>ob_bytes := b\<rparr>"
      "d' = d\<lparr>checkpoint_file := Some n, log_file := log_of cd (ob_events (acked_to n s))\<rparr>"
      "b \<le> ob_bytes s" "length (log_of cd (ob_events (acked_to n s))) \<le> b"
proof (cases "ob_acked s < n \<and> n \<le> ob_latest s")
  case False
  then show ?thesis using assms(2) that(1) by (auto simp: ob_Ack_def split: if_splits)
next
  case True
  obtain k old t where log: "ob_log cd k old t s d" using assms(1) by (auto simp: ob_inv_def)
  have num: "numbered cd (ob_acked s) (ob_events s)" "ob_acked s + length (ob_events s) = ob_latest s"
    using ob_inv_fields [OF assms(1)] by auto
  let ?i = "n - ob_acked s"
  have parts: "numbered cd (ob_acked s) (take ?i (ob_events s) @ drop ?i (ob_events s))" using num(1) by simp
  have enc: "compact_records cd (drop ?i (ob_events s)) = Some (log_of cd (drop ?i (ob_events s)))"
    using parts unfolding numbered_append by (blast intro: compact_records_numbered)
  have idx: "index_of n (ob_events s) = Some (?i - 1)"
    using index_of_numbered [OF num(1)] num(2) True by simp
  have cut: "drop (?i - 1 + 1) (ob_events s) = drop ?i (ob_events s)" using True by (simp add: Suc_diff_Suc)
  have "length (log_of cd (drop ?i (ob_events s))) \<le> length (log_of cd (ob_events s))"
    using log_of_simps(3) [of cd "take ?i (ob_events s)" "drop ?i (ob_events s)"] by (metis append_take_drop_id le_add2 length_append)
  then have size: "length (log_of cd (drop ?i (ob_events s))) \<le> ob_bytes s"
    using log by (auto simp: ob_log_def)
  show ?thesis
  proof (cases cf)
    case Replaced
    have eq: "ob_Ack cd n cf lf s d = compactLocked cd lf (acked_to n s) (d\<lparr>checkpoint_file := Some n\<rparr>)"
      using True idx cut by (simp add: ob_Ack_def Replaced acked_to_def Suc_diff_Suc)
    let ?es = "ob_events (acked_to n s)"
    have recs: "compact_records cd ?es = Some (log_of cd ?es)" and small: "length (log_of cd ?es) \<le> ob_bytes s"
      using enc size by (simp_all add: acked_to_def)
    have res: "compactLocked cd lf (acked_to n s) (d\<lparr>checkpoint_file := Some n\<rparr>) = (err, s', d')"
      using assms(2) unfolding eq .
    show ?thesis
    proof (cases lf)
      case NotReplaced
      show ?thesis by (rule that(3)) (use res True recs in \<open>auto simp: compactLocked_def NotReplaced\<close>)
    next
      case ReplacedUnflushed
      show ?thesis
        by (rule that(4) [of "ob_bytes s"]) (use res True recs small in \<open>auto simp: compactLocked_def ReplacedUnflushed acked_to_bytes\<close>)
    next
      case lf: Replaced
      show ?thesis
        by (rule that(4) [of "length (log_of cd ?es)"]) (use res True recs small in \<open>auto simp: compactLocked_def lf\<close>)
    qed
  next
    case NotReplaced
    show ?thesis by (rule that(1)) (use assms(2) True idx in \<open>auto simp: ob_Ack_def NotReplaced\<close>)
  next
    case ReplacedUnflushed
    show ?thesis by (rule that(2)) (use assms(2) True idx in \<open>auto simp: ob_Ack_def ReplacedUnflushed\<close>)
  qed
qed

lemma numbered_take_drop:
  assumes "numbered cd k es" and "n \<le> length es"
  shows "numbered cd k (take n es)" and "numbered cd (k + n) (drop n es)"
  using numbered_append [of cd k "take n es" "drop n es"] assms by auto

text \<open>Acknowledged events move to the part of the log that is only read over.\<close>

lemma ob_log_acked:
  assumes log: "ob_log cd k old t s d" and n: "ob_acked s < n" "n \<le> ob_latest s"
  shows "ob_log cd k (old @ take (n - ob_acked s) (ob_events s)) t (acked_to n s) (d\<lparr>checkpoint_file := cp\<rparr>)"
proof -
  have "(old @ take (n - ob_acked s) (ob_events s)) @ ob_events (acked_to n s) = old @ ob_events s"
    by (simp add: acked_to_def)
  then show ?thesis
    using log n unfolding ob_log_def by (auto simp: acked_to_def tail_ok_def)
qed

lemma ob_inv_Ack:
  assumes inv: "ob_inv cd s d" and step: "ob_Ack cd n cf lf s d = (err, s', d')"
  shows "ob_inv cd s' d'"
proof -
  obtain k old t where log: "ob_log cd k old t s d" and cp: "ob_acked s \<le> cp_of d" "cp_of d \<le> ob_latest s"
    using inv by (auto simp: ob_inv_def)
  from inv step show ?thesis
  proof (cases rule: ob_Ack_cases)
    case unsure
    then have "ob_log cd k old t s' d'" using log by (simp add: ob_log_def)
    then show ?thesis using unsure by (auto simp: ob_inv_def cp_of_def)
  next
    case acked
    then show ?thesis
      using ob_log_acked [OF log acked(1,2)] by (auto simp: ob_inv_def cp_of_def acked_to_def)
  next
    case (compacted b)
    have "numbered cd n (ob_events (acked_to n s))"
      using numbered_take_drop(2) [OF ob_inv_fields(1) [OF inv], of "n - ob_acked s"] ob_inv_fields(2) [OF inv] compacted(1,2)
      by (simp add: acked_to_def)
    then have "ob_log cd n [] [] s' d'"
      using compacted log ob_inv_fields(2,3) [OF inv] by (auto simp: ob_log_def tail_ok_def acked_to_def)
    then show ?thesis using compacted by (auto simp: ob_inv_def cp_of_def acked_to_def)
  qed (use inv in simp)
qed

subsection \<open>Opening again\<close>

lemma log_readable:
  assumes "faithful cd" and "ob_inv cd s d"
  obtains k es extra t where "numbered cd k es" "log_file d = log_of cd es @ t" "unreadable t"
    "k \<le> ob_acked s" "drop (ob_acked s - k) es = ob_events s @ extra" "k + length es = ob_latest s + length extra"
    "length extra \<le> 1" "extra \<noteq> [] \<Longrightarrow> ob_failed s \<noteq> None" "length (log_of cd es) \<le> ob_max s"
proof -
  obtain k old t where log: "ob_log cd k old t s d" using assms(2) by (auto simp: ob_inv_def)
  let ?es = "old @ ob_events s"
  have es: "numbered cd k ?es" "log_file d = log_of cd ?es @ t" "k \<le> ob_acked s" "ob_acked s - k = length old"
    "k + length ?es = ob_latest s" "length (log_of cd ?es) \<le> ob_max s"
    using log by (auto simp: ob_log_def)
  consider (clean) "t = []" | (failed) e n where "ob_failed s \<noteq> None" "numbered cd (ob_latest s) [e]" "t = take n (rec_of cd e)"
      "length (log_of cd ?es) + length (rec_of cd e) \<le> ob_max s"
    using log by (auto simp: ob_log_def tail_ok_def)
  then show ?thesis
  proof cases
    case clean
    then show ?thesis using es that [of k ?es t "[]"] by (simp add: unreadable_def)
  next
    case (failed e n)
    show ?thesis
    proof (cases "n < length (rec_of cd e)")
      case True
      then have "unreadable t" using unreadable_cut [OF assms(1) _ True] failed(2,3) by (simp add: numbered_Cons)
      then show ?thesis using es that [of k ?es t "[]"] by simp
    next
      case False
      then have "numbered cd k (?es @ [e])" "log_file d = log_of cd (?es @ [e]) @ []"
        using numbered_append [of cd k ?es "[e]"] es failed by auto
      then show ?thesis using es failed that [of k "?es @ [e]" "[]" "[e]"] by (simp add: unreadable_def)
    qed
  qed
qed

lemma ob_Open_recovers:
  assumes cd: "faithful cd" and inv: "ob_inv cd s d" and room: "ob_latest s + 2 < 2 ^ 64"
    and opened: "ob_Open cd (ob_max s) d = Inr (s', d')"
  obtains extra where "ob_inv cd s' d'" "ob_acked s' = cp_of d" "ob_max s' = ob_max s" "ob_failed s' = None"
    "ob_events s' = filter (\<lambda>e. Sequence e > cp_of d) (ob_events s @ extra)" "ob_latest s' = ob_latest s + length extra"
    "length extra \<le> 1" "extra \<noteq> [] \<Longrightarrow> ob_failed s \<noteq> None" "cp_of d' = cp_of d" "ob_bytes s' = length (log_file d')"
proof -
  obtain k es extra t where es: "numbered cd k es" "log_file d = log_of cd es @ t" "unreadable t"
    "k \<le> ob_acked s" "drop (ob_acked s - k) es = ob_events s @ extra" "k + length es = ob_latest s + length extra"
    "length extra \<le> 1" "extra \<noteq> [] \<Longrightarrow> ob_failed s \<noteq> None" "length (log_of cd es) \<le> ob_max s"
    using log_readable [OF cd inv] by metis
  let ?a = "cp_of d"
  have a: "ob_acked s \<le> ?a" "?a \<le> ob_latest s" using inv by (auto simp: ob_inv_def)
  have ka: "k \<le> ?a" "?a \<le> k + length es" "k + length es + 1 < 2 ^ 64" using es a room by auto
  obtain st where st: "recover_loop cd ?a \<lparr>rs_first = True, rs_previous = 0, rs_offset = 0, rs_latest = ?a, rs_events = []\<rparr> (log_file d) = (t \<noteq> [], st)"
    "rs_offset st = length (log_of cd es)" "rs_latest st = k + length es" "rs_events st = filter (\<lambda>e. Sequence e > ?a) es"
    using recover_whole [OF cd es(1) ka es(3)] es(2) by metis
  have s': "ob_acked s' = ?a" "ob_latest s' = k + length es" "ob_events s' = filter (\<lambda>e. Sequence e > ?a) es"
    "ob_bytes s' = length (log_of cd es)" "ob_max s' = ob_max s" "ob_failed s' = None" "log_file d' = log_of cd es"
    "checkpoint_file d' = checkpoint_file d"
    using opened st es(2)
    by (auto simp: ob_Open_def recoverLog_def loadCheckpoint_def cp_of_def Let_def split: option.splits if_splits)
  have drop: "ob_events s' = drop (?a - k) es" using s'(3) numbered_filter [OF es(1) ka(1)] by simp
  then have len: "?a + length (ob_events s') = k + length es" using ka by simp
  have "filter (\<lambda>e. Sequence e > ?a) es = filter (\<lambda>e. Sequence e > ?a) (filter (\<lambda>e. Sequence e > ob_acked s) es)"
    using a(1) by (simp add: filter_filter) (rule filter_cong, auto)
  then have ev: "ob_events s' = filter (\<lambda>e. Sequence e > ?a) (ob_events s @ extra)"
    using s'(3) numbered_filter [OF es(1,4)] es(5) by simp
  have "take (?a - k) es @ ob_events s' = es" by (simp add: drop)
  then have "ob_log cd k (take (?a - k) es) [] s' d'"
    using es(1,9) s'(1,2,4-7) ka len unfolding ob_log_def by (simp add: tail_ok_def del: log_of_simps(3))
  then have "ob_inv cd s' d'"
    using s' ka a es(6) by (auto simp: ob_inv_def cp_of_def)
  then show ?thesis using that [of extra] s' ev es(6-8) by (simp add: cp_of_def)
qed

section \<open>Runs with failures and restarts\<close>

text \<open>A run records, next to the store and the disk, the envelopes whose \<open>Append\<close> succeeded and the
  highest number that the agent has acknowledged.  A restart may happen at any moment.  The counter
  is assumed not to come within two of \<open>2 ^ 64\<close>.\<close>

record OutboxRun =
  run_store :: Outbox
  run_disk :: Disk
  accepted :: "Envelope list"
  confirmed :: nat

definition run_append :: "Codec \<Rightarrow> string \<Rightarrow> bytes option \<Rightarrow> Priority \<Rightarrow> string \<Rightarrow> int \<Rightarrow> write_fate \<Rightarrow> OutboxRun \<Rightarrow> OutboxRun" where
  "run_append cd ty payload prio uuid t fate r =
     (case ob_Append cd ty payload prio uuid t fate (run_store r) (run_disk r) of
        (res, s, d) \<Rightarrow> r\<lparr>run_store := s, run_disk := d,
          accepted := accepted r @ (case res of Inr e \<Rightarrow> [e] | Inl _ \<Rightarrow> [])\<rparr>)"

definition run_ack :: "Codec \<Rightarrow> nat \<Rightarrow> replace_fate \<Rightarrow> replace_fate \<Rightarrow> OutboxRun \<Rightarrow> OutboxRun" where
  "run_ack cd n cf lf r =
     (case ob_Ack cd n cf lf (run_store r) (run_disk r) of
        (err, s, d) \<Rightarrow> r\<lparr>run_store := s, run_disk := d,
          confirmed := (if n \<le> ob_latest (run_store r) then max n (confirmed r) else confirmed r)\<rparr>)"

inductive ob_step :: "Codec \<Rightarrow> OutboxRun \<Rightarrow> OutboxRun \<Rightarrow> bool" for cd where
  append: "uuid \<noteq> [] \<Longrightarrow> ob_latest (run_store r) + 2 < 2 ^ 64
    \<Longrightarrow> ob_step cd r (run_append cd ty payload prio uuid t fate r)"
| ack: "ob_step cd r (run_ack cd n cf lf r)"
| drops: "ob_step cd r (r\<lparr>run_store := RecordDroppedNormal (run_store r)\<rparr>)"
| closes: "ob_step cd r (r\<lparr>run_store := ob_Close (run_store r)\<rparr>)"
| restart: "ob_Open cd (ob_max (run_store r)) (run_disk r) = Inr (s, d) \<Longrightarrow> ob_latest (run_store r) + 2 < 2 ^ 64
    \<Longrightarrow> ob_step cd r (r\<lparr>run_store := s, run_disk := d\<rparr>)"

inductive ob_reach :: "Codec \<Rightarrow> nat \<Rightarrow> OutboxRun \<Rightarrow> bool" for cd maxBytes where
  start: "ob_Open cd maxBytes \<lparr>log_file = [], checkpoint_file = None\<rparr> = Inr (s, d)
    \<Longrightarrow> ob_reach cd maxBytes \<lparr>run_store = s, run_disk = d, accepted = [], confirmed = 0\<rparr>"
| more: "ob_reach cd maxBytes r \<Longrightarrow> ob_step cd r r' \<Longrightarrow> ob_reach cd maxBytes r'"

text \<open>What is accepted and not acknowledged is pending, in order.\<close>

definition durable :: "Codec \<Rightarrow> OutboxRun \<Rightarrow> bool" where
  "durable cd r \<longleftrightarrow> ob_inv cd (run_store r) (run_disk r) \<and> cp_of (run_disk r) \<le> confirmed r
     \<and> confirmed r \<le> ob_latest (run_store r)
     \<and> subseq (filter (\<lambda>e. Sequence e > confirmed r) (accepted r)) (ob_events (run_store r))"

lemma subseq_filter_above:
  fixes n m :: nat
  assumes "subseq (filter (\<lambda>e. Sequence e > m) xs) ys"
  shows "subseq (filter (\<lambda>e. Sequence e > max n m) xs) (filter (\<lambda>e. Sequence e > n) ys)"
proof -
  have "filter (\<lambda>e. Sequence e > n) (filter (\<lambda>e. Sequence e > m) xs) = filter (\<lambda>e. Sequence e > max n m) xs"
    by (auto intro: filter_cong)
  then show ?thesis using subseq_filter [OF assms, of "\<lambda>e. Sequence e > n"] by simp
qed

lemma durable_append:
  assumes "durable cd r" and "uuid \<noteq> []" and room: "ob_latest (run_store r) + 2 < 2 ^ 64"
  shows "durable cd (run_append cd ty payload prio uuid t fate r)"
proof -
  obtain res s d where step: "ob_Append cd ty payload prio uuid t fate (run_store r) (run_disk r) = (res, s, d)"
    by (metis prod_cases3)
  have inv: "ob_inv cd s d"
    using assms by (intro ob_inv_Append [OF _ step]) (auto simp: durable_def)
  from step show ?thesis
  proof (cases rule: ob_Append_cases)
    case (stored e)
    then show ?thesis
      using assms(1) inv step room next_seq_less [of "ob_latest (run_store r)"]
      by (auto simp: durable_def run_append_def cp_of_def)
  qed (use assms(1) inv step in \<open>auto simp: durable_def run_append_def cp_of_def\<close>)
qed

lemma acked_to_events:
  assumes "ob_inv cd s d" and "ob_acked s < n"
  shows "ob_events (acked_to n s) = filter (\<lambda>e. Sequence e > n) (ob_events s)"
  using numbered_filter [OF ob_inv_fields(1) [OF assms(1)], of n] assms(2) by (simp add: acked_to_def)

lemma durable_ack:
  assumes dur: "durable cd r"
  shows "durable cd (run_ack cd n cf lf r)"
proof -
  let ?s = "run_store r"
  obtain err s d where step: "ob_Ack cd n cf lf ?s (run_disk r) = (err, s, d)" by (metis prod_cases3)
  have inv0: "ob_inv cd ?s (run_disk r)" using dur by (simp add: durable_def)
  have inv: "ob_inv cd s d" by (rule ob_inv_Ack [OF inv0 step])
  have kept: "subseq (filter (\<lambda>e. Sequence e > max n (confirmed r)) (accepted r)) (ob_events ?s)"
    using subseq_order.order_trans [OF subseq_filter_above subseq_filter_left] dur by (auto simp: durable_def)
  have sub: "subseq (filter (\<lambda>e. Sequence e > max n (confirmed r)) (accepted r)) (filter (\<lambda>e. Sequence e > n) (ob_events ?s))"
    using dur subseq_filter_above by (auto simp: durable_def)
  from inv0 step show ?thesis
  proof (cases rule: ob_Ack_cases)
    case nothing
    then show ?thesis using dur step kept by (auto simp: durable_def run_ack_def)
  next
    case unsure
    then show ?thesis using dur step kept inv by (auto simp: durable_def run_ack_def cp_of_def)
  next
    case acked
    then show ?thesis
      using dur step sub inv acked_to_events [OF inv0 acked(1)]
      by (auto simp: durable_def run_ack_def cp_of_def, simp_all add: acked_to_def)
  next
    case (compacted b)
    then show ?thesis
      using dur step sub inv acked_to_events [OF inv0 compacted(1)]
      by (auto simp: durable_def run_ack_def cp_of_def, simp_all add: acked_to_def)
  qed
qed

lemma durable_restart:
  assumes dur: "durable cd r" and cd: "faithful cd" and room: "ob_latest (run_store r) + 2 < 2 ^ 64"
    and opened: "ob_Open cd (ob_max (run_store r)) (run_disk r) = Inr (s, d)"
  shows "durable cd (r\<lparr>run_store := s, run_disk := d\<rparr>)"
proof -
  let ?a = "cp_of (run_disk r)"
  have inv0: "ob_inv cd (run_store r) (run_disk r)" and a: "?a \<le> confirmed r" using dur by (auto simp: durable_def)
  obtain extra where extra: "ob_inv cd s d" "ob_events s = filter (\<lambda>e. Sequence e > ?a) (ob_events (run_store r) @ extra)"
    "ob_latest s = ob_latest (run_store r) + length extra" "cp_of d = ?a"
    using ob_Open_recovers [OF cd inv0 room opened] by metis
  have "subseq (filter (\<lambda>e. Sequence e > confirmed r) (accepted r)) (filter (\<lambda>e. Sequence e > ?a) (ob_events (run_store r)))"
    using subseq_filter_above [of "confirmed r" "accepted r" "ob_events (run_store r)" ?a] dur a
    by (simp add: durable_def max_absorb2)
  then show ?thesis
    using dur extra by (auto simp: durable_def intro: list_emb_prefix)
qed

lemma ob_inv_counters:
  "ob_inv cd (s\<lparr>ob_dropped := n\<rparr>) d = ob_inv cd s d" "ob_inv cd (s\<lparr>ob_closed := b\<rparr>) d = ob_inv cd s d"
  by (simp_all add: ob_inv_def ob_log_def tail_ok_def)

lemma durable_reach: "ob_reach cd maxBytes r \<Longrightarrow> faithful cd \<Longrightarrow> durable cd r"
proof (induction rule: ob_reach.induct)
  case (start s d)
  have "recover_loop cd 0 st [] = (False, st)" for st by (subst recover_loop.simps) (simp add: read_record_def)
  then have "ob_log cd 0 [] [] s d" "cp_of d = 0" "ob_acked s = 0"
    using start by (auto simp: ob_Open_def recoverLog_def loadCheckpoint_def Let_def ob_log_def tail_ok_def cp_of_def split: if_splits)
  then show ?case by (auto simp: durable_def ob_inv_def)
next
  case (more r r')
  from more(2) show ?case
  proof cases
    case (restart s d)
    then show ?thesis using durable_restart more by blast
  qed (use more in \<open>auto simp: durable_append durable_ack\<close>, auto simp: durable_def RecordDroppedNormal_def ob_Close_def ob_inv_counters)
qed

section \<open>A concrete run\<close>

text \<open>A small text format for envelopes that differ in their number only, and the run of an outbox that
  stores one event.\<close>

definition demo_envelope :: "nat \<Rightarrow> Envelope" where
  "demo_envelope n = \<lparr>Version = ProtocolVersion, ID = ''x'', Sequence = n, Type = ''t'', CreatedAt = 0, Payload = []\<rparr>"

definition demo_codec :: Codec where
  "demo_codec = \<lparr>Marshal = (\<lambda>e. if e = demo_envelope (Sequence e) then Some (replicate (Sequence e + 1) 0) else None),
     Unmarshal = (\<lambda>data. if data = [] then None else Some (demo_envelope (length data - 1)))\<rparr>"

lemma demo_faithful: "faithful demo_codec"
  by (auto simp: faithful_def demo_codec_def split: if_splits)

definition demo_open :: OutboxRun where
  "demo_open = \<lparr>run_store = \<lparr>ob_max = maxRecordSize, ob_events = [], ob_acked = 0, ob_latest = 0, ob_bytes = 0,
       ob_dropped = 0, ob_closed = False, ob_failed = None\<rparr>,
     run_disk = \<lparr>log_file = [], checkpoint_file = None\<rparr>, accepted = [], confirmed = 0\<rparr>"

definition demo_stored :: OutboxRun where
  "demo_stored = run_append demo_codec ''t'' (Some []) PriorityNormal ''x'' 0 Written demo_open"

lemma demo_open_reach: "ob_reach demo_codec maxRecordSize demo_open"
proof -
  have "recover_loop demo_codec 0 st [] = (False, st)" for st by (subst recover_loop.simps) (simp add: read_record_def)
  then show ?thesis unfolding demo_open_def
    by (intro ob_reach.start) (simp add: ob_Open_def recoverLog_def loadCheckpoint_def Let_def)
qed

lemma demo_stored_reach: "ob_reach demo_codec maxRecordSize demo_stored"
  unfolding demo_stored_def
  by (rule ob_reach.more [OF demo_open_reach], rule ob_step.append) (simp_all add: demo_open_def)

lemma demo_stored_state:
  "accepted demo_stored = [demo_envelope 1]" "ob_events (run_store demo_stored) = [demo_envelope 1]"
  "ob_max (run_store demo_stored) = maxRecordSize" "ob_latest (run_store demo_stored) = 1" "ob_failed (run_store demo_stored) = None"
  "checkpoint_file (run_disk demo_stored) = None" "confirmed demo_stored = 0" "ob_acked (run_store demo_stored) = 0"
  by (simp_all add: demo_stored_def run_append_def demo_open_def ob_Append_def encodeRecord_def demo_codec_def
      next_seq_def demo_envelope_def maxRecordSize_def ob_limit_def headerSize_def Let_def)

section \<open>Properties\<close>

text \<open>C30.  The outbox loses nothing.  In every run with failing writes, failing replacements and
  restarts, the pending events have the consecutive numbers behind the acknowledged one, the log is
  within its limit, and every event whose \<open>Append\<close> succeeded and which was not acknowledged is
  pending.  Opening the store again always succeeds and finds exactly the pending events above the
  checkpoint, and at most one event more, whose append had failed.\<close>

theorem outbox_loses_nothing:
  assumes "ob_reach cd maxBytes r" "faithful cd" "ob_latest (run_store r) + 2 < 2 ^ 64"
    and "maxRecordSize \<le> ob_max (run_store r)"
  shows "map Sequence (ob_events (run_store r)) = [ob_acked (run_store r) + 1..<ob_latest (run_store r) + 1]
    \<and> ob_bytes (run_store r) \<le> ob_max (run_store r)
    \<and> subseq (filter (\<lambda>e. Sequence e > confirmed r) (accepted r)) (ob_events (run_store r))
    \<and> (\<exists>s d extra. ob_Open cd (ob_max (run_store r)) (run_disk r) = Inr (s, d)
         \<and> ob_events s = filter (\<lambda>e. Sequence e > cp_of (run_disk r)) (ob_events (run_store r) @ extra)
         \<and> cp_of (run_disk r) \<le> confirmed r
         \<and> length extra \<le> (if ob_failed (run_store r) = None then 0 else 1))"
proof -
  have dur: "durable cd r" using assms(1,2) by (rule durable_reach)
  then have inv: "ob_inv cd (run_store r) (run_disk r)" by (simp add: durable_def)
  obtain s d where opened: "ob_Open cd (ob_max (run_store r)) (run_disk r) = Inr (s, d)"
    using assms(4) by (cases "ob_Open cd (ob_max (run_store r)) (run_disk r)") (auto simp: ob_Open_def split: if_splits)
  obtain extra where extra: "ob_events s = filter (\<lambda>e. Sequence e > cp_of (run_disk r)) (ob_events (run_store r) @ extra)"
    "length extra \<le> 1" "extra \<noteq> [] \<Longrightarrow> ob_failed (run_store r) \<noteq> None"
    by (rule ob_Open_recovers [OF assms(2) inv assms(3) opened]) blast
  then have "length extra \<le> (if ob_failed (run_store r) = None then 0 else 1)" by (cases extra) auto
  then have "\<exists>s d extra. ob_Open cd (ob_max (run_store r)) (run_disk r) = Inr (s, d)
         \<and> ob_events s = filter (\<lambda>e. Sequence e > cp_of (run_disk r)) (ob_events (run_store r) @ extra)
         \<and> cp_of (run_disk r) \<le> confirmed r
         \<and> length extra \<le> (if ob_failed (run_store r) = None then 0 else 1)"
    using opened extra(1) dur
    by (intro exI [of _ s] exI [of _ d] exI [of _ extra] conjI) (simp_all add: durable_def)
  moreover have "map Sequence (ob_events (run_store r)) = [ob_acked (run_store r) + 1..<ob_latest (run_store r) + 1]"
    using ob_inv_fields(1) [OF inv] unfolding numbered_def by (simp flip: ob_inv_fields(2) [OF inv])
  ultimately show ?thesis
    using dur ob_inv_fields(3) [OF inv] unfolding durable_def by (intro conjI) simp_all
qed

theorem outbox_loses_nothing_witness:
  "\<exists>s d. ob_Open demo_codec maxRecordSize (run_disk demo_stored) = Inr (s, d) \<and> ob_events s = [demo_envelope 1]"
  using outbox_loses_nothing [OF demo_stored_reach demo_faithful]
  by (auto simp: demo_stored_state cp_of_def demo_envelope_def)

end
