(* ===== verification/Agent_Inbox.thy ===== *)
theory Agent_Inbox
  imports Agent_Outbox
begin

text \<open>
  The inbox of the agent process (\<open>agent/inbox/store.go\<close>): the events that were fetched from the
  outbox, durable before they are acknowledged.  The log has the record format of \<open>Agent_Log\<close>; the
  file \<open>.baseline\<close> holds the sequence number from which an empty inbox started.
\<close>

record Inbox =
  ib_max :: nat
  ib_bytes :: nat
  ib_baseline :: nat
  ib_last :: nat
  ib_ids :: "nat \<rightharpoonup> string"
  ib_failed :: "string option"

record InboxDisk =
  ib_file :: bytes
  baseline_file :: "nat option"

section \<open>Operations\<close>

text \<open>The loop of \<open>recover\<close>; the Boolean says whether the tail behind the offset is cut off.\<close>

function ib_recover_loop :: "Codec \<Rightarrow> nat \<Rightarrow> Inbox \<Rightarrow> bytes \<Rightarrow> bool \<times> nat \<times> Inbox" where
  "ib_recover_loop cd offset s bs =
     (case read_record bs of
        RecEOF \<Rightarrow> (False, offset, s)
      | RecData data rest \<Rightarrow>
          (case Unmarshal cd data of
             None \<Rightarrow> (True, offset, s)
           | Some e \<Rightarrow>
               if Sequence e \<noteq> next_seq (ib_last s) \<or> ID e = [] then (True, offset, s)
               else ib_recover_loop cd (offset + headerSize + length data)
                      (s\<lparr>ib_last := Sequence e, ib_ids := (ib_ids s)(Sequence e \<mapsto> ID e)\<rparr>) rest)
      | _ \<Rightarrow> (True, offset, s))"
  by pat_completeness auto
termination
  by (relation "measure (\<lambda>(_, _, _, bs). length bs)") (auto dest: read_record_shorter)

declare ib_recover_loop.simps [simp del]

definition ib_recover :: "Codec \<Rightarrow> Inbox \<Rightarrow> InboxDisk \<Rightarrow> Inbox \<times> InboxDisk" where
  "ib_recover cd s d =
     (case ib_recover_loop cd 0 s (ib_file d) of
        (torn, offset, s) \<Rightarrow> (s\<lparr>ib_bytes := offset\<rparr>, if torn then d\<lparr>ib_file := take offset (ib_file d)\<rparr> else d))"

definition loadBaseline :: "Inbox \<Rightarrow> InboxDisk \<Rightarrow> Inbox" where
  "loadBaseline s d = (case baseline_file d of None \<Rightarrow> s | Some n \<Rightarrow> s\<lparr>ib_last := n, ib_baseline := n\<rparr>)"

definition ib_Open :: "Codec \<Rightarrow> string \<Rightarrow> nat \<Rightarrow> InboxDisk \<Rightarrow> string + (Inbox \<times> InboxDisk)" where
  "ib_Open cd path maxBytes d =
     (if path = [] \<or> maxBytes < maxRecordSize then Inl ''agent inbox requires a path and at least 1 MiB capacity''
      else Inr (ib_recover cd (loadBaseline
             \<lparr>ib_max = maxBytes, ib_bytes = 0, ib_baseline = 0, ib_last = 0, ib_ids = Map.empty, ib_failed = None\<rparr> d) d))"

definition SetBaseline :: "nat \<Rightarrow> replace_fate \<Rightarrow> Inbox \<Rightarrow> InboxDisk \<Rightarrow> string option \<times> Inbox \<times> InboxDisk" where
  "SetBaseline n fate s d =
     (if n \<le> ib_last s then (None, s, d)
      else if dom (ib_ids s) \<noteq> {} \<or> ib_bytes s \<noteq> 0 then (Some ''cannot advance non-empty Agent inbox'', s, d)
      else case fate of
          NotReplaced \<Rightarrow> (Some ''baseline'', s, d)
        | ReplacedUnflushed \<Rightarrow> (Some ''baseline'', s, d\<lparr>baseline_file := Some n\<rparr>)
        | Replaced \<Rightarrow> (None, s\<lparr>ib_last := n, ib_baseline := n\<rparr>, d\<lparr>baseline_file := Some n\<rparr>))"

text \<open>The loop of \<open>ReadAfter\<close> until \<open>limit\<close> events are collected.\<close>

function read_loop :: "Codec \<Rightarrow> nat \<Rightarrow> nat \<Rightarrow> Envelope list \<Rightarrow> bytes \<Rightarrow> string + Envelope list" where
  "read_loop cd n limit out bs =
     (if length out < limit then
        (case read_record bs of
           RecEOF \<Rightarrow> Inr out
         | RecShort \<Rightarrow> Inl ''unexpected EOF''
         | RecBadLength \<Rightarrow> Inl ''Agent inbox contains an invalid record length''
         | RecBadSum \<Rightarrow> Inl ''Agent inbox record checksum mismatch''
         | RecData data rest \<Rightarrow>
             (case Unmarshal cd data of
                None \<Rightarrow> Inl ''json''
              | Some e \<Rightarrow> read_loop cd n limit (if Sequence e > n then out @ [e] else out) rest))
      else Inr out)"
  by pat_completeness auto
termination
  by (relation "measure (\<lambda>(_, _, _, _, bs). length bs)") (auto dest: read_record_shorter)

declare read_loop.simps [simp del]

definition ReadAfter :: "Codec \<Rightarrow> nat \<Rightarrow> int \<Rightarrow> Inbox \<Rightarrow> InboxDisk \<Rightarrow> string + Envelope list" where
  "ReadAfter cd n limit s d =
     (if n < ib_baseline s \<or> n > ib_last s then Inl ''Agent inbox cursor outside''
      else if limit < 1 then Inl ''Agent inbox read limit must be positive''
      else read_loop cd n (nat limit) [] (ib_file d))"

text \<open>One round of the loop of \<open>Accept\<close>: an error stops it.\<close>

definition accept_event :: "Codec \<Rightarrow> write_fate \<Rightarrow> Envelope \<Rightarrow> Inbox \<Rightarrow> InboxDisk \<Rightarrow> string option \<times> Inbox \<times> InboxDisk" where
  "accept_event cd fate e s d =
     (if Sequence e \<le> ib_last s then
        (if (case ib_ids s (Sequence e) of None \<Rightarrow> [] | Some i \<Rightarrow> i) \<noteq> ID e
         then (Some ''agent inbox event identity changed'', s, d) else (None, s, d))
      else if Sequence e \<noteq> next_seq (ib_last s) then (Some ''agent inbox sequence gap'', s, d)
      else case encodeRecord cd e of
          Inl err \<Rightarrow> (Some err, s, d)
        | Inr bs \<Rightarrow>
            if ib_bytes s + length bs > ib_max s then (Some ''agent inbox is full'', s, d)
            else case fate of
                CutAt n \<Rightarrow> (Some ''agent inbox append'', s\<lparr>ib_failed := Some ''agent inbox append''\<rparr>,
                            d\<lparr>ib_file := ib_file d @ take n bs\<rparr>)
              | Unflushed \<Rightarrow> (Some ''agent inbox sync'', s\<lparr>ib_failed := Some ''agent inbox sync''\<rparr>,
                              d\<lparr>ib_file := ib_file d @ bs\<rparr>)
              | Written \<Rightarrow> (None, s\<lparr>ib_bytes := ib_bytes s + length bs, ib_last := Sequence e,
                                 ib_ids := (ib_ids s)(Sequence e \<mapsto> ID e)\<rparr>,
                            d\<lparr>ib_file := ib_file d @ bs\<rparr>))"

text \<open>The fates of the writes are consumed one per event; behind the list writes succeed.\<close>

fun accept_loop :: "Codec \<Rightarrow> write_fate list \<Rightarrow> Envelope list \<Rightarrow> Inbox \<Rightarrow> InboxDisk \<Rightarrow> string option \<times> Inbox \<times> InboxDisk" where
  "accept_loop cd fates [] s d = (None, s, d)"
| "accept_loop cd fates (e # es) s d =
     (case accept_event cd (case fates of [] \<Rightarrow> Written | f # _ \<Rightarrow> f) e s d of
        (None, s, d) \<Rightarrow> accept_loop cd (tl fates) es s d
      | (Some err, s, d) \<Rightarrow> (Some err, s, d))"

definition ib_Accept :: "Codec \<Rightarrow> write_fate list \<Rightarrow> Envelope list \<Rightarrow> Inbox \<Rightarrow> InboxDisk \<Rightarrow> string option \<times> Inbox \<times> InboxDisk" where
  "ib_Accept cd fates es s d =
     (case ib_failed s of Some err \<Rightarrow> (Some err, s, d) | None \<Rightarrow> accept_loop cd fates es s d)"

section \<open>The contents of an inbox\<close>

definition base_of :: "InboxDisk \<Rightarrow> nat" where
  "base_of d = (case baseline_file d of None \<Rightarrow> 0 | Some n \<Rightarrow> n)"

definition ids_of :: "Envelope list \<Rightarrow> nat \<rightharpoonup> string" where
  "ids_of es = map_of (map (\<lambda>e. (Sequence e, ID e)) es)"

text \<open>\<open>es\<close> is what the inbox holds, \<open>extra\<close> a record whose flush failed.\<close>

definition holds_events :: "Codec \<Rightarrow> Envelope list \<Rightarrow> Envelope list \<Rightarrow> Inbox \<Rightarrow> InboxDisk \<Rightarrow> bool" where
  "holds_events cd es extra s d \<longleftrightarrow> numbered cd (ib_baseline s) (es @ extra) \<and> ib_last s = ib_baseline s + length es
     \<and> (\<exists>t. ib_file d = log_of cd (es @ extra) @ t \<and> unreadable t \<and> (t \<noteq> [] \<or> extra \<noteq> [] \<longrightarrow> ib_failed s \<noteq> None))
     \<and> ib_ids s = ids_of es \<and> ib_baseline s = base_of d \<and> length extra \<le> 1
     \<and> ib_bytes s = length (log_of cd es) \<and> length (log_of cd (es @ extra)) \<le> ib_max s"

lemma ids_of_new:
  assumes "numbered cd k es" and "Sequence e = k + length es + 1"
  shows "(ids_of es)(Sequence e \<mapsto> ID e) = ids_of (es @ [e])"
proof -
  have "Sequence e \<notin> Sequence ` set es" using numbered_seq [OF assms(1)] assms(2) by force
  then have "ids_of es (Sequence e) = None" by (simp add: ids_of_def map_of_eq_None_iff image_image)
  then show ?thesis by (auto simp: ids_of_def map_add_def fun_eq_iff split: option.splits)
qed

lemma ib_recover_numbered:
  assumes "faithful cd" and "numbered cd (ib_last s) es" and "ib_last s + length es < 2 ^ 64"
    and "ib_ids s = ids_of old" and "numbered cd k old" and "ib_last s = k + length old"
  shows "ib_recover_loop cd off s (log_of cd es @ t)
    = ib_recover_loop cd (off + length (log_of cd es)) (s\<lparr>ib_last := ib_last s + length es, ib_ids := ids_of (old @ es)\<rparr>) t"
  using assms(2-)
proof (induction es arbitrary: s off old)
  case Nil
  have "s\<lparr>ib_last := ib_last s, ib_ids := ids_of old\<rparr> = s" using Nil(3) by (cases s) simp
  then show ?case by simp
next
  case (Cons e es)
  have e: "encodable cd e" "Sequence e = ib_last s + 1" "ID e \<noteq> []" and es: "numbered cd (ib_last s + 1) es"
    using Cons.prems(1) by (auto simp: numbered_Cons)
  obtain data where data: "rec_of cd e = frame data" "data \<noteq> []" "length data \<le> maxRecordSize" "Unmarshal cd data = Some e"
    using encodable_cases [OF e(1) assms(1)] by metis
  let ?s = "s\<lparr>ib_last := Sequence e, ib_ids := ids_of (old @ [e])\<rparr>"
  have ids: "(ib_ids s)(Sequence e \<mapsto> ID e) = ids_of (old @ [e])"
    using ids_of_new [OF Cons.prems(4), of e] Cons.prems(3,5) e by simp
  have "ib_recover_loop cd off s (log_of cd (e # es) @ t)
      = ib_recover_loop cd (off + length (rec_of cd e)) ?s (log_of cd es @ t)"
    using Cons.prems(2) e ids
    by (subst ib_recover_loop.simps) (simp add: data read_record_frame next_seq_less add.assoc)
  also have "\<dots> = ib_recover_loop cd (off + length (rec_of cd e) + length (log_of cd es))
      (?s\<lparr>ib_last := ib_last ?s + length es, ib_ids := ids_of ((old @ [e]) @ es)\<rparr>) t"
    using Cons.prems es e numbered_append [of cd k old "[e]"]
    by (intro Cons.IH) (auto simp: numbered_Cons)
  finally show ?case by (simp add: e add.assoc)
qed

lemma ib_recover_tail: "unreadable t \<Longrightarrow> ib_recover_loop cd off s t = (t \<noteq> [], off, s)"
  by (subst ib_recover_loop.simps) (auto simp: unreadable_def, simp add: read_record_def, auto simp: read_record_def)

lemma read_loop_numbered:
  assumes "faithful cd" and "\<forall>e \<in> set es. encodable cd e"
  shows "length out + length (filter (\<lambda>e. Sequence e > n) es) \<ge> limit \<or> t = []
    \<Longrightarrow> read_loop cd n limit out (log_of cd es @ t) = Inr (out @ take (limit - length out) (filter (\<lambda>e. Sequence e > n) es))"
  using assms(2)
proof (induction es arbitrary: out)
  case Nil
  then show ?case by (subst read_loop.simps) (auto simp: read_record_def)
next
  case (Cons e es)
  obtain data where data: "rec_of cd e = frame data" "data \<noteq> []" "length data \<le> maxRecordSize" "Unmarshal cd data = Some e"
    using encodable_cases [of cd e] assms(1) Cons.prems(2) by (metis list.set_intros(1))
  show ?case
  proof (cases "length out < limit")
    case True
    then have "read_loop cd n limit out (log_of cd (e # es) @ t)
        = read_loop cd n limit (if Sequence e > n then out @ [e] else out) (log_of cd es @ t)"
      by (subst read_loop.simps) (simp add: data read_record_frame)
    also have "\<dots> = Inr ((if Sequence e > n then out @ [e] else out)
        @ take (limit - length (if Sequence e > n then out @ [e] else out)) (filter (\<lambda>e. Sequence e > n) es))"
      using Cons.prems by (intro Cons.IH) auto
    also have "\<dots> = Inr (out @ take (limit - length out) (filter (\<lambda>e. Sequence e > n) (e # es)))"
      using True by (auto simp: take_Cons' Suc_diff_Suc)
    finally show ?thesis .
  qed (subst read_loop.simps, simp)
qed

section \<open>What the operations do to the contents\<close>

lemma holds_clean: "holds_events cd es extra s d \<Longrightarrow> ib_failed s = None \<Longrightarrow> extra = [] \<and> ib_file d = log_of cd es"
  by (auto simp: holds_events_def)

lemma accept_event_cases:
  assumes "accept_event cd fate e s d = (err, s', d')"
  obtains (known) "err = None" "Sequence e \<le> ib_last s" "s' = s" "d' = d"
      "(case ib_ids s (Sequence e) of None \<Rightarrow> [] | Some i \<Rightarrow> i) = ID e"
  | (refused) "err \<noteq> None" "s' = s" "d' = d"
  | (torn) n m where "err = Some m" "Sequence e = next_seq (ib_last s)" "encodable cd e" "s' = s\<lparr>ib_failed := Some m\<rparr>"
      "d' = d\<lparr>ib_file := ib_file d @ take n (rec_of cd e)\<rparr>" "ib_bytes s + length (rec_of cd e) \<le> ib_max s"
  | (stored) "err = None" "Sequence e = next_seq (ib_last s)" "encodable cd e" "ib_bytes s + length (rec_of cd e) \<le> ib_max s"
      "s' = s\<lparr>ib_bytes := ib_bytes s + length (rec_of cd e), ib_last := Sequence e,
                                 ib_ids := (ib_ids s)(Sequence e \<mapsto> ID e)\<rparr>"
      "d' = d\<lparr>ib_file := ib_file d @ rec_of cd e\<rparr>"
proof (cases "Sequence e = next_seq (ib_last s) \<and> \<not> Sequence e \<le> ib_last s \<and> encodable cd e
    \<and> ib_bytes s + length (rec_of cd e) \<le> ib_max s")
  case True
  have r: "encodeRecord cd e = Inr (rec_of cd e)" using True by (auto simp: encodable_def rec_of_def)
  show ?thesis
  proof (cases fate)
    case Written
    show ?thesis by (rule that(4)) (use assms True r in \<open>auto simp: accept_event_def Written\<close>)
  next
    case (CutAt n)
    show ?thesis by (rule that(3) [of _ n]) (use assms True r in \<open>auto simp: accept_event_def CutAt\<close>)
  next
    case Unflushed
    show ?thesis
      by (rule that(3) [of _ "length (rec_of cd e)"]) (use assms True r in \<open>auto simp: accept_event_def Unflushed\<close>)
  qed
next
  case False
  show ?thesis
  proof (cases "err = None")
    case True
    show ?thesis
      by (rule that(1)) (use assms False True in \<open>auto simp: accept_event_def encodable_def rec_of_def split: if_splits sum.splits\<close>)
  next
    case err: False
    show ?thesis
      by (rule that(2)) (use assms False err in \<open>auto simp: accept_event_def encodable_def rec_of_def split: if_splits sum.splits\<close>)
  qed
qed

lemma accept_event_holds:
  assumes cd: "faithful cd" and h: "holds_events cd es [] s d" and ok: "ib_failed s = None"
    and room: "ib_last s + 1 < 2 ^ 64" and e: "ID e \<noteq> []" and step: "accept_event cd fate e s d = (err, s', d')"
  shows "err = None \<Longrightarrow> ib_failed s' = None \<and> (holds_events cd (es @ [e]) [] s' d' \<and> Sequence e = ib_last s + 1
      \<or> s' = s \<and> d' = d \<and> Sequence e \<le> ib_last s \<and> (case ids_of es (Sequence e) of None \<Rightarrow> [] | Some i \<Rightarrow> i) = ID e)"
    and "err \<noteq> None \<Longrightarrow> \<exists>extra. set extra \<subseteq> {e} \<and> holds_events cd es extra s' d'"
proof -
  have disk: "ib_file d = log_of cd es" and num: "numbered cd (ib_baseline s) es" "ib_last s = ib_baseline s + length es"
    using h holds_clean [OF h ok] by (auto simp: holds_events_def)
  have more: "numbered cd (ib_baseline s) (es @ [e])" if "Sequence e = next_seq (ib_last s)" "encodable cd e"
    using that e num next_seq_less [OF room] by (simp add: numbered_append numbered_Cons)
  show "ib_failed s' = None \<and> (holds_events cd (es @ [e]) [] s' d' \<and> Sequence e = ib_last s + 1
      \<or> s' = s \<and> d' = d \<and> Sequence e \<le> ib_last s \<and> (case ids_of es (Sequence e) of None \<Rightarrow> [] | Some i \<Rightarrow> i) = ID e)"
    if none: "err = None"
    using step
  proof (cases rule: accept_event_cases)
    case stored
    have "(ids_of es)(Sequence e \<mapsto> ID e) = ids_of (es @ [e])"
      using ids_of_new [OF num(1)] stored(2) num(2) next_seq_less [OF room] by simp
    then have "holds_events cd (es @ [e]) [] s' d'"
      using h ok disk stored more next_seq_less [OF room] num
      by (auto simp: holds_events_def unreadable_def base_of_def)
    then show ?thesis using stored ok next_seq_less [OF room] by simp
  qed (use ok h none in \<open>auto simp: holds_events_def\<close>)
  show "\<exists>extra. set extra \<subseteq> {e} \<and> holds_events cd es extra s' d'" if some: "err \<noteq> None"
    using step
  proof (cases rule: accept_event_cases)
    case refused
    then show ?thesis using h by (intro exI [of _ "[]"]) auto
  next
    case (torn n m)
    show ?thesis
    proof (cases "n < length (rec_of cd e)")
      case True
      have "holds_events cd es [] s' d'"
        using h disk torn unreadable_cut [OF cd torn(3) True] by (auto simp: holds_events_def base_of_def)
      then show ?thesis by (intro exI [of _ "[]"]) simp
    next
      case False
      then have "holds_events cd es [e] s' d'"
        using h disk torn more by (auto simp: holds_events_def base_of_def unreadable_def)
      then show ?thesis by (intro exI [of _ "[e]"]) simp
    qed
  qed (use some in auto)
qed

lemma ids_of_known:
  assumes num: "numbered cd k es" and i: "(case ids_of es n of None \<Rightarrow> [] | Some i \<Rightarrow> i) = i" "i \<noteq> []"
  shows "\<exists>e \<in> set es. Sequence e = n \<and> ID e = i"
proof -
  obtain v where "ids_of es n = Some v" "v = i" using i by (cases "ids_of es n") auto
  then have "(n, i) \<in> set (map (\<lambda>e. (Sequence e, ID e)) es)" unfolding ids_of_def by (metis map_of_SomeD)
  then show ?thesis by auto
qed

text \<open>A batch that is accepted extends the contents by the events that are new; each old event of it
  is known under its identifier.  A batch that is refused has extended them by a beginning.\<close>

lemma accept_loop_holds:
  assumes cd: "faithful cd"
  shows "holds_events cd es [] s d \<Longrightarrow> ib_failed s = None \<Longrightarrow> \<forall>e \<in> set batch. ID e \<noteq> [] \<Longrightarrow> ib_last s + length batch < 2 ^ 64
    \<Longrightarrow> accept_loop cd fates batch s d = (err, s', d')
    \<Longrightarrow> \<exists>new extra. holds_events cd (es @ new) extra s' d' \<and> set new \<subseteq> set batch \<and> set extra \<subseteq> set batch
      \<and> (err = None \<longrightarrow> ib_failed s' = None \<and> (\<forall>e \<in> set batch. \<exists>e' \<in> set (es @ new). Sequence e' = Sequence e \<and> ID e' = ID e))"
proof (induction batch arbitrary: fates es s d)
  case Nil
  then show ?case by (intro exI [of _ "[]"]) auto
next
  case (Cons e batch)
  obtain er s1 d1 where one: "accept_event cd (case fates of [] \<Rightarrow> Written | f # _ \<Rightarrow> f) e s d = (er, s1, d1)"
    by (metis prod_cases3)
  have room: "ib_last s + 1 < 2 ^ 64" "ID e \<noteq> []" using Cons.prems by auto
  note holds = accept_event_holds [OF cd Cons.prems(1,2) room one]
  have num: "numbered cd (ib_baseline s) es" using Cons.prems(1) unfolding holds_events_def append_Nil2 by blast
  show ?case
  proof (cases er)
    case (Some m)
    then obtain extra where "set extra \<subseteq> {e}" "holds_events cd es extra s1 d1" using holds(2) by auto
    then show ?thesis using Cons.prems(5) one Some by (intro exI [of _ "[]"] exI [of _ extra]) auto
  next
    case None
    have rest: "accept_loop cd (tl fates) batch s1 d1 = (err, s', d')" using Cons.prems(5) one None by simp
    from holds(1) [OF None] consider
        (fresh) "ib_failed s1 = None" "holds_events cd (es @ [e]) [] s1 d1" "Sequence e = ib_last s + 1"
      | (known) "s1 = s" "d1 = d" "(case ids_of es (Sequence e) of None \<Rightarrow> [] | Some i \<Rightarrow> i) = ID e" by auto
    then show ?thesis
    proof cases
      case fresh
      have len: "ib_last s1 + length batch < 2 ^ 64"
        using fresh(2) Cons.prems(1,4) one None by (auto simp: holds_events_def elim!: accept_event_cases)
      obtain new extra where "holds_events cd ((es @ [e]) @ new) extra s' d'" "set new \<subseteq> set batch" "set extra \<subseteq> set batch"
        "err = None \<longrightarrow> ib_failed s' = None \<and> (\<forall>x \<in> set batch. \<exists>e' \<in> set ((es @ [e]) @ new). Sequence e' = Sequence x \<and> ID e' = ID x)"
        using Cons.IH [OF fresh(2,1) _ len rest] Cons.prems(3) by auto
      then show ?thesis by (intro exI [of _ "e # new"] exI [of _ extra]) auto
    next
      case known
      obtain new extra where "holds_events cd (es @ new) extra s' d'" "set new \<subseteq> set batch" "set extra \<subseteq> set batch"
        "err = None \<longrightarrow> ib_failed s' = None \<and> (\<forall>x \<in> set batch. \<exists>e' \<in> set (es @ new). Sequence e' = Sequence x \<and> ID e' = ID x)"
        using Cons.IH [OF Cons.prems(1,2) _ _ rest [unfolded known]] Cons.prems(3,4) by auto
      moreover have "\<exists>e' \<in> set es. Sequence e' = Sequence e \<and> ID e' = ID e"
        by (rule ids_of_known [OF num known(3) room(2)])
      ultimately show ?thesis by (intro exI [of _ new] exI [of _ extra]) auto
    qed
  qed
qed

lemma ib_Accept_holds:
  assumes "faithful cd" and "holds_events cd es extra s d" and "\<forall>e \<in> set batch. ID e \<noteq> []"
    and "ib_last s + length batch < 2 ^ 64" and "ib_Accept cd fates batch s d = (err, s', d')"
  obtains new extra' where "holds_events cd (es @ new) extra' s' d'" "set new \<subseteq> set batch" "set extra' \<subseteq> set extra \<union> set batch"
    "err = None \<Longrightarrow> \<forall>e \<in> set batch. \<exists>e' \<in> set (es @ new). Sequence e' = Sequence e \<and> ID e' = ID e"
proof (cases "ib_failed s")
  case None
  then have "holds_events cd es [] s d" using assms(2) holds_clean by metis
  from accept_loop_holds [OF assms(1) this None assms(3,4)] show ?thesis
    using assms(5) None that unfolding ib_Accept_def by fastforce
next
  case (Some m)
  show ?thesis by (rule that [of "[]" extra]) (use assms(2,5) Some in \<open>auto simp: ib_Accept_def\<close>)
qed

text \<open>Opening an inbox again finds its contents, and the record whose flush had failed.\<close>

lemma ib_Open_holds:
  assumes "faithful cd" and "holds_events cd es extra s d" and "ib_last s + 2 < 2 ^ 64"
    and "ib_Open cd path (ib_max s) d = Inr (s', d')"
  shows "holds_events cd (es @ extra) [] s' d'" and "ib_failed s' = None" and "ib_max s' = ib_max s"
proof -
  obtain t where t: "ib_file d = log_of cd (es @ extra) @ t" "unreadable t" using assms(2) by (auto simp: holds_events_def)
  define s0 where "s0 = loadBaseline
     \<lparr>ib_max = ib_max s, ib_bytes = 0, ib_baseline = 0, ib_last = 0, ib_ids = Map.empty, ib_failed = None\<rparr> d"
  have s0: "ib_last s0 = base_of d" "ib_baseline s0 = base_of d" "ib_ids s0 = ids_of []" "ib_max s0 = ib_max s" "ib_failed s0 = None"
    by (auto simp: s0_def loadBaseline_def base_of_def ids_of_def split: option.splits)
  have num: "numbered cd (ib_last s0) (es @ extra)" "ib_last s0 + length (es @ extra) < 2 ^ 64"
    using assms(2,3) s0 unfolding holds_events_def by auto
  have "ib_recover_loop cd 0 s0 (ib_file d) = (t \<noteq> [], length (log_of cd (es @ extra)),
      s0\<lparr>ib_last := base_of d + length (es @ extra), ib_ids := ids_of (es @ extra)\<rparr>)"
    using ib_recover_numbered [OF assms(1) num s0(3), of "base_of d" 0 t] s0(1)
    by (simp add: t ib_recover_tail [OF t(2)])
  then have res: "s' = s0\<lparr>ib_last := base_of d + length (es @ extra), ib_ids := ids_of (es @ extra),
      ib_bytes := length (log_of cd (es @ extra))\<rparr>" "ib_file d' = log_of cd (es @ extra)" "baseline_file d' = baseline_file d"
    using assms(4) t by (auto simp: ib_Open_def ib_recover_def s0_def [symmetric] split: if_splits)
  have "base_of d' = base_of d" using res(3) by (simp add: base_of_def)
  then show "holds_events cd (es @ extra) [] s' d'"
    using res s0 num assms(2) unfolding holds_events_def by (auto simp: unreadable_def)
  show "ib_failed s' = None" "ib_max s' = ib_max s" using res(1) s0 by auto
qed

lemma ReadAfter_holds:
  assumes cd: "faithful cd" and h: "holds_events cd es extra s d" and ok: "ib_failed s = None"
    and n: "ib_baseline s \<le> n" "n \<le> ib_last s" and limit: "1 \<le> limit"
  shows "ReadAfter cd n limit s d = Inr (take (nat limit) (drop (n - ib_baseline s) es))"
proof -
  have disk: "ib_file d = log_of cd es @ []" and num: "numbered cd (ib_baseline s) es"
    using h holds_clean [OF h ok] unfolding holds_events_def by auto
  then have "\<forall>e \<in> set es. encodable cd e" by (auto simp: numbered_def)
  then show ?thesis
    using read_loop_numbered [OF cd, where es = es and out = "[]" and n = n and limit = "nat limit" and t = "[]"] n limit disk numbered_filter [OF num n(1)]
    by (simp add: ReadAfter_def)
qed

lemma SetBaseline_holds:
  assumes "holds_events cd es [] s d" and "ib_failed s = None" and "fate \<noteq> ReplacedUnflushed" and "n < 2 ^ 64"
    and "SetBaseline n fate s d = (err, s', d')"
  shows "holds_events cd es [] s' d'"
proof (cases "es = []")
  case True
  then show ?thesis
    using assms by (cases fate) (auto simp: SetBaseline_def holds_events_def base_of_def ids_of_def split: if_splits)
next
  case False
  then have "dom (ib_ids s) \<noteq> {}" using assms(1) by (auto simp: holds_events_def ids_of_def dom_map_of_conv_image_fst)
  then show ?thesis using assms by (auto simp: SetBaseline_def split: if_splits)
qed

end
