(* ===== verification/Agent_Delivery.thy ===== *)
theory Agent_Delivery
  imports Agent_Inbox
begin

text \<open>
  Outbox and inbox together: the loop \<open>poll\<close> of \<open>cmd/agent/main.go\<close> fetches the pending events of the
  server (\<open>Events\<close> with the number that it believes acknowledged and a limit of 100), makes them
  durable with \<open>Accept\<close> and acknowledges only what the inbox holds.  Either side may fail in a write
  or be opened again at any moment, also between the fetch and the acknowledgement.  \<open>SetBaseline\<close> is
  called only for an inbox that is behind the acknowledged number, which here never happens.
\<close>

record Delivery =
  srv :: OutboxRun
  inbox :: Inbox
  inbox_disk :: InboxDisk

definition poll_fetch :: "Codec \<Rightarrow> nat \<Rightarrow> write_fate list \<Rightarrow> Delivery \<Rightarrow> Delivery" where
  "poll_fetch cd acked fates st =
     (case ob_Events acked 100 (run_store (srv st)) of
        Inl err \<Rightarrow> st
      | Inr events \<Rightarrow>
          if length events > 0 then
            (case ib_Accept cd fates events (inbox st) (inbox_disk st) of
               (err, s, d) \<Rightarrow> st\<lparr>inbox := s, inbox_disk := d\<rparr>)
          else st)"

text \<open>The acknowledgement that follows when the inbox persisted through \<open>n\<close>.\<close>

definition poll_ack :: "Codec \<Rightarrow> nat \<Rightarrow> replace_fate \<Rightarrow> replace_fate \<Rightarrow> Delivery \<Rightarrow> Delivery" where
  "poll_ack cd n cf lf st = (if ib_last (inbox st) < n then st else st\<lparr>srv := run_ack cd n cf lf (srv st)\<rparr>)"

inductive delivery_step :: "Codec \<Rightarrow> Delivery \<Rightarrow> Delivery \<Rightarrow> bool" for cd where
  server: "ob_step cd (srv st) r \<Longrightarrow> confirmed r = confirmed (srv st) \<Longrightarrow> delivery_step cd st (st\<lparr>srv := r\<rparr>)"
| fetch: "ib_last (inbox st) + 102 < 2 ^ 64 \<Longrightarrow> delivery_step cd st (poll_fetch cd acked fates st)"
| ack: "delivery_step cd st (poll_ack cd n cf lf st)"
| reopen: "ib_Open cd path (ib_max (inbox st)) (inbox_disk st) = Inr (s, d) \<Longrightarrow> ib_last (inbox st) + 2 < 2 ^ 64
    \<Longrightarrow> delivery_step cd st (st\<lparr>inbox := s, inbox_disk := d\<rparr>)"

inductive delivery_reach :: "Codec \<Rightarrow> nat \<Rightarrow> nat \<Rightarrow> Delivery \<Rightarrow> bool" for cd obMax ibMax where
  start: "ob_reach cd obMax r \<Longrightarrow> confirmed r = 0
    \<Longrightarrow> ib_Open cd path ibMax \<lparr>ib_file = [], baseline_file = None\<rparr> = Inr (s, d)
    \<Longrightarrow> delivery_reach cd obMax ibMax \<lparr>srv = r, inbox = s, inbox_disk = d\<rparr>"
| more: "delivery_reach cd obMax ibMax st \<Longrightarrow> delivery_step cd st st' \<Longrightarrow> delivery_reach cd obMax ibMax st'"

section \<open>What a step of the outbox keeps\<close>

lemma ob_step_durable: "ob_step cd r r' \<Longrightarrow> durable cd r \<Longrightarrow> faithful cd \<Longrightarrow> durable cd r'"
proof (induction rule: ob_step.induct)
  case (restart r s d)
  then show ?case using durable_restart by blast
qed (auto simp: durable_append durable_ack, auto simp: durable_def RecordDroppedNormal_def ob_Close_def ob_inv_counters)

lemma run_ack_keeps:
  assumes "ob_inv cd (run_store r) (run_disk r)" and "e \<in> set (ob_events (run_store r))" and "n < Sequence e"
  shows "e \<in> set (ob_events (run_store (run_ack cd n cf lf r)))"
proof -
  obtain err s d where step: "ob_Ack cd n cf lf (run_store r) (run_disk r) = (err, s, d)" by (metis prod_cases3)
  from assms(1) step show ?thesis
  proof (cases rule: ob_Ack_cases)
    case acked
    then show ?thesis using assms acked_to_events [OF assms(1)] step by (simp add: run_ack_def)
  next
    case (compacted b)
    then show ?thesis using assms acked_to_events [OF assms(1)] step by (simp add: run_ack_def)
  qed (use assms step in \<open>auto simp: run_ack_def\<close>)
qed

lemma ob_step_keeps:
  assumes "ob_step cd r r'" and dur: "durable cd r" and cd: "faithful cd" and same: "confirmed r' = confirmed r"
    and e: "e \<in> set (ob_events (run_store r))" "confirmed r < Sequence e"
  shows "e \<in> set (ob_events (run_store r'))"
proof -
  have inv: "ob_inv cd (run_store r) (run_disk r)" and a: "cp_of (run_disk r) \<le> confirmed r"
    using dur by (auto simp: durable_def)
  from assms(1) show ?thesis
  proof cases
    case (append uuid ty payload prio t fate)
    obtain res s d where step: "ob_Append cd ty payload prio uuid t fate (run_store r) (run_disk r) = (res, s, d)"
      by (metis prod_cases3)
    have "set (ob_events (run_store r)) \<subseteq> set (ob_events s)"
      using step by (cases rule: ob_Append_cases) auto
    then show ?thesis using e step append by (auto simp: run_append_def)
  next
    case (ack n cf lf)
    show ?thesis
    proof (cases "n \<le> ob_latest (run_store r)")
      case True
      then have "n < Sequence e" using same e(2) ack by (auto simp: run_ack_def split: prod.splits)
      then show ?thesis using run_ack_keeps [OF inv e(1)] ack by simp
    next
      case False
      then show ?thesis using ack e ob_inv_fields(2) [OF inv] by (auto simp: run_ack_def ob_Ack_def)
    qed
  next
    case (restart s d)
    obtain extra where "ob_events s = filter (\<lambda>e. Sequence e > cp_of (run_disk r)) (ob_events (run_store r) @ extra)"
      using ob_Open_recovers [OF cd inv restart(3) restart(2)] by metis
    then show ?thesis using e a restart(1) by auto
  qed (use e in \<open>auto simp: RecordDroppedNormal_def ob_Close_def\<close>)
qed

lemma ob_step_accepted:
  assumes "ob_step cd r r'" and dur: "durable cd r" and "e \<in> set (accepted r')" and "Sequence e \<le> confirmed r"
  shows "e \<in> set (accepted r)"
  using assms(1)
proof cases
  case (append uuid ty payload prio t fate)
  obtain res s d where step: "ob_Append cd ty payload prio uuid t fate (run_store r) (run_disk r) = (res, s, d)"
    by (metis prod_cases3)
  have "res = Inr e \<Longrightarrow> confirmed r < Sequence e"
    using step append(3) dur next_seq_less [of "ob_latest (run_store r)"]
    by (cases rule: ob_Append_cases) (auto simp: durable_def)
  then show ?thesis using assms(3,4) step append by (auto simp: run_append_def split: sum.splits)
qed (use assms in \<open>auto simp: run_ack_def split: prod.splits\<close>)

lemma accepted_positive: "ob_reach cd maxBytes r \<Longrightarrow> e \<in> set (accepted r) \<Longrightarrow> 0 < Sequence e"
proof (induction rule: ob_reach.induct)
  case (more r r')
  from more(2) show ?case
  proof cases
    case (append uuid ty payload prio t fate)
    obtain res s d where step: "ob_Append cd ty payload prio uuid t fate (run_store r) (run_disk r) = (res, s, d)"
      by (metis prod_cases3)
    have "res = Inr e \<Longrightarrow> 0 < Sequence e"
      using step append(3) next_seq_less [of "ob_latest (run_store r)"] by (cases rule: ob_Append_cases) auto
    then show ?thesis using more step append by (auto simp: run_append_def split: sum.splits)
  qed (use more in \<open>auto simp: run_ack_def split: prod.splits\<close>)
qed simp

section \<open>The invariant of the delivery\<close>

definition in_step :: "Codec \<Rightarrow> Envelope list \<Rightarrow> Envelope list \<Rightarrow> Delivery \<Rightarrow> bool" where
  "in_step cd es extra st \<longleftrightarrow> durable cd (srv st) \<and> holds_events cd es extra (inbox st) (inbox_disk st)
     \<and> ib_baseline (inbox st) = 0 \<and> maxRecordSize \<le> ib_max (inbox st) \<and> confirmed (srv st) \<le> length es
     \<and> (\<forall>e \<in> set (es @ extra). confirmed (srv st) < Sequence e \<longrightarrow> e \<in> set (ob_events (run_store (srv st))))
     \<and> (\<forall>e \<in> set (accepted (srv st)). Sequence e \<le> confirmed (srv st) \<longrightarrow> e \<in> set es)"

lemma holds_length: "holds_events cd es extra s d \<Longrightarrow> ib_last s = ib_baseline s + length es"
  by (simp add: holds_events_def)

lemma in_step_server:
  assumes "in_step cd es extra st" and "faithful cd" and "ob_step cd (srv st) r" and "confirmed r = confirmed (srv st)"
  shows "in_step cd es extra (st\<lparr>srv := r\<rparr>)"
  using assms ob_step_durable [OF assms(3)] ob_step_keeps [OF assms(3)] ob_step_accepted [OF assms(3)]
  unfolding in_step_def by auto

lemma ob_Events_pending:
  assumes "ob_Events n limit s = Inr events"
  shows "set events \<subseteq> set (ob_events s)" and "int (length events) \<le> limit"
  using assms by (auto simp: ob_Events_def split: if_splits dest: in_set_takeD)

lemma ib_max_Accept [simp]: "ib_Accept cd fates es s d = (err, s', d') \<Longrightarrow> ib_max s' = ib_max s \<and> ib_baseline s' = ib_baseline s"
proof -
  have one: "accept_event cd fate e s d = (err, s', d') \<Longrightarrow> ib_max s' = ib_max s \<and> ib_baseline s' = ib_baseline s"
    for fate e s d err s' d'
    by (auto elim!: accept_event_cases)
  have "accept_loop cd fates es s d = (err, s', d') \<Longrightarrow> ib_max s' = ib_max s \<and> ib_baseline s' = ib_baseline s"
    for err s' d'
  proof (induction es arbitrary: fates s d)
    case (Cons e es)
    then show ?case by (auto split: prod.splits option.splits dest!: one)
  qed simp
  then show "ib_Accept cd fates es s d = (err, s', d') \<Longrightarrow> ib_max s' = ib_max s \<and> ib_baseline s' = ib_baseline s"
    by (auto simp: ib_Accept_def split: option.splits)
qed

lemma in_step_fetch:
  assumes st: "in_step cd es extra st" and cd: "faithful cd" and room: "ib_last (inbox st) + 102 < 2 ^ 64"
  shows "\<exists>new extra'. in_step cd (es @ new) extra' (poll_fetch cd acked fates st) \<and> (extra = [] \<or> new = [] \<and> extra' = extra)"
proof (cases "ob_Events acked 100 (run_store (srv st))")
  case (Inl err)
  then show ?thesis using st by (intro exI [of _ "[]"] exI [of _ extra]) (simp add: poll_fetch_def)
next
  case (Inr events)
  obtain err s d where acc: "ib_Accept cd fates events (inbox st) (inbox_disk st) = (err, s, d)" by (metis prod_cases3)
  let ?pend = "ob_events (run_store (srv st))"
  have pend: "set events \<subseteq> set ?pend" "length events \<le> 100" using ob_Events_pending [OF Inr] by auto
  have "numbered cd (ob_acked (run_store (srv st))) ?pend"
    using st ob_inv_fields(1) by (auto simp: in_step_def durable_def)
  then have ids: "\<forall>e \<in> set events. ID e \<noteq> []" using pend by (auto simp: numbered_def)
  have h: "holds_events cd es extra (inbox st) (inbox_disk st)" using st by (simp add: in_step_def)
  have len: "ib_last (inbox st) + length events < 2 ^ 64" using room pend(2) by simp
  show ?thesis
  proof (cases "ib_failed (inbox st)")
    case (Some m)
    then have "ib_Accept cd fates events (inbox st) (inbox_disk st) = (Some m, inbox st, inbox_disk st)" by (simp add: ib_Accept_def)
    moreover have "st\<lparr>inbox := inbox st, inbox_disk := inbox_disk st\<rparr> = st" by simp
    ultimately have "poll_fetch cd acked fates st = st"
      unfolding poll_fetch_def Inr sum.case by (simp only: prod.case if_cancel)
    then show ?thesis using st by (intro exI [of _ "[]"] exI [of _ extra]) simp
  next
    case None
    then have none: "extra = []" using holds_clean [OF h] by simp
    obtain new extra' where new: "holds_events cd (es @ new) extra' s d" "set new \<subseteq> set events" "set extra' \<subseteq> set extra \<union> set events"
      using ib_Accept_holds [OF cd h ids len acc] by metis
    have "in_step cd (es @ new) extra' (st\<lparr>inbox := s, inbox_disk := d\<rparr>)"
      using st new pend(1) ib_max_Accept [OF acc] unfolding in_step_def by auto
    moreover have "in_step cd (es @ []) [] st" using st none by simp
    ultimately show ?thesis
      using acc Inr none by (cases "length events > 0") (auto simp only: poll_fetch_def sum.case prod.case if_True if_False)
  qed
qed

lemma numbered_distinct: "numbered cd k es \<Longrightarrow> distinct (map Sequence es)"
  by (simp add: numbered_def)

lemma in_step_ack:
  assumes st: "in_step cd es extra st"
  shows "in_step cd es extra (poll_ack cd n cf lf st)"
proof (cases "ib_last (inbox st) < n \<or> n > ob_latest (run_store (srv st))")
  case True
  then have "poll_ack cd n cf lf st = st"
    using st ob_inv_fields(2) by (auto simp: poll_ack_def run_ack_def ob_Ack_def in_step_def durable_def)
  then show ?thesis using st by simp
next
  case False
  let ?r = "srv st" and ?r' = "run_ack cd n cf lf (srv st)"
  let ?pend = "ob_events (run_store ?r)"
  have inv: "ob_inv cd (run_store ?r) (run_disk ?r)" and dur: "durable cd ?r" using st by (auto simp: in_step_def durable_def)
  have conf: "confirmed ?r' = max n (confirmed ?r)" "accepted ?r' = accepted ?r"
    using False by (auto simp: run_ack_def split: prod.splits)
  have n: "n \<le> length es" using False st holds_length [of cd es extra "inbox st" "inbox_disk st"] by (simp add: in_step_def)
  have pend: "distinct (map Sequence ?pend)" using numbered_distinct [OF ob_inv_fields(1) [OF inv]] .
  have num: "map Sequence es = [1..<1 + length es]"
  proof -
    have "numbered cd 0 (es @ extra)" using st unfolding in_step_def holds_events_def by metis
    then show ?thesis unfolding numbered_append by (simp add: numbered_def)
  qed
  have "e \<in> set es" if e: "e \<in> set (accepted ?r)" "confirmed ?r < Sequence e" "Sequence e \<le> n" for e
  proof -
    have "subseq (filter (\<lambda>e. confirmed ?r < Sequence e) (accepted ?r)) ?pend" using dur by (simp add: durable_def)
    from list_emb_set [OF this, of e] have "e \<in> set ?pend" using e by auto
    moreover obtain e' where e': "e' \<in> set es" "Sequence e' = Sequence e"
    proof -
      have "Sequence e \<in> set (map Sequence es)" unfolding num using e n by auto
      then show ?thesis using that by auto
    qed
    moreover have "e' \<in> set ?pend" using st e' e(2) by (auto simp: in_step_def)
    ultimately show ?thesis using pend by (metis distinct_map inj_onD)
  qed
  then have acc: "\<forall>e \<in> set (accepted ?r'). Sequence e \<le> confirmed ?r' \<longrightarrow> e \<in> set es"
    using st conf by (force simp: in_step_def)
  have keep: "\<forall>e \<in> set (es @ extra). confirmed ?r' < Sequence e \<longrightarrow> e \<in> set (ob_events (run_store ?r'))"
    using st conf run_ack_keeps [OF inv] by (auto simp: in_step_def)
  have "in_step cd es extra (st\<lparr>srv := ?r'\<rparr>)"
    using st durable_ack [OF dur] acc keep conf n unfolding in_step_def by auto
  then show ?thesis using False by (simp add: poll_ack_def)
qed

lemma in_step_reopen:
  assumes st: "in_step cd es extra st" and cd: "faithful cd" and room: "ib_last (inbox st) + 2 < 2 ^ 64"
    and opened: "ib_Open cd path (ib_max (inbox st)) (inbox_disk st) = Inr (s, d)"
  shows "in_step cd (es @ extra) [] (st\<lparr>inbox := s, inbox_disk := d\<rparr>)"
proof -
  have h: "holds_events cd es extra (inbox st) (inbox_disk st)" using st by (simp add: in_step_def)
  have base: "ib_baseline s = 0"
    using ib_Open_holds(1) [OF cd h room opened] opened h st
    by (auto simp: holds_events_def in_step_def ib_Open_def ib_recover_def base_of_def split: prod.splits if_splits)
  show ?thesis
    using st ib_Open_holds [OF cd h room opened] base unfolding in_step_def by auto
qed

lemma in_step_start:
  assumes r: "ob_reach cd obMax r" "confirmed r = 0" and opened: "ib_Open cd path ibMax \<lparr>ib_file = [], baseline_file = None\<rparr> = Inr (s, d)"
    and cd: "faithful cd"
  shows "in_step cd [] [] \<lparr>srv = r, inbox = s, inbox_disk = d\<rparr>"
proof -
  have "ib_recover_loop cd 0 st [] = (False, 0, st)" for st by (subst ib_recover_loop.simps) (simp add: read_record_def)
  then have "holds_events cd [] [] s d" "ib_baseline s = 0" "maxRecordSize \<le> ib_max s"
    using opened by (auto simp: ib_Open_def ib_recover_def loadBaseline_def holds_events_def ids_of_def unreadable_def
        base_of_def split: if_splits)
  moreover have "durable cd r" using durable_reach r cd by blast
  moreover have "accepted r = accepted r \<and> 0 < Sequence e" if "e \<in> set (accepted r)" for e
    using accepted_positive r(1) that by auto
  ultimately show ?thesis using r(2) by (fastforce simp: in_step_def)
qed

lemma in_step_reach:
  "delivery_reach cd obMax ibMax st \<Longrightarrow> faithful cd \<Longrightarrow> \<exists>es extra. in_step cd es extra st"
proof (induction rule: delivery_reach.induct)
  case (start r path s d)
  then show ?case using in_step_start by blast
next
  case (more st st')
  then obtain es extra where st: "in_step cd es extra st" by blast
  from more(2) show ?case
  proof cases
    case (server r)
    then show ?thesis using in_step_server [OF st more.prems] by blast
  next
    case (fetch acked fates)
    then show ?thesis using in_step_fetch [OF st more.prems] by blast
  next
    case (ack n cf lf)
    then show ?thesis using in_step_ack [OF st] by blast
  next
    case (reopen path s d)
    then show ?thesis using in_step_reopen [OF st more.prems] by blast
  qed
qed

section \<open>What the processors of the agent see\<close>

text \<open>The events that an inbox delivers when it is opened again and read from its beginning.\<close>

definition reopened_events :: "Codec \<Rightarrow> Delivery \<Rightarrow> Envelope list" where
  "reopened_events cd st =
     (case ib_Open cd ''inbox'' (ib_max (inbox st)) (inbox_disk st) of
        Inl _ \<Rightarrow> []
      | Inr (s, d) \<Rightarrow> (case ReadAfter cd (ib_baseline s) (int (length (ib_file d)) + 1) s d of Inl _ \<Rightarrow> [] | Inr es \<Rightarrow> es))"

lemma length_log_of: "numbered cd k es \<Longrightarrow> faithful cd \<Longrightarrow> length es \<le> length (log_of cd es)"
proof (induction es arbitrary: k)
  case (Cons e es)
  then obtain data where "rec_of cd e = frame data" using encodable_cases [of cd e] by (metis numbered_Cons)
  moreover have "length es \<le> length (log_of cd es)" using Cons by (auto simp: numbered_Cons)
  ultimately show ?case by (simp add: headerSize_def)
qed simp

lemma reopened_in_step:
  assumes st: "in_step cd es extra st" and cd: "faithful cd" and room: "ib_last (inbox st) + 2 < 2 ^ 64"
  shows "reopened_events cd st = es @ extra" and "numbered cd 0 (es @ extra)"
proof -
  have h: "holds_events cd es extra (inbox st) (inbox_disk st)" and size: "maxRecordSize \<le> ib_max (inbox st)"
    and base: "ib_baseline (inbox st) = 0"
    using st by (auto simp: in_step_def)
  show num: "numbered cd 0 (es @ extra)" using h base unfolding holds_events_def by metis
  obtain s d where opened: "ib_Open cd ''inbox'' (ib_max (inbox st)) (inbox_disk st) = Inr (s, d)"
    using size by (cases "ib_Open cd ''inbox'' (ib_max (inbox st)) (inbox_disk st)") (auto simp: ib_Open_def split: if_splits)
  note again = ib_Open_holds [OF cd h room opened]
  have disk: "ib_file d = log_of cd (es @ extra)" "ib_baseline s \<le> ib_last s"
    using holds_clean [OF again(1,2)] holds_length [OF again(1)] by auto
  have "ReadAfter cd (ib_baseline s) (int (length (ib_file d)) + 1) s d = Inr (take (length (ib_file d) + 1) (es @ extra))"
    using ReadAfter_holds [OF cd again(1,2) order_refl disk(2), of "int (length (ib_file d)) + 1"] by (simp add: nat_add_distrib)
  moreover have "length (es @ extra) \<le> length (ib_file d) + 1" using length_log_of [OF num cd] disk(1) by simp
  ultimately show "reopened_events cd st = es @ extra" by (simp add: reopened_events_def opened)
qed

lemma accepted_survives:
  assumes reach: "delivery_reach cd obMax ibMax st" and cd: "faithful cd" and room: "ib_last (inbox st) + 2 < 2 ^ 64"
    and e: "e \<in> set (accepted (srv st))"
  shows "e \<in> set (ob_events (run_store (srv st))) \<or> e \<in> set (reopened_events cd st)"
proof -
  obtain es extra where st: "in_step cd es extra st" using in_step_reach [OF reach cd] by blast
  show ?thesis
  proof (cases "Sequence e \<le> confirmed (srv st)")
    case True
    then show ?thesis using st e reopened_in_step(1) [OF st cd room] by (auto simp: in_step_def)
  next
    case False
    have "subseq (filter (\<lambda>e. confirmed (srv st) < Sequence e) (accepted (srv st))) (ob_events (run_store (srv st)))"
      using st by (simp add: in_step_def durable_def)
    from list_emb_set [OF this, of e] show ?thesis using e False by auto
  qed
qed

lemma reopened_once:
  assumes "delivery_reach cd obMax ibMax st" and "faithful cd" and "ib_last (inbox st) + 2 < 2 ^ 64"
  shows "map Sequence (reopened_events cd st) = [1..<1 + length (reopened_events cd st)]"
proof -
  obtain es extra where st: "in_step cd es extra st" using in_step_reach [OF assms(1,2)] by blast
  show ?thesis using reopened_in_step [OF st assms(2,3)] by (simp add: numbered_def)
qed

section \<open>Properties\<close>

definition demo_delivery :: Delivery where
  "demo_delivery = \<lparr>srv = demo_stored,
     inbox = \<lparr>ib_max = maxRecordSize, ib_bytes = 0, ib_baseline = 0, ib_last = 0, ib_ids = Map.empty, ib_failed = None\<rparr>,
     inbox_disk = \<lparr>ib_file = [], baseline_file = None\<rparr>\<rparr>"

lemma demo_delivery_reach: "delivery_reach demo_codec maxRecordSize maxRecordSize demo_delivery"
proof -
  have "ib_recover_loop demo_codec 0 st [] = (False, 0, st)" for st
    by (subst ib_recover_loop.simps) (simp add: read_record_def)
  then show ?thesis unfolding demo_delivery_def
    by (intro delivery_reach.start [where path = "''p''"] demo_stored_reach)
      (simp_all add: demo_stored_state ib_Open_def ib_recover_def loadBaseline_def)
qed

text \<open>C29.  No event is lost between the server and the agent.  In every run in which either side may
  fail in its writes or be restarted at any moment, also between fetching, storing and
  acknowledging, an event whose \<open>Append\<close> succeeded is still pending in the outbox or is delivered by
  the inbox; and the inbox delivers the numbers from one on without gap, repetition or exchange.\<close>

theorem no_event_lost:
  assumes "delivery_reach cd obMax ibMax st" "faithful cd" "ib_last (inbox st) + 2 < 2 ^ 64"
  shows "set (accepted (srv st)) \<subseteq> set (ob_events (run_store (srv st))) \<union> set (reopened_events cd st)
    \<and> map Sequence (reopened_events cd st) = [1..<1 + length (reopened_events cd st)]"
  using accepted_survives [OF assms] reopened_once [OF assms] by blast

theorem no_event_lost_witness:
  "set (accepted (srv (poll_fetch demo_codec 0 [] demo_delivery)))
    \<subseteq> set (ob_events (run_store (srv (poll_fetch demo_codec 0 [] demo_delivery))))
      \<union> set (reopened_events demo_codec (poll_fetch demo_codec 0 [] demo_delivery))"
proof -
  let ?st = "poll_fetch demo_codec 0 [] demo_delivery"
  have "delivery_step demo_codec demo_delivery ?st" by (rule delivery_step.fetch) (simp add: demo_delivery_def)
  then have reach: "delivery_reach demo_codec maxRecordSize maxRecordSize ?st"
    by (rule delivery_reach.more [OF demo_delivery_reach])
  have "ib_last (inbox ?st) = 1"
    by (simp add: poll_fetch_def demo_delivery_def ob_Events_def demo_stored_state ib_Accept_def accept_event_def
        demo_envelope_def next_seq_def encodeRecord_def demo_codec_def maxRecordSize_def headerSize_def)
  then show ?thesis using no_event_lost [OF reach demo_faithful] by simp
qed

end
