(* ===== verification/Agent_Processor.thy ===== *)
theory Agent_Processor
  imports Agent_Delivery
begin

text \<open>
  The three processors of the agent (\<open>stats_processor\<close>, \<open>webhook_processor\<close>, \<open>upload\<close>) share one shape:
  \<open>OpenProcessor\<close> takes the cursor from a file, \<open>Process\<close> reads the events behind it from the inbox,
  handles one after the other and replaces the cursor file after each.  What differs is the handling
  of an event and what is done after its cursor is written; these are arguments here, with the world
  they work on as a type parameter.  A failing write is an argument of the step, as for the stores.
  The locale \<open>event_handler\<close> says what a handler owes so that nothing is left out or done to a wrong
  event; each processor interprets it.
\<close>

section \<open>Cursor and loop\<close>

record 'w Proc =
  pr_cursor :: nat
  pr_file :: "nat option"
  pr_world :: 'w

text \<open>The replacement of the cursor file: \<open>ReplacedUnflushed\<close> is a failing \<open>syncDir\<close> after the rename.\<close>

definition writeCursor :: "replace_fate \<Rightarrow> nat \<Rightarrow> nat option \<Rightarrow> bool \<times> nat option" where
  "writeCursor fate n old =
     (case fate of NotReplaced \<Rightarrow> (False, old) | ReplacedUnflushed \<Rightarrow> (False, Some n) | Replaced \<Rightarrow> (True, Some n))"

definition OpenProcessor :: "Inbox \<Rightarrow> nat option \<Rightarrow> 'w \<Rightarrow> string + 'w Proc" where
  "OpenProcessor s cursorFile w =
     (let cursor = (case cursorFile of None \<Rightarrow> ib_baseline s | Some n \<Rightarrow> n)
      in if cursor < ib_baseline s \<or> cursor > ib_last s then Inl ''cursor outside inbox''
         else Inr \<lparr>pr_cursor = cursor, pr_file = cursorFile, pr_world = w\<rparr>)"

type_synonym ('f, 'w) handler = "'f \<Rightarrow> Envelope \<Rightarrow> 'w \<Rightarrow> string option \<times> 'w"

fun process_loop :: "('f, 'w) handler \<Rightarrow> ('f \<Rightarrow> Envelope \<Rightarrow> 'w \<Rightarrow> 'w) \<Rightarrow> (Envelope \<Rightarrow> 'f \<times> replace_fate) \<Rightarrow> Envelope list
    \<Rightarrow> 'w Proc \<Rightarrow> nat \<times> string option \<times> 'w Proc" where
  "process_loop handle finish fate [] p = (0, None, p)"
| "process_loop handle finish fate (e # es) p =
     (case handle (fst (fate e)) e (pr_world p) of
        (Some err, w) \<Rightarrow> (0, Some err, p\<lparr>pr_world := w\<rparr>)
      | (None, w) \<Rightarrow>
          (case writeCursor (snd (fate e)) (Sequence e) (pr_file p) of
             (False, f) \<Rightarrow> (0, Some ''cursor'', p\<lparr>pr_file := f, pr_world := w\<rparr>)
           | (True, f) \<Rightarrow>
               (case process_loop handle finish fate es
                   \<lparr>pr_cursor = Sequence e, pr_file = f, pr_world = finish (fst (fate e)) e w\<rparr> of
                  (n, r) \<Rightarrow> (n + 1, r))))"

definition Process :: "Codec \<Rightarrow> ('f, 'w) handler \<Rightarrow> ('f \<Rightarrow> Envelope \<Rightarrow> 'w \<Rightarrow> 'w) \<Rightarrow> int \<Rightarrow> (Envelope \<Rightarrow> 'f \<times> replace_fate)
    \<Rightarrow> Inbox \<Rightarrow> InboxDisk \<Rightarrow> 'w Proc \<Rightarrow> nat \<times> string option \<times> 'w Proc" where
  "Process cd handle finish limit fate s d p =
     (case ReadAfter cd (pr_cursor p) limit s d of
        Inl err \<Rightarrow> (0, Some err, p)
      | Inr events \<Rightarrow> process_loop handle finish fate events p)"

text \<open>The inner loop of \<open>poll\<close> calls \<open>Process\<close> with a limit of 100 until a call handles no event; \<open>fates\<close>
  gives the fates of each call.  That it ends is proved below.\<close>

partial_function (option) process_all :: "(nat \<Rightarrow> 'p \<Rightarrow> nat \<times> string option \<times> 'p) \<Rightarrow> nat \<Rightarrow> 'p \<Rightarrow> (string option \<times> 'p) option" where
  "process_all process i p =
     (case process i p of
        (n, Some err, p') \<Rightarrow> Some (Some err, p')
      | (n, None, p') \<Rightarrow> if n = 0 then Some (None, p') else process_all process (i + 1) p')"

lemma sequence_nth: "map Sequence es = [b + 1..<b + 1 + length es] \<Longrightarrow> i < length es \<Longrightarrow> Sequence (es ! i) = b + i + 1"
proof -
  assume m: "map Sequence es = [b + 1..<b + 1 + length es]" and i: "i < length es"
  have "Sequence (es ! i) = map Sequence es ! i" using i by simp
  also have "\<dots> = [b + 1..<b + 1 + length es] ! i" by (simp only: m)
  also have "\<dots> = b + i + 1" using i by (subst nth_upt) auto
  finally show ?thesis .
qed

text \<open>What \<open>ReadAfter\<close> returns is a beginning of the events behind the cursor, also when a record behind
  them was cut.\<close>

lemma read_loop_begin:
  assumes "faithful cd" and "\<forall>e \<in> set es. encodable cd e" and "unreadable t"
  shows "read_loop cd n limit out (log_of cd es @ t) = Inr r
    \<Longrightarrow> r = out @ take (limit - length out) (filter (\<lambda>e. Sequence e > n) es)"
  using assms(2)
proof (induction es arbitrary: out)
  case Nil
  have "read_record t = RecEOF" if "t = []" using that by (simp add: read_record_def)
  then show ?case using Nil assms(3) by (subst (asm) read_loop.simps) (auto simp: unreadable_def split: if_splits)
next
  case (Cons e es)
  obtain data where data: "rec_of cd e = frame data" "data \<noteq> []" "length data \<le> maxRecordSize" "Unmarshal cd data = Some e"
    using encodable_cases [of cd e] assms(1) Cons.prems(2) by (metis list.set_intros(1))
  show ?case
  proof (cases "length out < limit")
    case True
    let ?out = "if Sequence e > n then out @ [e] else out"
    have "read_loop cd n limit ?out (log_of cd es @ t) = Inr r"
      using Cons.prems(1) True by (subst (asm) read_loop.simps) (simp add: data read_record_frame)
    from Cons.IH [OF this] Cons.prems(2) show ?thesis using True by (auto simp: take_Cons' Suc_diff_Suc)
  qed (use Cons.prems(1) in \<open>subst (asm) read_loop.simps, simp\<close>)
qed

lemma ReadAfter_begin:
  assumes cd: "faithful cd" and h: "holds_events cd es extra s d" and i: "n = ib_baseline s + i"
    and r: "ReadAfter cd n limit s d = Inr batch"
  shows "batch = take (nat limit) (drop i (es @ extra))"
proof -
  obtain t where t: "ib_file d = log_of cd (es @ extra) @ t" "unreadable t" using h by (auto simp: holds_events_def)
  have num: "numbered cd (ib_baseline s) (es @ extra)" using h unfolding holds_events_def by metis
  then have "\<forall>e \<in> set (es @ extra). encodable cd e" by (simp add: numbered_def)
  then have "batch = take (nat limit) (filter (\<lambda>e. Sequence e > n) (es @ extra))"
    using read_loop_begin [OF cd _ t(2), of "es @ extra" n "nat limit" "[]"] r t(1) by (simp add: ReadAfter_def split: if_splits)
  moreover have "filter (\<lambda>e. Sequence e > n) (es @ extra) = drop i (es @ extra)" using numbered_filter [OF num, of n] i by simp
  ultimately show ?thesis by (simp only:)
qed

text \<open>A call that handles \<open>n\<close> events moves the cursor by \<open>n\<close>; a call without error handles the whole batch.\<close>

lemma loop_cursor:
  "map Sequence batch = [c + 1..<c + 1 + length batch] \<Longrightarrow> pr_cursor p = c
    \<Longrightarrow> process_loop handle finish fate batch p = (n, err, p')
    \<Longrightarrow> pr_cursor p' = c + n \<and> n \<le> length batch \<and> (err = None \<longrightarrow> n = length batch)"
proof (induction batch arbitrary: c p n)
  case (Cons e batch)
  have seq: "Sequence e = c + 1" "map Sequence batch = [c + 1 + 1..<c + 1 + 1 + length batch]"
    using Cons.prems(1) by (simp_all add: upt_conv_Cons del: upt_Suc)
  obtain r w where h: "handle (fst (fate e)) e (pr_world p) = (r, w)" by fastforce
  obtain b f where wr: "writeCursor (snd (fate e)) (Sequence e) (pr_file p) = (b, f)" by fastforce
  show ?case
  proof (cases "r = None \<and> b")
    case True
    let ?p = "\<lparr>pr_cursor = Sequence e, pr_file = f, pr_world = finish (fst (fate e)) e w\<rparr>"
    obtain k where k: "process_loop handle finish fate batch ?p = (k, err, p')" "n = k + 1"
      using Cons.prems(3) h wr True by (auto split: prod.splits)
    show ?thesis using Cons.IH [OF seq(2) _ k(1)] k(2) seq(1) by simp
  next
    case False
    then show ?thesis using Cons.prems(2,3) h wr by (auto split: option.splits bool.splits)
  qed
qed simp

lemma sequence_part:
  assumes "map Sequence es = [b + 1..<b + 1 + length es]"
  shows "map Sequence (take k (drop i es)) = [b + i + 1..<b + i + 1 + length (take k (drop i es))]"
proof -
  have "map Sequence (take k (drop i es)) = take k (drop i (map Sequence es))" by (simp add: take_map drop_map)
  also have "\<dots> = take k [b + i + 1..<b + 1 + length es]" unfolding assms by (simp only: drop_upt add.commute add.left_commute)
  also have "\<dots> = [b + i + 1..<b + i + 1 + length (take k (drop i es))]"
  proof (cases "k \<le> length es - i")
    case True
    then show ?thesis by (cases "i \<le> length es") (simp_all add: take_upt del: upt_Suc)
  next
    case False
    then show ?thesis by (cases "i \<le> length es") (simp_all del: upt_Suc)
  qed
  finally show ?thesis .
qed

lemma Process_cursor:
  assumes cd: "faithful cd" and h: "holds_events cd es [] s d" and c: "ib_baseline s \<le> pr_cursor p" "pr_cursor p \<le> ib_last s"
    and ok: "ib_failed s = None" and limit: "1 \<le> limit"
    and step: "Process cd handle finish limit fate s d p = (n, err, p')"
  shows "pr_cursor p' = pr_cursor p + n \<and> pr_cursor p' \<le> ib_last s \<and> (err = None \<longrightarrow> n = 0 \<longrightarrow> pr_cursor p' = ib_last s)"
proof -
  define i where "i = pr_cursor p - ib_baseline s"
  let ?batch = "take (nat limit) (drop i es)"
  have num: "map Sequence es = [ib_baseline s + 1..<ib_baseline s + 1 + length es]"
    using h by (simp add: holds_events_def numbered_def)
  have "ReadAfter cd (pr_cursor p) limit s d = Inr ?batch" using ReadAfter_holds [OF cd h ok c limit] by (simp add: i_def)
  then have loop: "process_loop handle finish fate ?batch p = (n, err, p')" using step by (simp add: Process_def)
  have cur: "pr_cursor p = ib_baseline s + i" using c by (simp add: i_def)
  note l = loop_cursor [OF sequence_part [OF num] cur loop]
  then have "pr_cursor p' = pr_cursor p + n" "n \<le> length ?batch" "err = None \<longrightarrow> n = length ?batch" using cur by auto
  moreover have "length ?batch \<le> ib_last s - pr_cursor p" using holds_length [OF h] c by (simp add: i_def)
  moreover have "ib_last s = pr_cursor p" if "length ?batch = 0" using that holds_length [OF h] limit c by (auto simp: i_def)
  moreover have "n \<le> ib_last s - pr_cursor p" using calculation by linarith
  ultimately show ?thesis using c by auto
qed

text \<open>The inner loop of \<open>poll\<close> ends: every call that handled an event moved the cursor towards the end of
  the inbox.\<close>

lemma process_all_ends:
  assumes cd: "faithful cd" and h: "holds_events cd es [] s d" and ok: "ib_failed s = None" and limit: "1 \<le> limit"
  shows "ib_baseline s \<le> pr_cursor p \<Longrightarrow> pr_cursor p \<le> ib_last s
    \<Longrightarrow> \<exists>err p'. process_all (\<lambda>i. Process cd handle finish limit (fates i) s d) i p = Some (err, p') \<and> pr_cursor p \<le> pr_cursor p'
      \<and> (err = None \<longrightarrow> pr_cursor p' = ib_last s)"
proof (induction "ib_last s - pr_cursor p" arbitrary: i p rule: less_induct)
  case less
  obtain n err p1 where one: "Process cd handle finish limit (fates i) s d p = (n, err, p1)" by (metis prod_cases3)
  note c = Process_cursor [OF cd h less.prems ok limit one]
  show ?case
  proof (cases "err = None \<and> n > 0")
    case True
    have "ib_last s - pr_cursor p1 < ib_last s - pr_cursor p" "ib_baseline s \<le> pr_cursor p1" "pr_cursor p1 \<le> ib_last s"
      using c True less.prems by auto
    from less.hyps [OF this, of "i + 1"] show ?thesis
      using one True c by (subst process_all.simps) auto
  next
    case False
    then show ?thesis using one c by (subst process_all.simps) (auto split: option.splits)
  qed
qed

section \<open>What a handler owes\<close>

text \<open>\<open>begun w es e\<close>: all of \<open>es\<close> is handled and possibly a part of the next event \<open>e\<close>; \<open>whole w es e\<close>: all of
  \<open>e\<close> too; \<open>clean w es\<close>: all of \<open>es\<close> and nothing else.  \<open>other\<close> are the changes of the world that happen
  beside the processor: opening it again, maintenance.\<close>

locale event_handler =
  fixes handle :: "('f, 'w) handler"
    and finish :: "'f \<Rightarrow> Envelope \<Rightarrow> 'w \<Rightarrow> 'w"
    and other :: "'w \<Rightarrow> 'w \<Rightarrow> bool"
    and clean :: "'w \<Rightarrow> Envelope list \<Rightarrow> bool"
    and begun :: "'w \<Rightarrow> Envelope list \<Rightarrow> Envelope \<Rightarrow> bool"
    and whole :: "'w \<Rightarrow> Envelope list \<Rightarrow> Envelope \<Rightarrow> bool"
  assumes clean_begun: "clean w es \<Longrightarrow> begun w es e"
    and whole_begun: "whole w es e \<Longrightarrow> begun w es e"
    and whole_clean: "whole w es e \<Longrightarrow> clean w (es @ [e])"
    and handle_error: "begun w es e \<Longrightarrow> handle f e w = (Some err, w') \<Longrightarrow> begun w' es e"
    and handle_ok: "begun w es e \<Longrightarrow> handle f e w = (None, w') \<Longrightarrow> whole w' es e"
    and whole_error: "whole w es e \<Longrightarrow> handle f e w = (Some err, w') \<Longrightarrow> whole w' es e"
    and finish_clean: "clean w (es @ [e]) \<Longrightarrow> clean (finish f e w) (es @ [e])"
    and other_clean: "other w w' \<Longrightarrow> clean w es \<Longrightarrow> clean w' es"
    and other_begun: "other w w' \<Longrightarrow> begun w es e \<Longrightarrow> begun w' es e"
    and other_whole: "other w w' \<Longrightarrow> whole w es e \<Longrightarrow> whole w' es e"
begin

text \<open>The state of a processor over an inbox with the events \<open>es\<close> behind the baseline \<open>b\<close>: the cursor file
  is at the cursor, or one ahead when its directory could not be flushed.\<close>

definition file_here :: "nat \<Rightarrow> nat \<Rightarrow> 'w Proc \<Rightarrow> bool" where
  "file_here b i p \<longleftrightarrow> pr_cursor p = b + i \<and> (pr_file p = Some (b + i) \<or> pr_file p = None \<and> i = 0)"

inductive follows :: "nat \<Rightarrow> Envelope list \<Rightarrow> 'w Proc \<Rightarrow> bool" for b es where
  between: "file_here b i p \<Longrightarrow> i \<le> length es \<Longrightarrow> clean (pr_world p) (take i es) \<Longrightarrow> follows b es p"
| within: "file_here b i p \<Longrightarrow> i < length es \<Longrightarrow> begun (pr_world p) (take i es) (es ! i) \<Longrightarrow> follows b es p"
| ahead: "pr_cursor p = b + i \<Longrightarrow> pr_file p = Some (b + i + 1) \<Longrightarrow> i < length es \<Longrightarrow> whole (pr_world p) (take i es) (es ! i)
    \<Longrightarrow> follows b es p"

lemma follows_more: "follows b es p \<Longrightarrow> follows b (es @ new) p"
proof (induction rule: follows.induct)
  case (between i p)
  then show ?case by (intro follows.between [of b i]) auto
next
  case (within i p)
  then show ?case by (intro follows.within [of b i]) (auto simp: nth_append)
next
  case (ahead p i)
  then show ?case by (intro follows.ahead [of p b i]) (auto simp: nth_append)
qed

lemma follows_other: "follows b es p \<Longrightarrow> other (pr_world p) w \<Longrightarrow> follows b es (p\<lparr>pr_world := w\<rparr>)"
proof (induction rule: follows.induct)
  case (between i p)
  then show ?case using other_clean by (intro follows.between [of b i]) (auto simp: file_here_def)
next
  case (within i p)
  then show ?case using other_begun by (intro follows.within [of b i]) (auto simp: file_here_def)
next
  case (ahead p i)
  then show ?case using other_whole by (intro follows.ahead [of _ b i]) auto
qed

lemma open_here: "file_here b i p \<Longrightarrow> ib_baseline s = b \<Longrightarrow> b + i \<le> ib_last s
    \<Longrightarrow> OpenProcessor s (pr_file p) (pr_world p) = Inr \<lparr>pr_cursor = b + i, pr_file = pr_file p, pr_world = pr_world p\<rparr>"
  by (auto simp: OpenProcessor_def file_here_def Let_def)

lemma follows_open:
  assumes "follows b es p" and s: "ib_baseline s = b" "b + length es \<le> ib_last s"
  shows "\<exists>p'. OpenProcessor s (pr_file p) (pr_world p) = Inr p' \<and> follows b es p'"
  using assms(1)
proof cases
  case (between i)
  let ?p = "\<lparr>pr_cursor = b + i, pr_file = pr_file p, pr_world = pr_world p\<rparr>"
  have "follows b es ?p" using between by (intro follows.between [of b i]) (auto simp: file_here_def)
  then show ?thesis using open_here [OF between(1) s(1)] between(2) s(2) by auto
next
  case (within i)
  let ?p = "\<lparr>pr_cursor = b + i, pr_file = pr_file p, pr_world = pr_world p\<rparr>"
  have "follows b es ?p" using within by (intro follows.within [of b i]) (auto simp: file_here_def)
  then show ?thesis using open_here [OF within(1) s(1)] within(2) s(2) by auto
next
  case (ahead i)
  let ?p = "\<lparr>pr_cursor = b + (i + 1), pr_file = pr_file p, pr_world = pr_world p\<rparr>"
  have "clean (pr_world p) (take (i + 1) es)" using whole_clean [OF ahead(4)] ahead(3) by (simp add: take_Suc_conv_app_nth)
  then have "follows b es ?p" using ahead by (intro follows.between [of b "i + 1"]) (auto simp: file_here_def)
  moreover have "OpenProcessor s (pr_file p) (pr_world p) = Inr ?p" using ahead s by (auto simp: OpenProcessor_def Let_def)
  ultimately show ?thesis by blast
qed

text \<open>One event: what the handler leaves when it fails, when the cursor file cannot be replaced and when
  all goes well.\<close>

lemma follows_failed:
  assumes "follows b es p" and i: "pr_cursor p = b + i" "i < length es" and h: "handle f (es ! i) (pr_world p) = (Some err, w)"
  shows "follows b es (p\<lparr>pr_world := w\<rparr>)"
  using assms(1)
proof cases
  case (between j)
  then have "j = i" using i by (simp add: file_here_def)
  then show ?thesis
    using between i handle_error [OF clean_begun h] by (intro follows.within [of b i]) (auto simp: file_here_def)
next
  case (within j)
  then have "j = i" using i by (simp add: file_here_def)
  then show ?thesis using within i handle_error [OF _ h] by (intro follows.within [of b i]) (auto simp: file_here_def)
next
  case (ahead j)
  then show ?thesis using i whole_error [OF _ h] by (intro follows.ahead [of _ b i]) auto
qed

lemma follows_whole:
  assumes "follows b es p" and i: "pr_cursor p = b + i" "i < length es" and h: "handle f (es ! i) (pr_world p) = (None, w)"
  shows "whole w (take i es) (es ! i)" and "file_here b i p \<or> pr_file p = Some (b + i + 1)"
proof -
  have "begun (pr_world p) (take i es) (es ! i) \<and> (file_here b i p \<or> pr_file p = Some (b + i + 1))"
    using assms(1)
  proof cases
    case (between j)
    then have "j = i" using i by (simp add: file_here_def)
    then show ?thesis using between clean_begun by auto
  next
    case (within j)
    then have "j = i" using i by (simp add: file_here_def)
    then show ?thesis using within by auto
  next
    case (ahead j)
    then show ?thesis using i whole_begun by auto
  qed
  then show "whole w (take i es) (es ! i)" and "file_here b i p \<or> pr_file p = Some (b + i + 1)" using handle_ok h by auto
qed

lemma follows_next:
  assumes w: "whole w (take i es) (es ! i)" and i: "i < length es"
  shows "follows b es \<lparr>pr_cursor = b + i + 1, pr_file = Some (b + i + 1), pr_world = finish f (es ! i) w\<rparr>"
proof (rule follows.between [of b "i + 1"])
  show "clean (pr_world \<lparr>pr_cursor = b + i + 1, pr_file = Some (b + i + 1), pr_world = finish f (es ! i) w\<rparr>) (take (i + 1) es)"
    using finish_clean [OF whole_clean [OF w]] i by (simp add: take_Suc_conv_app_nth)
qed (use i in \<open>auto simp: file_here_def\<close>)

lemma follows_loop:
  "follows b es p \<Longrightarrow> pr_cursor p = b + i \<Longrightarrow> batch = take k (drop i es) \<Longrightarrow> map Sequence es = [b + 1..<b + 1 + length es]
    \<Longrightarrow> process_loop handle finish fate batch p = (n, err, p') \<Longrightarrow> follows b es p'"
proof (induction batch arbitrary: i k p n)
  case (Cons e batch)
  have len: "i < length es"
  proof (rule ccontr)
    assume "\<not> i < length es"
    then show False using Cons.prems(3) by simp
  qed
  then have "drop i es = es ! i # drop (i + 1) es" by (simp add: Cons_nth_drop_Suc)
  then have i: "i < length es" "e = es ! i" "batch = take (k - 1) (drop (i + 1) es)"
    using Cons.prems(3) len by (cases k; simp)+
  have seq: "Sequence e = b + i + 1" using sequence_nth [OF Cons.prems(4) i(1)] i(2) by simp
  obtain r w where h: "handle (fst (fate e)) e (pr_world p) = (r, w)" by fastforce
  show ?case
  proof (cases r)
    case (Some m)
    then show ?thesis using Cons.prems(5) h follows_failed [OF Cons.prems(1,2) i(1)] i(2) by auto
  next
    case None
    note wh = follows_whole [OF Cons.prems(1,2) i(1) h [unfolded None i(2)], folded i(2)]
    show ?thesis
    proof (cases "snd (fate e)")
      case NotReplaced
      then have p': "p' = p\<lparr>pr_world := w\<rparr>" using Cons.prems(5) h None by (simp add: writeCursor_def)
      from wh(2) show ?thesis
      proof
        assume "file_here b i p"
        then show ?thesis using wh(1) whole_begun i p' by (intro follows.within [of b i]) (auto simp: file_here_def)
      next
        assume "pr_file p = Some (b + i + 1)"
        then show ?thesis using wh(1) i p' Cons.prems(2) by (intro follows.ahead [of _ b i]) auto
      qed
    next
      case ReplacedUnflushed
      then have "p' = p\<lparr>pr_file := Some (b + i + 1), pr_world := w\<rparr>"
        using Cons.prems(5) h None seq by (simp add: writeCursor_def)
      then show ?thesis using wh(1) i Cons.prems(2) by (intro follows.ahead [of _ b i]) auto
    next
      case Replaced
      let ?p = "\<lparr>pr_cursor = b + i + 1, pr_file = Some (b + i + 1), pr_world = finish (fst (fate e)) e w\<rparr>"
      obtain n' where "process_loop handle finish fate batch ?p = (n', err, p')"
        using Cons.prems(5) h None seq Replaced by (auto simp: writeCursor_def split: prod.splits)
      then show ?thesis
        using Cons.IH [of ?p "i + 1" "k - 1"] follows_next [OF wh(1) [unfolded i(2)] i(1)] i Cons.prems(4) by auto
    qed
  qed
qed simp

lemma follows_Process:
  assumes "faithful cd" and "holds_events cd es extra s d" and "follows (ib_baseline s) (es @ extra) p"
    and "Process cd handle finish limit fate s d p = (n, err, p')"
  shows "follows (ib_baseline s) (es @ extra) p'"
proof (cases "ReadAfter cd (pr_cursor p) limit s d")
  case (Inl m)
  then show ?thesis using assms by (simp add: Process_def)
next
  case (Inr batch)
  obtain i where i: "pr_cursor p = ib_baseline s + i" using assms(3) by cases (auto simp: file_here_def)
  have "numbered cd (ib_baseline s) (es @ extra)" using assms(2) unfolding holds_events_def by metis
  then have "map Sequence (es @ extra) = [ib_baseline s + 1..<ib_baseline s + 1 + length (es @ extra)]"
    by (simp add: numbered_def)
  from follows_loop [OF assms(3) i ReadAfter_begin [OF assms(1,2) i Inr] this] show ?thesis
    using assms(4) Inr by (simp add: Process_def)
qed

lemma Process_forward:
  assumes "faithful cd" and "holds_events cd es extra s d" and "follows (ib_baseline s) (es @ extra) p"
    and "Process cd handle finish limit fate s d p = (n, err, p')"
  shows "pr_cursor p \<le> pr_cursor p'"
proof (cases "ReadAfter cd (pr_cursor p) limit s d")
  case (Inr batch)
  obtain i where i: "pr_cursor p = ib_baseline s + i" using assms(3) by cases (auto simp: file_here_def)
  have "numbered cd (ib_baseline s) (es @ extra)" using assms(2) unfolding holds_events_def by metis
  then have num: "map Sequence (es @ extra) = [ib_baseline s + 1..<ib_baseline s + 1 + length (es @ extra)]"
    by (simp add: numbered_def)
  have "map Sequence batch = [pr_cursor p + 1..<pr_cursor p + 1 + length batch]"
    unfolding ReadAfter_begin [OF assms(1,2) i Inr] i by (rule sequence_part [OF num])
  from loop_cursor [OF this refl, of handle finish fate n err p'] show ?thesis using assms(4) Inr by (simp add: Process_def)
qed (use assms(4) in \<open>simp add: Process_def\<close>)

text \<open>What holds of the world whenever the processor stands: with the events before the cursor all of
  them, and possibly the next one, handled.\<close>

lemma follows_cases:
  assumes "follows b es p"
  obtains i where "pr_cursor p = b + i" "i \<le> length es" "clean (pr_world p) (take i es)"
  | i where "pr_cursor p = b + i" "i < length es" "begun (pr_world p) (take i es) (es ! i)"
  using assms by cases (auto simp: file_here_def intro: whole_begun)

end

end
