(* ===== verification/Go_Float.thy ===== *)
theory Go_Float
  imports "HOL-Library.Log_Nat" Complex_Main
begin

text \<open>
  The arithmetic of \<open>float64\<close> as far as the program uses it: an operation is the exact rational result
  rounded to 53 significant bits, ties to even.  All numbers of the program are far from the ends of
  the exponent range, so infinities and subnormal numbers do not occur.
\<close>

section \<open>Rounding to double precision\<close>

definition round_half_even :: "rat \<Rightarrow> int" where
  "round_half_even y =
     (let f = \<lfloor>y\<rfloor>; d = y - of_int f
      in if d < 1 / 2 \<or> (d = 1 / 2 \<and> even f) then f else f + 1)"

text \<open>The binary exponent of a positive number.  (For a negative power of two it is one less, which
  does not matter: the number lies on the finer grid too.)\<close>

definition binexp :: "rat \<Rightarrow> int" where
  "binexp x = (if x \<ge> 1 then bitlen \<lfloor>x\<rfloor> - 1 else - bitlen \<lfloor>1 / x\<rfloor>)"

definition rnd64 :: "rat \<Rightarrow> rat" where
  "rnd64 x = (if x = 0 then 0
     else let u = power_int 2 (binexp x - 52) in of_int (round_half_even (x / u)) * u)"

lemma round_half_even_error: "\<bar>of_int (round_half_even y) - y\<bar> \<le> 1 / 2"
proof -
  have "of_int \<lfloor>y\<rfloor> \<le> y" "y < of_int \<lfloor>y\<rfloor> + 1" by linarith+
  then show ?thesis by (auto simp: round_half_even_def Let_def abs_le_iff)
qed

lemma round_half_even_nonneg: "0 \<le> y \<Longrightarrow> 0 \<le> round_half_even y"
  by (auto simp: round_half_even_def Let_def intro: add_nonneg_nonneg)

lemma two_bitlen:
  assumes "0 < n"
  shows "(2::rat) powi (bitlen n - 1) \<le> of_int n" and "of_int n + 1 \<le> (2::rat) powi bitlen n"
proof -
  have b: "2 ^ nat (bitlen n - 1) \<le> n" "n + 1 \<le> 2 ^ nat (bitlen n)" "1 \<le> bitlen n"
    using bitlen_bounds [OF assms] assms bitlen_eq_zero_iff [of n] bitlen_nonneg [of n] by auto
  have "(of_int (2 ^ nat (bitlen n - 1)) :: rat) \<le> of_int n" "of_int (n + 1) \<le> (of_int (2 ^ nat (bitlen n)) :: rat)"
    using b(1,2) by (simp_all only: of_int_le_iff)
  with b(3) show "(2::rat) powi (bitlen n - 1) \<le> of_int n" "of_int n + 1 \<le> (2::rat) powi bitlen n"
    by (simp_all add: power_int_def)
qed

lemma binexp_le: "0 < x \<Longrightarrow> 2 powi binexp x \<le> (x :: rat)"
proof (cases "x \<ge> 1")
  case True
  then have "0 < \<lfloor>x\<rfloor>" by simp
  from order_trans [OF two_bitlen(1) [OF this] of_int_floor_le] True show ?thesis
    by (simp add: binexp_def)
next
  case False
  assume "0 < x"
  then have "1 < 1 / x" using False by simp
  then have pos: "0 < \<lfloor>1 / x\<rfloor>" by simp
  have "1 / x \<le> 2 powi bitlen \<lfloor>1 / x\<rfloor>"
    using two_bitlen(2) [OF pos] floor_correct [of "1 / x"] by linarith
  then show ?thesis
    using False \<open>0 < x\<close> by (simp add: binexp_def power_int_minus field_simps)
qed

text \<open>The relative error of one operation.\<close>

definition ulp :: rat where "ulp = 1 / 2 ^ 53"

lemma ulp_pos [simp]: "0 < ulp" "0 \<le> ulp" and ulp_small: "ulp * 512 \<le> 1"
  by (simp_all add: ulp_def)

lemma rnd64_upper:
  assumes "0 \<le> x"
  shows "rnd64 x \<le> x * (1 + ulp)" and "0 \<le> rnd64 x"
proof -
  define u :: rat where "u = 2 powi (binexp x - 52)"
  have u: "0 < u" by (simp add: u_def)
  have half: "u / 2 \<le> x * ulp" if "0 < x"
  proof -
    have "u = 2 powi binexp x / 2 ^ 52" by (simp add: u_def power_int_diff)
    with binexp_le [OF that] show ?thesis by (simp add: ulp_def)
  qed
  have rnd: "rnd64 x = of_int (round_half_even (x / u)) * u" if "0 < x"
    using that by (simp add: rnd64_def u_def Let_def)
  have "rnd64 x \<le> x + u / 2" if "0 < x"
  proof -
    have "of_int (round_half_even (x / u)) \<le> x / u + 1 / 2"
      using round_half_even_error [of "x / u"] by linarith
    then have "of_int (round_half_even (x / u)) * u \<le> (x / u + 1 / 2) * u"
      using u by (intro mult_right_mono) auto
    then show ?thesis using u by (simp add: rnd [OF that] distrib_right)
  qed
  with half assms show "rnd64 x \<le> x * (1 + ulp)"
    by (cases "x = 0") (force simp: rnd64_def distrib_left)+
  show "0 \<le> rnd64 x"
    using assms u round_half_even_nonneg [of "x / u"] rnd by (cases "x = 0") (auto simp: rnd64_def)
qed

section \<open>Signed numbers\<close>

definition flt :: "rat \<Rightarrow> rat" where
  "flt x = (if x < 0 then - rnd64 (- x) else rnd64 x)"

lemma flt_nonneg: "0 \<le> x \<Longrightarrow> 0 \<le> flt x"
  by (simp add: flt_def rnd64_upper(2))

lemma flt_nonpos: "x \<le> 0 \<Longrightarrow> flt x \<le> 0"
  using rnd64_upper(2) [of "- x"] by (cases "x = 0") (auto simp: flt_def rnd64_def)

text \<open>A number up to one is not rounded above it.\<close>

lemma round_half_even_le: "y \<le> of_int n \<Longrightarrow> round_half_even y \<le> n"
proof -
  assume y: "y \<le> of_int n"
  have f: "of_int \<lfloor>y\<rfloor> \<le> y" "\<lfloor>y\<rfloor> \<le> n" using y by linarith+
  show ?thesis
  proof (cases "\<lfloor>y\<rfloor> = n")
    case True
    then have "y = of_int n" using f y by simp
    then show ?thesis by (simp add: round_half_even_def)
  next
    case False
    then show ?thesis using f by (simp add: round_half_even_def Let_def)
  qed
qed

lemma flt_le_1:
  assumes "x \<le> 1"
  shows "flt x \<le> 1"
proof (cases "0 < x")
  case True
  show ?thesis
  proof (cases "x = 1")
    case True
    moreover have "flt 1 \<le> 1" by code_simp
    ultimately show ?thesis by (simp only:)
  next
    case False
    then have "1 < 1 / x" using assms \<open>0 < x\<close> by simp
    then have "0 < \<lfloor>1 / x\<rfloor>" by simp
    then have neg: "1 \<le> bitlen \<lfloor>1 / x\<rfloor>" using bitlen_eq_zero_iff [of "\<lfloor>1 / x\<rfloor>"] bitlen_nonneg [of "\<lfloor>1 / x\<rfloor>"] by linarith
    define k where "k = nat (bitlen \<lfloor>1 / x\<rfloor> + 52)"
    have u: "(2::rat) powi (binexp x - 52) = 1 / 2 ^ k"
      using neg assms False by (simp add: binexp_def k_def power_int_def inverse_eq_divide nat_add_distrib power_one_over add.commute)
    have "x / (1 / 2 ^ k) \<le> of_int (2 ^ k)" using assms by simp
    from round_half_even_le [OF this] have "of_int (round_half_even (x / (1 / 2 ^ k))) \<le> (2::rat) ^ k"
      by (metis of_int_le_iff of_int_power of_int_numeral)
    then have "of_int (round_half_even (x / (1 / 2 ^ k))) * (1 / 2 ^ k) \<le> (1::rat)" by (simp add: field_simps)
    then show ?thesis using True u by (simp add: flt_def rnd64_def Let_def)
  qed
next
  case False
  then show ?thesis using flt_nonpos [of x] by simp
qed

lemma round_half_even_ge: "of_int n \<le> y \<Longrightarrow> n \<le> round_half_even y"
proof -
  assume "of_int n \<le> y"
  then have "n \<le> \<lfloor>y\<rfloor>" by (simp add: le_floor_iff)
  then show ?thesis by (auto simp: round_half_even_def Let_def)
qed

lemma flt_ge_1:
  assumes "1 \<le> x"
  shows "1 \<le> flt x"
proof -
  define u :: rat where "u = 2 powi (binexp x - 52)"
  have u: "0 < u" "u * 2 ^ 52 = 2 powi binexp x" by (simp_all add: u_def power_int_diff)
  have pos: "0 < \<lfloor>x\<rfloor>" using assms by simp
  then have "0 \<le> binexp x" using assms bitlen_eq_zero_iff [of "\<lfloor>x\<rfloor>"] bitlen_nonneg [of "\<lfloor>x\<rfloor>"] by (simp add: binexp_def)
  then have one: "(1::rat) \<le> u * 2 ^ 52" unfolding u(2) by (simp add: one_le_power_int)
  have "u * 2 ^ 52 \<le> x" using binexp_le [of x] assms u(2) by simp
  then have "of_int (2 ^ 52) \<le> x / u" using u(1) by (simp add: field_simps)
  from round_half_even_ge [OF this] have "(2::rat) ^ 52 \<le> of_int (round_half_even (x / u))"
    by (metis of_int_le_iff of_int_numeral of_int_power)
  then have "2 ^ 52 * u \<le> of_int (round_half_even (x / u)) * u" using u(1) by (intro mult_right_mono) auto
  with one have "1 \<le> of_int (round_half_even (x / u)) * u" by (simp only: mult.commute)
  moreover have "flt x = of_int (round_half_even (x / u)) * u" using assms by (simp add: flt_def rnd64_def u_def Let_def)
  ultimately show ?thesis by (simp only:)
qed

end
