(* ===== verification/Agent_Stats.thy ===== *)
theory Agent_Stats
  imports Agent_Processor Go_Float "HOL-Library.AList" "HOL-Library.Multiset"
begin

text \<open>
  The statistics of the agent (\<open>agent/stats_store\<close>, \<open>agent/stats_processor\<close>).  The SQLite database is a
  record of its tables in the columns of \<open>schema.go\<close>, an SQL statement the change of the tables that
  it states, a transaction one step whose fate is an argument: rolled back, committed, or committed
  with an error reported.  Times are texts given with the step.  What is not in the repository is in
  \<open>StatsEnv\<close>: the decoding of a payload, an order of a list by falling keys (\<open>sort.Slice\<close> and \<open>ORDER BY\<close>
  leave the order of equal keys open; \<open>orders\<close> is all that is relied on), \<open>math.Pow(10, x)\<close> and the
  factor by which the popularity of a chart decays between two times.
\<close>

section \<open>Data\<close>

record RecordRow =
  sr_ID :: int
  sr_Player :: int
  sr_Score :: int
  sr_Accuracy :: rat
  sr_Perfect :: int
  sr_Good :: int
  sr_Bad :: int
  sr_Miss :: int
  sr_MaxCombo :: int
  sr_FullCombo :: bool
  sr_Std :: "rat option"
  sr_StdScore :: "rat option"

record MatchPlayerResultV1 =
  mp_PlayerID :: int
  mp_PlayerName :: string
  mp_Record :: RecordRow

record MatchFinishedV1 =
  mf_Server :: string
  mf_RoomID :: string
  mf_ChartID :: int
  mf_ChartName :: string
  mf_Duration :: rat
  mf_Results :: "MatchPlayerResultV1 list"

record StatsEnv =
  se_parse :: "bytes \<Rightarrow> MatchFinishedV1 option"
  se_order :: "rat list \<Rightarrow> nat list"
  se_pow10 :: "rat \<Rightarrow> rat"
  se_decay :: "string \<Rightarrow> string \<Rightarrow> rat"

definition orders :: "(rat list \<Rightarrow> nat list) \<Rightarrow> bool" where
  "orders f \<longleftrightarrow> (\<forall>ks. mset (f ks) = mset [0..<length ks] \<and> sorted (map (\<lambda>i. - ks ! i) (f ks)))"

definition by_falling :: "StatsEnv \<Rightarrow> ('a \<Rightarrow> rat) \<Rightarrow> 'a list \<Rightarrow> 'a list" where
  "by_falling env key xs = map (\<lambda>i. xs ! i) (se_order env (map key xs))"

record MatchRow =
  mr_id :: nat
  mr_room :: string
  mr_chart :: int
  mr_chart_name :: string
  mr_started :: string
  mr_duration :: rat
  mr_n :: nat

record ResultRow =
  rw_match :: nat
  rw_record :: RecordRow
  rw_full_combo :: int
  rw_std :: rat
  rw_std_score :: rat
  rw_rank :: nat

record PlayerRow =
  pl_games :: nat
  pl_wins :: nat
  pl_sum_acc :: rat
  pl_best :: int
  pl_total :: int
  pl_time :: int
  pl_rating :: rat
  pl_updated :: string

record ChartRow =
  ch_name :: string
  ch_plays :: nat
  ch_sum_acc :: rat
  ch_pass_rate :: rat
  ch_last_played :: string
  ch_popularity :: rat
  ch_updated :: string

record StatsDB =
  consumed :: "string set"
  next_match :: nat
  matches :: "MatchRow list"
  match_results :: "ResultRow list"
  player_stats :: "(int \<times> PlayerRow) list"
  user_names :: "(int \<times> string \<times> string) list"
  chart_stats :: "(int \<times> ChartRow) list"

definition empty_db :: StatsDB where
  "empty_db = \<lparr>consumed = {}, next_match = 1, matches = [], match_results = [], player_stats = [], user_names = [], chart_stats = []\<rparr>"

section \<open>Recording a match\<close>

definition popularityHalfLifeDays :: int where "popularityHalfLifeDays = 30"
definition eloKFactor :: rat where "eloKFactor = 32"
definition eloBaseRating :: rat where "eloBaseRating = 1500"

record rankedResult =
  rk_record :: RecordRow
  rk_rank :: nat

text \<open>The second loop of \<open>rankByScore\<close>: equal scores share the rank of the first of them.\<close>

fun rank_loop :: "nat \<Rightarrow> (int \<times> nat) option \<Rightarrow> RecordRow list \<Rightarrow> rankedResult list" where
  "rank_loop i prev [] = []"
| "rank_loop i prev (r # rs) =
     (let rank = (case prev of Some (score, k) \<Rightarrow> if sr_Score r = score then k else i + 1 | None \<Rightarrow> i + 1)
      in \<lparr>rk_record = r, rk_rank = rank\<rparr> # rank_loop (i + 1) (Some (sr_Score r, rank)) rs)"

definition rankByScore :: "StatsEnv \<Rightarrow> int list \<Rightarrow> (int \<rightharpoonup> RecordRow) \<Rightarrow> rankedResult list" where
  "rankByScore env userIDs results =
     (let entries = List.map_filter (\<lambda>uid. map_option (\<lambda>rd. (uid, sr_Score rd)) (results uid)) userIDs
      in rank_loop 0 None (map (\<lambda>(uid, _). the (results uid)) (by_falling env (\<lambda>(_, score). of_int score) entries)))"

definition loadRatings :: "StatsDB \<Rightarrow> int list \<Rightarrow> int \<Rightarrow> rat" where
  "loadRatings db userIDs uid =
     (if uid \<in> set userIDs then (case map_of (player_stats db) uid of Some r \<Rightarrow> pl_rating r | None \<Rightarrow> eloBaseRating) else 0)"

fun pairs :: "'a list \<Rightarrow> ('a \<times> 'a) list" where
  "pairs [] = []"
| "pairs (x # xs) = map (Pair x) xs @ pairs xs"

definition expected :: "StatsEnv \<Rightarrow> rat \<Rightarrow> rat \<Rightarrow> rat" where
  "expected env ra rb = flt (1 / flt (1 + se_pow10 env (flt (flt (rb - ra) / 400))))"

definition elo_pair :: "StatsEnv \<Rightarrow> (int \<Rightarrow> rat) \<Rightarrow> rankedResult \<times> rankedResult \<Rightarrow> (int \<Rightarrow> rat) \<Rightarrow> int \<Rightarrow> rat" where
  "elo_pair env old = (\<lambda>(a, b) deltas.
     let ua = sr_Player (rk_record a); ub = sr_Player (rk_record b);
         ea = expected env (old ua) (old ub);
         eb = flt (1 - ea);
         (sa, sb) = (if rk_rank a < rk_rank b then (1, 0) else if rk_rank a > rk_rank b then (0, 1) else (1 / 2, 1 / 2));
         deltas = deltas(ua := flt (deltas ua + flt (eloKFactor * flt (sa - ea))))
     in deltas(ub := flt (deltas ub + flt (eloKFactor * flt (sb - eb)))))"

definition computeELO :: "StatsEnv \<Rightarrow> rankedResult list \<Rightarrow> (int \<Rightarrow> rat) \<Rightarrow> int \<Rightarrow> rat" where
  "computeELO env ranked old = fold (elo_pair env old) (pairs ranked) (\<lambda>_. 0)"

text \<open>\<open>int(durationSec)\<close> cuts off the fraction.\<close>

definition int_of_float :: "rat \<Rightarrow> int" where
  "int_of_float x = (if x < 0 then \<lceil>x\<rceil> else \<lfloor>x\<rfloor>)"

definition boolToInt :: "bool \<Rightarrow> nat" where "boolToInt b = (if b then 1 else 0)"

record MatchData =
  md_eventID :: string
  md_roomID :: string
  md_chartID :: int
  md_chartName :: string
  md_userIDs :: "int list"
  md_results :: "(int \<times> RecordRow) list"
  md_names :: "int \<rightharpoonup> string"
  md_duration :: rat

text \<open>The upsert of \<open>player_stats\<close> for one result.\<close>

definition upsert_player :: "string \<Rightarrow> rat \<Rightarrow> rat \<Rightarrow> rankedResult \<Rightarrow> StatsDB \<Rightarrow> StatsDB" where
  "upsert_player now duration newRating rr db =
     (let rd = rk_record rr; uid = sr_Player rd; wins = boolToInt (rk_rank rr = 1); sec = int_of_float duration;
          row = (case map_of (player_stats db) uid of
              None \<Rightarrow> \<lparr>pl_games = 1, pl_wins = wins, pl_sum_acc = sr_Accuracy rd, pl_best = sr_Score rd, pl_total = sr_Score rd,
                       pl_time = sec, pl_rating = newRating, pl_updated = now\<rparr>
            | Some old \<Rightarrow> \<lparr>pl_games = pl_games old + 1, pl_wins = pl_wins old + wins,
                       pl_sum_acc = flt (pl_sum_acc old + sr_Accuracy rd), pl_best = max (pl_best old) (sr_Score rd),
                       pl_total = pl_total old + sr_Score rd, pl_time = pl_time old + sec, pl_rating = newRating, pl_updated = now\<rparr>)
      in db\<lparr>player_stats := AList.update uid row (player_stats db)\<rparr>)"

definition upsert_name :: "string \<Rightarrow> int \<Rightarrow> string \<Rightarrow> StatsDB \<Rightarrow> StatsDB" where
  "upsert_name now uid name db =
     (let shown = (case map_of (user_names db) uid of
          None \<Rightarrow> name | Some (old, _) \<Rightarrow> if name = [] then old else name)
      in db\<lparr>user_names := AList.update uid (shown, now) (user_names db)\<rparr>)"

definition insert_result :: "nat \<Rightarrow> rankedResult \<Rightarrow> StatsDB \<Rightarrow> StatsDB" where
  "insert_result matchID rr db =
     (let rd = rk_record rr
      in db\<lparr>match_results := match_results db @
        [\<lparr>rw_match = matchID, rw_record = rd, rw_full_combo = (if sr_FullCombo rd then 1 else 0),
          rw_std = (case sr_Std rd of None \<Rightarrow> 0 | Some x \<Rightarrow> x), rw_std_score = (case sr_StdScore rd of None \<Rightarrow> 0 | Some x \<Rightarrow> x),
          rw_rank = rk_rank rr\<rparr>]\<rparr>)"

record RecordMatchResult =
  rm_UserID :: int
  rm_Rating :: rat
  rm_PlayTimeSec :: int
  rm_TotalScore :: int

text \<open>One round of the loop over the ranked results.\<close>

definition record_result :: "string \<Rightarrow> MatchData \<Rightarrow> nat \<Rightarrow> (int \<Rightarrow> rat) \<Rightarrow> (int \<Rightarrow> rat) \<Rightarrow> rankedResult \<Rightarrow> StatsDB \<Rightarrow> StatsDB" where
  "record_result now m matchID old deltas rr db =
     (let uid = sr_Player (rk_record rr); newRating = flt (old uid + deltas uid)
      in upsert_name now uid (case md_names m uid of None \<Rightarrow> [] | Some n \<Rightarrow> n)
           (upsert_player now (md_duration m) newRating rr (insert_result matchID rr db)))"

text \<open>The loop over a Go map takes its entries in any order; here it is the order of the list.\<close>

definition sumAcc :: "(int \<times> RecordRow) list \<Rightarrow> rat" where
  "sumAcc results = foldl (\<lambda>s (_, rd). flt (s + sr_Accuracy rd)) 0 results"

definition upsert_chart :: "StatsEnv \<Rightarrow> string \<Rightarrow> MatchData \<Rightarrow> StatsDB \<Rightarrow> StatsDB" where
  "upsert_chart env now m db =
     (if md_chartID m = 0 then db
      else let n = length (md_results m);
               passCount = length (filter (\<lambda>(_, rd). sr_Score rd > 0) (md_results m));
               row = (case map_of (chart_stats db) (md_chartID m) of
                   None \<Rightarrow> \<lparr>ch_name = md_chartName m, ch_plays = n, ch_sum_acc = sumAcc (md_results m),
                        ch_pass_rate = (if n > 0 then flt (of_nat passCount / of_nat n) else 0), ch_last_played = now,
                        ch_popularity = of_nat n, ch_updated = now\<rparr>
                 | Some old \<Rightarrow> \<lparr>ch_name = md_chartName m, ch_plays = ch_plays old + n,
                        ch_sum_acc = flt (ch_sum_acc old + sumAcc (md_results m)),
                        ch_pass_rate = (if ch_plays old + n > 0
                          then flt (flt (flt (ch_pass_rate old * of_nat (ch_plays old)) + of_nat passCount) / of_nat (ch_plays old + n))
                          else 0),
                        ch_last_played = now,
                        ch_popularity = (if ch_last_played old \<noteq> []
                          then flt (flt (ch_popularity old * se_decay env now (ch_last_played old)) + of_nat n) else of_nat n),
                        ch_updated = now\<rparr>)
           in db\<lparr>chart_stats := AList.update (md_chartID m) row (chart_stats db)\<rparr>)"

text \<open>The statements of the transaction; \<open>started\<close> is the default \<open>datetime('now')\<close> of the match.\<close>

definition claim_event :: "string \<Rightarrow> StatsDB \<Rightarrow> StatsDB" where
  "claim_event eventID db = (if eventID = [] then db else db\<lparr>consumed := insert eventID (consumed db)\<rparr>)"

definition insert_match :: "string \<Rightarrow> MatchData \<Rightarrow> StatsDB \<Rightarrow> StatsDB" where
  "insert_match started m db =
     db\<lparr>next_match := next_match db + 1, matches := matches db @
       [\<lparr>mr_id = next_match db, mr_room = md_roomID m, mr_chart = md_chartID m, mr_chart_name = md_chartName m, mr_started = started,
         mr_duration = md_duration m, mr_n = length (md_userIDs m)\<rparr>]\<rparr>"

definition record_match :: "StatsEnv \<Rightarrow> string \<times> string \<Rightarrow> MatchData \<Rightarrow> StatsDB \<Rightarrow> StatsDB" where
  "record_match env clock m db =
     (let matchID = next_match db;
          db = insert_match (snd clock) m (claim_event (md_eventID m) db);
          old = loadRatings db (md_userIDs m);
          ranked = rankByScore env (md_userIDs m) (map_of (md_results m));
          deltas = computeELO env ranked old
      in upsert_chart env (fst clock) m (fold (record_result (fst clock) m matchID old deltas) ranked db))"

text \<open>What is returned: the new ratings, and the play time that is read after the commit.\<close>

definition match_reply :: "StatsEnv \<Rightarrow> MatchData \<Rightarrow> StatsDB \<Rightarrow> StatsDB \<Rightarrow> RecordMatchResult list" where
  "match_reply env m before after =
     (let old = loadRatings before (md_userIDs m); ranked = rankByScore env (md_userIDs m) (map_of (md_results m));
          deltas = computeELO env ranked old
      in map (\<lambda>rr. let uid = sr_Player (rk_record rr) in
          \<lparr>rm_UserID = uid, rm_Rating = flt (old uid + deltas uid),
           rm_PlayTimeSec = (case map_of (player_stats after) uid of Some r \<Rightarrow> pl_time r | None \<Rightarrow> 0),
           rm_TotalScore = sr_Score (rk_record rr)\<rparr>) ranked)"

datatype tx_fate = TxRolledBack | TxCommitted | TxCommittedError

definition RecordMatchEvent :: "StatsEnv \<Rightarrow> tx_fate \<Rightarrow> string \<times> string \<Rightarrow> MatchData \<Rightarrow> StatsDB
    \<Rightarrow> (string + RecordMatchResult list) \<times> StatsDB" where
  "RecordMatchEvent env fate clock m db =
     (if fate = TxRolledBack then (Inl ''stats'', db)
      else if md_eventID m \<noteq> [] \<and> md_eventID m \<in> consumed db then (Inr [], db)
      else let db' = record_match env clock m db
        in (if fate = TxCommitted then Inr (match_reply env m db db') else Inl ''stats: commit'', db'))"

definition RecordMatch :: "StatsEnv \<Rightarrow> tx_fate \<Rightarrow> string \<times> string \<Rightarrow> MatchData \<Rightarrow> StatsDB
    \<Rightarrow> (string + RecordMatchResult list) \<times> StatsDB" where
  "RecordMatch env fate clock m db = RecordMatchEvent env fate clock (m\<lparr>md_eventID := []\<rparr>) db"

section \<open>The processor\<close>

definition match_data :: "string \<Rightarrow> MatchFinishedV1 \<Rightarrow> MatchData" where
  "match_data eventID f =
     \<lparr>md_eventID = eventID, md_roomID = mf_RoomID f, md_chartID = mf_ChartID f, md_chartName = mf_ChartName f,
      md_userIDs = map mp_PlayerID (mf_Results f),
      md_results = fold (\<lambda>r. AList.update (mp_PlayerID r) ((mp_Record r)\<lparr>sr_Player := mp_PlayerID r\<rparr>)) (mf_Results f) [],
      md_names = fold (\<lambda>r names. names(mp_PlayerID r \<mapsto> mp_PlayerName r)) (mf_Results f) Map.empty,
      md_duration = mf_Duration f\<rparr>"

definition EventMatchFinishedV1 :: string where "EventMatchFinishedV1 = ''match.finished.v1''"

definition stats_handle :: "StatsEnv \<Rightarrow> (tx_fate \<times> string \<times> string, StatsDB) handler" where
  "stats_handle env fate e db =
     (if Type e = EventMatchFinishedV1 then
        (case se_parse env (Payload e) of
           None \<Rightarrow> (Some ''json'', db)
         | Some f \<Rightarrow>
             (case RecordMatchEvent env (fst fate) (snd fate) (match_data (ID e) f) db of
                (Inl err, db) \<Rightarrow> (Some err, db)
              | (Inr _, db) \<Rightarrow> (None, db)))
      else (None, db))"

definition stats_Process :: "Codec \<Rightarrow> StatsEnv \<Rightarrow> int \<Rightarrow> (Envelope \<Rightarrow> (tx_fate \<times> string \<times> string) \<times> replace_fate) \<Rightarrow> Inbox \<Rightarrow> InboxDisk
    \<Rightarrow> StatsDB Proc \<Rightarrow> nat \<times> string option \<times> StatsDB Proc" where
  "stats_Process cd env = Process cd (stats_handle env) (\<lambda>_ _ db. db)"

section \<open>Maintenance\<close>

text \<open>\<open>before\<close> compares a time with the cut-off that SQLite computes.\<close>

definition CleanupDetail :: "(string \<Rightarrow> bool) \<Rightarrow> int \<Rightarrow> StatsDB \<Rightarrow> StatsDB" where
  "CleanupDetail before retentionDays db =
     (if retentionDays \<le> 0 then db
      else let old = map mr_id (filter (\<lambda>m. before (mr_started m)) (matches db));
               kept = filter (\<lambda>r. rw_match r \<notin> set old) (match_results db)
        in db\<lparr>match_results := kept, matches := filter (\<lambda>m. mr_id m \<in> rw_match ` set kept) (matches db)\<rparr>)"

section \<open>Every match is recorded once\<close>

text \<open>The matches among the events of an inbox, the first with each identifier.\<close>

fun match_of :: "StatsEnv \<Rightarrow> Envelope \<Rightarrow> MatchData option" where
  "match_of env e = (if Type e = EventMatchFinishedV1 then map_option (match_data (ID e)) (se_parse env (Payload e)) else None)"

fun distinct_matches :: "MatchData list \<Rightarrow> MatchData list" where
  "distinct_matches [] = []"
| "distinct_matches (m # ms) = m # filter (\<lambda>x. md_eventID x \<noteq> md_eventID m) (distinct_matches ms)"

definition matches_of :: "StatsEnv \<Rightarrow> Envelope list \<Rightarrow> MatchData list" where
  "matches_of env es = distinct_matches (List.map_filter (match_of env) es)"

text \<open>The specification: the matches are recorded one after the other, each once.\<close>

definition book :: "StatsEnv \<Rightarrow> (string \<times> string) list \<Rightarrow> MatchData list \<Rightarrow> StatsDB" where
  "book env clocks ms = fold (\<lambda>(clock, m). record_match env clock m) (zip clocks ms) empty_db"

text \<open>Everything but the single results, which the maintenance deletes after some days.\<close>

definition rollups :: "StatsDB \<Rightarrow> StatsDB" where
  "rollups db = db\<lparr>matches := [], match_results := []\<rparr>"

definition recorded :: "StatsEnv \<Rightarrow> StatsDB \<Rightarrow> Envelope list \<Rightarrow> bool" where
  "recorded env db es \<longleftrightarrow> ((\<forall>e \<in> set es. ID e \<noteq> []) \<longrightarrow>
     (\<exists>clocks. length clocks = length (matches_of env es) \<and> rollups db = rollups (book env clocks (matches_of env es))))"

lemma distinct_matches_set: "md_eventID ` set (distinct_matches ms) = md_eventID ` set ms"
proof (induction ms)
  case (Cons m ms)
  have "insert (md_eventID m) (md_eventID ` {x \<in> set (distinct_matches ms). md_eventID x \<noteq> md_eventID m})
      = insert (md_eventID m) (md_eventID ` set (distinct_matches ms))" by auto
  then show ?case using Cons by simp
qed simp

lemma distinct_matches_snoc:
  "distinct_matches (ms @ [m]) = distinct_matches ms @ (if md_eventID m \<in> md_eventID ` set ms then [] else [m])"
  by (induction ms) auto

lemma matches_of_snoc:
  "matches_of env (es @ [e]) = matches_of env es @ (case match_of env e of None \<Rightarrow> []
     | Some m \<Rightarrow> if md_eventID m \<in> md_eventID ` set (matches_of env es) then [] else [m])"
proof -
  have "List.map_filter (match_of env) (es @ [e]) = List.map_filter (match_of env) es
      @ (case match_of env e of None \<Rightarrow> [] | Some m \<Rightarrow> [m])"
    by (simp add: map_filter_def split: option.split)
  then show ?thesis by (auto simp: matches_of_def distinct_matches_snoc distinct_matches_set split: option.split)
qed

lemma book_snoc: "length clocks = length ms \<Longrightarrow> book env (clocks @ [c]) (ms @ [m]) = record_match env c m (book env clocks ms)"
  by (simp add: book_def)

text \<open>What recording does to the single results does not depend on the rest and the other way round.\<close>

lemma rollups_sel [simp]:
  "consumed (rollups db) = consumed db" "next_match (rollups db) = next_match db" "player_stats (rollups db) = player_stats db"
  "user_names (rollups db) = user_names db" "chart_stats (rollups db) = chart_stats db"
  by (simp_all add: rollups_def)

lemma rollups_parts:
  "rollups (upsert_player now d r rr db) = upsert_player now d r rr (rollups db)"
  "rollups (upsert_name now uid n db) = upsert_name now uid n (rollups db)"
  "rollups (insert_result k rr db) = rollups db"
  "rollups (upsert_chart env now m db) = upsert_chart env now m (rollups db)"
  "rollups (claim_event i db) = claim_event i (rollups db)"
  "rollups (insert_match s m db) = (rollups db)\<lparr>next_match := next_match db + 1\<rparr>"
  by (simp_all add: rollups_def upsert_player_def upsert_name_def insert_result_def upsert_chart_def claim_event_def insert_match_def Let_def)

lemma rollups_fold:
  "rollups db = rollups db' \<Longrightarrow> rollups (fold (record_result now m k old deltas) rs db) = rollups (fold (record_result now m k old deltas) rs db')"
proof (induction rs arbitrary: db db')
  case (Cons r rs)
  have "rollups (record_result now m k old deltas r db) = rollups (record_result now m k old deltas r db')"
    using Cons.prems by (simp add: record_result_def Let_def rollups_parts)
  from Cons.IH [OF this] show ?case by simp
qed simp

lemma loadRatings_rollups: "loadRatings (rollups db) = loadRatings db"
  by (simp add: loadRatings_def fun_eq_iff)

lemma rollups_record_match: "rollups db = rollups db' \<Longrightarrow> rollups (record_match env c m db) = rollups (record_match env c m db')"
proof -
  assume r: "rollups db = rollups db'"
  let ?start = "\<lambda>db. insert_match (snd c) m (claim_event (md_eventID m) db)"
  have next_same: "next_match db = next_match db'" using r by (metis rollups_sel(2))
  have start: "rollups (?start db) = rollups (?start db')"
    using r next_same by (simp add: rollups_parts) (simp add: claim_event_def)
  then have old: "loadRatings (?start db) = loadRatings (?start db')" by (metis loadRatings_rollups)
  show ?thesis unfolding record_match_def Let_def rollups_parts(4) old next_same using rollups_fold [OF start] by simp
qed

lemma consumed_parts:
  "consumed (upsert_player now d r rr db) = consumed db" "consumed (upsert_name now uid n db) = consumed db"
  "consumed (insert_result k rr db) = consumed db" "consumed (upsert_chart env now m db) = consumed db"
  "consumed (insert_match s m db) = consumed db" "consumed (record_result now m k old deltas rr db) = consumed db"
  by (simp_all add: upsert_player_def upsert_name_def insert_result_def upsert_chart_def insert_match_def record_result_def Let_def)

lemma consumed_record_match: "consumed (record_match env c m db) = (if md_eventID m = [] then {} else {md_eventID m}) \<union> consumed db"
proof -
  have f: "consumed (fold (record_result now m k old deltas) rs db) = consumed db" for now k old deltas rs db
    by (induction rs arbitrary: db) (simp_all add: consumed_parts)
  show ?thesis by (simp add: record_match_def Let_def f consumed_parts claim_event_def)
qed

lemma consumed_book:
  "length clocks = length ms \<Longrightarrow> consumed (book env clocks ms) = md_eventID ` set ms - {[]}"
proof (induction ms arbitrary: clocks rule: rev_induct)
  case (snoc m ms)
  then obtain c cs where c: "clocks = cs @ [c]" "length cs = length ms" by (cases clocks rule: rev_cases) auto
  show ?case using snoc.IH [OF c(2)] by (auto simp: c book_snoc consumed_record_match)
qed (simp add: book_def empty_db_def)

text \<open>The three outcomes of a transaction.\<close>

lemma recorded_none: "recorded env db es \<Longrightarrow> match_of env e = None \<Longrightarrow> recorded env db (es @ [e])"
  by (auto simp: recorded_def matches_of_snoc)

lemma recorded_again:
  "recorded env db es \<Longrightarrow> match_of env e = Some m \<Longrightarrow> md_eventID m \<in> consumed db \<Longrightarrow> recorded env db (es @ [e])"
proof -
  assume r: "recorded env db es" and m: "match_of env e = Some m" "md_eventID m \<in> consumed db"
  show ?thesis
    unfolding recorded_def
  proof
    assume ids: "\<forall>e \<in> set (es @ [e]). ID e \<noteq> []"
    then obtain clocks where c: "length clocks = length (matches_of env es)" "rollups db = rollups (book env clocks (matches_of env es))"
      using r by (auto simp: recorded_def)
    then have "consumed db = md_eventID ` set (matches_of env es) - {[]}" by (metis rollups_sel(1) consumed_book)
    then have "matches_of env (es @ [e]) = matches_of env es" using m by (auto simp: matches_of_snoc)
    then show "\<exists>clocks. length clocks = length (matches_of env (es @ [e]))
        \<and> rollups db = rollups (book env clocks (matches_of env (es @ [e])))"
      using c by auto
  qed
qed

lemma recorded_new:
  "recorded env db es \<Longrightarrow> match_of env e = Some m \<Longrightarrow> md_eventID m = ID e \<Longrightarrow> md_eventID m \<notin> consumed db
    \<Longrightarrow> recorded env (record_match env c m db) (es @ [e])"
proof -
  assume r: "recorded env db es" and m: "match_of env e = Some m" "md_eventID m = ID e" "md_eventID m \<notin> consumed db"
  show ?thesis
    unfolding recorded_def
  proof
    assume ids: "\<forall>e \<in> set (es @ [e]). ID e \<noteq> []"
    then obtain clocks where cl: "length clocks = length (matches_of env es)" "rollups db = rollups (book env clocks (matches_of env es))"
      using r by (auto simp: recorded_def)
    then have "consumed db = md_eventID ` set (matches_of env es) - {[]}" by (metis rollups_sel(1) consumed_book)
    then have more: "matches_of env (es @ [e]) = matches_of env es @ [m]" using m ids by (auto simp: matches_of_snoc)
    have "rollups (record_match env c m db) = rollups (book env (clocks @ [c]) (matches_of env es @ [m]))"
      using rollups_record_match [OF cl(2)] by (simp add: book_snoc [OF cl(1)])
    then show "\<exists>clocks. length clocks = length (matches_of env (es @ [e]))
        \<and> rollups (record_match env c m db) = rollups (book env clocks (matches_of env (es @ [e])))"
      unfolding more using cl(1) by (intro exI [of _ "clocks @ [c]"]) simp
  qed
qed

lemma match_of_data: "match_of env e = Some m \<Longrightarrow> md_eventID m = ID e"
  by (auto simp: match_data_def split: if_splits)

definition stats_begun :: "StatsEnv \<Rightarrow> StatsDB \<Rightarrow> Envelope list \<Rightarrow> Envelope \<Rightarrow> bool" where
  "stats_begun env db es e \<longleftrightarrow> recorded env db es \<or> recorded env db (es @ [e])"

definition maintained :: "StatsDB \<Rightarrow> StatsDB \<Rightarrow> bool" where
  "maintained db db' \<longleftrightarrow> (\<exists>before days. db' = CleanupDetail before days db)"

lemma rollups_CleanupDetail [simp]: "rollups (CleanupDetail before days db) = rollups db"
  by (simp add: CleanupDetail_def rollups_def Let_def)

lemma recorded_maintained: "maintained db db' \<Longrightarrow> recorded env db es \<Longrightarrow> recorded env db' es"
  by (auto simp: maintained_def recorded_def)

lemma recorded_consumed: "recorded env db es \<Longrightarrow> \<forall>e \<in> set es. ID e \<noteq> [] \<Longrightarrow> consumed db = md_eventID ` set (matches_of env es) - {[]}"
  unfolding recorded_def by (metis rollups_sel(1) consumed_book)

lemma matches_of_member: "match_of env e = Some m \<Longrightarrow> md_eventID m \<in> md_eventID ` set (matches_of env (es @ [e]))"
  by (simp add: matches_of_snoc del: match_of.simps)

lemma recorded_ids: "(\<forall>e \<in> set es. ID e \<noteq> [] \<Longrightarrow> recorded env db es) \<Longrightarrow> recorded env db es"
  by (auto simp: recorded_def)

lemma stats_handle_cases:
  assumes "stats_handle env f e db = (r, db')"
  obtains (no_match) "match_of env e = None" "db' = db"
  | (failed) m err where "match_of env e = Some m" "r = Some err" "db' = db"
  | (known) m where "match_of env e = Some m" "r = None" "db' = db" "ID e \<in> consumed db"
  | (new) m where "match_of env e = Some m" "db' = record_match env (snd f) m db" "ID e = [] \<or> ID e \<notin> consumed db"
proof (cases "match_of env e")
  case None
  then show ?thesis using assms that(1) by (auto simp: stats_handle_def split: if_splits option.splits)
next
  case (Some m)
  obtain res db1 where step: "RecordMatchEvent env (fst f) (snd f) m db = (res, db1)" by fastforce
  have r: "db' = db1" "r = (case res of Inl err \<Rightarrow> Some err | Inr _ \<Rightarrow> None)"
    using assms Some step by (auto simp: stats_handle_def split: if_splits option.splits sum.splits)
  have i: "md_eventID m = ID e" by (rule match_of_data [OF Some])
  consider "fst f = TxRolledBack" | "fst f \<noteq> TxRolledBack" "ID e \<noteq> []" "ID e \<in> consumed db"
    | "fst f \<noteq> TxRolledBack" "ID e = [] \<or> ID e \<notin> consumed db" by blast
  then show ?thesis
  proof cases
    case 1
    then have "r = Some ''stats''" "db' = db" using step r by (auto simp: RecordMatchEvent_def)
    with Some show ?thesis by (rule that(2))
  next
    case 2
    then have "r = None" "db' = db" using step r i by (auto simp: RecordMatchEvent_def)
    with Some show ?thesis using 2(3) by (rule that(3))
  next
    case 3
    then have "db' = record_match env (snd f) m db" using step r i by (auto simp: RecordMatchEvent_def Let_def)
    with Some show ?thesis using 3(2) by (rule that(4))
  qed
qed

text \<open>An attempt leaves the events recorded that were, and when it reports no error the new one too.\<close>

lemma stats_again:
  assumes rec: "recorded env db (es @ [e])" and h: "stats_handle env f e db = (r, db')"
  shows "recorded env db' (es @ [e])"
proof (rule recorded_ids)
  assume ids: "\<forall>e \<in> set (es @ [e]). ID e \<noteq> []"
  from h show ?thesis
  proof (cases rule: stats_handle_cases)
    case (new m)
    then have "ID e \<in> md_eventID ` set (matches_of env (es @ [e]))" using matches_of_member [OF new(1)] match_of_data [OF new(1)] by metis
    then have "ID e \<in> consumed db" using recorded_consumed [OF rec ids] ids by simp
    then show ?thesis using new(3) ids by simp
  qed (use rec in auto)
qed

lemma stats_attempt:
  assumes rec: "recorded env db es" and h: "stats_handle env f e db = (r, db')"
  shows "recorded env db' (es @ [e]) \<or> r \<noteq> None \<and> db' = db"
  using h
proof (cases rule: stats_handle_cases)
  case no_match
  then show ?thesis using recorded_none [OF rec] by simp
next
  case (failed m err)
  then show ?thesis by simp
next
  case (known m)
  then show ?thesis using recorded_again [OF rec known(1)] match_of_data [OF known(1)] by simp
next
  case (new m)
  have "recorded env db' (es @ [e])"
  proof (rule recorded_ids)
    assume "\<forall>e \<in> set (es @ [e]). ID e \<noteq> []"
    then show ?thesis using recorded_new [OF rec new(1)] match_of_data [OF new(1)] new(2,3) by simp
  qed
  then show ?thesis ..
qed

lemma stats_begun_step:
  assumes "stats_begun env db es e" and h: "stats_handle env f e db = (r, db')"
  shows "stats_begun env db' es e" and "r = None \<Longrightarrow> recorded env db' (es @ [e])"
  using assms(1) stats_again [OF _ h] stats_attempt [OF _ h] by (auto simp: stats_begun_def)

interpretation stats: event_handler "stats_handle env" "\<lambda>_ _ db. db" maintained "recorded env" "stats_begun env"
    "\<lambda>db es e. recorded env db (es @ [e])"
  for env
proof (unfold_locales, goal_cases)
  case (4 db es e f err db')
  then show ?case by (rule stats_begun_step(1))
next
  case (5 db es e f db')
  then show ?case by (auto intro: stats_begun_step(2))
next
  case (6 db es e f err db')
  then show ?case by (rule stats_again)
qed (auto simp: stats_begun_def recorded_maintained)

end
