(* ===== verification/Go_Strconv.thy ===== *)
theory Go_Strconv
  imports Phira_Prelude
begin

text \<open>
  The conversions between decimal texts and integers of the Go library that the program uses,
  \<open>strconv.Itoa\<close>, \<open>strconv.Atoi\<close>, and \<open>strings.Split\<close> at a single byte.  An \<open>int\<close> of Go has 64 bits:
  \<open>Atoi\<close> refuses a number outside of its range.  The locale \<open>text_key\<close> is what a container that
  stores its keys as texts asks of them.
\<close>

section \<open>Numbers\<close>

fun nat_digits :: "nat \<Rightarrow> string" where
  "nat_digits n = (if n < 10 then [char_of (48 + n)] else nat_digits (n div 10) @ [char_of (48 + n mod 10)])"

declare nat_digits.simps [simp del]

definition Itoa :: "int \<Rightarrow> string" where
  "Itoa n = (if n < 0 then CHR ''-'' # nat_digits (nat (- n)) else nat_digits (nat n))"

definition is_digit :: "char \<Rightarrow> bool" where
  "is_digit c \<longleftrightarrow> 48 \<le> (of_char c :: nat) \<and> (of_char c :: nat) \<le> 57"

definition digit_val :: "char \<Rightarrow> nat" where
  "digit_val c = of_char c - 48"

definition digits_val :: "string \<Rightarrow> nat" where
  "digits_val s = foldl (\<lambda>n c. n * 10 + digit_val c) 0 s"

definition ParseDigits :: "string \<Rightarrow> nat option" where
  "ParseDigits s = (if s \<noteq> [] \<and> list_all is_digit s then Some (digits_val s) else None)"

definition in_int64 :: "int \<Rightarrow> bool" where
  "in_int64 n \<longleftrightarrow> - (2 ^ 63) \<le> n \<and> n < 2 ^ 63"

definition Atoi :: "string \<Rightarrow> int option" where
  "Atoi s =
     (let (neg, body) = (case s of
          c # cs \<Rightarrow> if c = CHR ''-'' then (True, cs) else if c = CHR ''+'' then (False, cs) else (False, s)
        | [] \<Rightarrow> (False, s))
      in case ParseDigits body of
          None \<Rightarrow> None
        | Some n \<Rightarrow> let v = (if neg then - int n else int n) in if in_int64 v then Some v else None)"

lemma of_char_digit: "k < 10 \<Longrightarrow> of_char (char_of (48 + k) :: char) = (48 + k :: nat)"
  by (simp add: of_char_of)

lemma digits_val_snoc: "digits_val (s @ [c]) = digits_val s * 10 + digit_val c"
  by (simp add: digits_val_def)

lemma nat_digits_value: "digits_val (nat_digits n) = n" "list_all is_digit (nat_digits n)" "nat_digits n \<noteq> []"
proof (induction n rule: nat_digits.induct)
  case (1 n)
  have d: "(of_char (char_of (48 + n mod 10) :: char) :: nat) = 48 + n mod 10" by (rule of_char_digit) simp
  {
    case 1
    show ?case
    proof (cases "n < 10")
      case True
      then show ?thesis using of_char_digit [of n] by (subst nat_digits.simps) (simp add: digits_val_def digit_val_def)
    next
      case False
      then show ?thesis using "1.IH"(1) d
        by (subst nat_digits.simps) (simp add: digits_val_snoc digit_val_def)
    qed
  next
    case 2
    show ?case
    proof (cases "n < 10")
      case True
      then show ?thesis using of_char_digit [of n] by (subst nat_digits.simps) (simp add: is_digit_def)
    next
      case False
      have "n mod 10 < 10" by simp
      then have "is_digit (char_of (48 + n mod 10))" unfolding is_digit_def d by linarith
      then show ?thesis using "1.IH"(2) False by (subst nat_digits.simps) simp
    qed
  next
    case 3
    show ?case by (subst nat_digits.simps) simp
  }
qed

lemma ParseDigits_nat_digits [simp]: "ParseDigits (nat_digits n) = Some n"
  by (simp add: ParseDigits_def nat_digits_value)

lemma nat_digits_head: "hd (nat_digits n) \<noteq> CHR ''-''" "hd (nat_digits n) \<noteq> CHR ''+''"
  using nat_digits_value(2,3) [of n] by (cases "nat_digits n"; auto simp: is_digit_def)+

lemma Atoi_Itoa: "in_int64 n \<Longrightarrow> Atoi (Itoa n) = Some n"
proof (cases "n < 0")
  case True
  assume "in_int64 n"
  with True show ?thesis by (simp add: Atoi_def Itoa_def)
next
  case False
  assume "in_int64 n"
  obtain c cs where c: "nat_digits (nat n) = c # cs" using nat_digits_value(3) [of "nat n"] by (cases "nat_digits (nat n)") auto
  then show ?thesis
    using False \<open>in_int64 n\<close> nat_digits_head [of "nat n"] ParseDigits_nat_digits [of "nat n"]
    by (simp add: Atoi_def Itoa_def c)
qed

lemma Atoi_range: "Atoi s = Some n \<Longrightarrow> in_int64 n"
  by (auto simp: Atoi_def Let_def split: prod.splits option.splits if_splits)

section \<open>Splitting\<close>

text \<open>\<open>strings.Split(s, sep)\<close> for a separator of one byte: always at least one part.\<close>

fun Split :: "char \<Rightarrow> string \<Rightarrow> string list" where
  "Split sep [] = [[]]"
| "Split sep (c # cs) = (if c = sep then [] # Split sep cs
     else case Split sep cs of p # ps \<Rightarrow> (c # p) # ps | [] \<Rightarrow> [[c]])"

text \<open>\<open>strings.Join(parts, sep)\<close>.\<close>

fun Join :: "char \<Rightarrow> string list \<Rightarrow> string" where
  "Join sep [] = []"
| "Join sep [p] = p"
| "Join sep (p # ps) = p @ sep # Join sep ps"

lemma Split_nonempty [simp]: "Split sep s \<noteq> []"
  by (induction s) (auto split: list.splits)

lemma Join_Cons: "ps \<noteq> [] \<Longrightarrow> Join sep (p # ps) = p @ sep # Join sep ps"
  by (cases ps) auto

lemma Join_Split: "Join sep (Split sep s) = s"
proof (induction s)
  case (Cons c cs)
  obtain p ps where ps: "Split sep cs = p # ps" by (cases "Split sep cs") auto
  show ?case
  proof (cases "c = sep")
    case True
    then show ?thesis using Cons Join_Cons [of "Split sep cs" sep "[]"] by simp
  next
    case False
    then show ?thesis using Cons by (cases ps) (simp_all add: ps)
  qed
qed simp

lemma Split_part: "sep \<notin> set p \<Longrightarrow> Split sep (p @ sep # s) = p # Split sep s"
  by (induction p) auto

lemma Split_last: "sep \<notin> set p \<Longrightarrow> Split sep p = [p]"
  by (induction p) auto

lemma Split_Join: "ps \<noteq> [] \<Longrightarrow> \<forall>p \<in> set ps. sep \<notin> set p \<Longrightarrow> Split sep (Join sep ps) = ps"
  by (induction sep ps rule: Join.induct) (simp_all add: Split_part Split_last)

section \<open>Keys as texts\<close>

locale text_key =
  fixes keyStr :: "'k \<Rightarrow> string" and keyParse :: "string \<Rightarrow> 'k option" and valid :: "'k \<Rightarrow> bool"
  assumes parse_str: "valid k \<Longrightarrow> keyParse (keyStr k) = Some k"
begin

lemma keyStr_inj: "valid k \<Longrightarrow> valid k' \<Longrightarrow> keyStr k = keyStr k' \<Longrightarrow> k = k'"
  using parse_str by (metis option.inject)

end

interpretation string_key: text_key "\<lambda>s. s" Some "\<lambda>_. True"
  by unfold_locales simp

interpretation int_key: text_key Itoa Atoi in_int64
  by unfold_locales (rule Atoi_Itoa)

end
