(* ===== verification/Agent_Webhook.thy ===== *)
theory Agent_Webhook
  imports Agent_Stats Go_Strconv
begin

text \<open>
  The notification of other services (\<open>agent/webhook_processor\<close>, \<open>agent/integration/webhook\<close>): an event
  of the inbox is converted, planned for the targets that subscribe to it and delivered to each; a
  ledger on the disk remembers the targets that are done, so that a retry repeats only the others.  The
  answers of the services and the fates of the writes are arguments; every call of an adapter is
  appended to a log, which the code does not have.  The decoders of the payloads and the text of a
  ledger record are parameters.  Event identifiers are UUIDs and hold no zero byte, so that a key of
  the ledger is the pair that it is made of.
\<close>

section \<open>Events and targets\<close>

record HookEvent =
  he_Type :: string
  he_Time :: int
  he_Server :: string
  he_RoomID :: string
  he_ChartID :: int
  he_ChartName :: string
  he_UserID :: int
  he_UserName :: string
  he_UserCount :: int
  he_Enabled :: bool
  he_Message :: string
  he_Difficulty :: string
  he_Charter :: string
  he_PlayerList :: string
  he_ImageURL :: string
  he_Ranks :: "(int \<times> string \<times> int \<times> rat) list"

record ChartV1 =
  cv_ID :: int
  cv_Name :: string
  cv_Difficulty :: string
  cv_Charter :: string
  cv_Illustration :: string

record GameStartedV1 =
  gs_Server :: string
  gs_RoomID :: string
  gs_Chart :: ChartV1
  gs_Players :: "(int \<times> string) list"

record GameEndedV1 =
  ge_Server :: string
  ge_RoomID :: string
  ge_Chart :: ChartV1

record ScoreSubmittedV1 =
  ss_Server :: string
  ss_RoomID :: string
  ss_Chart :: ChartV1
  ss_Ranks :: "MatchPlayerResultV1 list"

record RoomEventV1 =
  re_Server :: string
  re_RoomID :: string
  re_UserCount :: int
  re_User :: "(int \<times> string) option"

record MaintenanceChangedV1 =
  mc_Server :: string
  mc_Enabled :: bool
  mc_Message :: string

record Payloads =
  pd_started :: "bytes \<Rightarrow> GameStartedV1 option"
  pd_finished :: "bytes \<Rightarrow> MatchFinishedV1 option"
  pd_ended :: "bytes \<Rightarrow> GameEndedV1 option"
  pd_score :: "bytes \<Rightarrow> ScoreSubmittedV1 option"
  pd_room :: "bytes \<Rightarrow> RoomEventV1 option"
  pd_maintenance :: "bytes \<Rightarrow> MaintenanceChangedV1 option"

definition blank_event :: "string \<Rightarrow> int \<Rightarrow> string \<Rightarrow> string \<Rightarrow> HookEvent" where
  "blank_event ty time server room =
     \<lparr>he_Type = ty, he_Time = time, he_Server = server, he_RoomID = room, he_ChartID = 0, he_ChartName = [], he_UserID = 0,
      he_UserName = [], he_UserCount = 0, he_Enabled = False, he_Message = [], he_Difficulty = [], he_Charter = [],
      he_PlayerList = [], he_ImageURL = [], he_Ranks = []\<rparr>"

definition rank_entries :: "MatchPlayerResultV1 list \<Rightarrow> (int \<times> string \<times> int \<times> rat) list" where
  "rank_entries rs = map (\<lambda>r. (mp_PlayerID r, mp_PlayerName r, sr_Score (mp_Record r),
     case sr_StdScore (mp_Record r) of None \<Rightarrow> 0 | Some x \<Rightarrow> x)) rs"

text \<open>The separator of the players is the ideographic comma in UTF-8.\<close>

definition player_list :: "(int \<times> string) list \<Rightarrow> string" where
  "player_list ps = (let texts = map (\<lambda>(i, name). name @ ''('' @ Itoa i @ '')'') ps
     in case texts of [] \<Rightarrow> [] | t # ts \<Rightarrow> t @ concat (map (\<lambda>x. [CHR 0xE3, CHR 0x80, CHR 0x81] @ x) ts))"

definition Convert :: "Payloads \<Rightarrow> Envelope \<Rightarrow> (HookEvent \<times> bool) option" where
  "Convert pd e =
     (let t = CreatedAt e in
      if Type e = ''game.started.v1'' then
        map_option (\<lambda>p. ((blank_event ''game_start'' t (gs_Server p) (gs_RoomID p))
          \<lparr>he_ChartID := cv_ID (gs_Chart p), he_ChartName := cv_Name (gs_Chart p), he_Difficulty := cv_Difficulty (gs_Chart p),
           he_Charter := cv_Charter (gs_Chart p), he_ImageURL := cv_Illustration (gs_Chart p),
           he_UserCount := int (length (gs_Players p)), he_PlayerList := player_list (gs_Players p)\<rparr>, True)) (pd_started pd (Payload e))
      else if Type e = EventMatchFinishedV1 then
        map_option (\<lambda>p. ((blank_event ''game_end'' t (mf_Server p) (mf_RoomID p))
          \<lparr>he_ChartID := mf_ChartID p, he_ChartName := mf_ChartName p, he_Ranks := rank_entries (mf_Results p)\<rparr>, True))
          (pd_finished pd (Payload e))
      else if Type e = ''game.ended.v1'' then
        map_option (\<lambda>p. ((blank_event ''game_end'' t (ge_Server p) (ge_RoomID p))
          \<lparr>he_ChartID := cv_ID (ge_Chart p), he_ChartName := cv_Name (ge_Chart p)\<rparr>, True)) (pd_ended pd (Payload e))
      else if Type e = ''score.submitted.v1'' then
        map_option (\<lambda>p. ((blank_event ''score_submitted'' t (ss_Server p) (ss_RoomID p))
          \<lparr>he_ChartID := cv_ID (ss_Chart p), he_ChartName := cv_Name (ss_Chart p), he_Ranks := rank_entries (ss_Ranks p)\<rparr>, True))
          (pd_score pd (Payload e))
      else if Type e = ''room.created.v1'' \<or> Type e = ''room.disbanded.v1'' \<or> Type e = ''user.joined.v1'' then
        map_option (\<lambda>p.
          (let ty = (if Type e = ''room.created.v1'' then ''room_create'' else if Type e = ''room.disbanded.v1'' then ''room_disband'' else ''user_join'');
               ev = (blank_event ty t (re_Server p) (re_RoomID p))\<lparr>he_UserCount := re_UserCount p\<rparr>
           in case re_User p of None \<Rightarrow> ev | Some (i, name) \<Rightarrow> ev\<lparr>he_UserID := i, he_UserName := name\<rparr>, True)) (pd_room pd (Payload e))
      else if Type e = ''maintenance.changed.v1'' then
        map_option (\<lambda>p. ((blank_event ''maintenance'' t (mc_Server p) [])\<lparr>he_Enabled := mc_Enabled p, he_Message := mc_Message p\<rparr>, True))
          (pd_maintenance pd (Payload e))
      else Some (blank_event [] t [] [], False))"

record WebhookTarget =
  wt_ID :: string
  wt_URL :: string
  wt_Type :: string
  wt_Events :: "string list"
  wt_Secret :: string
  wt_AccessToken :: string
  wt_MessageType :: string
  wt_TargetID :: int
  wt_TargetIDs :: "int list"
  wt_AppID :: string
  wt_ReceiveOpenID :: string
  wt_LiveUpdate :: bool

record WebhookConfig =
  wc_Enabled :: bool
  wc_TimeoutMS :: int
  wc_Retries :: int
  wc_Targets :: "WebhookTarget list"

definition Subscribes :: "WebhookTarget \<Rightarrow> string \<Rightarrow> bool" where
  "Subscribes t event =
     (if event = ''score_submitted'' then wt_Type t = ''feishu'' \<and> wt_LiveUpdate t
      else if (event = ''game_end'' \<or> event = ''room_disband'') \<and> wt_Type t = ''feishu'' \<and> wt_LiveUpdate t then True
      else wt_Events t = [] \<or> event \<in> set (wt_Events t))"

definition DefaultWebhookRetries :: int where "DefaultWebhookRetries = 2"

definition WebhookRetryCount :: "WebhookConfig \<Rightarrow> int" where
  "WebhookRetryCount c = (if wc_Retries c < 0 then DefaultWebhookRetries else wc_Retries c)"

record TargetDelivery =
  td_ID :: string
  td_Target :: WebhookTarget

text \<open>\<open>digest\<close> is the hexadecimal hash of the JSON text of a target.\<close>

definition targetFingerprint :: "(WebhookTarget \<Rightarrow> string) \<Rightarrow> WebhookTarget \<Rightarrow> string" where
  "targetFingerprint digest t = (if wt_ID t \<noteq> [] then wt_ID t else digest t)"

definition single_targets :: "WebhookTarget \<Rightarrow> WebhookTarget list" where
  "single_targets t =
     (if wt_Type t = ''onebot_v11'' \<and> length (wt_TargetIDs t) > 1
      then map (\<lambda>i. t\<lparr>wt_TargetID := i, wt_TargetIDs := []\<rparr>) (wt_TargetIDs t) else [t])"

definition Plan :: "(WebhookTarget \<Rightarrow> string) \<Rightarrow> WebhookConfig option \<Rightarrow> HookEvent \<Rightarrow> TargetDelivery list" where
  "Plan digest cfg ev =
     (case cfg of
        None \<Rightarrow> []
      | Some c \<Rightarrow>
          if \<not> wc_Enabled c then []
          else map (\<lambda>t. \<lparr>td_ID = targetFingerprint digest t, td_Target = t\<rparr>)
            (concat (map single_targets (filter (\<lambda>t. Subscribes t (he_Type ev)) (wc_Targets c)))))"

section \<open>Adapters\<close>

text \<open>An adapter says whether the delivery is done and, if not, whether it may be tried again.  \<open>None\<close> is
  a failure of the transport, a number the status of the answer.\<close>

definition HTTP_Deliver :: "bool \<Rightarrow> string \<Rightarrow> nat option \<Rightarrow> bool \<times> bool" where
  "HTTP_Deliver validURL type answer =
     (if type = ''feishu'' \<or> type = ''onebot_v11'' then (True, False)
      else if \<not> validURL then (False, False)
      else case answer of
          None \<Rightarrow> (False, True)
        | Some status \<Rightarrow> if status < 300 then (True, False) else (False, status = 429 \<or> status \<ge> 500))"

text \<open>The answer of a OneBot service: the status of the transport and the decoded body.\<close>

definition deliverOne :: "(nat \<times> (string \<times> int) option) option \<Rightarrow> bool \<times> bool" where
  "deliverOne answer =
     (case answer of
        None \<Rightarrow> (False, True)
      | Some (status, body) \<Rightarrow>
          if status < 200 \<or> status \<ge> 300 then (False, status = 429 \<or> status \<ge> 500)
          else case body of None \<Rightarrow> (False, False) | Some (st, code) \<Rightarrow> (st = ''ok'' \<and> code = 0, False))"

definition OneBotV11_Deliver :: "WebhookTarget \<Rightarrow> (int \<Rightarrow> (nat \<times> (string \<times> int) option) option) \<Rightarrow> bool \<times> bool" where
  "OneBotV11_Deliver t answer =
     (if wt_MessageType t \<noteq> ''group'' \<and> wt_MessageType t \<noteq> ''private'' then (False, False)
      else let ids = (if wt_TargetIDs t = [] \<and> wt_TargetID t > 0 then [wt_TargetID t] else wt_TargetIDs t)
        in if ids = [] then (False, False)
           else foldl (\<lambda>(allOK, anyRetryable) i.
               if i \<le> 0 then (False, anyRetryable)
               else (case deliverOne (answer i) of (delivered, canRetry) \<Rightarrow>
                   if delivered then (allOK, anyRetryable) else (False, anyRetryable \<or> canRetry))) (True, False) ids)"

section \<open>Delivery with retries\<close>

datatype DeliveryOutcome = DeliverySucceeded | DeliveryPermanentFailure | DeliveryRetryableFailure

text \<open>What happens during the attempts on a target: its answers, and whether the wait before an attempt
  is cancelled.\<close>

record Answers =
  an_answer :: "nat \<Rightarrow> bool \<times> bool"
  an_cancelled :: "nat \<Rightarrow> bool"

fun deliver_attempts :: "Answers \<Rightarrow> nat \<Rightarrow> nat \<Rightarrow> DeliveryOutcome" where
  "deliver_attempts an attempt 0 = DeliveryRetryableFailure"
| "deliver_attempts an attempt (Suc left) =
     (if attempt > 0 \<and> an_cancelled an attempt then DeliveryRetryableFailure
      else case an_answer an attempt of
          (True, _) \<Rightarrow> DeliverySucceeded
        | (False, False) \<Rightarrow> DeliveryPermanentFailure
        | (False, True) \<Rightarrow> deliver_attempts an (attempt + 1) left)"

definition deliverContext :: "Answers \<Rightarrow> int \<Rightarrow> DeliveryOutcome" where
  "deliverContext an retries = deliver_attempts an 0 (nat (retries + 1))"

definition DeliverTarget :: "WebhookConfig option \<Rightarrow> Answers \<Rightarrow> DeliveryOutcome" where
  "DeliverTarget cfg an =
     (case cfg of
        None \<Rightarrow> DeliverySucceeded
      | Some c \<Rightarrow> if \<not> wc_Enabled c then DeliverySucceeded else deliverContext an (WebhookRetryCount c))"

section \<open>The ledger\<close>

datatype ledgerStatus = ledgerSucceeded | ledgerPermanentFailed

record ledgerRecord =
  lr_EventID :: string
  lr_TargetID :: string
  lr_Status :: ledgerStatus

record Ledger =
  lg_entries :: "((string \<times> string) \<times> ledgerStatus) list"
  lg_open :: bool
  lg_file :: bytes

record LedgerCodec =
  lc_marshal :: "ledgerRecord \<Rightarrow> bytes option"
  lc_unmarshal :: "bytes \<Rightarrow> ledgerRecord option"

definition ledger_codec :: "LedgerCodec \<Rightarrow> bool" where
  "ledger_codec lc \<longleftrightarrow> (\<forall>r data. lc_marshal lc r = Some data \<longrightarrow> data \<noteq> [] \<and> length data \<le> maxRecordSize \<and> lc_unmarshal lc data = Some r)"

definition ledger_bytes :: "LedgerCodec \<Rightarrow> ledgerRecord \<Rightarrow> bytes option" where
  "ledger_bytes lc r = map_option frame (lc_marshal lc r)"

text \<open>The loop of \<open>recover\<close>: the entries and the length of the part that is kept.\<close>

function ledger_loop :: "LedgerCodec \<Rightarrow> nat \<Rightarrow> ((string \<times> string) \<times> ledgerStatus) list \<Rightarrow> bytes
    \<Rightarrow> bool \<times> nat \<times> ((string \<times> string) \<times> ledgerStatus) list" where
  "ledger_loop lc offset entries bs =
     (case read_record bs of
        RecEOF \<Rightarrow> (False, offset, entries)
      | RecData data rest \<Rightarrow>
          (case lc_unmarshal lc data of
             None \<Rightarrow> (True, offset, entries)
           | Some r \<Rightarrow>
               if lr_EventID r = [] \<or> lr_TargetID r = [] then (True, offset, entries)
               else ledger_loop lc (offset + headerSize + length data)
                      (AList.update (lr_EventID r, lr_TargetID r) (lr_Status r) entries) rest)
      | _ \<Rightarrow> (True, offset, entries))"
  by pat_completeness auto
termination
  by (relation "measure (\<lambda>(_, _, _, bs). length bs)") (auto dest: read_record_shorter)

declare ledger_loop.simps [simp del]

definition OpenLedger :: "LedgerCodec \<Rightarrow> bytes \<Rightarrow> Ledger" where
  "OpenLedger lc bs =
     (case ledger_loop lc 0 [] bs of
        (torn, offset, entries) \<Rightarrow> \<lparr>lg_entries = entries, lg_open = True, lg_file = (if torn then take offset bs else bs)\<rparr>)"

definition Ledger_Done :: "string \<Rightarrow> string \<Rightarrow> Ledger \<Rightarrow> bool" where
  "Ledger_Done eventID targetID l \<longleftrightarrow> map_of (lg_entries l) (eventID, targetID) \<noteq> None"

definition Mark :: "LedgerCodec \<Rightarrow> write_fate \<Rightarrow> string \<Rightarrow> string \<Rightarrow> ledgerStatus \<Rightarrow> Ledger \<Rightarrow> string option \<times> Ledger" where
  "Mark lc fate eventID targetID status l =
     (if Ledger_Done eventID targetID l then (None, l)
      else case ledger_bytes lc \<lparr>lr_EventID = eventID, lr_TargetID = targetID, lr_Status = status\<rparr> of
          None \<Rightarrow> (Some ''json'', l)
        | Some rec \<Rightarrow>
            if \<not> lg_open l then (Some ''invalid argument'', l)
            else (case fate of
                CutAt n \<Rightarrow> (Some ''short write'', l\<lparr>lg_file := lg_file l @ take n rec\<rparr>)
              | Unflushed \<Rightarrow> (Some ''sync'', l\<lparr>lg_file := lg_file l @ rec\<rparr>)
              | Written \<Rightarrow> (None, l\<lparr>lg_file := lg_file l @ rec, lg_entries := AList.update (eventID, targetID) status (lg_entries l)\<rparr>)))"

text \<open>The rewriting after an event: whether the new file took the place of the old one and whether the
  file could be opened again.  A record that cannot be encoded stops it before the replacement.\<close>

fun all_bytes :: "LedgerCodec \<Rightarrow> ((string \<times> string) \<times> ledgerStatus) list \<Rightarrow> bytes option" where
  "all_bytes lc [] = Some []"
| "all_bytes lc (((eventID, targetID), status) # es) =
     (case (ledger_bytes lc \<lparr>lr_EventID = eventID, lr_TargetID = targetID, lr_Status = status\<rparr>, all_bytes lc es) of
        (Some r, Some rest) \<Rightarrow> Some (r @ rest)
      | _ \<Rightarrow> None)"

definition rewriteLocked :: "LedgerCodec \<Rightarrow> bool \<times> bool \<Rightarrow> Ledger \<Rightarrow> Ledger" where
  "rewriteLocked lc fate l =
     (case (all_bytes lc (lg_entries l), fst fate) of
        (Some bs, True) \<Rightarrow> l\<lparr>lg_open := snd fate, lg_file := bs\<rparr>
      | _ \<Rightarrow> l\<lparr>lg_open := snd fate\<rparr>)"

definition CompleteEvent :: "LedgerCodec \<Rightarrow> bool \<times> bool \<Rightarrow> string \<Rightarrow> Ledger \<Rightarrow> Ledger" where
  "CompleteEvent lc fate eventID l =
     (let kept = filter (\<lambda>((e, _), _). e \<noteq> eventID) (lg_entries l)
      in if kept = lg_entries l then l else rewriteLocked lc fate (l\<lparr>lg_entries := kept\<rparr>))"

section \<open>The processor\<close>

record Hooks =
  hk_ledger :: Ledger
  hk_log :: "(string \<times> TargetDelivery \<times> DeliveryOutcome) list"

record HookEnv =
  hv_payloads :: Payloads
  hv_digest :: "WebhookTarget \<Rightarrow> string"
  hv_config :: "WebhookConfig option"
  hv_codec :: LedgerCodec

record HookFate =
  hf_answers :: "TargetDelivery \<Rightarrow> Answers"
  hf_mark :: "TargetDelivery \<Rightarrow> write_fate"
  hf_rewrite :: "bool \<times> bool"

fun deliver_targets :: "HookEnv \<Rightarrow> HookFate \<Rightarrow> string \<Rightarrow> TargetDelivery list \<Rightarrow> Hooks \<Rightarrow> string option \<times> Hooks" where
  "deliver_targets env f eventID [] w = (None, w)"
| "deliver_targets env f eventID (t # ts) w =
     (if Ledger_Done eventID (td_ID t) (hk_ledger w) then deliver_targets env f eventID ts w
      else let outcome = DeliverTarget (hv_config env) (hf_answers f t);
               w = w\<lparr>hk_log := hk_log w @ [(eventID, t, outcome)]\<rparr>
        in if outcome = DeliveryRetryableFailure then (Some ''delivery'', w)
           else (case Mark (hv_codec env) (hf_mark f t) eventID (td_ID t)
                   (if outcome = DeliveryPermanentFailure then ledgerPermanentFailed else ledgerSucceeded) (hk_ledger w) of
               (Some err, l) \<Rightarrow> (Some err, w\<lparr>hk_ledger := l\<rparr>)
             | (None, l) \<Rightarrow> deliver_targets env f eventID ts (w\<lparr>hk_ledger := l\<rparr>)))"

definition webhook_handle :: "HookEnv \<Rightarrow> (HookFate, Hooks) handler" where
  "webhook_handle env f e w =
     (case Convert (hv_payloads env) e of
        None \<Rightarrow> (Some ''json'', w)
      | Some (ev, deliver) \<Rightarrow>
          if deliver then deliver_targets env f (ID e) (Plan (hv_digest env) (hv_config env) ev) w else (None, w))"

definition webhook_finish :: "HookEnv \<Rightarrow> HookFate \<Rightarrow> Envelope \<Rightarrow> Hooks \<Rightarrow> Hooks" where
  "webhook_finish env f e w = w\<lparr>hk_ledger := CompleteEvent (hv_codec env) (hf_rewrite f) (ID e) (hk_ledger w)\<rparr>"

definition webhook_Process :: "Codec \<Rightarrow> HookEnv \<Rightarrow> int \<Rightarrow> (Envelope \<Rightarrow> HookFate \<times> replace_fate) \<Rightarrow> Inbox \<Rightarrow> InboxDisk
    \<Rightarrow> Hooks Proc \<Rightarrow> nat \<times> string option \<times> Hooks Proc" where
  "webhook_Process cd env = Process cd (webhook_handle env) (webhook_finish env)"

section \<open>Every target is served\<close>

definition settled :: "Hooks \<Rightarrow> string \<Rightarrow> string \<Rightarrow> bool" where
  "settled w eventID targetID \<longleftrightarrow>
     (\<exists>t outcome. (eventID, t, outcome) \<in> set (hk_log w) \<and> td_ID t = targetID \<and> outcome \<noteq> DeliveryRetryableFailure)"

definition rec_bytes :: "LedgerCodec \<Rightarrow> ledgerRecord \<Rightarrow> bytes" where
  "rec_bytes lc r = (case ledger_bytes lc r of None \<Rightarrow> [] | Some b \<Rightarrow> b)"

definition honest :: "LedgerCodec \<Rightarrow> Hooks \<Rightarrow> ledgerRecord \<Rightarrow> bool" where
  "honest lc w r \<longleftrightarrow> lc_marshal lc r \<noteq> None \<and> settled w (lr_EventID r) (lr_TargetID r)"

text \<open>The ledger, in memory and on the disk, knows only targets that are settled.\<close>

definition ledger_ok :: "HookEnv \<Rightarrow> Hooks \<Rightarrow> bool" where
  "ledger_ok env w \<longleftrightarrow> (\<forall>k \<in> fst ` set (lg_entries (hk_ledger w)). settled w (fst k) (snd k))
     \<and> (\<exists>rs. lg_file (hk_ledger w) = concat (map (rec_bytes (hv_codec env)) rs) \<and> (\<forall>r \<in> set rs. honest (hv_codec env) w r))"

definition served :: "HookEnv \<Rightarrow> Hooks \<Rightarrow> Envelope \<Rightarrow> bool" where
  "served env w e \<longleftrightarrow> (\<forall>ev. Convert (hv_payloads env) e = Some (ev, True)
     \<longrightarrow> (\<forall>t \<in> set (Plan (hv_digest env) (hv_config env) ev). settled w (ID e) (td_ID t)))"

definition hooks_clean :: "HookEnv \<Rightarrow> Hooks \<Rightarrow> Envelope list \<Rightarrow> bool" where
  "hooks_clean env w es \<longleftrightarrow> (ledger_codec (hv_codec env) \<longrightarrow> ledger_ok env w \<and> (\<forall>e \<in> set es. served env w e))"

text \<open>A write that is cut ends the process; a write that fails otherwise leaves nothing.\<close>

definition whole_fate :: "HookFate \<Rightarrow> HookFate" where
  "whole_fate f = f\<lparr>hf_mark := (\<lambda>t. case hf_mark f t of CutAt n \<Rightarrow> CutAt 0 | m \<Rightarrow> m)\<rparr>"

text \<open>The process is started again, possibly after it died within a write to the ledger.\<close>

definition reopened :: "HookEnv \<Rightarrow> Hooks \<Rightarrow> Hooks \<Rightarrow> bool" where
  "reopened env w w' \<longleftrightarrow> (\<exists>data n. length data \<le> maxRecordSize \<and> n < length (frame data)
     \<and> w' = w\<lparr>hk_ledger := OpenLedger (hv_codec env) (lg_file (hk_ledger w) @ take n (frame data))\<rparr>)"

definition log_less :: "Hooks \<Rightarrow> Hooks \<Rightarrow> bool" where
  "log_less w w' \<longleftrightarrow> set (hk_log w) \<subseteq> set (hk_log w')"

lemma settled_less: "log_less w w' \<Longrightarrow> settled w i t \<Longrightarrow> settled w' i t"
  unfolding settled_def log_less_def by blast

lemma served_less: "log_less w w' \<Longrightarrow> served env w e \<Longrightarrow> served env w' e"
  unfolding served_def using settled_less by blast

lemma honest_less: "log_less w w' \<Longrightarrow> honest lc w r \<Longrightarrow> honest lc w' r"
  unfolding honest_def using settled_less by blast

lemma ledger_ok_log: "ledger_ok env w \<Longrightarrow> log_less w w' \<Longrightarrow> hk_ledger w' = hk_ledger w \<Longrightarrow> ledger_ok env w'"
proof -
  assume ok: "ledger_ok env w" and less: "log_less w w'" and same: "hk_ledger w' = hk_ledger w"
  obtain rs where "lg_file (hk_ledger w) = concat (map (rec_bytes (hv_codec env)) rs)" "\<forall>r \<in> set rs. honest (hv_codec env) w r"
    and "\<forall>k \<in> fst ` set (lg_entries (hk_ledger w)). settled w (fst k) (snd k)"
    using ok unfolding ledger_ok_def by blast
  then show ?thesis unfolding ledger_ok_def same using settled_less [OF less] honest_less [OF less] by blast
qed

lemma set_update_subset: "fst ` set (AList.update k v al) \<subseteq> insert k (fst ` set al)"
proof -
  have "dom (map_of (AList.update k v al)) = insert k (dom (map_of al))" by (simp add: update_conv')
  then show ?thesis by (simp only: dom_map_of_conv_image_fst)
qed

lemma ledger_ok_record:
  assumes ok: "ledger_ok env w" and s: "settled w i t"
    and data: "ledger_bytes (hv_codec env) \<lparr>lr_EventID = i, lr_TargetID = t, lr_Status = st\<rparr> = Some rec"
    and l: "lg_file l = lg_file (hk_ledger w) @ rec" "fst ` set (lg_entries l) \<subseteq> insert (i, t) (fst ` set (lg_entries (hk_ledger w)))"
  shows "ledger_ok env (w\<lparr>hk_ledger := l\<rparr>)"
proof -
  let ?r = "\<lparr>lr_EventID = i, lr_TargetID = t, lr_Status = st\<rparr>" and ?w = "w\<lparr>hk_ledger := l\<rparr>"
  have same: "settled ?w = settled w" "honest (hv_codec env) ?w = honest (hv_codec env) w"
    by (auto simp: settled_def honest_def fun_eq_iff)
  obtain rs where rs: "lg_file (hk_ledger w) = concat (map (rec_bytes (hv_codec env)) rs)" "\<forall>r \<in> set rs. honest (hv_codec env) w r"
    and ents: "\<forall>k \<in> fst ` set (lg_entries (hk_ledger w)). settled w (fst k) (snd k)"
    using ok unfolding ledger_ok_def by blast
  have "lc_marshal (hv_codec env) ?r \<noteq> None" using data by (auto simp: ledger_bytes_def)
  then have "honest (hv_codec env) w ?r" using s by (simp add: honest_def)
  moreover have "lg_file l = concat (map (rec_bytes (hv_codec env)) (rs @ [?r]))" using l(1) rs(1) data by (simp add: rec_bytes_def)
  ultimately have "\<exists>rs. lg_file l = concat (map (rec_bytes (hv_codec env)) rs) \<and> (\<forall>r \<in> set rs. honest (hv_codec env) w r)"
    using rs(2) by (intro exI [of _ "rs @ [?r]"]) auto
  moreover have "settled w (fst k) (snd k)" if "k \<in> fst ` set (lg_entries l)" for k
  proof -
    have "k = (i, t) \<or> k \<in> fst ` set (lg_entries (hk_ledger w))" using l(2) that by blast
    then show ?thesis
    proof
      assume "k = (i, t)"
      then show ?thesis using s by simp
    qed (rule bspec [OF ents])
  qed
  ultimately show ?thesis unfolding ledger_ok_def same by simp
qed

lemma Mark_ok:
  assumes ok: "ledger_ok env w" and s: "settled w i t" and m: "Mark (hv_codec env) fate i t st (hk_ledger w) = (r, l)"
    and fate: "\<forall>n. fate = CutAt n \<longrightarrow> n = 0"
  shows "ledger_ok env (w\<lparr>hk_ledger := l\<rparr>)"
proof (cases "l = hk_ledger w")
  case True
  then show ?thesis using ok by simp
next
  case False
  then obtain rec where rec: "ledger_bytes (hv_codec env) \<lparr>lr_EventID = i, lr_TargetID = t, lr_Status = st\<rparr> = Some rec"
    using m by (auto simp: Mark_def split: if_splits option.splits)
  have "lg_file l = lg_file (hk_ledger w) @ rec \<and> fst ` set (lg_entries l) \<subseteq> insert (i, t) (fst ` set (lg_entries (hk_ledger w)))"
    using m rec False fate by (cases fate) (clarsimp simp: Mark_def set_update_subset subset_insertI split: if_splits)+
  then show ?thesis using ledger_ok_record [OF ok s rec] by blast
qed

lemma deliver_targets_ok:
  "ledger_ok env w \<Longrightarrow> deliver_targets env (whole_fate f) i ts w = (r, w')
    \<Longrightarrow> ledger_ok env w' \<and> log_less w w' \<and> (r = None \<longrightarrow> (\<forall>t \<in> set ts. settled w' i (td_ID t)))"
proof (induction ts arbitrary: w)
  case (Cons t ts)
  show ?case
  proof (cases "Ledger_Done i (td_ID t) (hk_ledger w)")
    case True
    then have "(i, td_ID t) \<in> fst ` set (lg_entries (hk_ledger w))"
      by (auto simp: Ledger_Done_def dest: map_of_SomeD intro: image_eqI rev_image_eqI)
    then have "settled w i (td_ID t)" using Cons.prems(1) unfolding ledger_ok_def by (metis fst_conv snd_conv)
    then show ?thesis using Cons.IH [OF Cons.prems(1)] Cons.prems(2) True settled_less by auto
  next
    case False
    define outcome where "outcome = DeliverTarget (hv_config env) (hf_answers (whole_fate f) t)"
    define w1 where "w1 = w\<lparr>hk_log := hk_log w @ [(i, t, outcome)]\<rparr>"
    have less: "log_less w w1" and same: "hk_ledger w1 = hk_ledger w" by (auto simp: log_less_def w1_def)
    note ok1 = ledger_ok_log [OF Cons.prems(1) less same]
    show ?thesis
    proof (cases "outcome = DeliveryRetryableFailure")
      case True
      then have "r = Some ''delivery''" "w' = w1" using Cons.prems(2) False by (auto simp: outcome_def w1_def Let_def)
      then show ?thesis using ok1 less by simp
    next
      case final: False
      then have s: "settled w1 i (td_ID t)" by (force simp: settled_def w1_def)
      let ?st = "if outcome = DeliveryPermanentFailure then ledgerPermanentFailed else ledgerSucceeded"
      obtain er l where m: "Mark (hv_codec env) (hf_mark (whole_fate f) t) i (td_ID t) ?st (hk_ledger w1) = (er, l)" by fastforce
      let ?w2 = "w1\<lparr>hk_ledger := l\<rparr>"
      have ok2: "ledger_ok env ?w2" by (rule Mark_ok [OF ok1 s m]) (auto simp: whole_fate_def split: write_fate.splits)
      have less2: "log_less w ?w2" and s2: "settled ?w2 i (td_ID t)" using less s by (auto simp: log_less_def settled_def)
      show ?thesis
      proof (cases er)
        case (Some m')
        then have "r = Some m'" "w' = ?w2"
          using Cons.prems(2) False final m by (auto simp: outcome_def [symmetric] w1_def [symmetric] Let_def)
        then show ?thesis using ok2 less2 by simp
      next
        case None
        then have rest: "deliver_targets env (whole_fate f) i ts ?w2 = (r, w')"
          using Cons.prems(2) False final m by (auto simp: outcome_def [symmetric] w1_def [symmetric] Let_def)
        note IH = Cons.IH [OF ok2 rest]
        then have "log_less w w'" using less2 by (auto simp: log_less_def)
        then show ?thesis using IH settled_less [OF _ s2] by auto
      qed
    qed
  qed
qed (auto simp: log_less_def)

lemma all_bytes_concat: "all_bytes lc es = Some bs
    \<Longrightarrow> \<exists>rs. bs = concat (map (rec_bytes lc) rs) \<and> map (\<lambda>r. (lr_EventID r, lr_TargetID r)) rs = map fst es \<and> (\<forall>r \<in> set rs. lc_marshal lc r \<noteq> None)"
proof (induction es arbitrary: bs)
  case (Cons x es)
  obtain i t st where x: "x = ((i, t), st)" by (metis prod.exhaust)
  let ?r = "\<lparr>lr_EventID = i, lr_TargetID = t, lr_Status = st\<rparr>"
  obtain b rest where b: "ledger_bytes lc ?r = Some b" "all_bytes lc es = Some rest" "bs = b @ rest"
    using Cons.prems x by (auto split: option.splits)
  obtain rs where "rest = concat (map (rec_bytes lc) rs)" "map (\<lambda>r. (lr_EventID r, lr_TargetID r)) rs = map fst es"
      "\<forall>r \<in> set rs. lc_marshal lc r \<noteq> None"
    using Cons.IH [OF b(2)] by blast
  moreover have "rec_bytes lc ?r = b" "lc_marshal lc ?r \<noteq> None" using b(1) by (auto simp: rec_bytes_def ledger_bytes_def)
  ultimately show ?case using b x by (intro exI [of _ "?r # rs"]) auto
qed simp

lemma CompleteEvent_ok:
  assumes ok: "ledger_ok env w"
  shows "ledger_ok env (w\<lparr>hk_ledger := CompleteEvent (hv_codec env) fate i (hk_ledger w)\<rparr>)"
proof -
  let ?l = "hk_ledger w" and ?lc = "hv_codec env"
  let ?kept = "filter (\<lambda>((e, _), _). e \<noteq> i) (lg_entries ?l)"
  let ?l1 = "?l\<lparr>lg_entries := ?kept\<rparr>"
  obtain rs where rs: "lg_file ?l = concat (map (rec_bytes ?lc) rs)" "\<forall>r \<in> set rs. honest ?lc w r"
    and ents: "\<forall>k \<in> fst ` set (lg_entries ?l). settled w (fst k) (snd k)"
    using ok unfolding ledger_ok_def by blast
  have kept: "\<forall>k \<in> fst ` set ?kept. settled w (fst k) (snd k)" using ents by auto
  have same: "settled (w\<lparr>hk_ledger := l\<rparr>) = settled w" "honest lc (w\<lparr>hk_ledger := l\<rparr>) = honest lc w" for l lc
    by (auto simp: settled_def honest_def fun_eq_iff)
  have "ledger_ok env (w\<lparr>hk_ledger := rewriteLocked ?lc fate ?l1\<rparr>)"
  proof (cases "all_bytes ?lc ?kept")
    case None
    then show ?thesis unfolding ledger_ok_def same using kept rs by (auto simp: rewriteLocked_def)
  next
    case (Some bs)
    obtain rs' where rs': "bs = concat (map (rec_bytes ?lc) rs')" "map (\<lambda>r. (lr_EventID r, lr_TargetID r)) rs' = map fst ?kept"
        "\<forall>r \<in> set rs'. lc_marshal ?lc r \<noteq> None"
      using all_bytes_concat [OF Some] by blast
    have "settled w (lr_EventID r) (lr_TargetID r)" if "r \<in> set rs'" for r
    proof -
      have "(lr_EventID r, lr_TargetID r) \<in> set (map fst ?kept)" unfolding rs'(2) [symmetric] using that by auto
      then have "(lr_EventID r, lr_TargetID r) \<in> fst ` set ?kept" by (simp only: set_map)
      from kept [rule_format, OF this] show ?thesis by simp
    qed
    then have "\<forall>r \<in> set rs'. honest ?lc w r" using rs'(3) by (simp add: honest_def)
    then show ?thesis unfolding ledger_ok_def same using kept rs rs'(1) Some by (cases "fst fate") (auto simp: rewriteLocked_def)
  qed
  then show ?thesis using ok by (simp add: CompleteEvent_def Let_def)
qed

lemma ledger_loop_honest:
  assumes lc: "ledger_codec lc"
  shows "\<forall>r \<in> set rs. lc_marshal lc r \<noteq> None \<Longrightarrow> unreadable t
    \<Longrightarrow> ledger_loop lc off es (concat (map (rec_bytes lc) rs) @ t) = (torn, off', es')
    \<Longrightarrow> \<exists>k. off' = off + length (concat (map (rec_bytes lc) (take k rs))) \<and> k \<le> length rs \<and> (\<not> torn \<longrightarrow> k = length rs \<and> t = [])
      \<and> fst ` set es' \<subseteq> fst ` set es \<union> (\<lambda>r. (lr_EventID r, lr_TargetID r)) ` set rs"
proof (induction rs arbitrary: off es)
  case Nil
  have "read_record t = RecEOF" if "t = []" using that by (simp add: read_record_def)
  then show ?case using Nil(2,3) by (subst (asm) ledger_loop.simps) (auto simp: unreadable_def)
next
  case (Cons r rs)
  obtain data where data: "lc_marshal lc r = Some data" using Cons.prems(1) by auto
  then have d: "data \<noteq> []" "length data \<le> maxRecordSize" "lc_unmarshal lc data = Some r" using lc by (auto simp: ledger_codec_def)
  have b: "rec_bytes lc r = frame data" using data by (simp add: rec_bytes_def ledger_bytes_def)
  let ?tail = "concat (map (rec_bytes lc) rs) @ t"
  show ?case
  proof (cases "lr_EventID r = [] \<or> lr_TargetID r = []")
    case True
    then have "ledger_loop lc off es (concat (map (rec_bytes lc) (r # rs)) @ t) = (True, off, es)"
      by (subst ledger_loop.simps) (simp add: b read_record_frame d)
    then show ?thesis using Cons.prems(3) by (intro exI [of _ 0]) auto
  next
    case False
    let ?es = "AList.update (lr_EventID r, lr_TargetID r) (lr_Status r) es"
    have "ledger_loop lc (off + headerSize + length data) ?es ?tail = (torn, off', es')"
      using Cons.prems(3) False by (subst (asm) ledger_loop.simps) (simp add: b read_record_frame d)
    from Cons.IH [OF _ Cons.prems(2) this] Cons.prems(1) obtain k where
      k: "off' = off + headerSize + length data + length (concat (map (rec_bytes lc) (take k rs)))" "k \<le> length rs"
        "\<not> torn \<longrightarrow> k = length rs \<and> t = []"
        "fst ` set es' \<subseteq> fst ` set ?es \<union> (\<lambda>r. (lr_EventID r, lr_TargetID r)) ` set rs" by auto
    then show ?thesis
      using set_update_subset [of "(lr_EventID r, lr_TargetID r)" "lr_Status r" es]
      by (intro exI [of _ "Suc k"]) (auto simp: b)
  qed
qed

lemma OpenLedger_ok:
  assumes lc: "ledger_codec (hv_codec env)" and ok: "ledger_ok env w" and t: "unreadable t"
  shows "ledger_ok env (w\<lparr>hk_ledger := OpenLedger (hv_codec env) (lg_file (hk_ledger w) @ t)\<rparr>)"
proof -
  let ?lc = "hv_codec env"
  obtain rs where rs: "lg_file (hk_ledger w) = concat (map (rec_bytes ?lc) rs)" "\<forall>r \<in> set rs. honest ?lc w r"
    using ok unfolding ledger_ok_def by blast
  obtain torn off es where loop: "ledger_loop ?lc 0 [] (concat (map (rec_bytes ?lc) rs) @ t) = (torn, off, es)" by (metis prod_cases3)
  obtain k where k: "off = length (concat (map (rec_bytes ?lc) (take k rs)))" "k \<le> length rs" "\<not> torn \<longrightarrow> k = length rs \<and> t = []"
      "fst ` set es \<subseteq> (\<lambda>r. (lr_EventID r, lr_TargetID r)) ` set rs"
    using ledger_loop_honest [OF lc _ t loop] rs(2) by (auto simp: honest_def)
  have split: "concat (map (rec_bytes ?lc) rs) @ t
      = concat (map (rec_bytes ?lc) (take k rs)) @ concat (map (rec_bytes ?lc) (drop k rs)) @ t"
    by (metis append.assoc append_take_drop_id concat_append map_append)
  then have "take off (concat (map (rec_bytes ?lc) rs) @ t) = concat (map (rec_bytes ?lc) (take k rs))" using k(1) by simp
  then have "lg_file (OpenLedger ?lc (lg_file (hk_ledger w) @ t)) = concat (map (rec_bytes ?lc) (take k rs))"
    using loop rs(1) k(3) by (auto simp: OpenLedger_def)
  moreover have "lg_entries (OpenLedger ?lc (lg_file (hk_ledger w) @ t)) = es" using loop rs(1) by (simp add: OpenLedger_def)
  moreover have "\<forall>k \<in> fst ` set es. settled w (fst k) (snd k)" using k(4) rs(2) by (auto simp: honest_def)
  moreover have "\<forall>r \<in> set (take k rs). honest ?lc w r" using rs(2) by (auto dest: in_set_takeD)
  moreover have "settled (w\<lparr>hk_ledger := l\<rparr>) = settled w" "honest ?lc (w\<lparr>hk_ledger := l\<rparr>) = honest ?lc w" for l
    by (auto simp: settled_def honest_def fun_eq_iff)
  ultimately show ?thesis unfolding ledger_ok_def by auto
qed

lemma unreadable_frame: "length data \<le> maxRecordSize \<Longrightarrow> n < length (frame data) \<Longrightarrow> unreadable (take n (frame data))"
  using read_record_cut [of data "take n (frame data)" n] by (auto simp: unreadable_def)

lemma served_same: "served env (w\<lparr>hk_ledger := l\<rparr>) e = served env w e"
  by (simp add: served_def settled_def)

lemma hooks_reopened: "reopened env w w' \<Longrightarrow> hooks_clean env w es \<Longrightarrow> hooks_clean env w' es"
  using OpenLedger_ok unreadable_frame by (auto simp: hooks_clean_def reopened_def served_same)

lemma hooks_step:
  assumes c: "hooks_clean env w es" and h: "webhook_handle env (whole_fate f) e w = (r, w')"
  shows "hooks_clean env w' es" and "r = None \<Longrightarrow> hooks_clean env w' (es @ [e])"
proof -
  have "ledger_ok env w' \<and> log_less w w' \<and> (r = None \<longrightarrow> served env w' e)" if lc: "ledger_codec (hv_codec env)"
  proof -
    have ok: "ledger_ok env w" using c lc by (simp add: hooks_clean_def)
    show ?thesis
    proof (cases "\<exists>ev. Convert (hv_payloads env) e = Some (ev, True)")
      case True
      then obtain ev where ev: "Convert (hv_payloads env) e = Some (ev, True)" by blast
      then have "deliver_targets env (whole_fate f) (ID e) (Plan (hv_digest env) (hv_config env) ev) w = (r, w')"
        using h by (simp add: webhook_handle_def)
      from deliver_targets_ok [OF ok this] show ?thesis using ev by (auto simp: served_def)
    next
      case False
      then have "w' = w" using h by (auto simp: webhook_handle_def split: option.splits if_splits)
      then show ?thesis using ok False by (auto simp: served_def log_less_def)
    qed
  qed
  then show "hooks_clean env w' es" "r = None \<Longrightarrow> hooks_clean env w' (es @ [e])"
    using c served_less by (auto simp: hooks_clean_def)
qed

interpretation hooks: event_handler "\<lambda>f. webhook_handle env (whole_fate f)" "webhook_finish env" "reopened env"
    "hooks_clean env" "\<lambda>w es e. hooks_clean env w es" "\<lambda>w es e. hooks_clean env w (es @ [e])"
  for env
proof (unfold_locales, goal_cases)
  case (4 w es e f err w')
  then show ?case by (rule hooks_step(1))
next
  case (5 w es e f w')
  then show ?case by (auto intro: hooks_step(2))
next
  case (6 w es e f err w')
  then show ?case by (rule hooks_step(1))
next
  case (7 w es e f)
  then show ?case using CompleteEvent_ok by (auto simp: hooks_clean_def webhook_finish_def served_same)
next
  case (8 w w' es)
  then show ?case by (rule hooks_reopened)
next
  case (9 w w' es e)
  then show ?case by (rule hooks_reopened)
next
  case (10 w w' es e)
  then show ?case by (rule hooks_reopened)
qed (auto simp: hooks_clean_def)

section \<open>Targets with an explicit identifier\<close>

text \<open>The single targets of a OneBot target with several receivers share its explicit identifier, so the
  ledger takes the second for the first: after one delivery the others are left out.\<close>

lemma shared_target_identifier:
  "wt_ID t \<noteq> [] \<Longrightarrow> s \<in> set (single_targets t) \<Longrightarrow> targetFingerprint digest s = wt_ID t"
  by (auto simp: single_targets_def targetFingerprint_def split: if_splits)

lemma second_receiver_skipped:
  assumes "\<not> Ledger_Done i (td_ID t) (hk_ledger w)" and "td_ID u = td_ID t"
    and "DeliverTarget (hv_config env) (hf_answers f t) = DeliverySucceeded"
    and "deliver_targets env f i [t, u] w = (None, w')"
  shows "hk_log w' = hk_log w @ [(i, t, DeliverySucceeded)]"
  using assms
  by (auto simp: Let_def Mark_def Ledger_Done_def update_conv' split: option.splits if_splits write_fate.splits)

end
