(* ===== verification/Wire_Binary.thy ===== *)
theory Wire_Binary
  imports Phira_Prelude
begin

text \<open>
  The typed binary reader and writer of \<open>internal/common/protocol/binary.go\<close>.  A reader is the
  buffer with its offset, a writer the bytes written so far with the reserved head.  A reading
  method takes the reader and returns either the panic (\<open>ProtocolError\<close>) or the value with the
  advanced reader; writing methods that cannot panic return the writer.  The locales
  \<open>wire_reader\<close> and \<open>wire_codec\<close> state what every codec of the protocol promises: a reader stays
  inside its buffer and only moves forward, a writer only appends, and reading what was written
  gives the value back and leaves the rest of the buffer unread.
\<close>

section \<open>Reader\<close>

datatype ProtocolError = ProtocolError (Msg: string)

record BinaryReader =
  Buf :: bytes
  Offset :: nat

type_synonym 'a reader = "BinaryReader \<Rightarrow> ProtocolError + 'a \<times> BinaryReader"

definition NewBinaryReader :: "bytes \<Rightarrow> BinaryReader" where
  "NewBinaryReader b = \<lparr>Buf = b, Offset = 0\<rparr>"

text \<open>Sequencing of reads: a panic of the first read is the panic of the whole.\<close>

definition returnR :: "'a \<Rightarrow> 'a reader" where
  "returnR a r = Inr (a, r)"

definition failR :: "string \<Rightarrow> 'a reader" where
  "failR msg r = Inl (ProtocolError msg)"

definition bindR :: "'a reader \<Rightarrow> ('a \<Rightarrow> 'b reader) \<Rightarrow> 'b reader" where
  "bindR d f r = (case d r of Inl e \<Rightarrow> Inl e | Inr (a, r') \<Rightarrow> f a r')"

definition ensure :: "nat \<Rightarrow> unit reader" where
  "ensure need r = (if Offset r + need > length (Buf r)
     then failR ''binary-unexpected-eof'' r else returnR () r)"

definition Take :: "nat \<Rightarrow> bytes reader" where
  "Take n = bindR (ensure n) (\<lambda>_ r. Inr (take n (drop (Offset r) (Buf r)), r\<lparr>Offset := Offset r + n\<rparr>))"

definition ReadU8 :: "u8 reader" where
  "ReadU8 = bindR (ensure 1) (\<lambda>_ r. Inr (Buf r ! Offset r, r\<lparr>Offset := Offset r + 1\<rparr>))"

definition ReadI8 :: "i8 reader" where
  "ReadI8 = ReadU8"

definition ReadBool :: "bool reader" where
  "ReadBool = bindR ReadU8 (\<lambda>b. returnR (b = 1))"

definition read_le :: "nat \<Rightarrow> 'a::len word reader" where
  "read_le n = bindR (ensure n)
     (\<lambda>_ r. Inr (le_decode (take n (drop (Offset r) (Buf r))), r\<lparr>Offset := Offset r + n\<rparr>))"

definition ReadU16 :: "u16 reader" where "ReadU16 = read_le 2"
definition ReadU32 :: "u32 reader" where "ReadU32 = read_le 4"
definition ReadI32 :: "i32 reader" where "ReadI32 = ReadU32"
definition ReadU64 :: "u64 reader" where "ReadU64 = read_le 8"
definition ReadI64 :: "i64 reader" where "ReadI64 = ReadU64"
definition ReadF32 :: "float32 reader" where "ReadF32 = ReadU32"

text \<open>The loop of \<open>ReadUleb\<close>.  A shift by 64 or more gives 0, as Go's does.  It ends because
  every step consumes a byte, and \<open>ReadU8\<close> panics at the end of the buffer.\<close>

function ReadUleb_loop :: "u64 \<Rightarrow> nat \<Rightarrow> u64 reader" where
  "ReadUleb_loop result shift r =
     (case ReadU8 r of
        Inl e \<Rightarrow> Inl e
      | Inr (b, r') \<Rightarrow>
          (let result' = result OR push_bit shift (ucast (b AND 0x7F))
           in if b AND 0x80 = 0 then Inr (result', r')
              else ReadUleb_loop result' (shift + 7) r'))"
  by pat_completeness auto
termination
  by (relation "measure (\<lambda>(_, _, r). length (Buf r) - Offset r)")
     (auto simp: ReadU8_def bindR_def ensure_def returnR_def failR_def split: if_splits)

declare ReadUleb_loop.simps [simp del]

definition ReadUleb :: "u64 reader" where
  "ReadUleb = ReadUleb_loop 0 0"

definition readLen :: "nat reader" where
  "readLen = bindR ReadUleb (\<lambda>v. if v > 0x7FFFFFFF then failR ''binary-length-too-large''
                                  else returnR (unat v))"

definition ReadString :: "string reader" where
  "ReadString = bindR readLen (\<lambda>n. bindR (Take n) (\<lambda>bs. returnR (string_of_bytes bs)))"

definition ReadVarchar :: "nat \<Rightarrow> string reader" where
  "ReadVarchar maxLen = bindR readLen
     (\<lambda>n. if n > maxLen then failR ''binary-string-too-long''
          else bindR (Take n) (\<lambda>bs. returnR (string_of_bytes bs)))"

definition ReadOption :: "'a reader \<Rightarrow> 'a option reader" where
  "ReadOption decode = bindR ReadBool
     (\<lambda>b. if b then bindR decode (\<lambda>v. returnR (Some v)) else returnR None)"

primrec read_times :: "nat \<Rightarrow> 'a reader \<Rightarrow> 'a list reader" where
  "read_times 0 decode = returnR []"
| "read_times (Suc n) decode =
     bindR decode (\<lambda>x. bindR (read_times n decode) (\<lambda>xs. returnR (x # xs)))"

definition ReadArray :: "'a reader \<Rightarrow> 'a list reader" where
  "ReadArray decode = bindR readLen (\<lambda>n. read_times n decode)"

text \<open>A Go map is an association list without repeated keys; assigning to a key that is already
  there replaces its value.\<close>

primrec read_entries :: "nat \<Rightarrow> 'k reader \<Rightarrow> 'v reader \<Rightarrow> ('k \<times> 'v) list \<Rightarrow> ('k \<times> 'v) list reader" where
  "read_entries 0 decodeK decodeV out = returnR out"
| "read_entries (Suc n) decodeK decodeV out =
     bindR decodeK (\<lambda>k. bindR decodeV (\<lambda>v. read_entries n decodeK decodeV (AList.update k v out)))"

definition ReadMap :: "'k reader \<Rightarrow> 'v reader \<Rightarrow> ('k \<times> 'v) list reader" where
  "ReadMap decodeK decodeV = bindR readLen (\<lambda>n. read_entries n decodeK decodeV [])"

section \<open>Writer\<close>

record BinaryWriter =
  buf :: bytes
  reserveHead :: nat

type_synonym 'a encoder = "BinaryWriter \<Rightarrow> 'a \<Rightarrow> BinaryWriter"

definition NewBinaryWriter :: BinaryWriter where
  "NewBinaryWriter = \<lparr>buf = [], reserveHead = 0\<rparr>"

definition NewFrameWriter :: "nat \<Rightarrow> BinaryWriter" where
  "NewFrameWriter n = \<lparr>buf = replicate n 0, reserveHead = n\<rparr>"

definition Reset :: "BinaryWriter \<Rightarrow> BinaryWriter" where
  "Reset w = w\<lparr>buf := take (reserveHead w) (buf w)\<rparr>"

definition ToBuffer :: "BinaryWriter \<Rightarrow> bytes" where
  "ToBuffer w = drop (reserveHead w) (buf w)"

definition WriteBuffer :: "bytes encoder" where
  "WriteBuffer w b = w\<lparr>buf := buf w @ b\<rparr>"

definition WriteU8 :: "u8 encoder" where
  "WriteU8 w v = w\<lparr>buf := buf w @ [v]\<rparr>"

definition WriteI8 :: "i8 encoder" where
  "WriteI8 w v = w\<lparr>buf := buf w @ [v]\<rparr>"

definition WriteBool :: "bool encoder" where
  "WriteBool w v = (if v then w\<lparr>buf := buf w @ [1]\<rparr> else w\<lparr>buf := buf w @ [0]\<rparr>)"

definition WriteU16 :: "u16 encoder" where
  "WriteU16 w v = w\<lparr>buf := buf w @ le_encode 2 v\<rparr>"

definition WriteU32 :: "u32 encoder" where
  "WriteU32 w v = w\<lparr>buf := buf w @ le_encode 4 v\<rparr>"

definition WriteI32 :: "i32 encoder" where
  "WriteI32 w v = w\<lparr>buf := buf w @ le_encode 4 v\<rparr>"

definition WriteU64 :: "u64 encoder" where
  "WriteU64 w v = w\<lparr>buf := buf w @ le_encode 8 v\<rparr>"

definition WriteI64 :: "i64 encoder" where
  "WriteI64 w v = w\<lparr>buf := buf w @ le_encode 8 v\<rparr>"

definition WriteF32 :: "float32 encoder" where
  "WriteF32 w v = w\<lparr>buf := buf w @ le_encode 4 v\<rparr>"

lemma unat_drop_bit_less: "0 < n \<Longrightarrow> v \<noteq> 0 \<Longrightarrow> unat (drop_bit n v) < unat (v :: 'a::len word)"
proof -
  assume "0 < n" "v \<noteq> 0"
  then have "unat v div 2 ^ n < unat v"
    using one_less_power [of "2 :: nat" n] by (intro div_less_dividend) (auto simp: unat_gt_0)
  then show ?thesis by (simp add: unat_drop_bit_eq drop_bit_nat_def)
qed

function WriteUleb :: "u64 encoder" where
  "WriteUleb w v =
     (if v \<ge> 0x80 then WriteUleb (w\<lparr>buf := buf w @ [ucast (v AND 0x7F) OR 0x80]\<rparr>) (drop_bit 7 v)
      else w\<lparr>buf := buf w @ [ucast v]\<rparr>)"
  by pat_completeness auto
termination
  by (relation "measure (\<lambda>(_, v). unat v)") (auto intro!: unat_drop_bit_less)

declare WriteUleb.simps [simp del]

definition WriteString :: "string encoder" where
  "WriteString w s = WriteBuffer (WriteUleb w (word_of_nat (length s))) (bytes_of_string s)"

definition WriteVarchar :: "nat \<Rightarrow> BinaryWriter \<Rightarrow> string \<Rightarrow> ProtocolError + BinaryWriter" where
  "WriteVarchar maxLen w s = (if length s > maxLen then Inl (ProtocolError ''binary-string-too-long'')
     else Inr (WriteBuffer (WriteUleb w (word_of_nat (length s))) (bytes_of_string s)))"

definition WriteOption :: "'a encoder \<Rightarrow> 'a option encoder" where
  "WriteOption encode w value =
     (case value of None \<Rightarrow> WriteBool w False | Some v \<Rightarrow> encode (WriteBool w True) v)"

definition WriteArray :: "'a encoder \<Rightarrow> 'a list encoder" where
  "WriteArray encode w arr = foldl encode (WriteUleb w (word_of_nat (length arr))) arr"

text \<open>The keys of the map are collected in the iteration order of the Go map (the order of the
  list, which is arbitrary) and sorted as signed integers.\<close>

definition WriteSortedMap :: "i32 encoder \<Rightarrow> 'v encoder \<Rightarrow> (i32 \<times> 'v) list encoder" where
  "WriteSortedMap encodeK encodeV w m =
     (let keys = sort_key sint (map fst m)
      in foldl (\<lambda>w k. encodeV (encodeK w k) (the (map_of m k)))
           (WriteUleb w (word_of_nat (length keys))) keys)"

section \<open>Packets and results\<close>

definition DecodePacket :: "bytes \<Rightarrow> 'a reader \<Rightarrow> ProtocolError + 'a" where
  "DecodePacket data decode = map_sum id fst (decode (NewBinaryReader data))"

definition EncodePacket :: "'a \<Rightarrow> 'a encoder \<Rightarrow> bytes" where
  "EncodePacket value encode = ToBuffer (encode NewBinaryWriter value)"

datatype 'a StringResult = Ok 'a | Errr string

definition EncodeStringResult :: "'a encoder \<Rightarrow> 'a StringResult encoder" where
  "EncodeStringResult encodeOk w value =
     (case value of Ok v \<Rightarrow> encodeOk (WriteBool w True) v
                  | Errr e \<Rightarrow> WriteString (WriteBool w False) e)"

definition DecodeStringResult :: "'a reader \<Rightarrow> 'a StringResult reader" where
  "DecodeStringResult decodeOk = bindR ReadBool
     (\<lambda>b. if b then bindR decodeOk (\<lambda>v. returnR (Ok v))
          else bindR ReadString (\<lambda>e. returnR (Errr e)))"

section \<open>Equations on appended buffers\<close>

text \<open>A reader that has consumed \<open>pre\<close> and has \<open>post\<close> in front of it.\<close>

definition reader_at :: "bytes \<Rightarrow> bytes \<Rightarrow> BinaryReader" where
  "reader_at pre post = \<lparr>Buf = pre @ post, Offset = length pre\<rparr>"

definition in_bounds :: "BinaryReader \<Rightarrow> bool" where
  "in_bounds r \<longleftrightarrow> Offset r \<le> length (Buf r)"

text \<open>A later reader over the same buffer.\<close>

definition moved :: "BinaryReader \<Rightarrow> BinaryReader \<Rightarrow> bool" where
  "moved r r' \<longleftrightarrow> Buf r' = Buf r \<and> Offset r \<le> Offset r' \<and> in_bounds r'"

lemma NewBinaryReader_at [wire]: "NewBinaryReader b = reader_at [] b"
  by (simp add: NewBinaryReader_def reader_at_def)

lemma in_bounds_reader_at [simp]: "in_bounds (reader_at pre post)"
  by (simp add: in_bounds_def reader_at_def)

lemma moved_refl [simp]: "in_bounds r \<Longrightarrow> moved r r"
  by (simp add: moved_def)

lemma moved_trans: "moved r r' \<Longrightarrow> moved r' r'' \<Longrightarrow> moved r r''"
  by (auto simp: moved_def)

lemma moved_bounds: "moved r r' \<Longrightarrow> in_bounds r'"
  by (simp add: moved_def)

lemma bindR_Inr [simp]: "d r = Inr (a, r') \<Longrightarrow> bindR d f r = f a r'"
  by (simp add: bindR_def)

lemma bindR_False [simp]: "d r = Inr (False, r') \<Longrightarrow> bindR d f r = f False r'"
  by (simp add: bindR_def)

lemma bindR_Inl [simp]: "d r = Inl e \<Longrightarrow> bindR d f r = Inl e"
  by (simp add: bindR_def)

lemma bindR_result: "bindR d f r = Inr (b, r'') \<longleftrightarrow> (\<exists>a r'. d r = Inr (a, r') \<and> f a r' = Inr (b, r''))"
  by (auto simp: bindR_def split: sum.splits)

lemma returnR_result [simp]: "returnR a r = Inr (b, r') \<longleftrightarrow> b = a \<and> r' = r"
  by (auto simp: returnR_def)

lemma failR_result [simp]: "failR msg r \<noteq> Inr x"
  by (simp add: failR_def)

lemma Take_at [wire]: "n = length bs \<Longrightarrow> Take n (reader_at pre (bs @ rest)) = Inr (bs, reader_at (pre @ bs) rest)"
  by (simp add: Take_def bindR_def ensure_def returnR_def reader_at_def)

lemma ReadU8_at [wire]: "ReadU8 (reader_at pre (b # rest)) = Inr (b, reader_at (pre @ [b]) rest)"
  by (simp add: ReadU8_def bindR_def ensure_def returnR_def reader_at_def)

lemma read_le_at [wire]:
  "n = length bs \<Longrightarrow> read_le n (reader_at pre (bs @ rest)) = Inr (le_decode bs, reader_at (pre @ bs) rest)"
  by (simp add: read_le_def bindR_def ensure_def returnR_def reader_at_def)

lemma ReadU8_eof: "Offset r = length (Buf r) \<Longrightarrow> ReadU8 r = Inl (ProtocolError ''binary-unexpected-eof'')"
  by (simp add: ReadU8_def bindR_def ensure_def failR_def)

lemma WriteBuffer_WriteBuffer [wire]: "WriteBuffer (WriteBuffer w a) b = WriteBuffer w (a @ b)"
  by (simp add: WriteBuffer_def)

lemma ToBuffer_WriteBuffer [wire]:
  "reserveHead w \<le> length (buf w) \<Longrightarrow> ToBuffer (WriteBuffer w b) = ToBuffer w @ b"
  by (simp add: ToBuffer_def WriteBuffer_def)

lemma ToBuffer_NewBinaryWriter [wire]: "ToBuffer (WriteBuffer NewBinaryWriter b) = b"
  by (simp add: ToBuffer_def WriteBuffer_def NewBinaryWriter_def)

section \<open>LEB128\<close>

function uleb_bytes :: "u64 \<Rightarrow> bytes" where
  "uleb_bytes v = (if v \<ge> 0x80 then (ucast (v AND 0x7F) OR 0x80) # uleb_bytes (drop_bit 7 v) else [ucast v])"
  by pat_completeness auto
termination
  by (relation "measure unat") (auto intro!: unat_drop_bit_less)

declare uleb_bytes.simps [simp del]

lemma WriteUleb_eq [wire]: "WriteUleb w v = WriteBuffer w (uleb_bytes v)"
proof (induction w v rule: WriteUleb.induct)
  case (1 w v)
  then show ?case
    by (simp add: WriteUleb.simps [of w v] uleb_bytes.simps [of v] WriteBuffer_def)
qed

lemma and_7F: "x AND 0x7F = take_bit 7 (x :: 'a::len word)"
  by (simp add: take_bit_eq_mask mask_eq_exp_minus_1)

lemma and_80: "x AND 0x80 = 0 \<longleftrightarrow> \<not> bit (x :: 'a::len word) 7"
  using and_exp_eq_0_iff_not_bit [of x 7] by simp

lemma bit_80: "bit (0x80 :: 'a::len word) n \<longleftrightarrow> n = 7 \<and> 7 < LENGTH('a)"
  using bit_exp_iff [where 'a = "'a word", of 7 n] by auto

lemma uleb_more:
  "((ucast (v AND 0x7F) OR 0x80 :: u8) AND 0x80) \<noteq> 0"
  "ucast ((ucast (v AND 0x7F) OR 0x80 :: u8) AND 0x7F) = (take_bit 7 v :: u64)"
proof -
  show "((ucast (v AND 0x7F) OR 0x80 :: u8) AND 0x80) \<noteq> 0"
    unfolding and_80 by (simp add: bit_80 bit_simps)
  show "ucast ((ucast (v AND 0x7F) OR 0x80 :: u8) AND 0x7F) = (take_bit 7 v :: u64)"
    unfolding and_7F by (rule bit_word_eqI) (auto simp: bit_80 bit_simps)
qed

lemma take_bit_small: "v < 0x80 \<Longrightarrow> take_bit 7 v = v" for v :: u64
  by (simp add: word_unat_eq_iff unsigned_take_bit_eq take_bit_nat_eq_self word_less_nat_alt)

lemma push_bit_split: "push_bit s (take_bit 7 v) OR push_bit (s + 7) (drop_bit 7 v) = push_bit s (v :: u64)"
proof (rule bit_word_eqI)
  fix n assume "n < LENGTH(64)"
  moreover have "n - s < 7 \<or> s + 7 \<le> n \<and> 7 + (n - (s + 7)) = n - s" by auto
  ultimately show "bit (push_bit s (take_bit 7 v) OR push_bit (s + 7) (drop_bit 7 v)) n = bit (push_bit s v) n"
    by (auto simp: bit_simps dest: bit_imp_le_length)
qed

lemma ReadUleb_loop_at:
  "ReadUleb_loop acc shift (reader_at pre (uleb_bytes v @ rest)) =
     Inr (acc OR push_bit shift v, reader_at (pre @ uleb_bytes v) rest)"
proof (induction v arbitrary: acc shift pre rule: uleb_bytes.induct)
  case (1 v)
  show ?case
  proof (cases "v \<ge> 0x80")
    case True
    have "(acc OR push_bit shift (take_bit 7 v)) OR push_bit (shift + 7) (drop_bit 7 v) = acc OR push_bit shift v"
      by (simp add: or.assoc push_bit_split)
    with True 1 show ?thesis
      by (simp add: uleb_bytes.simps [of v] ReadUleb_loop.simps [of acc] ReadU8_at uleb_more Let_def)
  next
    case False
    then have small: "take_bit 7 v = v" by (simp add: take_bit_small)
    have "\<not> bit (ucast v :: u8) 7"
      using arg_cong [OF small, of "\<lambda>w. bit w 7"] by (simp add: bit_simps)
    moreover have "ucast ((ucast v :: u8) AND 0x7F) = take_bit 7 v"
      unfolding and_7F by (rule bit_word_eqI) (auto simp: bit_simps)
    ultimately show ?thesis using False small
      by (simp add: uleb_bytes.simps [of v] ReadUleb_loop.simps [of acc] ReadU8_at and_80 Let_def)
  qed
qed

lemma ReadUleb_at [wire]: "ReadUleb (reader_at pre (uleb_bytes v @ rest)) = Inr (v, reader_at (pre @ uleb_bytes v) rest)"
  by (simp add: ReadUleb_def ReadUleb_loop_at)

abbreviation max_len :: nat where "max_len \<equiv> 0x7FFFFFFF"

lemma readLen_at [wire]:
  "n \<le> max_len \<Longrightarrow> readLen (reader_at pre (uleb_bytes (word_of_nat n) @ rest)) =
     Inr (n, reader_at (pre @ uleb_bytes (word_of_nat n)) rest)"
  by (simp add: readLen_def ReadUleb_at returnR_def word_less_nat_alt unat_of_nat take_bit_eq_mod)

lemma readLen_result: "readLen r = Inr (n, r') \<Longrightarrow> n \<le> max_len"
  by (auto simp: readLen_def bindR_result word_less_nat_alt split: if_splits)

section \<open>What a codec promises\<close>

locale wire_reader =
  fixes decode :: "'a reader"
  assumes advance: "in_bounds r \<Longrightarrow> decode r = Inr (v, r') \<Longrightarrow> moved r r'"

locale wire_codec = wire_reader decode for decode :: "'a reader" +
  fixes encode :: "'a encoder"
    and ok :: "'a \<Rightarrow> bool"
  assumes append: "encode w v = WriteBuffer w (EncodePacket v encode)"
    and decode_encode: "ok v \<Longrightarrow> decode (reader_at pre (EncodePacket v encode @ rest)) =
          Inr (v, reader_at (pre @ EncodePacket v encode) rest)"

lemma EncodePacket_append: "(\<And>w v. encode w v = WriteBuffer w (f v)) \<Longrightarrow> EncodePacket v encode = f v"
  by (simp add: EncodePacket_def ToBuffer_NewBinaryWriter)

text \<open>The usual way to establish the laws: name the bytes the encoder appends.\<close>

lemma wire_codecI:
  assumes "wire_reader decode"
    and enc: "\<And>w v. encode w v = WriteBuffer w (f v)"
    and dec: "\<And>v pre rest. ok v \<Longrightarrow> decode (reader_at pre (f v @ rest)) = Inr (v, reader_at (pre @ f v) rest)"
  shows "wire_codec decode encode ok"
proof -
  have f: "EncodePacket v encode = f v" for v
    using enc by (rule EncodePacket_append)
  show ?thesis
    using assms by (simp add: wire_codec_def wire_codec_axioms_def f)
qed

subsection \<open>Readers stay in their buffer\<close>

lemma wire_reader_return [inbounds, intro]: "wire_reader (returnR a)"
  by (simp add: wire_reader_def)

lemma wire_reader_fail [inbounds, intro]: "wire_reader (failR msg)"
  by (simp add: wire_reader_def)

lemma wire_reader_bind [inbounds, intro]:
  "wire_reader d \<Longrightarrow> (\<And>a. wire_reader (f a)) \<Longrightarrow> wire_reader (bindR d f)"
  unfolding wire_reader_def bindR_result by (meson moved_bounds moved_trans)

lemma wire_reader_if [inbounds, intro]: "wire_reader d \<Longrightarrow> wire_reader e \<Longrightarrow> wire_reader (if b then d else e)"
  by simp

lemma wire_reader_U8 [inbounds, intro]: "wire_reader ReadU8"
  by (auto simp: wire_reader_def ReadU8_def bindR_def ensure_def returnR_def failR_def moved_def
      in_bounds_def split: if_splits)

lemma wire_reader_le [inbounds, intro]: "wire_reader (read_le n)"
  by (auto simp: wire_reader_def read_le_def bindR_def ensure_def returnR_def failR_def moved_def
      in_bounds_def split: if_splits)

lemma wire_reader_Take [inbounds, intro]: "wire_reader (Take n)"
  by (auto simp: wire_reader_def Take_def bindR_def ensure_def returnR_def failR_def moved_def
      in_bounds_def split: if_splits)

lemma ReadUleb_loop_advance:
  "in_bounds r \<Longrightarrow> ReadUleb_loop acc shift r = Inr (v, r') \<Longrightarrow> moved r r'"
proof (induction acc shift r rule: ReadUleb_loop.induct)
  case (1 acc shift r)
  from "1.prems"(2) obtain b r1 where r1: "ReadU8 r = Inr (b, r1)"
    by (auto simp: ReadUleb_loop.simps [of acc] split: sum.splits)
  then have m: "moved r r1"
    using "1.prems"(1) wire_reader_U8 by (auto simp: wire_reader_def)
  show ?case
  proof (cases "b AND 0x80 = 0")
    case True
    with r1 m "1.prems"(2) show ?thesis by (simp add: ReadUleb_loop.simps [of acc] Let_def)
  next
    case False
    with r1 "1.prems"(2) "1.IH" moved_bounds [OF m] have "moved r1 r'"
      by (simp add: ReadUleb_loop.simps [of acc] Let_def)
    with m show ?thesis by (rule moved_trans)
  qed
qed

lemma wire_reader_Uleb [inbounds, intro]: "wire_reader ReadUleb"
  by (auto simp: wire_reader_def ReadUleb_def dest: ReadUleb_loop_advance)

lemma wire_reader_readLen [inbounds, intro]: "wire_reader readLen"
  unfolding readLen_def by (intro inbounds)

lemma wire_reader_times [inbounds, intro]: "wire_reader d \<Longrightarrow> wire_reader (read_times n d)"
  by (induction n) (auto intro!: inbounds)

lemma wire_reader_entries [inbounds, intro]:
  "wire_reader dK \<Longrightarrow> wire_reader dV \<Longrightarrow> wire_reader (read_entries n dK dV out)"
  by (induction n arbitrary: out) (auto intro!: inbounds)

lemmas read_prim_defs = ReadI8_def ReadBool_def ReadU16_def ReadU32_def ReadI32_def ReadU64_def
  ReadI64_def ReadF32_def

lemma wire_reader_prims [inbounds, intro]:
  "wire_reader ReadI8" "wire_reader ReadBool" "wire_reader ReadU16" "wire_reader ReadU32"
  "wire_reader ReadI32" "wire_reader ReadU64" "wire_reader ReadI64" "wire_reader ReadF32"
  by (auto simp: read_prim_defs intro!: inbounds)

lemma wire_reader_strings [inbounds, intro]:
  "wire_reader ReadString" "wire_reader (ReadVarchar n)"
  unfolding ReadString_def ReadVarchar_def by (intro inbounds)+

lemma wire_reader_combinators [inbounds, intro]:
  "wire_reader d \<Longrightarrow> wire_reader (ReadOption d)"
  "wire_reader d \<Longrightarrow> wire_reader (ReadArray d)"
  "wire_reader d \<Longrightarrow> wire_reader d' \<Longrightarrow> wire_reader (ReadMap d d')"
  "wire_reader d \<Longrightarrow> wire_reader (DecodeStringResult d)"
  unfolding ReadOption_def ReadArray_def ReadMap_def DecodeStringResult_def
  by (intro inbounds; assumption)+

subsection \<open>Codecs of the primitive types\<close>

lemmas write_prim_defs = WriteU8_def WriteI8_def WriteBool_def WriteU16_def WriteU32_def
  WriteI32_def WriteU64_def WriteI64_def WriteF32_def

lemma codec_U8 [codec]: "wire_codec ReadU8 WriteU8 (\<lambda>_. True)"
  by (rule wire_codecI [where f = "\<lambda>v. [v]"])
     (auto simp: WriteU8_def WriteBuffer_def ReadU8_at intro!: inbounds)

lemma codec_I8 [codec]: "wire_codec ReadI8 WriteI8 (\<lambda>_. True)"
  by (rule wire_codecI [where f = "\<lambda>v. [v]"])
     (auto simp: WriteI8_def ReadI8_def WriteBuffer_def ReadU8_at intro!: inbounds)

lemma codec_Bool [codec]: "wire_codec ReadBool WriteBool (\<lambda>_. True)"
  by (rule wire_codecI [where f = "\<lambda>v. [if v then 1 else 0]"])
     (auto simp: WriteBool_def ReadBool_def WriteBuffer_def ReadU8_at returnR_def intro!: inbounds)

lemma codec_le:
  "LENGTH('a::len) \<le> 8 * n \<Longrightarrow> wire_codec (read_le n) (\<lambda>w (v :: 'a word). w\<lparr>buf := buf w @ le_encode n v\<rparr>) (\<lambda>_. True)"
  by (rule wire_codecI [where f = "le_encode n"]) (auto simp: WriteBuffer_def read_le_at intro!: inbounds)

lemma codec_words [codec]:
  "wire_codec ReadU16 WriteU16 (\<lambda>_. True)" "wire_codec ReadU32 WriteU32 (\<lambda>_. True)"
  "wire_codec ReadI32 WriteI32 (\<lambda>_. True)" "wire_codec ReadU64 WriteU64 (\<lambda>_. True)"
  "wire_codec ReadI64 WriteI64 (\<lambda>_. True)" "wire_codec ReadF32 WriteF32 (\<lambda>_. True)"
  unfolding read_prim_defs
  by (subst ext [OF ext, OF WriteU16_def] ext [OF ext, OF WriteU32_def] ext [OF ext, OF WriteI32_def]
        ext [OF ext, OF WriteU64_def] ext [OF ext, OF WriteI64_def] ext [OF ext, OF WriteF32_def],
      rule codec_le, simp)+

lemma codec_Uleb [codec]: "wire_codec ReadUleb WriteUleb (\<lambda>_. True)"
  by (rule wire_codecI [where f = uleb_bytes]) (auto simp: WriteUleb_eq ReadUleb_at intro!: inbounds)

definition string_ok :: "string \<Rightarrow> bool" where
  "string_ok s \<longleftrightarrow> length s \<le> max_len"

abbreviation string_bytes :: "string \<Rightarrow> bytes" where
  "string_bytes s \<equiv> uleb_bytes (word_of_nat (length s)) @ bytes_of_string s"

lemma codec_String [codec]: "wire_codec ReadString WriteString string_ok"
  by (rule wire_codecI [where f = string_bytes])
     (auto simp: WriteString_def WriteUleb_eq WriteBuffer_WriteBuffer ReadString_def readLen_at Take_at
        returnR_def string_ok_def intro!: inbounds)

text \<open>\<open>WriteVarchar\<close> is \<open>WriteString\<close> up to its limit, and \<open>ReadVarchar\<close> with the same limit
  reads it back.\<close>

lemma WriteVarchar_ok: "length s \<le> n \<Longrightarrow> WriteVarchar n w s = Inr (WriteString w s)"
  by (simp add: WriteVarchar_def WriteString_def)

lemma WriteVarchar_too_long: "n < length s \<Longrightarrow> WriteVarchar n w s = Inl (ProtocolError ''binary-string-too-long'')"
  by (simp add: WriteVarchar_def)

lemma codec_Varchar [codec]: "n \<le> max_len \<Longrightarrow> wire_codec (ReadVarchar n) WriteString (\<lambda>s. length s \<le> n)"
  by (rule wire_codecI [where f = string_bytes])
     (auto simp: WriteString_def WriteUleb_eq WriteBuffer_WriteBuffer ReadVarchar_def readLen_at Take_at
        returnR_def intro!: inbounds)

interpretation cU8: wire_codec ReadU8 WriteU8 "\<lambda>_. True" by (rule codec_U8)
interpretation cI8: wire_codec ReadI8 WriteI8 "\<lambda>_. True" by (rule codec_I8)
interpretation cBool: wire_codec ReadBool WriteBool "\<lambda>_. True" by (rule codec_Bool)
interpretation cU16: wire_codec ReadU16 WriteU16 "\<lambda>_. True" by (rule codec_words)
interpretation cU32: wire_codec ReadU32 WriteU32 "\<lambda>_. True" by (rule codec_words)
interpretation cI32: wire_codec ReadI32 WriteI32 "\<lambda>_. True" by (rule codec_words)
interpretation cU64: wire_codec ReadU64 WriteU64 "\<lambda>_. True" by (rule codec_words)
interpretation cI64: wire_codec ReadI64 WriteI64 "\<lambda>_. True" by (rule codec_words)
interpretation cF32: wire_codec ReadF32 WriteF32 "\<lambda>_. True" by (rule codec_words)
interpretation cUleb: wire_codec ReadUleb WriteUleb "\<lambda>_. True" by (rule codec_Uleb)
interpretation cString: wire_codec ReadString WriteString string_ok by (rule codec_String)

lemmas prim_append = cI8.append cBool.append cU16.append cU32.append cI32.append cU64.append
  cI64.append cF32.append cString.append

lemmas prim_decode = cI8.decode_encode cBool.decode_encode cU16.decode_encode cU32.decode_encode
  cI32.decode_encode cU64.decode_encode cI64.decode_encode cF32.decode_encode cString.decode_encode

lemma WriteU8_eq [wire]: "WriteU8 w v = WriteBuffer w [v]"
  by (simp add: WriteU8_def WriteBuffer_def)

lemmas [wire] = prim_append prim_decode ReadU8_at returnR_def

text \<open>The second way to establish the laws: unfold the encoder on an empty writer.\<close>

lemma wire_codecI2:
  assumes "wire_reader decode"
    and "\<And>w v. encode w v = WriteBuffer w (ToBuffer (encode NewBinaryWriter v))"
    and "\<And>v pre rest. ok v \<Longrightarrow> decode (reader_at pre (ToBuffer (encode NewBinaryWriter v) @ rest)) =
           Inr (v, reader_at (pre @ ToBuffer (encode NewBinaryWriter v)) rest)"
  shows "wire_codec decode encode ok"
  using assms by (rule wire_codecI)

subsection \<open>Combinators over an arbitrary codec\<close>

definition array_ok :: "('a \<Rightarrow> bool) \<Rightarrow> 'a list \<Rightarrow> bool" where
  "array_ok ok xs \<longleftrightarrow> list_all ok xs \<and> length xs \<le> max_len"

fun result_ok :: "('a \<Rightarrow> bool) \<Rightarrow> 'a StringResult \<Rightarrow> bool" where
  "result_ok ok (Ok v) = ok v"
| "result_ok ok (Errr e) = string_ok e"

context wire_codec
begin

lemma roundtrip: "ok v \<Longrightarrow> DecodePacket (EncodePacket v encode @ rest) decode = Inr v"
  by (simp add: DecodePacket_def NewBinaryReader_at decode_encode [where pre = "[]", simplified])

lemma decode_moves: "decode (NewBinaryReader data) = Inr (v, r) \<Longrightarrow> Buf r = data \<and> Offset r \<le> length data"
  using advance [of "NewBinaryReader data" v r]
  by (auto simp: moved_def in_bounds_def NewBinaryReader_def)

lemma foldl_append: "foldl encode w xs = WriteBuffer w (concat (map (\<lambda>x. EncodePacket x encode) xs))"
proof (induction xs arbitrary: w)
  case Nil
  show ?case by (simp add: WriteBuffer_def)
next
  case (Cons x xs)
  have "foldl encode w (x # xs) = foldl encode (WriteBuffer w (EncodePacket x encode)) xs"
    using append [of w x] by simp
  then show ?case by (simp add: Cons WriteBuffer_WriteBuffer)
qed

lemma read_times_at:
  "list_all ok xs \<Longrightarrow>
     read_times (length xs) decode (reader_at pre (concat (map (\<lambda>x. EncodePacket x encode) xs) @ rest)) =
       Inr (xs, reader_at (pre @ concat (map (\<lambda>x. EncodePacket x encode) xs)) rest)"
  by (induction xs arbitrary: pre) (auto simp: returnR_def decode_encode)

lemma codec_array: "wire_codec (ReadArray decode) (WriteArray encode) (array_ok ok)"
  by (rule wire_codecI [where f = "\<lambda>xs. uleb_bytes (word_of_nat (length xs)) @ concat (map (\<lambda>x. EncodePacket x encode) xs)"])
     (auto simp: WriteArray_def WriteUleb_eq WriteBuffer_WriteBuffer foldl_append ReadArray_def array_ok_def
        readLen_at read_times_at intro: wire_reader_axioms inbounds)

lemma codec_option: "wire_codec (ReadOption decode) (WriteOption encode) (pred_option ok)"
proof (rule wire_codecI2)
  show "wire_reader (ReadOption decode)" by (intro inbounds wire_reader_axioms)
next
  fix w v
  show "WriteOption encode w v = WriteBuffer w (ToBuffer (WriteOption encode NewBinaryWriter v))"
    by (cases v) (simp_all add: WriteOption_def append [of "WriteBuffer _ _"] wire)
next
  fix v pre rest assume "pred_option ok v"
  then show "ReadOption decode (reader_at pre (ToBuffer (WriteOption encode NewBinaryWriter v) @ rest)) =
      Inr (v, reader_at (pre @ ToBuffer (WriteOption encode NewBinaryWriter v)) rest)"
    by (cases v) (simp_all add: WriteOption_def ReadOption_def append [of "WriteBuffer _ _"] wire decode_encode)
qed

lemma codec_result: "wire_codec (DecodeStringResult decode) (EncodeStringResult encode) (result_ok ok)"
proof (rule wire_codecI2)
  show "wire_reader (DecodeStringResult decode)" by (intro inbounds wire_reader_axioms)
next
  fix w v
  show "EncodeStringResult encode w v = WriteBuffer w (ToBuffer (EncodeStringResult encode NewBinaryWriter v))"
    by (cases v) (simp_all add: EncodeStringResult_def append [of "WriteBuffer _ _"] wire)
next
  fix v pre rest assume "result_ok ok v"
  then show "DecodeStringResult decode (reader_at pre (ToBuffer (EncodeStringResult encode NewBinaryWriter v) @ rest)) =
      Inr (v, reader_at (pre @ ToBuffer (EncodeStringResult encode NewBinaryWriter v)) rest)"
    by (cases v) (simp_all add: EncodeStringResult_def DecodeStringResult_def append [of "WriteBuffer _ _"] wire decode_encode)
qed

end

text \<open>A map is written in the order of its keys whatever order it was iterated in; reading it back
  gives the map in that canonical order.\<close>

definition map_canon :: "(i32 \<times> 'v) list \<Rightarrow> (i32 \<times> 'v) list" where
  "map_canon m = map (\<lambda>k. (k, the (map_of m k))) (sort_key sint (map fst m))"

definition map_entries_ok :: "('v \<Rightarrow> bool) \<Rightarrow> (i32 \<times> 'v) list \<Rightarrow> bool" where
  "map_entries_ok ok m \<longleftrightarrow> distinct (map fst m) \<and> list_all (\<lambda>(k, v). ok v) m \<and> length m \<le> max_len"

definition map_ok :: "('v \<Rightarrow> bool) \<Rightarrow> (i32 \<times> 'v) list \<Rightarrow> bool" where
  "map_ok ok m \<longleftrightarrow> map_entries_ok ok m \<and> sorted (map sint (map fst m))"

lemma keys_map_canon [simp]: "map fst (map_canon m) = sort_key sint (map fst m)"
  by (simp add: map_canon_def o_def)

lemma map_of_map_canon: "map_of (map_canon m) = map_of m"
proof
  fix k
  show "map_of (map_canon m) k = map_of m k"
  proof (cases "k \<in> set (map fst m)")
    case True
    then obtain v where "map_of m k = Some v" by (metis map_of_eq_None_iff not_Some_eq set_map)
    with True show ?thesis
      by (auto simp: map_canon_def map_of_map_restrict restrict_map_def)
  next
    case False
    then have "k \<notin> set (map fst (map_canon m))" by simp
    with False show ?thesis by (metis map_of_eq_None_iff set_map)
  qed
qed

lemma map_canon_sorted: "map_ok ok m \<Longrightarrow> map_canon m = m"
proof -
  assume ok: "map_ok ok m"
  then have "sort_key sint (map fst m) = map fst m"
    by (intro sort_key_id_if_sorted) (simp add: map_ok_def)
  then show ?thesis
    using ok sorted_map_of_distinct [of m] by (simp add: map_canon_def map_ok_def map_entries_ok_def)
qed

lemma map_canon_entries: "map_entries_ok ok m \<Longrightarrow> set (map_canon m) = set m"
  by (auto simp: map_canon_def map_entries_ok_def image_iff)
     (metis fst_conv snd_conv option.sel)+

context wire_codec
begin

definition entry_bytes :: "i32 \<times> 'a \<Rightarrow> bytes" where
  "entry_bytes e = EncodePacket (fst e) WriteI32 @ EncodePacket (snd e) encode"

lemma foldl_entries:
  "foldl (\<lambda>w k. encode (WriteI32 w k) (g k)) w ks =
     WriteBuffer w (concat (map entry_bytes (map (\<lambda>k. (k, g k)) ks)))"
proof (induction ks arbitrary: w)
  case Nil
  show ?case by (simp add: WriteBuffer_def)
next
  case (Cons k ks)
  have "encode (WriteI32 w k) (g k) = WriteBuffer w (entry_bytes (k, g k))"
    using append [of "WriteI32 w k"] by (simp add: entry_bytes_def wire)
  then show ?case by (simp add: Cons WriteBuffer_WriteBuffer)
qed

lemma map_append:
  "WriteSortedMap WriteI32 encode w m =
     WriteBuffer w (uleb_bytes (word_of_nat (length m)) @ concat (map entry_bytes (map_canon m)))"
  by (simp add: WriteSortedMap_def Let_def WriteUleb_eq foldl_entries WriteBuffer_WriteBuffer map_canon_def)

lemma read_entries_at:
  assumes "list_all (\<lambda>(k, v). ok v) es" "distinct (map fst (out @ es))"
  shows "read_entries (length es) ReadI32 decode out (reader_at pre (concat (map entry_bytes es) @ rest)) =
     Inr (out @ es, reader_at (pre @ concat (map entry_bytes es)) rest)"
  using assms
proof (induction es arbitrary: out pre)
  case Nil
  show ?case by (simp add: returnR_def)
next
  case (Cons e es)
  obtain k v where e: "e = (k, v)" by force
  have upd: "AList.update k v out = out @ [(k, v)]"
    using Cons.prems(2) by (intro update_new) (auto simp: e)
  show ?case
    using Cons.prems Cons.IH [of "out @ [(k, v)]" "pre @ entry_bytes (k, v)"]
    by (simp add: e entry_bytes_def wire decode_encode upd)
qed

text \<open>Reading a written map gives it back in canonical order, whatever the iteration order.\<close>

lemma map_decode:
  assumes "map_entries_ok ok m"
  shows "ReadMap ReadI32 decode (reader_at pre (EncodePacket m (WriteSortedMap WriteI32 encode) @ rest)) =
     Inr (map_canon m, reader_at (pre @ EncodePacket m (WriteSortedMap WriteI32 encode)) rest)"
proof -
  have len: "length m = length (map_canon m)" by (simp add: map_canon_def)
  have small: "length (map_canon m) \<le> max_len" using assms by (simp add: map_entries_ok_def flip: len)
  have "list_all (\<lambda>(k, v). ok v) (map_canon m)"
    using assms map_canon_entries [OF assms] by (simp add: list_all_iff map_entries_ok_def)
  moreover have "distinct (map fst ([] @ map_canon m))"
    using assms by (simp add: map_entries_ok_def)
  ultimately show ?thesis
    unfolding EncodePacket_append [of "WriteSortedMap WriteI32 encode", OF map_append] len
    by (simp add: ReadMap_def readLen_at [OF small] read_entries_at del: keys_map_canon)
qed

lemma codec_map: "wire_codec (ReadMap ReadI32 decode) (WriteSortedMap WriteI32 encode) (map_ok ok)"
proof (rule wire_codecI [OF _ map_append])
  show "wire_reader (ReadMap ReadI32 decode)" by (intro inbounds wire_reader_axioms)
next
  fix m pre rest assume m: "map_ok ok m"
  then have "map_entries_ok ok m" by (simp add: map_ok_def)
  from map_decode [OF this] map_canon_sorted [OF m]
  show "ReadMap ReadI32 decode (reader_at pre ((uleb_bytes (word_of_nat (length m)) @ concat (map entry_bytes (map_canon m))) @ rest)) =
      Inr (m, reader_at (pre @ (uleb_bytes (word_of_nat (length m)) @ concat (map entry_bytes (map_canon m)))) rest)"
    by (simp add: EncodePacket_append [of "WriteSortedMap WriteI32 encode", OF map_append])
qed

end

text \<open>The bytes of a map do not depend on the order in which it was iterated.\<close>

lemma sort_key_set_unique:
  assumes "inj f" "distinct xs" "distinct ys" "set xs = set ys"
  shows "sort_key f xs = sort_key f ys"
  using assms
  by (intro map_sorted_distinct_set_unique [where f = f])
     (auto simp: distinct_map intro: inj_on_subset)

lemma map_canon_unique:
  assumes "distinct (map fst m)" "distinct (map fst m')" "map_of m = map_of m'"
  shows "map_canon m = map_canon m'"
proof -
  have "set (map fst m) = set (map fst m')"
    using assms(3) by (metis dom_map_of_conv_image_fst list.set_map)
  moreover have "inj (sint :: i32 \<Rightarrow> int)" by (auto simp: inj_def intro: signed_word_eqI)
  ultimately have "sort_key sint (map fst m) = sort_key sint (map fst m')"
    using assms by (intro sort_key_set_unique) auto
  with assms(3) show ?thesis by (simp add: map_canon_def)
qed

lemma WriteSortedMap_deterministic:
  assumes "distinct (map fst m)" "distinct (map fst m')" "map_of m = map_of m'"
  shows "WriteSortedMap eK eV w m = WriteSortedMap eK eV w m'"
proof -
  have "map fst (map_canon m) = map fst (map_canon m')"
    using map_canon_unique [OF assms] by simp
  then show ?thesis using assms(3) by (simp add: WriteSortedMap_def)
qed

section \<open>Buffers of the reader are finite: truncated input is an error\<close>

text \<open>An unfinished LEB128 number, every byte with the continuation bit, is refused at the end of
  the buffer; no input makes the reading loop run on.\<close>

lemma ReadUleb_loop_truncated:
  "list_all (\<lambda>b. bit b 7) bs \<Longrightarrow>
     ReadUleb_loop acc shift (reader_at pre bs) = Inl (ProtocolError ''binary-unexpected-eof'')"
proof (induction bs arbitrary: acc shift pre)
  case Nil
  have "ReadU8 (reader_at pre []) = Inl (ProtocolError ''binary-unexpected-eof'')"
    by (rule ReadU8_eof) (simp add: reader_at_def)
  then show ?case by (simp add: ReadUleb_loop.simps [of acc])
next
  case (Cons b bs)
  then show ?case by (simp add: ReadUleb_loop.simps [of acc] ReadU8_at Let_def and_80)
qed

end
