(* ===== verification/Wire_Ids.thy ===== *)
theory Wire_Ids
  imports Wire_Binary
begin

text \<open>
  Identifiers of the wire protocol: validated room identifiers
  (\<open>internal/common/protocol/roomid.go\<close>) and UUIDs as two 64-bit halves
  (\<open>internal/common/protocol/uuid.go\<close>, with \<open>ReadUUID\<close> and \<open>WriteUUID\<close> of \<open>binary.go\<close>).
\<close>

section \<open>Room identifiers\<close>

type_synonym RoomID = string

definition byte_of :: "char \<Rightarrow> u8" where
  "byte_of c = word_of_nat (of_char c)"

definition roomid_char :: "char \<Rightarrow> bool" where
  "roomid_char ch \<longleftrightarrow> ch = CHR ''-'' \<or> ch = CHR ''_''
     \<or> (byte_of ch \<ge> byte_of (CHR ''0'') \<and> byte_of ch \<le> byte_of (CHR ''9''))
     \<or> (byte_of ch \<ge> byte_of (CHR ''A'') \<and> byte_of ch \<le> byte_of (CHR ''Z''))
     \<or> (byte_of ch \<ge> byte_of (CHR ''a'') \<and> byte_of ch \<le> byte_of (CHR ''z''))"

fun roomid_scan :: "string \<Rightarrow> bool" where
  "roomid_scan [] = True"
| "roomid_scan (ch # s) = (if \<not> roomid_char ch then False else roomid_scan s)"

definition ParseRoomID :: "string \<Rightarrow> string + RoomID" where
  "ParseRoomID value =
     (if length value = 0 then Inl ''roomid-empty''
      else if length value > 20 then Inl ''roomid-too-long''
      else if \<not> roomid_scan value then Inl ''roomid-invalid''
      else Inr value)"

section \<open>UUIDs\<close>

definition fromHexDigit :: "u8 \<Rightarrow> u8" where
  "fromHexDigit c =
     (if c \<ge> 0x30 \<and> c \<le> 0x39 then c - 0x30
      else if c \<ge> 0x61 \<and> c \<le> 0x66 then c - 0x61 + 10
      else if c \<ge> 0x41 \<and> c \<le> 0x46 then c - 0x41 + 10
      else 0xFF)"

definition hexPairPositions :: "nat list" where
  "hexPairPositions = [0, 2, 4, 6, 9, 11, 14, 16, 19, 21, 24, 26, 28, 30, 32, 34]"

fun parse_pairs :: "string \<Rightarrow> nat list \<Rightarrow> string + bytes" where
  "parse_pairs s [] = Inr []"
| "parse_pairs s (p # ps) =
     (let hi = fromHexDigit (byte_of (s ! p)); lo = fromHexDigit (byte_of (s ! (p + 1)))
      in if hi = 0xFF \<or> lo = 0xFF then Inl ''uuid-invalid''
         else map_sum id (\<lambda>bs. (push_bit 4 hi OR lo) # bs) (parse_pairs s ps))"

definition parseUUID :: "string \<Rightarrow> string + bytes" where
  "parseUUID s =
     (if length s \<noteq> 36 \<or> s ! 8 \<noteq> CHR ''-'' \<or> s ! 13 \<noteq> CHR ''-'' \<or> s ! 18 \<noteq> CHR ''-'' \<or> s ! 23 \<noteq> CHR ''-''
      then Inl ''uuid-invalid'' else parse_pairs s hexPairPositions)"

text \<open>\<open>hex.Encode\<close> of the Go library, lower case digits.\<close>

definition hex_digit :: "u8 \<Rightarrow> char" where
  "hex_digit n = ''0123456789abcdef'' ! unat n"

definition hex_encode :: "bytes \<Rightarrow> string" where
  "hex_encode bs = concat (map (\<lambda>b. [hex_digit (drop_bit 4 b), hex_digit (b AND 0x0F)]) bs)"

definition slice :: "nat \<Rightarrow> nat \<Rightarrow> 'a list \<Rightarrow> 'a list" where
  "slice i j xs = take (j - i) (drop i xs)"

definition formatUUID :: "bytes \<Rightarrow> string" where
  "formatUUID b = hex_encode (slice 0 4 b) @ ''-'' @ hex_encode (slice 4 6 b) @ ''-'' @
     hex_encode (slice 6 8 b) @ ''-'' @ hex_encode (slice 8 10 b) @ ''-'' @ hex_encode (slice 10 16 b)"

definition UUIDToU64Pair :: "string \<Rightarrow> string + u64 \<times> u64" where
  "UUIDToU64Pair uuid = map_sum id (\<lambda>b. (be_decode (slice 0 8 b), be_decode (slice 8 16 b))) (parseUUID uuid)"

definition U64PairToUUID :: "u64 \<Rightarrow> u64 \<Rightarrow> string" where
  "U64PairToUUID high low = formatUUID (be_encode 8 high @ be_encode 8 low)"

text \<open>\<open>NewUUID\<close> with the 16 random bytes it drew: version 4 and the RFC 4122 variant are set.\<close>

definition NewUUID :: "bytes \<Rightarrow> string" where
  "NewUUID rand = formatUUID (rand[6 := (rand ! 6 AND 0x0F) OR 0x40, 8 := (rand ! 8 AND 0x3F) OR 0x80])"

definition ReadUUID :: "string reader" where
  "ReadUUID = bindR ReadU64 (\<lambda>low. bindR ReadU64 (\<lambda>high. returnR (U64PairToUUID high low)))"

definition WriteUUID :: "BinaryWriter \<Rightarrow> string \<Rightarrow> ProtocolError + BinaryWriter" where
  "WriteUUID w uuid = (case UUIDToU64Pair uuid of
     Inl _ \<Rightarrow> Inl (ProtocolError ''binary-invalid-uuid'')
   | Inr (high, low) \<Rightarrow> Inr (WriteU64 (WriteU64 w low) high))"

section \<open>Facts\<close>

lemma roomid_scan_eq: "roomid_scan s \<longleftrightarrow> list_all roomid_char s"
  by (induction s) auto

lemma ParseRoomID_Inr:
  "ParseRoomID s = Inr rid \<longleftrightarrow> rid = s \<and> s \<noteq> [] \<and> length s \<le> 20 \<and> list_all roomid_char s"
  by (auto simp: ParseRoomID_def roomid_scan_eq)

lemma fromHexDigit_hex_digit_nat:
  "n < 16 \<Longrightarrow> fromHexDigit (byte_of (''0123456789abcdef'' ! n)) = word_of_nat n"
  by (simp add: numeral_eq_Suc less_Suc_eq)
     (elim disjE; simp add: fromHexDigit_def byte_of_def numeral_eq_Suc [symmetric])

lemma fromHexDigit_hex_digit: "n < 16 \<Longrightarrow> fromHexDigit (byte_of (hex_digit n)) = n"
  using fromHexDigit_hex_digit_nat [of "unat n"] by (simp add: hex_digit_def word_less_nat_alt)

lemma nibble_less: "drop_bit 4 (b :: u8) < 16" "b AND 0x0F < 16"
proof -
  have "unat (drop_bit 4 b) = unat b div 2 ^ 4"
    by (simp add: unat_drop_bit_eq drop_bit_nat_def)
  moreover have "unat b < 256" using unsigned_less [where w = b and 'a = nat] by simp
  ultimately show "drop_bit 4 b < 16" by (simp add: word_less_nat_alt)
  have "b AND 0x0F \<le> 0x0F" by (rule word_and_le1)
  then show "b AND 0x0F < 16" by (simp add: word_le_nat_alt word_less_nat_alt)
qed

lemma nibble_join: "push_bit 4 (drop_bit 4 (b :: u8)) OR (b AND 0x0F) = b"
proof -
  have 0: "b AND 0x0F = take_bit 4 b" by (simp add: take_bit_eq_mask mask_eq_exp_minus_1)
  show ?thesis unfolding 0 by (rule bit_word_eqI) (auto simp: bit_simps)
qed

lemma nibble_neq: "n < 16 \<Longrightarrow> n \<noteq> (0xFF :: u8)"
  by auto

lemma hex_pair:
  "fromHexDigit (byte_of (hex_digit (drop_bit 4 b))) = drop_bit 4 b"
  "fromHexDigit (byte_of (hex_digit (b AND 0x0F))) = b AND 0x0F"
  by (simp_all add: fromHexDigit_hex_digit nibble_less)

lemma parse_format: "length b = 16 \<Longrightarrow> parseUUID (formatUUID b) = Inr b"
proof -
  assume "length b = 16"
  then obtain b0 b1 b2 b3 b4 b5 b6 b7 b8 b9 b10 b11 b12 b13 b14 b15 where
    "b = [b0, b1, b2, b3, b4, b5, b6, b7, b8, b9, b10, b11, b12, b13, b14, b15]"
    by (auto simp: numeral_eq_Suc length_Suc_conv)
  then show ?thesis
    using nibble_less [THEN nibble_neq]
    by (simp add: parseUUID_def formatUUID_def slice_def hex_encode_def hexPairPositions_def hex_pair nibble_join Let_def)
qed

lemma length_formatUUID: "length b = 16 \<Longrightarrow> length (formatUUID b) = 36"
  by (simp add: formatUUID_def slice_def hex_encode_def length_concat o_def sum_list_triv)

lemma UUIDToU64Pair_U64PairToUUID: "UUIDToU64Pair (U64PairToUUID high low) = Inr (high, low)"
  by (simp add: UUIDToU64Pair_def U64PairToUUID_def parse_format slice_def)

lemma WriteUUID_ReadUUID:
  "WriteUUID w uuid = Inr w' \<Longrightarrow>
     \<exists>high low. UUIDToU64Pair uuid = Inr (high, low) \<and>
       w' = WriteBuffer w (EncodePacket low WriteU64 @ EncodePacket high WriteU64)"
  by (auto simp: WriteUUID_def wire split: sum.splits)

end
