(* ===== verification/Wire_Half.thy ===== *)
theory Wire_Half
  imports Wire_Binary "HOL-Library.While_Combinator"
begin

text \<open>
  Conversion between IEEE-754 binary16 and binary32 (\<open>internal/common/protocol/half.go\<close>), on bit
  patterns: \<open>math.Float32bits\<close> and \<open>math.Float32frombits\<close> are the identity on the pattern.  The
  exponent, an \<open>int32\<close> between -112 and 143 in the source, is an \<open>int\<close>.
\<close>

definition half_norm :: "u32 \<Rightarrow> u32 \<Rightarrow> u32 \<times> u32" where
  "half_norm frac e = while (\<lambda>(frac, e). frac AND 0x0400 = 0) (\<lambda>(frac, e). (push_bit 1 frac, e - 1)) (frac, e)"

definition F16BitsToF32 :: "u16 \<Rightarrow> float32" where
  "F16BitsToF32 bits =
     (let sign = push_bit 16 (ucast (bits AND 0x8000) :: u32);
          exp = ucast (drop_bit 10 bits) AND (0x1F :: u32);
          frac = (ucast (bits AND 0x03FF) :: u32)
      in if exp = 0 then
           (if frac = 0 then sign
            else (let (frac', e) = half_norm frac 113
                  in sign OR push_bit 23 e OR push_bit 13 (frac' AND 0x03FF)))
         else if exp = 0x1F then
           (if frac = 0 then sign OR 0x7F800000 else sign OR 0x7F800000 OR push_bit 13 frac)
         else (let e = exp + (127 - 15) in sign OR push_bit 23 e OR push_bit 13 frac))"

definition F32ToF16Bits :: "float32 \<Rightarrow> u16" where
  "F32ToF16Bits b =
     (let sign = (ucast (drop_bit 16 b AND 0x8000) :: u16);
          exp = uint (drop_bit 23 b AND 0xFF);
          mant = b AND 0x007FFFFF
      in if exp = 0xFF then (if mant \<noteq> 0 then 0x7E00 else sign OR 0x7C00)
         else let e = exp - 127 + 15
         in if e \<ge> 0x1F then sign OR 0x7C00
         else if e \<le> 0 then
           (if e < -10 then sign
            else let mant' = mant OR 0x00800000;
                     shift = nat (14 - e);
                     rem = mant' AND (push_bit shift 1 - 1);
                     res = drop_bit shift mant';
                     halfway = push_bit (shift - 1) (1 :: u32);
                     res' = (if rem > halfway \<or> (rem = halfway \<and> res AND 1 = 1) then res + 1 else res)
                 in sign OR ucast res')
         else let half = sign OR word_of_int (push_bit 10 e) OR ucast (drop_bit 13 mant);
                  rem = mant AND 0x1FFF
              in if rem > 0x1000 \<or> (rem = 0x1000 \<and> half AND 1 = 1) then half + 1 else half)"

text \<open>The binary16 patterns of NaN: exponent all ones and a non-zero fraction.\<close>

definition half_nan :: "u16 \<Rightarrow> bool" where
  "half_nan h \<longleftrightarrow> drop_bit 10 h AND 0x1F = 0x1F \<and> h AND 0x03FF \<noteq> 0"

section \<open>Masks and bits\<close>

lemma mask_words:
  "x AND 0x1F = take_bit 5 x" "x AND 0x03FF = take_bit 10 x" "x AND 0xFF = take_bit 8 x"
  "x AND 0x007FFFFF = take_bit 23 x" "x AND 0x1FFF = take_bit 13 x" for x :: "'a::len word"
  by (simp_all add: take_bit_eq_mask mask_eq_exp_minus_1)

lemma bit_pow_words:
  "bit (0x8000 :: 'a::len word) n \<longleftrightarrow> n = 15 \<and> 15 < LENGTH('a)"
  "bit (0x0400 :: 'a word) n \<longleftrightarrow> n = 10 \<and> 10 < LENGTH('a)"
  "bit (0x00800000 :: 'a word) n \<longleftrightarrow> n = 23 \<and> 23 < LENGTH('a)"
  using bit_exp_iff [where 'a = "'a word", of 15 n] bit_exp_iff [where 'a = "'a word", of 10 n]
    bit_exp_iff [where 'a = "'a word", of 23 n] by auto

lemma bit_pow_ints:
  "bit (0x8000 :: int) n \<longleftrightarrow> n = 15" "bit (0x0400 :: int) n \<longleftrightarrow> n = 10"
  "bit (0x00800000 :: int) n \<longleftrightarrow> n = 23"
  using bit_exp_iff [where 'a = int, of 15 n] bit_exp_iff [where 'a = int, of 10 n]
    bit_exp_iff [where 'a = int, of 23 n] by auto

lemmas bit_pows = bit_pow_words bit_pow_ints

lemma and_0400: "x AND 0x0400 = 0 \<longleftrightarrow> \<not> bit (x :: u32) 10"
  using and_exp_eq_0_iff_not_bit [of x 10] by simp

lemma bit_take_bit_self: "take_bit m x = x \<Longrightarrow> bit x n \<Longrightarrow> n < m"
  by (metis bit_take_bit_iff)

section \<open>Reading the fields of a composed binary32 pattern\<close>

lemma compose_fields:
  fixes bits :: u16 and E F :: u32
  assumes E: "take_bit 8 E = E" and F: "take_bit 23 F = F"
  defines "R \<equiv> push_bit 16 (ucast (bits AND 0x8000)) OR push_bit 23 E OR F"
  shows "ucast (drop_bit 16 R AND 0x8000) = bits AND 0x8000"
    and "drop_bit 23 R AND 0xFF = E"
    and "R AND 0x007FFFFF = F"
proof -
  have e: "bit E n \<Longrightarrow> n < 8" and f: "bit F n \<Longrightarrow> n < 23" for n
    using bit_take_bit_self [OF E] bit_take_bit_self [OF F] by auto
  show "ucast (drop_bit 16 R AND 0x8000) = bits AND 0x8000"
    unfolding R_def by (rule bit_word_eqI) (auto simp: bit_simps bit_pows dest: e f)
  show "drop_bit 23 R AND 0xFF = E"
    unfolding R_def mask_words by (rule bit_word_eqI) (auto simp: bit_simps bit_pows dest: e f)
  show "R AND 0x007FFFFF = F"
    unfolding R_def mask_words by (rule bit_word_eqI) (auto simp: bit_simps bit_pows dest: e f)
qed

lemma F32ToF16Bits_compose:
  fixes bits :: u16 and E F :: u32
  assumes E: "take_bit 8 E = E" and F: "take_bit 23 F = F"
  defines "R \<equiv> push_bit 16 (ucast (bits AND 0x8000)) OR push_bit 23 E OR F"
    and "e \<equiv> uint E - 127 + 15"
  shows "E \<noteq> 0xFF \<Longrightarrow> 0 < e \<Longrightarrow> e < 0x1F \<Longrightarrow> F AND 0x1FFF = 0 \<Longrightarrow>
           F32ToF16Bits R = (bits AND 0x8000) OR word_of_int (push_bit 10 e) OR ucast (drop_bit 13 F)"
    and "E = 0xFF \<Longrightarrow> F = 0 \<Longrightarrow> F32ToF16Bits R = (bits AND 0x8000) OR 0x7C00"
    and "E = 0xFF \<Longrightarrow> F \<noteq> 0 \<Longrightarrow> F32ToF16Bits R = 0x7E00"
    and "e < -10 \<Longrightarrow> F32ToF16Bits R = bits AND 0x8000"
    and "E \<noteq> 0xFF \<Longrightarrow> e \<le> 0 \<Longrightarrow> -10 \<le> e \<Longrightarrow> (F OR 0x00800000) = push_bit (nat (14 - e)) G \<Longrightarrow>
           take_bit (32 - nat (14 - e)) G = G \<Longrightarrow> F32ToF16Bits R = (bits AND 0x8000) OR ucast G"
proof -
  note fields = compose_fields [OF E F, of bits, folded R_def]
  have E255: "uint E = 0xFF \<longleftrightarrow> E = 0xFF" by (simp add: word_uint_eq_iff)
  show "E \<noteq> 0xFF \<Longrightarrow> 0 < e \<Longrightarrow> e < 0x1F \<Longrightarrow> F AND 0x1FFF = 0 \<Longrightarrow>
           F32ToF16Bits R = (bits AND 0x8000) OR word_of_int (push_bit 10 e) OR ucast (drop_bit 13 F)"
    by (simp add: F32ToF16Bits_def fields E255 e_def Let_def)
  show "E = 0xFF \<Longrightarrow> F = 0 \<Longrightarrow> F32ToF16Bits R = (bits AND 0x8000) OR 0x7C00"
    by (simp add: F32ToF16Bits_def fields E255 Let_def)
  show "E = 0xFF \<Longrightarrow> F \<noteq> 0 \<Longrightarrow> F32ToF16Bits R = 0x7E00"
    by (simp add: F32ToF16Bits_def fields E255 Let_def)
  show "e < -10 \<Longrightarrow> F32ToF16Bits R = bits AND 0x8000"
    by (auto simp: F32ToF16Bits_def fields E255 e_def Let_def)
  assume E_ne: "E \<noteq> 0xFF" and e: "e \<le> 0" "-10 \<le> e"
    and G: "(F OR 0x00800000) = push_bit (nat (14 - e)) G" and G32: "take_bit (32 - nat (14 - e)) G = G"
  let ?s = "nat (14 - e)"
  have s: "14 \<le> ?s" "?s \<le> 24" using e by auto
  have "push_bit ?s 1 - 1 = (mask ?s :: u32)"
    by (simp add: mask_eq_exp_minus_1 push_bit_eq_mult)
  then have rem: "(F OR 0x00800000) AND (push_bit ?s 1 - 1) = 0"
    unfolding G by (intro bit_word_eqI) (auto simp: bit_simps)
  have res: "drop_bit ?s (F OR 0x00800000) = G"
    unfolding G by (subst (2) G32 [symmetric], rule bit_word_eqI) (auto simp: bit_simps)
  have "bit (push_bit (?s - 1) (1 :: u32)) (?s - 1)" using s by (auto simp: bit_simps)
  then have halfway: "(0 :: u32) \<noteq> push_bit (?s - 1) 1" by (metis bit_0_eq bot_apply bot_bool_def)
  have e_eq: "uint E - 127 + 15 = e" by (simp add: e_def)
  show "F32ToF16Bits R = (bits AND 0x8000) OR ucast G"
    using E_ne e halfway
    by (simp only: F32ToF16Bits_def fields E255 Let_def e_eq rem res) simp
qed

section \<open>Normalising a subnormal\<close>

lemma half_norm_steps:
  "(\<And>i. i < k \<Longrightarrow> \<not> bit (push_bit i f) 10) \<Longrightarrow> bit (push_bit k f) 10 \<Longrightarrow>
     half_norm f e = (push_bit k f, e - word_of_nat k)"
proof (induction k arbitrary: f e)
  case 0
  then show ?case by (simp add: half_norm_def while_unfold and_0400)
next
  case (Suc k)
  have "half_norm (push_bit 1 f) (e - 1) = (push_bit k (push_bit 1 f), (e - 1) - word_of_nat k)"
    using Suc.prems(1) [of "Suc i" for i] Suc.prems(2) by (intro Suc.IH) auto
  moreover have "\<not> bit f 10" using Suc.prems(1) [of 0] by simp
  ultimately show ?case
    by (simp add: half_norm_def while_unfold [of _ _ "(f, e)"] and_0400 algebra_simps)
qed

lemma power_window: "0 < n \<Longrightarrow> n < 1024 \<Longrightarrow> \<exists>k. 1 \<le> k \<and> k \<le> 10 \<and> 1024 \<le> n * 2 ^ k \<and> n * 2 ^ k < (2048 :: nat)"
proof -
  assume n: "0 < n" "n < 1024"
  define k where "k = (LEAST k. 1024 \<le> n * 2 ^ k)"
  have ex: "1024 \<le> n * 2 ^ 10" using n by simp
  have k: "1024 \<le> n * 2 ^ k" unfolding k_def using ex by (rule LeastI)
  have k10: "k \<le> 10" unfolding k_def using ex by (rule Least_le)
  have k0: "k \<noteq> 0" using k n by (metis mult.right_neutral not_less power_0)
  have "\<not> 1024 \<le> n * 2 ^ (k - 1)" using k0 not_less_Least [of "k - 1" "\<lambda>k. 1024 \<le> n * 2 ^ k"] by (simp add: k_def)
  then have "n * 2 ^ k < 2048" using k0 by (cases k) auto
  with k k10 k0 show ?thesis by (intro exI [of _ k]) auto
qed

lemma bit10_window: "unat (w :: u32) < 2048 \<Longrightarrow> bit w 10 \<longleftrightarrow> 1024 \<le> unat w"
proof -
  assume "unat w < 2048"
  moreover have "bit w 10 \<longleftrightarrow> odd (unat w div 1024)"
    using bit_iff_odd [of "unat w" 10] by (simp add: bit_unsigned_iff)
  ultimately show ?thesis
    by (cases "unat w < 1024") (auto simp: div_if [of "unat w"])
qed

lemma unat_push_bit_small: "unat w * 2 ^ i < 2 ^ 32 \<Longrightarrow> unat (push_bit i (w :: u32)) = unat w * 2 ^ i"
  using push_bit_eq_mult [of i "unat w"] by (simp add: unsigned_push_bit_eq take_bit_nat_eq_self)

lemma subnormal_window:
  fixes f :: u32
  assumes "0 < f" "f < 1024"
  obtains k where "1 \<le> k" "k \<le> 10" "bit f (10 - k)" "\<And>n. bit f n \<Longrightarrow> n + k \<le> 10"
    "half_norm f e = (push_bit k f, e - word_of_nat k)"
proof -
  have n: "0 < unat f" "unat f < 1024" using assms by (auto simp: word_less_nat_alt unat_gt_0)
  then obtain k where k: "1 \<le> k" "k \<le> 10" "1024 \<le> unat f * 2 ^ k" "unat f * 2 ^ k < 2048"
    using power_window by blast
  have uk: "unat (push_bit k f) = unat f * 2 ^ k" using k by (simp add: unat_push_bit_small)
  have low: "\<not> bit (push_bit i f) 10" if "i < k" for i
  proof -
    have "unat f * (2 * 2 ^ i) \<le> unat f * 2 ^ k"
      using that power_increasing [of "Suc i" k "2 :: nat"] by (intro mult_le_mono) auto
    then have "2 * (unat f * 2 ^ i) \<le> unat f * 2 ^ k" by (simp only: mult.left_commute)
    then have "unat f * 2 ^ i < 1024" using k by linarith
    then show ?thesis using bit10_window [of "push_bit i f"] by (simp add: unat_push_bit_small)
  qed
  have high: "bit (push_bit k f) 10" using k uk bit10_window by simp
  have "unat f * 2 ^ k < 2 ^ (11 - k) * 2 ^ k"
    using k by (simp flip: power_add)
  then have "take_bit (11 - k) (unat f) = unat f"
    by (intro take_bit_nat_eq_self) (simp only: mult_less_cancel2)
  then have top: "n + k \<le> 10" if "bit f n" for n
    using bit_take_bit_self [of "11 - k" "unat f" n] that by (auto simp: bit_unsigned_iff)
  show ?thesis
    by (rule that [OF k(1,2) _ top half_norm_steps [OF low high]])
       (use high in \<open>simp add: bit_simps\<close>)
qed

lemma take_bit_self_less: "take_bit n w = w \<Longrightarrow> unat w < 2 ^ n" for w :: u32
proof -
  assume "take_bit n w = w"
  then have "unat (take_bit n w) = unat w" by simp
  then have "take_bit n (unat w) = unat w" by (simp only: unsigned_take_bit_eq)
  then show ?thesis using take_bit_nat_less_exp [of n "unat w"] by simp
qed

section \<open>Round trip\<close>

lemma half_subnormal:
  fixes bits :: u16
  defines "f \<equiv> ucast (bits AND 0x03FF) :: u32"
  assumes e0: "ucast (drop_bit 10 bits) AND (0x1F :: u32) = 0" and f: "f \<noteq> 0"
  shows "F32ToF16Bits (F16BitsToF32 bits) = (bits AND 0x8000) OR ucast f"
proof -
  have "take_bit 10 f = f" unfolding f_def mask_words by (rule bit_word_eqI) (auto simp: bit_simps)
  from take_bit_self_less [OF this] have "f < 1024" by (simp add: word_less_nat_alt)
  with f obtain k where k: "1 \<le> k" "k \<le> 10" "bit f (10 - k)" and top: "\<And>n. bit f n \<Longrightarrow> n + k \<le> 10"
    and norm: "half_norm f 113 = (push_bit k f, 113 - word_of_nat k)"
    using subnormal_window [of f 113] by (metis word_neq_0_conv)
  let ?E = "113 - word_of_nat k :: u32" and ?F = "push_bit 13 (push_bit k f AND 0x03FF)"
  have "?E = word_of_int (113 - int k)" by simp
  then have uE: "uint ?E = 113 - int k"
    using k by (simp only: unsigned_of_int) (simp add: take_bit_int_eq_self)
  have E: "take_bit 8 ?E = ?E"
    using k by (simp add: word_uint_eq_iff unsigned_take_bit_eq uE take_bit_int_eq_self)
  have F: "take_bit 23 ?F = ?F"
    unfolding mask_words by (rule bit_word_eqI) (auto simp: bit_simps)
  have e: "nat (14 - (uint ?E - 127 + 15)) = 13 + k" unfolding uE using k by auto
  have G: "?F OR 0x00800000 = push_bit (13 + k) f"
    unfolding mask_words
  proof (rule bit_word_eqI)
    fix n assume "n < LENGTH(32)"
    then show "bit (push_bit 13 (take_bit 10 (push_bit k f)) OR 0x00800000) n = bit (push_bit (13 + k) f) n"
      using k top [of "n - (13 + k)"] by (cases "n = 23") (auto simp: bit_simps bit_pows)
  qed
  have G32: "take_bit (32 - (13 + k)) f = f"
    using k by (intro bit_word_eqI) (fastforce simp: bit_simps dest: top)
  have "F16BitsToF32 bits = push_bit 16 (ucast (bits AND 0x8000)) OR push_bit 23 ?E OR ?F"
    using e0 f by (simp add: F16BitsToF32_def norm Let_def flip: f_def)
  moreover have "?E \<noteq> 0xFF" using uE k by (auto simp: word_uint_eq_iff)
  ultimately show ?thesis
    using F32ToF16Bits_compose(5) [OF E F, of f bits] k e G G32 by (simp add: uE)
qed

lemma half_parts:
  fixes bits :: u16
  shows "(bits AND 0x8000) OR push_bit 10 (ucast (ucast (drop_bit 10 bits) AND (0x1F :: u32)))
     OR ucast (ucast (bits AND 0x03FF) :: u32) = bits"
  unfolding mask_words
proof (rule bit_word_eqI)
  fix n assume n: "n < LENGTH(16)"
  then have "n < 10 \<or> 10 \<le> n \<and> n < 15 \<or> n = 15" by auto
  then show "bit ((bits AND 0x8000) OR push_bit 10 (ucast (take_bit 5 (ucast (drop_bit 10 bits) :: u32)))
      OR ucast (ucast (take_bit 10 bits) :: u32)) n = bit bits n"
    using n by (auto simp: bit_simps bit_pows)
qed

lemma half_normal:
  fixes bits :: u16
  defines "x \<equiv> ucast (drop_bit 10 bits) AND (0x1F :: u32)" and "f \<equiv> ucast (bits AND 0x03FF) :: u32"
  assumes x: "x \<noteq> 0" "x \<noteq> 0x1F"
  shows "F32ToF16Bits (F16BitsToF32 bits) = (bits AND 0x8000) OR push_bit 10 (ucast x) OR ucast f"
proof -
  have "take_bit 5 x = x" unfolding x_def mask_words by simp
  from take_bit_self_less [OF this] have x32: "unat x < 32" by simp
  let ?E = "x + 112" and ?F = "push_bit 13 f"
  have uE: "uint ?E = uint x + 112"
  proof -
    have "uint x < 32" using x32 by (simp only: uint_nat)
    then show ?thesis by (simp add: uint_word_ariths)
  qed
  have ux: "0 < uint x" "uint x < 31"
  proof -
    have "uint x < 32" using x32 by (simp only: uint_nat)
    moreover have "0 \<le> uint x" by simp
    moreover have "uint x \<noteq> 0" "uint x \<noteq> 31" using x by (auto simp: word_uint_eq_iff)
    ultimately show "0 < uint x" "uint x < 31" by linarith+
  qed
  have f10: "take_bit 10 f = f"
    unfolding f_def mask_words by (rule bit_word_eqI) (auto simp: bit_simps)
  have E: "take_bit 8 ?E = ?E"
    using ux by (simp add: word_uint_eq_iff unsigned_take_bit_eq uE take_bit_int_eq_self)
  have F: "take_bit 23 ?F = ?F"
    using bit_take_bit_self [OF f10] by (intro bit_word_eqI) (fastforce simp: bit_simps)
  have rem: "?F AND 0x1FFF = 0"
    unfolding mask_words by (rule bit_word_eqI) (auto simp: bit_simps)
  have down: "drop_bit 13 ?F = f"
    using bit_take_bit_self [OF f10] by (intro bit_word_eqI) (fastforce simp: bit_simps)
  have "?E \<noteq> 0xFF" using uE ux by (auto simp: word_uint_eq_iff)
  moreover have "F16BitsToF32 bits = push_bit 16 (ucast (bits AND 0x8000)) OR push_bit 23 ?E OR ?F"
    using x by (simp add: F16BitsToF32_def Let_def flip: x_def f_def)
  moreover have "word_of_int (push_bit 10 (uint x)) = (push_bit 10 (ucast x) :: u16)"
    by (rule bit_word_eqI) (auto simp: bit_simps)
  ultimately show ?thesis
    using F32ToF16Bits_compose(1) [OF E F, of bits] ux by (simp add: uE rem down)
qed

lemma half_special:
  fixes bits :: u16
  defines "x \<equiv> ucast (drop_bit 10 bits) AND (0x1F :: u32)" and "f \<equiv> ucast (bits AND 0x03FF) :: u32"
  shows "x = 0x1F \<Longrightarrow> f = 0 \<Longrightarrow> F32ToF16Bits (F16BitsToF32 bits) = (bits AND 0x8000) OR 0x7C00"
    and "x = 0x1F \<Longrightarrow> f \<noteq> 0 \<Longrightarrow> F32ToF16Bits (F16BitsToF32 bits) = 0x7E00"
    and "x = 0 \<Longrightarrow> f = 0 \<Longrightarrow> F32ToF16Bits (F16BitsToF32 bits) = bits AND 0x8000"
proof -
  have inf: "(0x7F800000 :: u32) = push_bit 23 0xFF" by simp
  have f10: "take_bit 10 f = f"
    unfolding f_def mask_words by (rule bit_word_eqI) (auto simp: bit_simps)
  have E: "take_bit 8 (0xFF :: u32) = 0xFF" "take_bit 8 (0 :: u32) = 0" by simp_all
  have F: "take_bit 23 (push_bit 13 f) = push_bit 13 f"
    using bit_take_bit_self [OF f10] by (intro bit_word_eqI) (fastforce simp: bit_simps)
  have nz: "f \<noteq> 0 \<Longrightarrow> push_bit 13 f \<noteq> 0"
  proof
    assume "f \<noteq> 0" "push_bit 13 f = 0"
    moreover have "drop_bit 13 (push_bit 13 f) = f"
      using bit_take_bit_self [OF f10] by (intro bit_word_eqI) (fastforce simp: bit_simps)
    ultimately show False by simp
  qed
  show "x = 0x1F \<Longrightarrow> f = 0 \<Longrightarrow> F32ToF16Bits (F16BitsToF32 bits) = (bits AND 0x8000) OR 0x7C00"
    using F32ToF16Bits_compose(2) [OF E(1), of 0 bits]
    by (simp only: F16BitsToF32_def Let_def x_def [symmetric] f_def [symmetric] inf) simp
  show "x = 0x1F \<Longrightarrow> f \<noteq> 0 \<Longrightarrow> F32ToF16Bits (F16BitsToF32 bits) = 0x7E00"
    using F32ToF16Bits_compose(3) [OF E(1) F, of bits] nz
    by (simp only: F16BitsToF32_def Let_def x_def [symmetric] f_def [symmetric] inf) simp
  show "x = 0 \<Longrightarrow> f = 0 \<Longrightarrow> F32ToF16Bits (F16BitsToF32 bits) = bits AND 0x8000"
    using F32ToF16Bits_compose(4) [OF E(2), of 0 bits]
    by (simp add: F16BitsToF32_def Let_def flip: x_def f_def)
qed

lemma half_exp_eq: "ucast (drop_bit 10 h) AND (0x1F :: u32) = ucast (drop_bit 10 (h :: u16) AND 0x1F)"
  unfolding mask_words by (rule bit_word_eqI) (auto simp: bit_simps)

lemma ucast_16_32_eq: "(ucast a :: u32) = ucast b \<longleftrightarrow> a = (b :: u16)"
proof
  assume "(ucast a :: u32) = ucast b"
  then have "(ucast (ucast a :: u32) :: u16) = ucast (ucast b :: u32)" by simp
  moreover have "(ucast (ucast c :: u32) :: u16) = c" for c :: u16
    by (rule bit_word_eqI) (auto simp: bit_simps)
  ultimately show "a = b" by simp
qed simp

lemma half_nan_iff:
  "half_nan h \<longleftrightarrow> ucast (drop_bit 10 h) AND (0x1F :: u32) = 0x1F \<and> (ucast (h AND 0x03FF) :: u32) \<noteq> 0"
proof -
  have "(ucast (drop_bit 10 h AND 0x1F) :: u32) = 0x1F \<longleftrightarrow> drop_bit 10 h AND 0x1F = 0x1F"
    using ucast_16_32_eq [of "drop_bit 10 h AND 0x1F" "0x1F"] by simp
  moreover have "(ucast (h AND 0x03FF) :: u32) = 0 \<longleftrightarrow> h AND 0x03FF = 0"
    using ucast_16_32_eq [of "h AND 0x03FF" 0] by simp
  ultimately show ?thesis by (simp add: half_nan_def half_exp_eq)
qed

lemma half_roundtrip: "\<not> half_nan h \<Longrightarrow> F32ToF16Bits (F16BitsToF32 h) = h"
proof -
  let ?x = "ucast (drop_bit 10 h) AND (0x1F :: u32)" and ?f = "ucast (h AND 0x03FF) :: u32"
  assume "\<not> half_nan h"
  then consider "?x = 0" "?f = 0" | "?x = 0" "?f \<noteq> 0" | "?x = 0x1F" "?f = 0" | "?x \<noteq> 0" "?x \<noteq> 0x1F"
    by (auto simp: half_nan_iff)
  then show ?thesis
  proof cases
    case 1 then show ?thesis using half_special(3) [of h] half_parts [of h] by simp
  next
    case 2 then show ?thesis using half_subnormal [of h] half_parts [of h] by simp
  next
    case 3 then show ?thesis using half_special(1) [of h] half_parts [of h] by simp
  next
    case 4 then show ?thesis using half_normal [of h] half_parts [of h] by simp
  qed
qed

lemma half_nan_canonical: "half_nan h \<Longrightarrow> F32ToF16Bits (F16BitsToF32 h) = 0x7E00"
  using half_special(2) [of h] by (simp add: half_nan_iff)

text \<open>Quantising to half precision and back, what a coordinate undergoes on the wire.  A second
  trip changes nothing.\<close>

definition half_quantise :: "float32 \<Rightarrow> float32" where
  "half_quantise x = F16BitsToF32 (F32ToF16Bits x)"

lemma half_quantise_idem:
  "\<not> half_nan (F32ToF16Bits x) \<Longrightarrow> half_quantise (half_quantise x) = half_quantise x"
  by (simp add: half_quantise_def half_roundtrip)

lemma half_quantise_decoded: "\<not> half_nan h \<Longrightarrow> half_quantise (F16BitsToF32 h) = F16BitsToF32 h"
  by (simp add: half_quantise_def half_roundtrip)

end
