(* ===== verification/Wire_Framing.thy ===== *)
theory Wire_Framing
  imports Wire_Binary
begin

text \<open>
  Length-prefixed frames (\<open>internal/common/protocol/framing.go\<close>, \<open>ToFrameBuffer\<close> of \<open>binary.go\<close>)
  and the loop of the session's read side that cuts frames off its buffer
  (\<open>internal/server/network/session_read.go\<close>).  A length prefix is the LEB128 form of a 32-bit
  length, one to five bytes.
\<close>

section \<open>Encoding\<close>

definition DefaultMaxPayloadBytes :: int where
  "DefaultMaxPayloadBytes = 2 * 1024 * 1024"

function EncodeLengthPrefixU32_loop :: "u32 \<Rightarrow> bytes \<Rightarrow> bytes" where
  "EncodeLengthPrefixU32_loop x out =
     (if x \<ge> 0x80 then EncodeLengthPrefixU32_loop (drop_bit 7 x) (out @ [ucast (x AND 0x7F) OR 0x80])
      else out @ [ucast x])"
  by pat_completeness auto
termination
  by (relation "measure (\<lambda>(x, _). unat x)") (auto intro!: unat_drop_bit_less)

declare EncodeLengthPrefixU32_loop.simps [simp del]

definition EncodeLengthPrefixU32 :: "int \<Rightarrow> string + bytes" where
  "EncodeLengthPrefixU32 len =
     (if len < 0 then Inl ''frame-invalid-length'' else Inr (EncodeLengthPrefixU32_loop (word_of_int len) []))"

text \<open>The number of prefix bytes: one for every non-zero shift by seven.\<close>

function prefixLen_loop :: "u32 \<Rightarrow> nat \<Rightarrow> nat" where
  "prefixLen_loop v n = (if v \<noteq> 0 then prefixLen_loop (drop_bit 7 v) (n + 1) else n)"
  by pat_completeness auto
termination
  by (relation "measure (\<lambda>(v, _). unat v)") (auto intro!: unat_drop_bit_less)

declare prefixLen_loop.simps [simp del]

text \<open>Storing the prefix bytes in place from index \<open>i\<close>; the result has the index of the last one.\<close>

function put_prefix :: "bytes \<Rightarrow> nat \<Rightarrow> u32 \<Rightarrow> bytes \<times> nat" where
  "put_prefix out i x =
     (if x \<ge> 0x80 then put_prefix (out[i := ucast (x AND 0x7F) OR 0x80]) (i + 1) (drop_bit 7 x)
      else (out[i := ucast x], i))"
  by pat_completeness auto
termination
  by (relation "measure (\<lambda>(_, _, x). unat x)") (auto intro!: unat_drop_bit_less)

declare put_prefix.simps [simp del]

definition FrameWithLengthPrefix :: "bytes \<Rightarrow> bytes" where
  "FrameWithLengthPrefix body =
     (let x = word_of_nat (length body) :: u32;
          prefixLen = prefixLen_loop (drop_bit 7 x) 1;
          (out, i) = put_prefix (replicate (prefixLen + length body) 0) 0 x
      in take (i + 1) out @ body)"

text \<open>\<open>ToFrameBuffer\<close> stores the prefix in the reserved head of the writer and returns the tail of
  the buffer from there, together with the changed writer.\<close>

definition ToFrameBuffer :: "BinaryWriter \<Rightarrow> ProtocolError + bytes \<times> BinaryWriter" where
  "ToFrameBuffer w =
     (let bodyLen = length (buf w) - reserveHead w;
          x = word_of_nat bodyLen :: u32;
          prefixLen = prefixLen_loop (drop_bit 7 x) 1
      in if prefixLen > reserveHead w then Inl (ProtocolError ''frame-reserve-head-too-small'')
         else let start = reserveHead w - prefixLen;
                  (b, i) = put_prefix (buf w) start x
              in Inr (drop start b, w\<lparr>buf := b\<rparr>))"

section \<open>Decoding\<close>

datatype FrameKind = FrameNeedMore | FrameOK | FrameError

record DecodeFrameResult =
  Kind :: FrameKind
  Payload :: bytes
  Remaining :: bytes
  Err :: "string option"

definition need_more :: DecodeFrameResult where
  "need_more = \<lparr>Kind = FrameNeedMore, Payload = [], Remaining = [], Err = None\<rparr>"

definition frame_ok :: "bytes \<Rightarrow> bytes \<Rightarrow> DecodeFrameResult" where
  "frame_ok p r = \<lparr>Kind = FrameOK, Payload = p, Remaining = r, Err = None\<rparr>"

definition frame_error :: "string \<Rightarrow> DecodeFrameResult" where
  "frame_error e = \<lparr>Kind = FrameError, Payload = [], Remaining = [], Err = Some e\<rparr>"

text \<open>The loop over the prefix bytes: the length and the offset behind the prefix, or the result
  to return at once.  The length has at most 35 bits, so the Go \<open>int\<close> does not overflow.\<close>

function frame_prefix :: "bytes \<Rightarrow> nat \<Rightarrow> nat \<Rightarrow> nat \<Rightarrow> DecodeFrameResult + nat \<times> nat" where
  "frame_prefix b offset shift len =
     (if offset \<ge> length b then Inl need_more
      else let x = b ! offset; len' = len OR push_bit shift (unat (x AND 0x7F))
           in if x AND 0x80 = 0 then Inr (len', offset + 1)
              else if shift + 7 \<ge> 35 then Inl (frame_error ''frame-invalid-length-prefix'')
              else frame_prefix b (offset + 1) (shift + 7) len')"
  by pat_completeness auto
termination
  by (relation "measure (\<lambda>(b, offset, _, _). length b - offset)") auto

declare frame_prefix.simps [simp del]

definition payload_limit :: "int \<Rightarrow> int" where
  "payload_limit maxPayloadBytes = (if maxPayloadBytes \<le> 0 then DefaultMaxPayloadBytes else maxPayloadBytes)"

definition TryDecodeFrame :: "bytes \<Rightarrow> int \<Rightarrow> DecodeFrameResult" where
  "TryDecodeFrame b maxPayloadBytes =
     (let limit = payload_limit maxPayloadBytes
      in if length b = 0 then need_more
         else case frame_prefix b 0 0 0 of
           Inl res \<Rightarrow> res
         | Inr (len, offset) \<Rightarrow>
             if int len > limit then frame_error ''frame-payload-too-large''
             else if length b - offset < len then need_more
             else frame_ok (take len (drop offset b)) (drop (offset + len) b))"

lemma frame_results [simp]:
  "Kind need_more = FrameNeedMore" "Kind (frame_ok p r) = FrameOK" "Kind (frame_error e) = FrameError"
  "Payload (frame_ok p r) = p" "Remaining (frame_ok p r) = r" "Err (frame_error e) = Some e"
  by (simp_all add: need_more_def frame_ok_def frame_error_def)

lemma frame_prefix_Inl: "frame_prefix b offset shift len = Inl res \<Longrightarrow>
    res = need_more \<or> res = frame_error ''frame-invalid-length-prefix''"
  by (induction b offset shift len rule: frame_prefix.induct)
     (force simp: frame_prefix.simps Let_def split: if_splits)

lemma frame_prefix_Inr: "frame_prefix b offset shift len = Inr (n, k) \<Longrightarrow> offset < k \<and> k \<le> length b"
proof (induction b offset shift len rule: frame_prefix.induct)
  case (1 b offset shift len)
  then show ?case
    by (force simp: frame_prefix.simps [of b offset] Let_def split: if_splits)
qed

lemma TryDecodeFrame_cases:
  obtains (more) "TryDecodeFrame b m = need_more"
  | (error) e where "TryDecodeFrame b m = frame_error e"
  | (frame) len k where "frame_prefix b 0 0 0 = Inr (len, k)" "0 < k" "k \<le> length b" "int len \<le> payload_limit m"
      "len \<le> length b - k" "TryDecodeFrame b m = frame_ok (take len (drop k b)) (drop (k + len) b)"
proof (cases "frame_prefix b 0 0 0")
  case (Inl res)
  have "TryDecodeFrame b m = need_more \<or> TryDecodeFrame b m = res"
    by (simp add: TryDecodeFrame_def Inl)
  with frame_prefix_Inl [OF Inl] show ?thesis
    using more error [of "''frame-invalid-length-prefix''"] by auto
next
  case (Inr p)
  then obtain len k where p: "frame_prefix b 0 0 0 = Inr (len, k)" by (cases p) auto
  from frame_prefix_Inr [OF p] have k: "0 < k" "k \<le> length b" and "b \<noteq> []" by auto
  then have eq: "TryDecodeFrame b m = (if int len > payload_limit m then frame_error ''frame-payload-too-large''
      else if length b - k < len then need_more else frame_ok (take len (drop k b)) (drop (k + len) b))"
    by (simp add: TryDecodeFrame_def p)
  show ?thesis
  proof (cases "int len > payload_limit m \<or> length b - k < len")
    case True
    then have "TryDecodeFrame b m = need_more \<or> TryDecodeFrame b m = frame_error ''frame-payload-too-large''"
      unfolding eq by auto
    then show ?thesis using more error by blast
  next
    case False
    then show ?thesis using frame [OF p k] unfolding eq by simp
  qed
qed

lemma TryDecodeFrame_shorter: "Kind (TryDecodeFrame b m) = FrameOK \<Longrightarrow> length (Remaining (TryDecodeFrame b m)) < length b"
  by (cases rule: TryDecodeFrame_cases [of b m]) auto

text \<open>The inner loop of \<open>readLoop\<close>: frames are cut off the buffer and decoded until more bytes are
  needed.  A refused frame or a packet that does not decode ends the session with the error
  (\<open>Some\<close>).  The loop ends because every frame shortens the buffer.  The result has the decoded
  commands, the bytes left over, and the error.\<close>

function drain :: "(bytes \<Rightarrow> string + 'cmd) \<Rightarrow> int \<Rightarrow> bytes \<Rightarrow> 'cmd list \<times> bytes \<times> string option" where
  "drain decode maxFrameSize b =
     (let res = TryDecodeFrame b maxFrameSize
      in case Kind res of
           FrameNeedMore \<Rightarrow> ([], b, None)
         | FrameError \<Rightarrow> ([], b, Err res)
         | FrameOK \<Rightarrow>
             (case decode (Payload res) of
                Inl derr \<Rightarrow> ([], Remaining res, Some derr)
              | Inr cmd \<Rightarrow>
                  (let (cmds, rest, e) = drain decode maxFrameSize (Remaining res) in (cmd # cmds, rest, e))))"
  by pat_completeness auto
termination
  by (relation "measure (\<lambda>(_, _, b). length b)") (auto dest: TryDecodeFrame_shorter)

declare drain.simps [simp del]

text \<open>The outer loop of \<open>readLoop\<close>: each chunk read from the connection is appended to what was
  left of the buffer; after an error later chunks are not read.\<close>

fun readLoop :: "(bytes \<Rightarrow> string + 'cmd) \<Rightarrow> int \<Rightarrow> bytes \<Rightarrow> bytes list \<Rightarrow> 'cmd list \<times> bytes \<times> string option" where
  "readLoop decode maxFrameSize b [] = ([], b, None)"
| "readLoop decode maxFrameSize b (chunk # chunks) =
     (let (cmds, rest, e) = drain decode maxFrameSize (b @ chunk)
      in case e of
           Some _ \<Rightarrow> (cmds, rest, e)
         | None \<Rightarrow> (let (cmds', rest', e') = readLoop decode maxFrameSize rest chunks in (cmds @ cmds', rest', e')))"

section \<open>The prefix bytes\<close>

text \<open>The prefix as a function of the length, the reference for the three encoders.\<close>

function uleb32 :: "u32 \<Rightarrow> bytes" where
  "uleb32 x = (if x \<ge> 0x80 then (ucast (x AND 0x7F) OR 0x80) # uleb32 (drop_bit 7 x) else [ucast x])"
  by pat_completeness auto
termination
  by (relation "measure unat") (auto intro!: unat_drop_bit_less)

declare uleb32.simps [simp del]

lemma uleb32_length_pos: "0 < length (uleb32 x)"
  by (subst uleb32.simps) simp

lemma drop_bit_7_zero: "drop_bit 7 x = 0 \<longleftrightarrow> x < 0x80" for x :: u32
proof -
  have "drop_bit 7 x = 0 \<longleftrightarrow> unat x div 128 = 0"
    using drop_bit_eq_div [of 7 "unat x"] by (simp add: word_unat_eq_iff unat_drop_bit_eq)
  then show ?thesis by (simp add: word_less_nat_alt div_eq_0_iff)
qed

lemma EncodeLengthPrefixU32_loop_eq: "EncodeLengthPrefixU32_loop x out = out @ uleb32 x"
  by (induction x out rule: EncodeLengthPrefixU32_loop.induct)
     (simp add: EncodeLengthPrefixU32_loop.simps uleb32.simps [of "_ :: u32"])

lemma prefixLen_loop_eq: "prefixLen_loop (drop_bit 7 x) n = n + length (uleb32 x) - 1"
proof (induction x arbitrary: n rule: uleb32.induct)
  case (1 x)
  show ?case
  proof (cases "x \<ge> 0x80")
    case True
    with 1 [OF True, of "n + 1"] uleb32_length_pos [of "drop_bit 7 x"] show ?thesis
      by (simp add: prefixLen_loop.simps [of "drop_bit 7 x"] uleb32.simps [of x] drop_bit_7_zero not_le)
  next
    case False
    then have "drop_bit 7 x = 0" by (simp add: drop_bit_7_zero)
    with False show ?thesis by (simp add: prefixLen_loop.simps [of 0] uleb32.simps [of x])
  qed
qed

lemma put_prefix_eq:
  "i + length (uleb32 x) \<le> length out \<Longrightarrow>
     put_prefix out i x = (take i out @ uleb32 x @ drop (i + length (uleb32 x)) out, i + length (uleb32 x) - 1)"
proof (induction x arbitrary: out i rule: uleb32.induct)
  case (1 x)
  show ?case
  proof (cases "x \<ge> 0x80")
    case True
    then have u: "uleb32 x = (ucast (x AND 0x7F) OR 0x80) # uleb32 (drop_bit 7 x)"
      by (simp add: uleb32.simps [of x])
    have "i < length out" using "1.prems" u by simp
    then show ?thesis
      using "1.IH" [OF True, of "i + 1" "out[i := ucast (x AND 0x7F) OR 0x80]"] "1.prems" True uleb32_length_pos [of "drop_bit 7 x"]
      by (simp add: put_prefix.simps [of out] u take_Suc_conv_app_nth)
  next
    case False
    then have u: "uleb32 x = [ucast x]" by (simp add: uleb32.simps [of x])
    then show ?thesis
      using False "1.prems" by (simp add: put_prefix.simps [of out] upd_conv_take_nth_drop)
  qed
qed

lemma unat_drop_bit_7: "unat (drop_bit 7 x) = unat x div 128" for x :: u32
  using drop_bit_eq_div [of 7 "unat x"] by (simp add: unat_drop_bit_eq)

lemma uleb32_length_le: "unat x < 128 ^ n \<Longrightarrow> 0 < n \<Longrightarrow> length (uleb32 x) \<le> n"
proof (induction n arbitrary: x)
  case 0
  then show ?case by simp
next
  case (Suc n)
  show ?case
  proof (cases "x \<ge> 0x80")
    case True
    then have "128 \<le> unat x" by (simp add: word_le_nat_alt)
    with Suc.prems have "0 < n" by (cases n) auto
    moreover have "unat (drop_bit 7 x) < 128 ^ n"
      using Suc.prems by (simp add: unat_drop_bit_7 div_less_iff_less_mult mult.commute)
    ultimately have "length (uleb32 (drop_bit 7 x)) \<le> n" by (intro Suc.IH)
    with True show ?thesis by (simp add: uleb32.simps [of x])
  next
    case False
    then show ?thesis by (simp add: uleb32.simps [of x])
  qed
qed

lemma uleb32_length_5: "length (uleb32 x) \<le> 5"
  using unsigned_less [where w = x and 'a = nat] by (intro uleb32_length_le) auto

text \<open>All three encoders produce the same prefix.\<close>

lemma FrameWithLengthPrefix_eq: "FrameWithLengthPrefix body = uleb32 (word_of_nat (length body)) @ body"
  using uleb32_length_pos [of "word_of_nat (length body)"]
  by (simp add: FrameWithLengthPrefix_def Let_def prefixLen_loop_eq put_prefix_eq)

lemma ToFrameBuffer_eq:
  assumes "reserveHead w \<le> length (buf w)" "length (uleb32 (word_of_nat (length (ToBuffer w)))) \<le> reserveHead w"
  shows "\<exists>w'. ToFrameBuffer w = Inr (FrameWithLengthPrefix (ToBuffer w), w') \<and>
           reserveHead w' = reserveHead w \<and> ToBuffer w' = ToBuffer w"
  using assms uleb32_length_pos [of "word_of_nat (length (ToBuffer w))"]
  by (auto simp: ToFrameBuffer_def FrameWithLengthPrefix_eq Let_def prefixLen_loop_eq put_prefix_eq ToBuffer_def)

lemma length_put_prefix: "length (fst (put_prefix out i x)) = length out"
proof (induction out i x rule: put_prefix.induct)
  case (1 out i x)
  then show ?case by (simp add: put_prefix.simps [of out i x])
qed

lemma ToFrameBuffer_length: "ToFrameBuffer w = Inr (fb, w') \<Longrightarrow> length (buf w') = length (buf w)"
  by (auto simp: ToFrameBuffer_def Let_def length_put_prefix split: if_splits prod.splits
      dest: arg_cong [where f = "\<lambda>p. length (fst p)"])

lemma EncodeLengthPrefixU32_eq: "0 \<le> n \<Longrightarrow> EncodeLengthPrefixU32 n = Inr (uleb32 (word_of_int n))"
  by (simp add: EncodeLengthPrefixU32_def EncodeLengthPrefixU32_loop_eq)

section \<open>Decoding what was encoded\<close>

lemma uleb32_byte:
  "unat ((ucast (x AND 0x7F) OR 0x80 :: u8) AND 0x7F) = take_bit 7 (unat (x :: u32))"
  "((ucast (x AND 0x7F) OR 0x80 :: u8) AND 0x80) \<noteq> 0"
  "x < 0x80 \<Longrightarrow> unat ((ucast x :: u8) AND 0x7F) = unat x"
  "x < 0x80 \<Longrightarrow> ((ucast x :: u8) AND 0x80) = 0"
proof -
  have "(ucast (x AND 0x7F) OR 0x80 :: u8) AND 0x7F = ucast (take_bit 7 x)"
    unfolding and_7F by (rule bit_word_eqI) (auto simp: bit_80 bit_simps)
  then show "unat ((ucast (x AND 0x7F) OR 0x80 :: u8) AND 0x7F) = take_bit 7 (unat x)"
    by (simp add: unsigned_ucast_eq unsigned_take_bit_eq)
  show "((ucast (x AND 0x7F) OR 0x80 :: u8) AND 0x80) \<noteq> 0"
    unfolding and_80 by (simp add: bit_80 bit_simps)
  assume x: "x < 0x80"
  then have tx: "take_bit 7 (unat x) = unat x" by (simp add: word_less_nat_alt take_bit_nat_eq_self)
  have "(ucast x :: u8) AND 0x7F = ucast (take_bit 7 x)"
    unfolding and_7F by (rule bit_word_eqI) (auto simp: bit_simps)
  then show "unat ((ucast x :: u8) AND 0x7F) = unat x"
    by (simp add: unsigned_ucast_eq unsigned_take_bit_eq tx)
  show "((ucast x :: u8) AND 0x80) = 0"
    unfolding and_80 using arg_cong [OF tx, of "\<lambda>n. bit n 7"] by (simp add: bit_simps)
qed

lemma nat_push_bit_split: "push_bit s (take_bit 7 n) OR push_bit (s + 7) (n div 128) = push_bit s (n :: nat)"
proof -
  have "push_bit s (take_bit 7 n) OR push_bit (s + 7) (drop_bit 7 n) = push_bit s n"
  proof (rule bit_eqI)
    fix k
    have "k - s < 7 \<or> s + 7 \<le> k \<and> 7 + (k - (s + 7)) = k - s" by auto
    then show "bit (push_bit s (take_bit 7 n) OR push_bit (s + 7) (drop_bit 7 n)) k = bit (push_bit s n) k"
      by (auto simp: bit_simps)
  qed
  then show ?thesis by (simp add: drop_bit_eq_div)
qed

lemma frame_prefix_uleb32:
  "unat x < 2 ^ (35 - shift) \<Longrightarrow>
     frame_prefix (pre @ uleb32 x @ rest) (length pre) shift len =
       Inr (len OR push_bit shift (unat x), length pre + length (uleb32 x))"
proof (induction x arbitrary: pre shift len rule: uleb32.induct)
  case (1 x)
  show ?case
  proof (cases "x \<ge> 0x80")
    case True
    then have u: "uleb32 x = (ucast (x AND 0x7F) OR 0x80) # uleb32 (drop_bit 7 x)"
      by (simp add: uleb32.simps [of x])
    have "128 \<le> unat x" using True by (simp add: word_le_nat_alt)
    with "1.prems" have "(2 :: nat) ^ 7 < 2 ^ (35 - shift)" by simp
    then have sh: "shift + 7 < 35" by (simp only: power_strict_increasing_iff)
    then have "(2 :: nat) ^ (35 - shift) = 128 * 2 ^ (35 - (shift + 7))"
      using power_add [of "2 :: nat" 7 "35 - (shift + 7)"] by (simp add: diff_diff_add)
    then have small: "unat (drop_bit 7 x) < 2 ^ (35 - (shift + 7))"
      using "1.prems" by (simp add: unat_drop_bit_7 div_less_iff_less_mult mult.commute)
    have acc: "(len OR push_bit shift (take_bit 7 (unat x))) OR push_bit (shift + 7) (unat x div 128) = len OR push_bit shift (unat x)"
      by (simp add: or.assoc nat_push_bit_split)
    show ?thesis
      using "1.IH" [OF True small, of "pre @ [ucast (x AND 0x7F) OR 0x80]" "len OR push_bit shift (take_bit 7 (unat x))"] sh
      by (simp add: frame_prefix.simps [of _ "length pre"] u uleb32_byte nth_append Let_def unat_drop_bit_7 acc)
  next
    case False
    then show ?thesis
      by (simp add: frame_prefix.simps [of _ "length pre"] uleb32.simps [of x] uleb32_byte nth_append Let_def)
  qed
qed

lemma frame_prefix_encoded:
  "frame_prefix (uleb32 x @ rest) 0 0 0 = Inr (unat x, length (uleb32 x))"
  using frame_prefix_uleb32 [of x 0 "[]" rest 0] unsigned_less [where w = x and 'a = nat] by simp

lemma frame_decode:
  assumes "int (length body) \<le> payload_limit m" "length body < 2 ^ 32"
  shows "TryDecodeFrame (FrameWithLengthPrefix body @ rest) m = frame_ok body rest"
proof -
  let ?x = "word_of_nat (length body) :: u32"
  have x: "unat ?x = length body" using assms(2) by (simp add: unat_of_nat take_bit_nat_eq_self)
  have "uleb32 ?x \<noteq> []" using uleb32_length_pos [of ?x] by auto
  then show ?thesis
    using assms(1) frame_prefix_encoded [of ?x "body @ rest"]
    by (simp add: TryDecodeFrame_def FrameWithLengthPrefix_eq Let_def x)
qed

section \<open>Arrival of more bytes\<close>

text \<open>Bytes that arrive later do not change a decision already taken: only \<open>FrameNeedMore\<close> waits.\<close>

lemma frame_prefix_more:
  "frame_prefix b offset shift len = Inr p \<Longrightarrow> frame_prefix (b @ c) offset shift len = Inr p"
proof (induction b offset shift len rule: frame_prefix.induct)
  case (1 b offset shift len)
  then show ?case
    by (auto simp: frame_prefix.simps [of b offset] frame_prefix.simps [of "b @ c" offset] nth_append Let_def split: if_splits)
qed

lemma frame_prefix_error_more:
  "frame_prefix b offset shift len = Inl (frame_error e) \<Longrightarrow> frame_prefix (b @ c) offset shift len = Inl (frame_error e)"
proof (induction b offset shift len rule: frame_prefix.induct)
  case (1 b offset shift len)
  then show ?case
    by (auto simp: frame_prefix.simps [of b offset] frame_prefix.simps [of "b @ c" offset] nth_append Let_def
        need_more_def frame_error_def split: if_splits)
qed

lemma TryDecodeFrame_ok_more:
  "Kind (TryDecodeFrame b m) = FrameOK \<Longrightarrow>
     TryDecodeFrame (b @ c) m = frame_ok (Payload (TryDecodeFrame b m)) (Remaining (TryDecodeFrame b m) @ c)"
proof (cases rule: TryDecodeFrame_cases [of b m])
  case (frame len k)
  have "b \<noteq> []" using frame by auto
  with frame show ?thesis
    by (auto simp: TryDecodeFrame_def [of "b @ c"] frame_prefix_more [OF frame(1)])
qed auto

lemma TryDecodeFrame_error_more:
  assumes "TryDecodeFrame b m = frame_error e"
  shows "TryDecodeFrame (b @ c) m = frame_error e"
proof (cases "frame_prefix b 0 0 0")
  case (Inl res)
  have "b \<noteq> []" using assms by (auto simp: TryDecodeFrame_def need_more_def frame_error_def)
  moreover have "res = frame_error e" using assms Inl \<open>b \<noteq> []\<close> by (simp add: TryDecodeFrame_def)
  ultimately show ?thesis using frame_prefix_error_more [of b 0 0 0 e c] Inl by (simp add: TryDecodeFrame_def)
next
  case (Inr p)
  then show ?thesis
    using assms frame_prefix_more [OF Inr, of c]
    by (auto simp: TryDecodeFrame_def need_more_def frame_error_def frame_ok_def split: if_splits prod.splits)
qed

lemma FrameError_iff: "Kind (TryDecodeFrame b m) = FrameError \<longleftrightarrow> (\<exists>e. TryDecodeFrame b m = frame_error e)"
  by (cases rule: TryDecodeFrame_cases [of b m]) (auto simp: need_more_def frame_error_def frame_ok_def)

text \<open>Draining a longer buffer continues where draining the shorter one stopped.\<close>

lemma drain_append:
  "drain dec m (b @ c) =
     (case drain dec m b of
        (cmds, rest, Some e) \<Rightarrow> (cmds, rest @ c, Some e)
      | (cmds, rest, None) \<Rightarrow> (let (cmds', rest', e') = drain dec m (rest @ c) in (cmds @ cmds', rest', e')))"
proof (induction dec m b rule: drain.induct)
  case (1 dec m b)
  show ?case
  proof (cases "Kind (TryDecodeFrame b m)")
    case FrameNeedMore
    then show ?thesis by (simp add: drain.simps [of dec m b] split: prod.splits)
  next
    case FrameError
    then obtain e where e: "TryDecodeFrame b m = frame_error e" by (auto simp: FrameError_iff)
    then show ?thesis
      using TryDecodeFrame_error_more [OF e, of c] by (simp add: drain.simps [of dec m b] drain.simps [of dec m "b @ c"])
  next
    case FrameOK
    note more = TryDecodeFrame_ok_more [OF FrameOK, of c]
    show ?thesis
    proof (cases "dec (Payload (TryDecodeFrame b m))")
      case (Inl e)
      with FrameOK more show ?thesis by (simp add: drain.simps [of dec m b] drain.simps [of dec m "b @ c"])
    next
      case (Inr cmd)
      with FrameOK more "1.IH" [OF refl FrameOK Inr] show ?thesis
        by (simp add: drain.simps [of dec m b] drain.simps [of dec m "b @ c"] split: prod.splits option.splits)
    qed
  qed
qed

lemma drain_rest_stable: "drain dec m b = (cmds, rest, None) \<Longrightarrow> drain dec m rest = ([], rest, None)"
proof (induction dec m b arbitrary: cmds rule: drain.induct)
  case (1 dec m b)
  show ?case
  proof (cases "Kind (TryDecodeFrame b m)")
    case FrameNeedMore
    then have "drain dec m b = ([], b, None)" by (simp add: drain.simps [of dec m b])
    with "1.prems" show ?thesis by simp
  next
    case FrameError
    then show ?thesis using "1.prems" by (auto simp: drain.simps [of dec m b] FrameError_iff)
  next
    case FrameOK
    then show ?thesis using "1.prems" "1.IH" [OF refl FrameOK]
      by (auto simp: drain.simps [of dec m b] Let_def split: sum.splits prod.splits)
  qed
qed

text \<open>The commands a session sees do not depend on how the network cut the stream into chunks.\<close>

lemma readLoop_drain:
  assumes "drain dec m b = ([], b, None)"
  shows "readLoop dec m b chunks = (cmds, rest, e) \<Longrightarrow>
     \<exists>rest'. drain dec m (b @ concat chunks) = (cmds, rest', e) \<and> (e = None \<longrightarrow> rest' = rest)"
  using assms
proof (induction chunks arbitrary: b cmds rest e)
  case Nil
  then show ?case by simp
next
  case (Cons chunk chunks)
  obtain cmds1 rest1 e1 where d: "drain dec m (b @ chunk) = (cmds1, rest1, e1)" by (metis prod_cases3)
  show ?case
  proof (cases e1)
    case (Some x)
    with Cons.prems(1) d drain_append [of dec m "b @ chunk" "concat chunks"] show ?thesis by auto
  next
    case None
    obtain cmds2 rest2 e2 where r: "readLoop dec m rest1 chunks = (cmds2, rest2, e2)" by (metis prod_cases3)
    from Cons.IH [OF r] drain_rest_stable [of dec m "b @ chunk"] d None obtain rest'
      where "drain dec m (rest1 @ concat chunks) = (cmds2, rest', e2)" "e2 = None \<longrightarrow> rest' = rest2" by auto
    with Cons.prems(1) d r None drain_append [of dec m "b @ chunk" "concat chunks"] show ?thesis by auto
  qed
qed

end
