(* ===== verification/Wire_Commands.thy ===== *)
theory Wire_Commands
  imports Wire_Ids Wire_Half Wire_Framing
begin

text \<open>
  The commands of the protocol, \<open>internal/common/protocol/commands.go\<close>: the structures and tagged
  unions with their encoders and decoders, tag by tag.  Every encoder and decoder pair is shown
  to satisfy the codec interface of \<open>Wire_Binary\<close>; the composite ones get it from the codecs of
  their parts.  The \<open>default\<close> branch of an encoder, taken for a \<open>nil\<close> interface value, has no
  counterpart: the datatypes have no such value.
\<close>

section \<open>Structures\<close>

record CompactPos =
  pos_X :: float32
  pos_Y :: float32

record TouchPoint =
  tp_ID :: i8
  tp_Pos :: CompactPos

record TouchFrame =
  tf_Time :: float32
  tf_Points :: "TouchPoint list"

type_synonym Judgement = u8

record JudgeEvent =
  je_Time :: float32
  je_LineID :: u32
  je_NoteID :: u32
  je_Judgement :: Judgement

record UserInfo =
  ui_ID :: i32
  ui_Name :: string
  ui_Monitor :: bool

datatype RoomState = RoomStateSelectChart "i32 option" | RoomStateWaitingForReady | RoomStatePlaying

record ClientRoomState =
  crs_ID :: RoomID
  crs_State :: RoomState
  crs_Live :: bool
  crs_Locked :: bool
  crs_Cycle :: bool
  crs_IsHost :: bool
  crs_IsReady :: bool
  crs_Users :: "(i32 \<times> UserInfo) list"

record JoinRoomResponse =
  jr_State :: RoomState
  jr_Users :: "UserInfo list"
  jr_Live :: bool

record AuthInfo =
  ai_Me :: UserInfo
  ai_Room :: "ClientRoomState option"

datatype Message =
    MsgChat i32 string
  | MsgCreateRoom i32
  | MsgJoinRoom i32 string
  | MsgLeaveRoom i32 string
  | MsgNewHost i32
  | MsgSelectChart i32 string i32
  | MsgGameStart i32
  | MsgReady i32
  | MsgCancelReady i32
  | MsgCancelGame i32
  | MsgStartPlaying
  | MsgPlayed i32 i32 float32 bool
  | MsgGameEnd
  | MsgAbort i32
  | MsgLockRoom bool
  | MsgCycleRoom bool

datatype ClientCommand =
    CmdPing
  | CmdAuthenticate string
  | CmdChat string
  | CmdTouches "TouchFrame list"
  | CmdJudges "JudgeEvent list"
  | CmdCreateRoom RoomID
  | CmdJoinRoom RoomID bool
  | CmdLeaveRoom
  | CmdLockRoom bool
  | CmdCycleRoom bool
  | CmdSelectChart i32
  | CmdRequestStart
  | CmdReady
  | CmdCancelReady
  | CmdPlayed i32
  | CmdAbort

datatype ServerCommand =
    SrvPong
  | SrvAuthenticate "AuthInfo StringResult"
  | SrvChat "unit StringResult"
  | SrvTouches i32 "TouchFrame list"
  | SrvJudges i32 "JudgeEvent list"
  | SrvMessage Message
  | SrvChangeState RoomState
  | SrvChangeHost bool
  | SrvCreateRoom "unit StringResult"
  | SrvJoinRoom "JoinRoomResponse StringResult"
  | SrvOnJoinRoom UserInfo
  | SrvLeaveRoom "unit StringResult"
  | SrvLockRoom "unit StringResult"
  | SrvCycleRoom "unit StringResult"
  | SrvSelectChart "unit StringResult"
  | SrvRequestStart "unit StringResult"
  | SrvReady "unit StringResult"
  | SrvCancelReady "unit StringResult"
  | SrvPlayed "unit StringResult"
  | SrvAbort "unit StringResult"

section \<open>Encoders and decoders\<close>

definition WriteCompactPos :: "CompactPos encoder" where
  "WriteCompactPos w pos = WriteU16 (WriteU16 w (F32ToF16Bits (pos_X pos))) (F32ToF16Bits (pos_Y pos))"

definition ReadCompactPos :: "CompactPos reader" where
  "ReadCompactPos = bindR ReadU16 (\<lambda>x. bindR ReadU16
     (\<lambda>y. returnR \<lparr>pos_X = F16BitsToF32 x, pos_Y = F16BitsToF32 y\<rparr>))"

definition encodeTouchPoint :: "TouchPoint encoder" where
  "encodeTouchPoint w p = WriteCompactPos (WriteI8 w (tp_ID p)) (tp_Pos p)"

definition decodeTouchPoint :: "TouchPoint reader" where
  "decodeTouchPoint = bindR ReadI8 (\<lambda>i. bindR ReadCompactPos (\<lambda>pos. returnR \<lparr>tp_ID = i, tp_Pos = pos\<rparr>))"

definition EncodeTouchFrame :: "TouchFrame encoder" where
  "EncodeTouchFrame w v = WriteArray encodeTouchPoint (WriteF32 w (tf_Time v)) (tf_Points v)"

definition DecodeTouchFrame :: "TouchFrame reader" where
  "DecodeTouchFrame = bindR ReadF32 (\<lambda>t. bindR (ReadArray decodeTouchPoint)
     (\<lambda>ps. returnR \<lparr>tf_Time = t, tf_Points = ps\<rparr>))"

definition EncodeJudgeEvent :: "JudgeEvent encoder" where
  "EncodeJudgeEvent w v =
     WriteU8 (WriteU32 (WriteU32 (WriteF32 w (je_Time v)) (je_LineID v)) (je_NoteID v)) (je_Judgement v)"

definition DecodeJudgeEvent :: "JudgeEvent reader" where
  "DecodeJudgeEvent = bindR ReadF32 (\<lambda>t. bindR ReadU32 (\<lambda>l. bindR ReadU32 (\<lambda>n. bindR ReadU8
     (\<lambda>j. returnR \<lparr>je_Time = t, je_LineID = l, je_NoteID = n, je_Judgement = j\<rparr>))))"

definition encodeRoomID :: "RoomID encoder" where
  "encodeRoomID w v = WriteString w v"

definition decodeRoomID :: "RoomID reader" where
  "decodeRoomID = bindR ReadString
     (\<lambda>s. case ParseRoomID s of Inl err \<Rightarrow> failR err | Inr rid \<Rightarrow> returnR rid)"

definition encodeUserInfo :: "UserInfo encoder" where
  "encodeUserInfo w v = WriteBool (WriteString (WriteI32 w (ui_ID v)) (ui_Name v)) (ui_Monitor v)"

definition decodeUserInfo :: "UserInfo reader" where
  "decodeUserInfo = bindR ReadI32 (\<lambda>i. bindR ReadString (\<lambda>n. bindR ReadBool
     (\<lambda>m. returnR \<lparr>ui_ID = i, ui_Name = n, ui_Monitor = m\<rparr>)))"

fun encodeRoomState :: "RoomState encoder" where
  "encodeRoomState w (RoomStateSelectChart cid) = WriteOption WriteI32 (WriteU8 w 0) cid"
| "encodeRoomState w RoomStateWaitingForReady = WriteU8 w 1"
| "encodeRoomState w RoomStatePlaying = WriteU8 w 2"

definition decodeRoomState :: "RoomState reader" where
  "decodeRoomState = bindR ReadU8 (\<lambda>tag.
     if tag = 0 then bindR (ReadOption ReadI32) (\<lambda>cid. returnR (RoomStateSelectChart cid))
     else if tag = 1 then returnR RoomStateWaitingForReady
     else if tag = 2 then returnR RoomStatePlaying
     else failR ''proto-roomstate-tag-invalid'')"

definition encodeClientRoomState :: "ClientRoomState encoder" where
  "encodeClientRoomState w v =
     (let w = encodeRoomID w (crs_ID v);
          w = encodeRoomState w (crs_State v);
          w = WriteBool w (crs_Live v);
          w = WriteBool w (crs_Locked v);
          w = WriteBool w (crs_Cycle v);
          w = WriteBool w (crs_IsHost v);
          w = WriteBool w (crs_IsReady v)
      in WriteSortedMap WriteI32 encodeUserInfo w (crs_Users v))"

definition decodeClientRoomState :: "ClientRoomState reader" where
  "decodeClientRoomState =
     bindR decodeRoomID (\<lambda>rid. bindR decodeRoomState (\<lambda>st. bindR ReadBool (\<lambda>live.
     bindR ReadBool (\<lambda>locked. bindR ReadBool (\<lambda>cycle. bindR ReadBool (\<lambda>isHost.
     bindR ReadBool (\<lambda>isReady. bindR (ReadMap ReadI32 decodeUserInfo) (\<lambda>users.
     returnR \<lparr>crs_ID = rid, crs_State = st, crs_Live = live, crs_Locked = locked, crs_Cycle = cycle,
              crs_IsHost = isHost, crs_IsReady = isReady, crs_Users = users\<rparr>))))))))"

definition encodeJoinRoomResponse :: "JoinRoomResponse encoder" where
  "encodeJoinRoomResponse w v =
     WriteBool (WriteArray encodeUserInfo (encodeRoomState w (jr_State v)) (jr_Users v)) (jr_Live v)"

definition decodeJoinRoomResponse :: "JoinRoomResponse reader" where
  "decodeJoinRoomResponse = bindR decodeRoomState (\<lambda>st. bindR (ReadArray decodeUserInfo)
     (\<lambda>us. bindR ReadBool (\<lambda>live. returnR \<lparr>jr_State = st, jr_Users = us, jr_Live = live\<rparr>)))"

fun encodeMessage :: "Message encoder" where
  "encodeMessage w (MsgChat user content) = WriteString (WriteI32 (WriteU8 w 0) user) content"
| "encodeMessage w (MsgCreateRoom user) = WriteI32 (WriteU8 w 1) user"
| "encodeMessage w (MsgJoinRoom user name) = WriteString (WriteI32 (WriteU8 w 2) user) name"
| "encodeMessage w (MsgLeaveRoom user name) = WriteString (WriteI32 (WriteU8 w 3) user) name"
| "encodeMessage w (MsgNewHost user) = WriteI32 (WriteU8 w 4) user"
| "encodeMessage w (MsgSelectChart user name cid) =
     WriteI32 (WriteString (WriteI32 (WriteU8 w 5) user) name) cid"
| "encodeMessage w (MsgGameStart user) = WriteI32 (WriteU8 w 6) user"
| "encodeMessage w (MsgReady user) = WriteI32 (WriteU8 w 7) user"
| "encodeMessage w (MsgCancelReady user) = WriteI32 (WriteU8 w 8) user"
| "encodeMessage w (MsgCancelGame user) = WriteI32 (WriteU8 w 9) user"
| "encodeMessage w MsgStartPlaying = WriteU8 w 10"
| "encodeMessage w (MsgPlayed user score acc fc) =
     WriteBool (WriteF32 (WriteI32 (WriteI32 (WriteU8 w 11) user) score) acc) fc"
| "encodeMessage w MsgGameEnd = WriteU8 w 12"
| "encodeMessage w (MsgAbort user) = WriteI32 (WriteU8 w 13) user"
| "encodeMessage w (MsgLockRoom lock) = WriteBool (WriteU8 w 14) lock"
| "encodeMessage w (MsgCycleRoom cycle) = WriteBool (WriteU8 w 15) cycle"

definition decodeMessage :: "Message reader" where
  "decodeMessage = bindR ReadU8 (\<lambda>tag.
     if tag = 0 then bindR ReadI32 (\<lambda>u. bindR ReadString (\<lambda>c. returnR (MsgChat u c)))
     else if tag = 1 then bindR ReadI32 (\<lambda>u. returnR (MsgCreateRoom u))
     else if tag = 2 then bindR ReadI32 (\<lambda>u. bindR ReadString (\<lambda>n. returnR (MsgJoinRoom u n)))
     else if tag = 3 then bindR ReadI32 (\<lambda>u. bindR ReadString (\<lambda>n. returnR (MsgLeaveRoom u n)))
     else if tag = 4 then bindR ReadI32 (\<lambda>u. returnR (MsgNewHost u))
     else if tag = 5 then bindR ReadI32 (\<lambda>u. bindR ReadString (\<lambda>n. bindR ReadI32
       (\<lambda>i. returnR (MsgSelectChart u n i))))
     else if tag = 6 then bindR ReadI32 (\<lambda>u. returnR (MsgGameStart u))
     else if tag = 7 then bindR ReadI32 (\<lambda>u. returnR (MsgReady u))
     else if tag = 8 then bindR ReadI32 (\<lambda>u. returnR (MsgCancelReady u))
     else if tag = 9 then bindR ReadI32 (\<lambda>u. returnR (MsgCancelGame u))
     else if tag = 10 then returnR MsgStartPlaying
     else if tag = 11 then bindR ReadI32 (\<lambda>u. bindR ReadI32 (\<lambda>s. bindR ReadF32 (\<lambda>a. bindR ReadBool
       (\<lambda>f. returnR (MsgPlayed u s a f)))))
     else if tag = 12 then returnR MsgGameEnd
     else if tag = 13 then bindR ReadI32 (\<lambda>u. returnR (MsgAbort u))
     else if tag = 14 then bindR ReadBool (\<lambda>l. returnR (MsgLockRoom l))
     else if tag = 15 then bindR ReadBool (\<lambda>c. returnR (MsgCycleRoom c))
     else failR ''proto-message-tag-invalid'')"

fun EncodeClientCommand :: "BinaryWriter \<Rightarrow> ClientCommand \<Rightarrow> ProtocolError + BinaryWriter" where
  "EncodeClientCommand w CmdPing = Inr (WriteU8 w 0)"
| "EncodeClientCommand w (CmdAuthenticate token) = WriteVarchar 32 (WriteU8 w 1) token"
| "EncodeClientCommand w (CmdChat message) = WriteVarchar 200 (WriteU8 w 2) message"
| "EncodeClientCommand w (CmdTouches frames) = Inr (WriteArray EncodeTouchFrame (WriteU8 w 3) frames)"
| "EncodeClientCommand w (CmdJudges judges) = Inr (WriteArray EncodeJudgeEvent (WriteU8 w 4) judges)"
| "EncodeClientCommand w (CmdCreateRoom rid) = Inr (encodeRoomID (WriteU8 w 5) rid)"
| "EncodeClientCommand w (CmdJoinRoom rid monitor) =
     Inr (WriteBool (encodeRoomID (WriteU8 w 6) rid) monitor)"
| "EncodeClientCommand w CmdLeaveRoom = Inr (WriteU8 w 7)"
| "EncodeClientCommand w (CmdLockRoom lock) = Inr (WriteBool (WriteU8 w 8) lock)"
| "EncodeClientCommand w (CmdCycleRoom cycle) = Inr (WriteBool (WriteU8 w 9) cycle)"
| "EncodeClientCommand w (CmdSelectChart cid) = Inr (WriteI32 (WriteU8 w 10) cid)"
| "EncodeClientCommand w CmdRequestStart = Inr (WriteU8 w 11)"
| "EncodeClientCommand w CmdReady = Inr (WriteU8 w 12)"
| "EncodeClientCommand w CmdCancelReady = Inr (WriteU8 w 13)"
| "EncodeClientCommand w (CmdPlayed rid) = Inr (WriteI32 (WriteU8 w 14) rid)"
| "EncodeClientCommand w CmdAbort = Inr (WriteU8 w 15)"

definition DecodeClientCommand :: "ClientCommand reader" where
  "DecodeClientCommand = bindR ReadU8 (\<lambda>tag.
     if tag = 0 then returnR CmdPing
     else if tag = 1 then bindR (ReadVarchar 32) (\<lambda>t. returnR (CmdAuthenticate t))
     else if tag = 2 then bindR (ReadVarchar 200) (\<lambda>m. returnR (CmdChat m))
     else if tag = 3 then bindR (ReadArray DecodeTouchFrame) (\<lambda>fs. returnR (CmdTouches fs))
     else if tag = 4 then bindR (ReadArray DecodeJudgeEvent) (\<lambda>js. returnR (CmdJudges js))
     else if tag = 5 then bindR decodeRoomID (\<lambda>i. returnR (CmdCreateRoom i))
     else if tag = 6 then bindR decodeRoomID (\<lambda>i. bindR ReadBool (\<lambda>m. returnR (CmdJoinRoom i m)))
     else if tag = 7 then returnR CmdLeaveRoom
     else if tag = 8 then bindR ReadBool (\<lambda>l. returnR (CmdLockRoom l))
     else if tag = 9 then bindR ReadBool (\<lambda>c. returnR (CmdCycleRoom c))
     else if tag = 10 then bindR ReadI32 (\<lambda>i. returnR (CmdSelectChart i))
     else if tag = 11 then returnR CmdRequestStart
     else if tag = 12 then returnR CmdReady
     else if tag = 13 then returnR CmdCancelReady
     else if tag = 14 then bindR ReadI32 (\<lambda>i. returnR (CmdPlayed i))
     else if tag = 15 then returnR CmdAbort
     else failR ''proto-clientcommand-tag-invalid'')"

definition encodeUnitResult :: "unit StringResult encoder" where
  "encodeUnitResult = EncodeStringResult (\<lambda>w _. w)"

definition decodeUnitResult :: "unit StringResult reader" where
  "decodeUnitResult = DecodeStringResult (returnR ())"

definition encodeAuthInfo :: "AuthInfo encoder" where
  "encodeAuthInfo w info = WriteOption encodeClientRoomState (encodeUserInfo w (ai_Me info)) (ai_Room info)"

definition decodeAuthInfo :: "AuthInfo reader" where
  "decodeAuthInfo = bindR decodeUserInfo (\<lambda>me. bindR (ReadOption decodeClientRoomState)
     (\<lambda>room. returnR \<lparr>ai_Me = me, ai_Room = room\<rparr>))"

fun EncodeServerCommand :: "ServerCommand encoder" where
  "EncodeServerCommand w SrvPong = WriteU8 w 0"
| "EncodeServerCommand w (SrvAuthenticate r) = EncodeStringResult encodeAuthInfo (WriteU8 w 1) r"
| "EncodeServerCommand w (SrvChat r) = encodeUnitResult (WriteU8 w 2) r"
| "EncodeServerCommand w (SrvTouches player frames) =
     WriteArray EncodeTouchFrame (WriteI32 (WriteU8 w 3) player) frames"
| "EncodeServerCommand w (SrvJudges player judges) =
     WriteArray EncodeJudgeEvent (WriteI32 (WriteU8 w 4) player) judges"
| "EncodeServerCommand w (SrvMessage m) = encodeMessage (WriteU8 w 5) m"
| "EncodeServerCommand w (SrvChangeState s) = encodeRoomState (WriteU8 w 6) s"
| "EncodeServerCommand w (SrvChangeHost b) = WriteBool (WriteU8 w 7) b"
| "EncodeServerCommand w (SrvCreateRoom r) = encodeUnitResult (WriteU8 w 8) r"
| "EncodeServerCommand w (SrvJoinRoom r) = EncodeStringResult encodeJoinRoomResponse (WriteU8 w 9) r"
| "EncodeServerCommand w (SrvOnJoinRoom info) = encodeUserInfo (WriteU8 w 10) info"
| "EncodeServerCommand w (SrvLeaveRoom r) = encodeUnitResult (WriteU8 w 11) r"
| "EncodeServerCommand w (SrvLockRoom r) = encodeUnitResult (WriteU8 w 12) r"
| "EncodeServerCommand w (SrvCycleRoom r) = encodeUnitResult (WriteU8 w 13) r"
| "EncodeServerCommand w (SrvSelectChart r) = encodeUnitResult (WriteU8 w 14) r"
| "EncodeServerCommand w (SrvRequestStart r) = encodeUnitResult (WriteU8 w 15) r"
| "EncodeServerCommand w (SrvReady r) = encodeUnitResult (WriteU8 w 16) r"
| "EncodeServerCommand w (SrvCancelReady r) = encodeUnitResult (WriteU8 w 17) r"
| "EncodeServerCommand w (SrvPlayed r) = encodeUnitResult (WriteU8 w 18) r"
| "EncodeServerCommand w (SrvAbort r) = encodeUnitResult (WriteU8 w 19) r"

definition DecodeServerCommand :: "ServerCommand reader" where
  "DecodeServerCommand = bindR ReadU8 (\<lambda>tag.
     if tag = 0 then returnR SrvPong
     else if tag = 1 then bindR (DecodeStringResult decodeAuthInfo) (\<lambda>r. returnR (SrvAuthenticate r))
     else if tag = 2 then bindR decodeUnitResult (\<lambda>r. returnR (SrvChat r))
     else if tag = 3 then bindR ReadI32 (\<lambda>p. bindR (ReadArray DecodeTouchFrame) (\<lambda>fs. returnR (SrvTouches p fs)))
     else if tag = 4 then bindR ReadI32 (\<lambda>p. bindR (ReadArray DecodeJudgeEvent) (\<lambda>js. returnR (SrvJudges p js)))
     else if tag = 5 then bindR decodeMessage (\<lambda>m. returnR (SrvMessage m))
     else if tag = 6 then bindR decodeRoomState (\<lambda>s. returnR (SrvChangeState s))
     else if tag = 7 then bindR ReadBool (\<lambda>b. returnR (SrvChangeHost b))
     else if tag = 8 then bindR decodeUnitResult (\<lambda>r. returnR (SrvCreateRoom r))
     else if tag = 9 then bindR (DecodeStringResult decodeJoinRoomResponse) (\<lambda>r. returnR (SrvJoinRoom r))
     else if tag = 10 then bindR decodeUserInfo (\<lambda>i. returnR (SrvOnJoinRoom i))
     else if tag = 11 then bindR decodeUnitResult (\<lambda>r. returnR (SrvLeaveRoom r))
     else if tag = 12 then bindR decodeUnitResult (\<lambda>r. returnR (SrvLockRoom r))
     else if tag = 13 then bindR decodeUnitResult (\<lambda>r. returnR (SrvCycleRoom r))
     else if tag = 14 then bindR decodeUnitResult (\<lambda>r. returnR (SrvSelectChart r))
     else if tag = 15 then bindR decodeUnitResult (\<lambda>r. returnR (SrvRequestStart r))
     else if tag = 16 then bindR decodeUnitResult (\<lambda>r. returnR (SrvReady r))
     else if tag = 17 then bindR decodeUnitResult (\<lambda>r. returnR (SrvCancelReady r))
     else if tag = 18 then bindR decodeUnitResult (\<lambda>r. returnR (SrvPlayed r))
     else if tag = 19 then bindR decodeUnitResult (\<lambda>r. returnR (SrvAbort r))
     else failR ''proto-servercommand-tag-invalid'')"


section \<open>Values that survive the wire\<close>

text \<open>A coordinate is sent as a half-precision number, so it survives when it is one; strings and
  arrays are bounded by the length the reader accepts; a room identifier by its own rules.\<close>

definition half_exact :: "float32 \<Rightarrow> bool" where
  "half_exact x \<longleftrightarrow> half_quantise x = x"

definition pos_ok :: "CompactPos \<Rightarrow> bool" where
  "pos_ok pos \<longleftrightarrow> half_exact (pos_X pos) \<and> half_exact (pos_Y pos)"

definition point_ok :: "TouchPoint \<Rightarrow> bool" where
  "point_ok p \<longleftrightarrow> pos_ok (tp_Pos p)"

definition frame_ok_touch :: "TouchFrame \<Rightarrow> bool" where
  "frame_ok_touch v \<longleftrightarrow> array_ok point_ok (tf_Points v)"

definition roomid_ok :: "RoomID \<Rightarrow> bool" where
  "roomid_ok s \<longleftrightarrow> ParseRoomID s = Inr s"

definition user_ok :: "UserInfo \<Rightarrow> bool" where
  "user_ok v \<longleftrightarrow> string_ok (ui_Name v)"

definition crs_ok :: "ClientRoomState \<Rightarrow> bool" where
  "crs_ok v \<longleftrightarrow> roomid_ok (crs_ID v) \<and> map_ok user_ok (crs_Users v)"

definition join_ok :: "JoinRoomResponse \<Rightarrow> bool" where
  "join_ok v \<longleftrightarrow> array_ok user_ok (jr_Users v)"

definition auth_ok :: "AuthInfo \<Rightarrow> bool" where
  "auth_ok v \<longleftrightarrow> user_ok (ai_Me v) \<and> pred_option crs_ok (ai_Room v)"

fun message_ok :: "Message \<Rightarrow> bool" where
  "message_ok (MsgChat _ content) = string_ok content"
| "message_ok (MsgJoinRoom _ name) = string_ok name"
| "message_ok (MsgLeaveRoom _ name) = string_ok name"
| "message_ok (MsgSelectChart _ name _) = string_ok name"
| "message_ok _ = True"

fun client_ok :: "ClientCommand \<Rightarrow> bool" where
  "client_ok (CmdAuthenticate t) = (length t \<le> 32)"
| "client_ok (CmdChat m) = (length m \<le> 200)"
| "client_ok (CmdTouches fs) = array_ok frame_ok_touch fs"
| "client_ok (CmdJudges js) = array_ok (\<lambda>_. True) js"
| "client_ok (CmdCreateRoom rid) = roomid_ok rid"
| "client_ok (CmdJoinRoom rid _) = roomid_ok rid"
| "client_ok _ = True"

abbreviation unit_ok :: "unit StringResult \<Rightarrow> bool" where
  "unit_ok \<equiv> result_ok (\<lambda>_. True)"

fun server_ok :: "ServerCommand \<Rightarrow> bool" where
  "server_ok SrvPong = True"
| "server_ok (SrvAuthenticate r) = result_ok auth_ok r"
| "server_ok (SrvChat r) = unit_ok r"
| "server_ok (SrvTouches _ fs) = array_ok frame_ok_touch fs"
| "server_ok (SrvJudges _ js) = array_ok (\<lambda>_. True) js"
| "server_ok (SrvMessage m) = message_ok m"
| "server_ok (SrvChangeState _) = True"
| "server_ok (SrvChangeHost _) = True"
| "server_ok (SrvCreateRoom r) = unit_ok r"
| "server_ok (SrvJoinRoom r) = result_ok join_ok r"
| "server_ok (SrvOnJoinRoom i) = user_ok i"
| "server_ok (SrvLeaveRoom r) = unit_ok r"
| "server_ok (SrvLockRoom r) = unit_ok r"
| "server_ok (SrvCycleRoom r) = unit_ok r"
| "server_ok (SrvSelectChart r) = unit_ok r"
| "server_ok (SrvRequestStart r) = unit_ok r"
| "server_ok (SrvReady r) = unit_ok r"
| "server_ok (SrvCancelReady r) = unit_ok r"
| "server_ok (SrvPlayed r) = unit_ok r"
| "server_ok (SrvAbort r) = unit_ok r"

section \<open>Every pair is a codec\<close>

lemma codec_CompactPos [codec]: "wire_codec ReadCompactPos WriteCompactPos pos_ok"
  by (rule wire_codecI2)
     (auto simp: WriteCompactPos_def ReadCompactPos_def pos_ok_def half_exact_def half_quantise_def wire
       intro!: inbounds)

interpretation cPos: wire_codec ReadCompactPos WriteCompactPos pos_ok by (rule codec_CompactPos)
lemmas [wire] = cPos.append cPos.decode_encode

lemma codec_TouchPoint [codec]: "wire_codec decodeTouchPoint encodeTouchPoint point_ok"
  by (rule wire_codecI2)
     (auto simp: encodeTouchPoint_def decodeTouchPoint_def point_ok_def wire
       intro!: inbounds cPos.wire_reader_axioms)

interpretation cPoint: wire_codec decodeTouchPoint encodeTouchPoint point_ok by (rule codec_TouchPoint)
interpretation cPoints: wire_codec "ReadArray decodeTouchPoint" "WriteArray encodeTouchPoint" "array_ok point_ok"
  by (rule cPoint.codec_array)
lemmas [wire] = cPoints.append cPoints.decode_encode

lemma codec_TouchFrame [codec]: "wire_codec DecodeTouchFrame EncodeTouchFrame frame_ok_touch"
  by (rule wire_codecI2)
     (auto simp: EncodeTouchFrame_def DecodeTouchFrame_def frame_ok_touch_def wire
       intro!: inbounds cPoint.wire_reader_axioms)

interpretation cFrame: wire_codec DecodeTouchFrame EncodeTouchFrame frame_ok_touch by (rule codec_TouchFrame)
interpretation cFrames: wire_codec "ReadArray DecodeTouchFrame" "WriteArray EncodeTouchFrame" "array_ok frame_ok_touch"
  by (rule cFrame.codec_array)
lemmas [wire] = cFrames.append cFrames.decode_encode

lemma codec_JudgeEvent [codec]: "wire_codec DecodeJudgeEvent EncodeJudgeEvent (\<lambda>_. True)"
  by (rule wire_codecI2) (auto simp: EncodeJudgeEvent_def DecodeJudgeEvent_def wire intro!: inbounds)

interpretation cJudge: wire_codec DecodeJudgeEvent EncodeJudgeEvent "\<lambda>_. True" by (rule codec_JudgeEvent)
interpretation cJudges: wire_codec "ReadArray DecodeJudgeEvent" "WriteArray EncodeJudgeEvent" "array_ok (\<lambda>_. True)"
  by (rule cJudge.codec_array)
lemmas [wire] = cJudges.append cJudges.decode_encode

lemma wire_reader_RoomID [inbounds, intro]: "wire_reader decodeRoomID"
proof -
  have "wire_reader (case ParseRoomID s of Inl err \<Rightarrow> failR err | Inr rid \<Rightarrow> returnR rid)" for s
    by (cases "ParseRoomID s") (auto intro!: inbounds)
  then show ?thesis unfolding decodeRoomID_def by (intro inbounds)
qed

lemma roomid_string_ok: "roomid_ok s \<Longrightarrow> string_ok s"
  by (simp add: roomid_ok_def string_ok_def ParseRoomID_Inr)

lemma codec_RoomID [codec]: "wire_codec decodeRoomID encodeRoomID roomid_ok"
proof (rule wire_codecI2 [OF wire_reader_RoomID])
  show "encodeRoomID w v = WriteBuffer w (ToBuffer (encodeRoomID NewBinaryWriter v))" for w v
    by (simp add: encodeRoomID_def wire)
next
  fix v pre rest assume v: "roomid_ok v"
  then show "decodeRoomID (reader_at pre (ToBuffer (encodeRoomID NewBinaryWriter v) @ rest)) =
      Inr (v, reader_at (pre @ ToBuffer (encodeRoomID NewBinaryWriter v)) rest)"
    using roomid_string_ok [OF v] by (simp add: encodeRoomID_def decodeRoomID_def roomid_ok_def wire)
qed

interpretation cRoomID: wire_codec decodeRoomID encodeRoomID roomid_ok by (rule codec_RoomID)
lemmas [wire] = cRoomID.append cRoomID.decode_encode

lemma codec_UserInfo [codec]: "wire_codec decodeUserInfo encodeUserInfo user_ok"
  by (rule wire_codecI2) (auto simp: encodeUserInfo_def decodeUserInfo_def user_ok_def wire intro!: inbounds)

interpretation cUser: wire_codec decodeUserInfo encodeUserInfo user_ok by (rule codec_UserInfo)
interpretation cUsers: wire_codec "ReadArray decodeUserInfo" "WriteArray encodeUserInfo" "array_ok user_ok"
  by (rule cUser.codec_array)
interpretation cUserMap: wire_codec "ReadMap ReadI32 decodeUserInfo" "WriteSortedMap WriteI32 encodeUserInfo" "map_ok user_ok"
  by (rule cUser.codec_map)
interpretation cChart: wire_codec "ReadOption ReadI32" "WriteOption WriteI32" "\<lambda>_. True"
  by (rule cI32.codec_option [unfolded option.pred_True])
lemmas [wire] = cUser.append cUser.decode_encode cUsers.append cUsers.decode_encode
  cUserMap.append cUserMap.decode_encode cChart.append cChart.decode_encode

lemma codec_RoomState [codec]: "wire_codec decodeRoomState encodeRoomState (\<lambda>_. True)"
proof (rule wire_codecI2)
  show "wire_reader decodeRoomState" unfolding decodeRoomState_def by (intro inbounds)
next
  fix w v
  show "encodeRoomState w v = WriteBuffer w (ToBuffer (encodeRoomState NewBinaryWriter v))"
    by (cases v) (simp_all add: wire)
next
  fix v :: RoomState and pre rest
  show "decodeRoomState (reader_at pre (ToBuffer (encodeRoomState NewBinaryWriter v) @ rest)) =
      Inr (v, reader_at (pre @ ToBuffer (encodeRoomState NewBinaryWriter v)) rest)"
    by (cases v) (simp_all add: decodeRoomState_def wire)
qed

interpretation cState: wire_codec decodeRoomState encodeRoomState "\<lambda>_. True" by (rule codec_RoomState)
lemmas [wire] = cState.append cState.decode_encode
lemmas [inbounds] = cPos.wire_reader_axioms cFrame.wire_reader_axioms cJudge.wire_reader_axioms
  cUser.wire_reader_axioms cState.wire_reader_axioms

lemma codec_ClientRoomState [codec]: "wire_codec decodeClientRoomState encodeClientRoomState crs_ok"
  by (rule wire_codecI2)
     (auto simp: encodeClientRoomState_def decodeClientRoomState_def crs_ok_def Let_def wire intro!: inbounds)

lemma codec_JoinRoomResponse [codec]: "wire_codec decodeJoinRoomResponse encodeJoinRoomResponse join_ok"
  by (rule wire_codecI2)
     (auto simp: encodeJoinRoomResponse_def decodeJoinRoomResponse_def join_ok_def wire intro!: inbounds)

interpretation cCRS: wire_codec decodeClientRoomState encodeClientRoomState crs_ok by (rule codec_ClientRoomState)
interpretation cCRSOpt: wire_codec "ReadOption decodeClientRoomState" "WriteOption encodeClientRoomState" "pred_option crs_ok"
  by (rule cCRS.codec_option)
interpretation cJoin: wire_codec decodeJoinRoomResponse encodeJoinRoomResponse join_ok by (rule codec_JoinRoomResponse)
interpretation cJoinR: wire_codec "DecodeStringResult decodeJoinRoomResponse" "EncodeStringResult encodeJoinRoomResponse" "result_ok join_ok"
  by (rule cJoin.codec_result)
lemmas [wire] = cCRSOpt.append cCRSOpt.decode_encode cJoinR.append cJoinR.decode_encode

lemma codec_AuthInfo [codec]: "wire_codec decodeAuthInfo encodeAuthInfo auth_ok"
  by (rule wire_codecI2)
     (auto simp: encodeAuthInfo_def decodeAuthInfo_def auth_ok_def wire intro!: inbounds cCRS.wire_reader_axioms)

interpretation cAuth: wire_codec decodeAuthInfo encodeAuthInfo auth_ok by (rule codec_AuthInfo)
interpretation cAuthR: wire_codec "DecodeStringResult decodeAuthInfo" "EncodeStringResult encodeAuthInfo" "result_ok auth_ok"
  by (rule cAuth.codec_result)
interpretation cUnit: wire_codec "returnR ()" "\<lambda>w _. w" "\<lambda>_. True"
  by (rule wire_codecI [where f = "\<lambda>_. []"]) (auto simp: WriteBuffer_def returnR_def intro!: inbounds)
interpretation cUnitR: wire_codec decodeUnitResult encodeUnitResult unit_ok
  unfolding decodeUnitResult_def encodeUnitResult_def by (rule cUnit.codec_result)
lemmas [wire] = cAuthR.append cAuthR.decode_encode cUnitR.append cUnitR.decode_encode
lemmas [inbounds] = cJoinR.wire_reader_axioms cAuthR.wire_reader_axioms cUnitR.wire_reader_axioms


lemma codec_Message [codec]: "wire_codec decodeMessage encodeMessage message_ok"
proof (rule wire_codecI2)
  show "wire_reader decodeMessage" unfolding decodeMessage_def by (intro inbounds)
next
  fix w v
  show "encodeMessage w v = WriteBuffer w (ToBuffer (encodeMessage NewBinaryWriter v))"
    by (cases v) (simp_all add: wire)
next
  fix v pre rest assume "message_ok v"
  then show "decodeMessage (reader_at pre (ToBuffer (encodeMessage NewBinaryWriter v) @ rest)) =
      Inr (v, reader_at (pre @ ToBuffer (encodeMessage NewBinaryWriter v)) rest)"
    by (cases v) (simp_all add: decodeMessage_def wire)
qed

interpretation cMessage: wire_codec decodeMessage encodeMessage message_ok by (rule codec_Message)
lemmas [wire] = cMessage.append cMessage.decode_encode

lemma codec_ServerCommand [codec]: "wire_codec DecodeServerCommand EncodeServerCommand server_ok"
proof (rule wire_codecI2)
  show "wire_reader DecodeServerCommand"
    unfolding DecodeServerCommand_def by (intro inbounds cMessage.wire_reader_axioms)
next
  fix w v
  show "EncodeServerCommand w v = WriteBuffer w (ToBuffer (EncodeServerCommand NewBinaryWriter v))"
    by (cases v) (simp_all add: wire)
next
  fix v pre rest assume "server_ok v"
  then show "DecodeServerCommand (reader_at pre (ToBuffer (EncodeServerCommand NewBinaryWriter v) @ rest)) =
      Inr (v, reader_at (pre @ ToBuffer (EncodeServerCommand NewBinaryWriter v)) rest)"
    by (cases v) (simp_all add: DecodeServerCommand_def wire)
qed

interpretation cServer: wire_codec DecodeServerCommand EncodeServerCommand server_ok by (rule codec_ServerCommand)

text \<open>The encoder of client commands panics on a string over its limit.  As a codec it is taken
  with the writer left unchanged in that case, which \<open>client_ok\<close> excludes.\<close>

definition client_writer :: "ClientCommand encoder" where
  "client_writer w cmd = (case EncodeClientCommand w cmd of Inl _ \<Rightarrow> w | Inr w' \<Rightarrow> w')"

lemma EncodeClientCommand_ok: "client_ok cmd \<Longrightarrow> EncodeClientCommand w cmd = Inr (client_writer w cmd)"
  by (cases cmd) (simp_all add: client_writer_def WriteVarchar_ok)

lemma EncodeClientCommand_error:
  "EncodeClientCommand w cmd = Inl e \<longleftrightarrow> e = ProtocolError ''binary-string-too-long'' \<and>
     ((\<exists>t. cmd = CmdAuthenticate t \<and> 32 < length t) \<or> (\<exists>m. cmd = CmdChat m \<and> 200 < length m))"
  by (cases cmd) (auto simp: WriteVarchar_def)

interpretation cToken: wire_codec "ReadVarchar 32" WriteString "\<lambda>s. length s \<le> 32"
  by (rule codec_Varchar) simp
interpretation cChatText: wire_codec "ReadVarchar 200" WriteString "\<lambda>s. length s \<le> 200"
  by (rule codec_Varchar) simp

lemma client_writer_varchar:
  "client_writer w (CmdAuthenticate t) = (if length t \<le> 32 then WriteString (WriteU8 w 1) t else w)"
  "client_writer w (CmdChat m) = (if length m \<le> 200 then WriteString (WriteU8 w 2) m else w)"
  by (simp_all add: client_writer_def WriteVarchar_def WriteString_def)

lemma client_writer_append:
  "client_writer w v = WriteBuffer w (ToBuffer (client_writer NewBinaryWriter v))"
proof -
  have "w = WriteBuffer w (ToBuffer NewBinaryWriter)"
    by (simp add: WriteBuffer_def ToBuffer_def NewBinaryWriter_def)
  then show ?thesis
    by (cases v) (simp_all add: client_writer_varchar wire, simp_all add: client_writer_def wire)
qed

lemma codec_ClientCommand [codec]: "wire_codec DecodeClientCommand client_writer client_ok"
proof (rule wire_codecI2)
  show "wire_reader DecodeClientCommand" unfolding DecodeClientCommand_def by (intro inbounds)
next
  fix w v
  show "client_writer w v = WriteBuffer w (ToBuffer (client_writer NewBinaryWriter v))"
    by (rule client_writer_append)
next
  fix v pre rest assume "client_ok v"
  then show "DecodeClientCommand (reader_at pre (ToBuffer (client_writer NewBinaryWriter v) @ rest)) =
      Inr (v, reader_at (pre @ ToBuffer (client_writer NewBinaryWriter v)) rest)"
    by (cases v) (simp_all add: client_writer_varchar DecodeClientCommand_def wire
        cToken.decode_encode cChatText.decode_encode, simp_all add: client_writer_def wire)
qed

interpretation cClient: wire_codec DecodeClientCommand client_writer client_ok by (rule codec_ClientCommand)

section \<open>What a decoded command satisfies\<close>

lemma readLen_Take: "Take n r = Inr (bs, r') \<Longrightarrow> length bs \<le> n"
  by (auto simp: Take_def bindR_result)

lemma ReadVarchar_result: "ReadVarchar n r = Inr (s, r') \<Longrightarrow> length s \<le> n"
  by (auto simp: ReadVarchar_def bindR_result split: if_splits dest!: readLen_Take)

lemma ParseRoomID_ok: "ParseRoomID s = Inr rid \<Longrightarrow> roomid_ok rid"
  by (simp add: roomid_ok_def ParseRoomID_Inr)

lemma decodeRoomID_result: "decodeRoomID r = Inr (rid, r') \<Longrightarrow> roomid_ok rid"
proof -
  assume "decodeRoomID r = Inr (rid, r')"
  then obtain s r1 where "(case ParseRoomID s of Inl err \<Rightarrow> failR err | Inr rid \<Rightarrow> returnR rid) r1 = Inr (rid, r')"
    by (auto simp: decodeRoomID_def bindR_result)
  then show ?thesis by (cases "ParseRoomID s") (auto dest: ParseRoomID_ok)
qed

text \<open>Limits the server relies on after decoding, whatever bytes the client sent.\<close>

fun client_limits :: "ClientCommand \<Rightarrow> bool" where
  "client_limits (CmdAuthenticate t) = (length t \<le> 32)"
| "client_limits (CmdChat m) = (length m \<le> 200)"
| "client_limits (CmdCreateRoom rid) = roomid_ok rid"
| "client_limits (CmdJoinRoom rid _) = roomid_ok rid"
| "client_limits _ = True"

lemma DecodeClientCommand_limits: "DecodeClientCommand r = Inr (cmd, r') \<Longrightarrow> client_limits cmd"
  by (auto simp: DecodeClientCommand_def bindR_result split: if_splits
      dest: ReadVarchar_result decodeRoomID_result)

lemma DecodeClientCommand_unknown:
  "15 < tag \<Longrightarrow> DecodeClientCommand (reader_at pre (tag # rest)) =
     Inl (ProtocolError ''proto-clientcommand-tag-invalid'')"
  by (auto simp: DecodeClientCommand_def ReadU8_at failR_def)

lemma DecodeServerCommand_unknown:
  "19 < tag \<Longrightarrow> DecodeServerCommand (reader_at pre (tag # rest)) =
     Inl (ProtocolError ''proto-servercommand-tag-invalid'')"
  by (auto simp: DecodeServerCommand_def ReadU8_at failR_def)

section \<open>Frames of server commands\<close>

text \<open>A frame is encoded with a pooled writer (\<open>hub_broadcast.go\<close>, \<open>session_encode.go\<close>): it is
  reset, filled, and its reserved head receives the length prefix.  Any writer of the pool will
  do, whatever was written with it before.\<close>

definition pool_writer :: "BinaryWriter \<Rightarrow> bool" where
  "pool_writer w \<longleftrightarrow> reserveHead w = 5 \<and> 5 \<le> length (buf w)"

definition encodeServerCommandFrame :: "BinaryWriter \<Rightarrow> ServerCommand \<Rightarrow> ProtocolError + bytes \<times> BinaryWriter" where
  "encodeServerCommandFrame w cmd = ToFrameBuffer (EncodeServerCommand (Reset w) cmd)"

definition encodeServerFrame :: "BinaryWriter \<Rightarrow> ServerCommand \<Rightarrow> string + bytes" where
  "encodeServerFrame w cmd = (case ToFrameBuffer (EncodeServerCommand (Reset w) cmd) of
     Inl _ \<Rightarrow> Inl ''encode-server-command-failed''
   | Inr (fb, _) \<Rightarrow> Inr fb)"

lemma pool_writer_New: "pool_writer (NewFrameWriter 5)"
  by (simp add: pool_writer_def NewFrameWriter_def)

lemma pooled_frame:
  assumes w: "pool_writer w"
  shows "\<exists>w'. encodeServerCommandFrame w cmd = Inr (FrameWithLengthPrefix (EncodePacket cmd EncodeServerCommand), w') \<and> pool_writer w'"
proof -
  let ?b = "EncodePacket cmd EncodeServerCommand"
  have enc: "EncodeServerCommand (Reset w) cmd = WriteBuffer (Reset w) ?b"
    by (rule cServer.append)
  have b: "ToBuffer (WriteBuffer (Reset w) ?b) = ?b"
    using w by (simp add: ToBuffer_def WriteBuffer_def Reset_def pool_writer_def)
  have head: "reserveHead (WriteBuffer (Reset w) ?b) = 5" "5 \<le> length (buf (WriteBuffer (Reset w) ?b))"
    using w by (simp_all add: WriteBuffer_def Reset_def pool_writer_def)
  obtain w' where w': "ToFrameBuffer (WriteBuffer (Reset w) ?b) = Inr (FrameWithLengthPrefix ?b, w')"
    "reserveHead w' = 5" "length (buf w') = length (buf (WriteBuffer (Reset w) ?b))"
    using ToFrameBuffer_eq [of "WriteBuffer (Reset w) ?b"] head b uleb32_length_5 ToFrameBuffer_length
    by (metis (no_types, lifting))
  then show ?thesis
    using head by (auto simp: encodeServerCommandFrame_def enc pool_writer_def)
qed

lemma encodeServerFrame_ok:
  "pool_writer w \<Longrightarrow> encodeServerFrame w cmd = Inr (FrameWithLengthPrefix (EncodePacket cmd EncodeServerCommand))"
  using pooled_frame [of w cmd] by (auto simp: encodeServerFrame_def encodeServerCommandFrame_def)

section \<open>Streams of commands\<close>

definition decodeClientPacket :: "bytes \<Rightarrow> string + ClientCommand" where
  "decodeClientPacket payload = map_sum Msg id (DecodePacket payload DecodeClientCommand)"

text \<open>The bytes a client sends for a list of commands.\<close>

definition client_stream :: "ClientCommand list \<Rightarrow> bytes" where
  "client_stream cmds = concat (map (\<lambda>c. FrameWithLengthPrefix (EncodePacket c client_writer)) cmds)"

definition sendable :: "int \<Rightarrow> ClientCommand \<Rightarrow> bool" where
  "sendable m c \<longleftrightarrow> client_ok c \<and> int (length (EncodePacket c client_writer)) \<le> payload_limit m
     \<and> length (EncodePacket c client_writer) < 2 ^ 32"

lemma drain_client_stream:
  "list_all (sendable m) cmds \<Longrightarrow> drain decodeClientPacket m (client_stream cmds) = (cmds, [], None)"
proof (induction cmds)
  case Nil
  show ?case by (simp add: client_stream_def drain.simps [of _ _ "[]"] TryDecodeFrame_def need_more_def)
next
  case (Cons c cmds)
  then have ok: "client_ok c" "int (length (EncodePacket c client_writer)) \<le> payload_limit m"
    "length (EncodePacket c client_writer) < 2 ^ 32"
    by (simp_all add: sendable_def)
  have "TryDecodeFrame (client_stream (c # cmds)) m = frame_ok (EncodePacket c client_writer) (client_stream cmds)"
    using frame_decode [OF ok(2,3), of "client_stream cmds"] by (simp add: client_stream_def)
  moreover have "decodeClientPacket (EncodePacket c client_writer) = Inr c"
    using cClient.roundtrip [OF ok(1), of "[]"] by (simp add: decodeClientPacket_def)
  ultimately show ?case
    using Cons by (simp add: drain.simps [of _ _ "client_stream (c # cmds)"] frame_ok_def)
qed

lemma drain_empty: "drain dec m [] = ([], [], None)"
  by (simp add: drain.simps [of _ _ "[]"] TryDecodeFrame_def need_more_def)

lemma readLoop_client_stream:
  assumes "list_all (sendable m) cmds" "concat chunks = client_stream cmds"
  shows "readLoop decodeClientPacket m [] chunks = (cmds, [], None)"
proof -
  obtain cmds' rest e where r: "readLoop decodeClientPacket m [] chunks = (cmds', rest, e)"
    by (cases "readLoop decodeClientPacket m [] chunks")
  from readLoop_drain [OF drain_empty r] assms drain_client_stream [OF assms(1)] r
  show ?thesis by auto
qed

end
