(* ===== verification/Replay_Format.thy ===== *)
theory Replay_Format
  imports Wire_Commands Go_Strconv
begin

text \<open>
  The replay file, \<open>core/replay/format.go\<close>, \<open>reader.go\<close>, \<open>id.go\<close> and the names of \<open>storage.go\<close>: a header
  of 13 bytes (magic, version, compression) in front of the compressed content, which is written with
  the writer of the wire protocol.  The compressors of the Go library and of the zstd package are
  parameters: \<open>deflate\<close>, and \<open>inflate\<close> and \<open>unzstd\<close>, which may fail.  A path is the root directory and
  the names below it.
\<close>

section \<open>The file header\<close>

datatype replay_error = CompressionUnsupported | Corrupt | Decoding ProtocolError | InvalidID

definition phiraRecordMagic :: bytes where "phiraRecordMagic = bytes_of_string ''PHIRAREC''"
definition phiraRecordVersion :: u32 where "phiraRecordVersion = 1"
definition phiraRecordHeaderSize :: nat where "phiraRecordHeaderSize = 13"
definition compressionNone :: u8 where "compressionNone = 0"
definition compressionZstd :: u8 where "compressionZstd = 1"
definition compressionDeflate :: u8 where "compressionDeflate = 2"

definition buildHeader :: "u8 \<Rightarrow> bytes" where
  "buildHeader compression = phiraRecordMagic @ le_encode 4 phiraRecordVersion @ [compression]"

definition isPhiraRecordV2 :: "bytes \<Rightarrow> bool" where
  "isPhiraRecordV2 raw \<longleftrightarrow> phiraRecordHeaderSize \<le> length raw \<and> take 8 raw = phiraRecordMagic"

definition decodePayload :: "(bytes \<Rightarrow> bytes option) \<Rightarrow> (bytes \<Rightarrow> bytes option) \<Rightarrow> bytes \<Rightarrow> replay_error + bytes" where
  "decodePayload inflate unzstd raw =
     (let compression = raw ! 12; payload = drop phiraRecordHeaderSize raw
      in if compression = compressionNone then Inr payload
         else if compression = compressionDeflate then (case inflate payload of Some c \<Rightarrow> Inr c | None \<Rightarrow> Inl Corrupt)
         else if compression = compressionZstd then (case unzstd payload of Some c \<Rightarrow> Inr c | None \<Rightarrow> Inl Corrupt)
         else Inl CompressionUnsupported)"

lemma length_buildHeader [simp]: "length (buildHeader c) = 13"
  by (simp add: buildHeader_def phiraRecordMagic_def)

lemma buildHeader_valid: "isPhiraRecordV2 (buildHeader c @ payload)" "(buildHeader c @ payload) ! 12 = c"
  "drop phiraRecordHeaderSize (buildHeader c @ payload) = payload"
  by (simp_all add: isPhiraRecordV2_def phiraRecordHeaderSize_def buildHeader_def phiraRecordMagic_def nth_append)

section \<open>Judge events\<close>

definition encodeReplayJudgeEvent :: "JudgeEvent encoder" where
  "encodeReplayJudgeEvent w v =
     WriteU8 (WriteI32 (WriteI32 (WriteF32 w (je_Time v)) (je_LineID v)) (je_NoteID v)) (je_Judgement v)"

definition decodeReplayJudgeEvent :: "JudgeEvent reader" where
  "decodeReplayJudgeEvent = bindR ReadF32 (\<lambda>t. bindR ReadI32 (\<lambda>l. bindR ReadI32 (\<lambda>n. bindR ReadU8
     (\<lambda>j. returnR \<lparr>je_Time = t, je_LineID = l, je_NoteID = n, je_Judgement = j\<rparr>))))"

lemma codec_ReplayJudge: "wire_codec decodeReplayJudgeEvent encodeReplayJudgeEvent (\<lambda>_. True)"
  by (rule wire_codecI2) (auto simp: encodeReplayJudgeEvent_def decodeReplayJudgeEvent_def wire intro!: inbounds)

interpretation rJudge: wire_codec decodeReplayJudgeEvent encodeReplayJudgeEvent "\<lambda>_. True" by (rule codec_ReplayJudge)
interpretation rJudges: wire_codec "ReadArray decodeReplayJudgeEvent" "WriteArray encodeReplayJudgeEvent" "array_ok (\<lambda>_. True)"
  by (rule rJudge.codec_array)
lemmas [wire] = rJudges.append rJudges.decode_encode

section \<open>The content\<close>

record ReplayHeader =
  rh_RecordID :: int
  rh_Timestamp :: int
  rh_ChartID :: int
  rh_ChartName :: string
  rh_UserID :: int
  rh_UserName :: string

record inFlight =
  if_roomKey :: string
  if_userID :: int
  if_userName :: string
  if_chartID :: int
  if_chartName :: string
  if_timestamp :: int
  if_recordID :: int
  if_path :: "string \<times> string list"
  if_touches :: "TouchFrame list"
  if_judges :: "JudgeEvent list"
  if_overflow :: bool

definition write_content :: "inFlight encoder" where
  "write_content w it =
     (let w = WriteI32 w (word_of_int (if_recordID it));
          w = WriteI64 w (word_of_int (if_timestamp it));
          w = WriteI32 w (word_of_int (if_chartID it));
          w = WriteString w (if_chartName it);
          w = WriteI32 w (word_of_int (if_userID it));
          w = WriteString w (if_userName it);
          w = WriteArray EncodeTouchFrame w (if_touches it)
      in WriteArray encodeReplayJudgeEvent w (if_judges it))"

definition buildContent :: "inFlight \<Rightarrow> bytes" where
  "buildContent it = ToBuffer (write_content NewBinaryWriter it)"

definition read_header :: "ReplayHeader reader" where
  "read_header = bindR ReadI32 (\<lambda>rid. bindR ReadI64 (\<lambda>ts. bindR ReadI32 (\<lambda>cid. bindR ReadString (\<lambda>cname.
     bindR ReadI32 (\<lambda>uid. bindR ReadString (\<lambda>uname.
       returnR \<lparr>rh_RecordID = sint rid, rh_Timestamp = sint ts, rh_ChartID = sint cid, rh_ChartName = cname,
                rh_UserID = sint uid, rh_UserName = uname\<rparr>))))))"

definition ReadReplayHeader :: "(bytes \<Rightarrow> bytes option) \<Rightarrow> (bytes \<Rightarrow> bytes option) \<Rightarrow> bytes \<Rightarrow> replay_error + ReplayHeader" where
  "ReadReplayHeader inflate unzstd raw =
     (if \<not> isPhiraRecordV2 raw then Inl CompressionUnsupported
      else case decodePayload inflate unzstd raw of
          Inl e \<Rightarrow> Inl e
        | Inr content \<Rightarrow> (case DecodePacket content read_header of Inl e \<Rightarrow> Inl (Decoding e) | Inr h \<Rightarrow> Inr h))"

text \<open>A player reads the touches and the judgements behind the header.\<close>

definition read_replay :: "(ReplayHeader \<times> TouchFrame list \<times> JudgeEvent list) reader" where
  "read_replay = bindR read_header (\<lambda>h. bindR (ReadArray DecodeTouchFrame) (\<lambda>ts.
     bindR (ReadArray decodeReplayJudgeEvent) (\<lambda>js. returnR (h, ts, js))))"

definition recording_ok :: "inFlight \<Rightarrow> bool" where
  "recording_ok it \<longleftrightarrow> - (2 ^ 31) \<le> if_recordID it \<and> if_recordID it < 2 ^ 31
     \<and> - (2 ^ 63) \<le> if_timestamp it \<and> if_timestamp it < 2 ^ 63
     \<and> - (2 ^ 31) \<le> if_chartID it \<and> if_chartID it < 2 ^ 31 \<and> - (2 ^ 31) \<le> if_userID it \<and> if_userID it < 2 ^ 31
     \<and> string_ok (if_chartName it) \<and> string_ok (if_userName it)
     \<and> array_ok frame_ok_touch (if_touches it) \<and> array_ok (\<lambda>_. True) (if_judges it)"

definition header_of :: "inFlight \<Rightarrow> ReplayHeader" where
  "header_of it = \<lparr>rh_RecordID = if_recordID it, rh_Timestamp = if_timestamp it, rh_ChartID = if_chartID it,
     rh_ChartName = if_chartName it, rh_UserID = if_userID it, rh_UserName = if_userName it\<rparr>"

lemma sint_word_of_int: "- (2 ^ (LENGTH('a) - 1)) \<le> n \<Longrightarrow> n < 2 ^ (LENGTH('a) - 1) \<Longrightarrow> sint (word_of_int n :: 'a::len word) = n"
  by (simp add: signed_of_int signed_take_bit_int_eq_self)

lemma content_roundtrip:
  assumes "recording_ok it"
  shows "DecodePacket (buildContent it) read_header = Inr (header_of it)"
    and "DecodePacket (buildContent it) read_replay = Inr (header_of it, if_touches it, if_judges it)"
proof -
  have ints: "sint (word_of_int (if_recordID it) :: i32) = if_recordID it"
      "sint (word_of_int (if_timestamp it) :: i64) = if_timestamp it"
      "sint (word_of_int (if_chartID it) :: i32) = if_chartID it" "sint (word_of_int (if_userID it) :: i32) = if_userID it"
    using assms by (auto simp: recording_ok_def intro!: sint_word_of_int)
  have texts: "string_ok (if_chartName it)" "string_ok (if_userName it)"
    "array_ok frame_ok_touch (if_touches it)" "array_ok (\<lambda>_. True) (if_judges it)"
    using assms by (auto simp: recording_ok_def)
  show "DecodePacket (buildContent it) read_header = Inr (header_of it)"
    using texts by (simp add: DecodePacket_def buildContent_def write_content_def Let_def read_header_def wire header_of_def ints)
  show "DecodePacket (buildContent it) read_replay = Inr (header_of it, if_touches it, if_judges it)"
    using texts by (simp add: DecodePacket_def buildContent_def write_content_def Let_def read_header_def read_replay_def wire header_of_def ints
      rJudges.decode_encode [where rest = "[]", simplified])
qed

text \<open>The whole file: the bytes that \<open>writeRecordFile\<close> writes, and what a reader of a file gets.\<close>

definition record_file :: "(bytes \<Rightarrow> bytes) \<Rightarrow> inFlight \<Rightarrow> bytes" where
  "record_file deflate it = buildHeader compressionDeflate @ deflate (buildContent it)"

definition read_file :: "(bytes \<Rightarrow> bytes option) \<Rightarrow> (bytes \<Rightarrow> bytes option) \<Rightarrow> bytes
    \<Rightarrow> replay_error + ReplayHeader \<times> TouchFrame list \<times> JudgeEvent list" where
  "read_file inflate unzstd raw =
     (if \<not> isPhiraRecordV2 raw then Inl CompressionUnsupported
      else case decodePayload inflate unzstd raw of
          Inl e \<Rightarrow> Inl e
        | Inr content \<Rightarrow> (case DecodePacket content read_replay of Inl e \<Rightarrow> Inl (Decoding e) | Inr h \<Rightarrow> Inr h))"

lemma record_file_readable:
  assumes "\<And>x. inflate (deflate x) = Some x" and "recording_ok it"
  shows "ReadReplayHeader inflate unzstd (record_file deflate it) = Inr (header_of it)"
    and "read_file inflate unzstd (record_file deflate it) = Inr (header_of it, if_touches it, if_judges it)"
proof -
  have "decodePayload inflate unzstd (record_file deflate it) = Inr (buildContent it)"
    unfolding decodePayload_def record_file_def Let_def buildHeader_valid
    by (simp add: assms(1) compressionDeflate_def compressionNone_def)
  moreover have "isPhiraRecordV2 (record_file deflate it)" unfolding record_file_def by (rule buildHeader_valid)
  ultimately show "ReadReplayHeader inflate unzstd (record_file deflate it) = Inr (header_of it)"
    and "read_file inflate unzstd (record_file deflate it) = Inr (header_of it, if_touches it, if_judges it)"
    by (simp_all add: ReadReplayHeader_def read_file_def content_roundtrip [OF assms(2)])
qed

section \<open>Names\<close>

record ID =
  id_UserID :: int
  id_ChartID :: int
  id_Timestamp :: int

definition ID_String :: "ID \<Rightarrow> string" where
  "ID_String i = Join (CHR '':'') [''v1'', Itoa (id_UserID i), Itoa (id_ChartID i), Itoa (id_Timestamp i)]"

definition ParseID :: "string \<Rightarrow> replay_error + ID" where
  "ParseID raw =
     (let parts = Split (CHR '':'') raw
      in if length parts \<noteq> 4 \<or> parts ! 0 \<noteq> ''v1'' then Inl InvalidID
         else case (Atoi (parts ! 1), Atoi (parts ! 2), Atoi (parts ! 3)) of
             (Some userID, Some chartID, Some ts) \<Rightarrow>
               if userID < 0 \<or> chartID \<le> 0 \<or> ts \<le> 0 then Inl InvalidID
               else Inr \<lparr>id_UserID = userID, id_ChartID = chartID, id_Timestamp = ts\<rparr>
           | _ \<Rightarrow> Inl InvalidID)"

definition FilePath :: "string \<Rightarrow> int \<Rightarrow> int \<Rightarrow> int \<Rightarrow> string \<times> string list" where
  "FilePath baseDir userID chartID ts = (baseDir, [Itoa userID, Itoa chartID, Itoa ts @ ''.phirarec''])"

definition ID_Path :: "string \<Rightarrow> ID \<Rightarrow> replay_error + string \<times> string list" where
  "ID_Path baseDir i = (case ParseID (ID_String i) of Inl e \<Rightarrow> Inl e
     | Inr _ \<Rightarrow> Inr (FilePath baseDir (id_UserID i) (id_ChartID i) (id_Timestamp i)))"

text \<open>The regular expression \<open>^(\\d+)\\.phirarec$\<close> with the \<open>ParseInt\<close> of its group: a number within 64
  bits.\<close>

definition tsName :: "string \<Rightarrow> int option" where
  "tsName name =
     (let n = length name - 9
      in if drop n name = ''.phirarec'' \<and> 9 \<le> length name then
           (case ParseDigits (take n name) of Some k \<Rightarrow> if in_int64 (int k) then Some (int k) else None | None \<Rightarrow> None)
         else None)"

definition isIntName :: "string \<Rightarrow> bool" where
  "isIntName name \<longleftrightarrow> Atoi name \<noteq> None"

lemma Itoa_no_colon: "CHR '':'' \<notin> set (Itoa n)"
proof -
  have "\<not> is_digit (CHR '':'')" by (simp add: is_digit_def)
  then show ?thesis using nat_digits_value(2) by (auto simp: Itoa_def list_all_iff)
qed

text \<open>A reference reads back as itself exactly when it is valid, and a text that is accepted names a
  user, a chart and a time that are numbers: the path it leads to has no other components.\<close>

definition id_valid :: "ID \<Rightarrow> bool" where
  "id_valid i \<longleftrightarrow> 0 \<le> id_UserID i \<and> 0 < id_ChartID i \<and> 0 < id_Timestamp i
     \<and> in_int64 (id_UserID i) \<and> in_int64 (id_ChartID i) \<and> in_int64 (id_Timestamp i)"

lemma ParseID_String: "in_int64 (id_UserID i) \<Longrightarrow> in_int64 (id_ChartID i) \<Longrightarrow> in_int64 (id_Timestamp i) \<Longrightarrow>
    ParseID (ID_String i) = (if id_valid i then Inr i else Inl InvalidID)"
proof -
  assume r: "in_int64 (id_UserID i)" "in_int64 (id_ChartID i)" "in_int64 (id_Timestamp i)"
  have "Split (CHR '':'') (ID_String i) = [''v1'', Itoa (id_UserID i), Itoa (id_ChartID i), Itoa (id_Timestamp i)]"
    unfolding ID_String_def by (rule Split_Join) (auto simp: Itoa_no_colon)
  then show ?thesis using r by (cases i) (auto simp: ParseID_def Atoi_Itoa id_valid_def)
qed

lemma ParseID_valid: "ParseID raw = Inr i \<Longrightarrow> id_valid i"
  by (auto simp: ParseID_def id_valid_def Let_def dest: Atoi_range split: option.splits if_splits)

lemma tsName_FilePath: "0 \<le> ts \<Longrightarrow> in_int64 ts \<Longrightarrow> tsName (Itoa ts @ ''.phirarec'') = Some ts"
  by (simp add: tsName_def Itoa_def)

lemma Itoa_inj: "in_int64 a \<Longrightarrow> in_int64 b \<Longrightarrow> Itoa a = Itoa b \<Longrightarrow> a = b"
  by (rule int_key.keyStr_inj)

end
