(* ===== verification/Replay_Store.thy ===== *)
theory Replay_Store
  imports Replay_Format
begin

text \<open>
  The replay directory, \<open>core/replay/storage.go\<close>, \<open>cleanup.go\<close> and the listing and the deletion of
  \<open>reader.go\<close>, over a tree of directories and files.  The operations of the \<open>os\<close> package are written out
  on the tree: \<open>MkdirAll\<close> fails where a file is in the way, \<open>WriteFile\<close> where the directory is missing,
  \<open>Remove\<close> on what does not exist and on a directory that is not empty.
\<close>

section \<open>The tree\<close>

datatype node = File bytes | Dir "(string \<times> node) list"

type_synonym entries = "(string \<times> node) list"

fun MkdirAll :: "string list \<Rightarrow> entries \<Rightarrow> entries option" where
  "MkdirAll [] es = Some es"
| "MkdirAll (n # ns) es =
     (case map_of es n of
        None \<Rightarrow> map_option (\<lambda>d. AList.update n (Dir d) es) (MkdirAll ns [])
      | Some (Dir d) \<Rightarrow> map_option (\<lambda>d. AList.update n (Dir d) es) (MkdirAll ns d)
      | Some (File b) \<Rightarrow> None)"

fun WriteFile :: "string list \<Rightarrow> bytes \<Rightarrow> entries \<Rightarrow> entries option" where
  "WriteFile [] b es = None"
| "WriteFile [n] b es = (case map_of es n of Some (Dir d) \<Rightarrow> None | _ \<Rightarrow> Some (AList.update n (File b) es))"
| "WriteFile (n # ns) b es =
     (case map_of es n of Some (Dir d) \<Rightarrow> map_option (\<lambda>d. AList.update n (Dir d) es) (WriteFile ns b d) | _ \<Rightarrow> None)"

datatype os_error = NotExist | OtherError

definition Remove_entry :: "string \<Rightarrow> entries \<Rightarrow> os_error + entries" where
  "Remove_entry n es =
     (case map_of es n of
        None \<Rightarrow> Inl NotExist
      | Some (Dir (e # d)) \<Rightarrow> Inl OtherError
      | Some _ \<Rightarrow> Inr (AList.delete n es))"

fun Remove :: "string list \<Rightarrow> entries \<Rightarrow> os_error + entries" where
  "Remove [] es = Inl OtherError"
| "Remove [n] es = Remove_entry n es"
| "Remove (n # ns) es =
     (case map_of es n of
        None \<Rightarrow> Inl NotExist
      | Some (File b) \<Rightarrow> Inl OtherError
      | Some (Dir d) \<Rightarrow> map_sum id (\<lambda>d. AList.update n (Dir d) es) (Remove ns d))"

fun file_at :: "string list \<Rightarrow> entries \<Rightarrow> bytes option" where
  "file_at [] es = None"
| "file_at (n # ns) es =
     (case map_of es n of
        None \<Rightarrow> None
      | Some (File b) \<Rightarrow> if ns = [] then Some b else None
      | Some (Dir d) \<Rightarrow> file_at ns d)"

fun dir_at :: "string list \<Rightarrow> entries \<Rightarrow> entries option" where
  "dir_at [] es = Some es"
| "dir_at (n # ns) es = (case map_of es n of Some (Dir d) \<Rightarrow> dir_at ns d | _ \<Rightarrow> None)"

section \<open>Cleaning up\<close>

text \<open>The conversion to \<open>int64\<close> of the product wraps.\<close>

definition int64 :: "int \<Rightarrow> int" where "int64 n = sint (word_of_int n :: i64)"

definition expired_name :: "int \<Rightarrow> int \<Rightarrow> string \<Rightarrow> bool" where
  "expired_name nowMs ttlMs name =
     (case tsName name of None \<Rightarrow> False | Some ts \<Rightarrow> \<not> (ts \<le> 0 \<or> nowMs - ts \<le> ttlMs))"

definition removeIfEmpty :: "string \<Rightarrow> entries \<Rightarrow> entries" where
  "removeIfEmpty name es = (case map_of es name of Some (Dir []) \<Rightarrow> AList.delete name es | _ \<Rightarrow> es)"

text \<open>The loop over the files of a chart: a file that cannot be removed stays.\<close>

definition cleanup_chart :: "int \<Rightarrow> int \<Rightarrow> entries \<Rightarrow> entries" where
  "cleanup_chart nowMs ttlMs files =
     foldl (\<lambda>d f. if expired_name nowMs ttlMs f then (case Remove_entry f d of Inr d' \<Rightarrow> d' | Inl _ \<Rightarrow> d) else d)
       files (map fst files)"

text \<open>The loop over the directories of one level with numeric names: each is changed, and removed when
  it is empty.\<close>

definition visit_dirs :: "(entries \<Rightarrow> entries) \<Rightarrow> entries \<Rightarrow> entries" where
  "visit_dirs f es =
     foldl (\<lambda>es n. case map_of es n of
         Some (Dir d) \<Rightarrow> if isIntName n then removeIfEmpty n (AList.update n (Dir (f d)) es) else es
       | _ \<Rightarrow> es) es (map fst es)"

definition CleanupExpired :: "int \<Rightarrow> int \<Rightarrow> entries \<Rightarrow> entries" where
  "CleanupExpired nowMs ttlDays es =
     (if ttlDays \<le> 0 then es
      else let ttlMs = int64 (ttlDays * 24 * 60 * 60 * 1000)
        in visit_dirs (visit_dirs (cleanup_chart nowMs ttlMs)) es)"

section \<open>Listing and deleting\<close>

record ReplayEntry =
  re_Timestamp :: int
  re_RecordID :: int

text \<open>The entries of a chart directory, in the order of the directory, before the sort.\<close>

definition chart_entries :: "(bytes \<Rightarrow> bytes option) \<Rightarrow> (bytes \<Rightarrow> bytes option) \<Rightarrow> int \<Rightarrow> int \<Rightarrow> entries \<Rightarrow> entries \<Rightarrow> ReplayEntry list" where
  "chart_entries inflate unzstd userID chartID es files =
     List.map_filter (\<lambda>(n, _). case tsName n of
         None \<Rightarrow> None
       | Some ts \<Rightarrow>
           if ts \<le> 0 then None
           else let recordID = (case file_at (snd (FilePath [] userID chartID ts)) es of
                    None \<Rightarrow> 0
                  | Some raw \<Rightarrow> (case ReadReplayHeader inflate unzstd raw of Inr h \<Rightarrow> rh_RecordID h | Inl _ \<Rightarrow> 0))
             in Some \<lparr>re_Timestamp = ts, re_RecordID = recordID\<rparr>) files"

definition ListReplaysForUser :: "(bytes \<Rightarrow> bytes option) \<Rightarrow> (bytes \<Rightarrow> bytes option) \<Rightarrow> int \<Rightarrow> entries \<Rightarrow> (int \<times> ReplayEntry list) list" where
  "ListReplaysForUser inflate unzstd userID es =
     (case dir_at [Itoa userID] es of
        None \<Rightarrow> []
      | Some charts \<Rightarrow>
          foldl (\<lambda>result (n, node). case node of
              File _ \<Rightarrow> result
            | Dir files \<Rightarrow> (case Atoi n of
                None \<Rightarrow> result
              | Some chartID \<Rightarrow>
                  (case chart_entries inflate unzstd userID chartID es files of
                     [] \<Rightarrow> result
                   | entries \<Rightarrow> AList.update chartID (sort_key (\<lambda>e. - re_Timestamp e) entries) result))) [] charts)"

definition remove_dir_if_empty :: "string list \<Rightarrow> entries \<Rightarrow> entries" where
  "remove_dir_if_empty p es = (case dir_at p es of Some [] \<Rightarrow> (case Remove p es of Inr es' \<Rightarrow> es' | Inl _ \<Rightarrow> es) | _ \<Rightarrow> es)"

definition DeleteReplayForUser :: "int \<Rightarrow> int \<Rightarrow> int \<Rightarrow> entries \<Rightarrow> (os_error + bool) \<times> entries" where
  "DeleteReplayForUser userID chartID ts es =
     (case Remove (snd (FilePath [] userID chartID ts)) es of
        Inl NotExist \<Rightarrow> (Inr False, es)
      | Inl e \<Rightarrow> (Inl e, es)
      | Inr es' \<Rightarrow> (Inr True, remove_dir_if_empty [Itoa userID] (remove_dir_if_empty [Itoa userID, Itoa chartID] es')))"

section \<open>What the operations change\<close>

lemmas file_at_Cons = file_at.simps(2)
declare file_at_Cons [simp del]

lemma file_at_empty [simp]: "file_at q [] = None"
  by (cases q) (simp_all add: file_at_Cons)

lemma file_at_update: "file_at (m # q) (AList.update n (Dir d) es) = (if m = n then file_at q d else file_at (m # q) es)"
  by (simp add: file_at_Cons update_conv')

lemma MkdirAll_files: "MkdirAll p es = Some es' \<Longrightarrow> file_at q es' = file_at q es"
proof (induction p es arbitrary: es' q rule: MkdirAll.induct)
  case (2 n ns es)
  show ?case
  proof (cases q)
    case (Cons m q')
    show ?thesis
    proof (cases "map_of es n")
      case None
      then obtain d where d: "MkdirAll ns [] = Some d" "es' = AList.update n (Dir d) es" using "2.prems" by auto
      have "file_at q' d = file_at q' []" using "2.IH"(1) [OF None d(1)] .
      then show ?thesis using None by (simp add: Cons d(2) file_at_Cons update_conv')
    next
      case (Some x)
      then obtain d0 d where d: "x = Dir d0" "MkdirAll ns d0 = Some d" "es' = AList.update n (Dir d) es"
        using "2.prems" by (cases x) auto
      have "file_at q' d = file_at q' d0" using "2.IH"(2) Some d by blast
      then show ?thesis using Some d by (simp add: Cons file_at_Cons update_conv')
    qed
  qed simp
qed simp

lemma WriteFile_files: "WriteFile p b es = Some es' \<Longrightarrow> file_at q es' = (if q = p then Some b else file_at q es)"
proof (induction p b es arbitrary: es' q rule: WriteFile.induct)
  case (2 n b es)
  then have "es' = AList.update n (File b) es" "\<And>d. map_of es n \<noteq> Some (Dir d)" by (auto split: option.splits node.splits)
  then show ?case by (cases q) (auto simp: file_at_Cons update_conv' split: option.splits node.splits)
next
  case (3 n m ns b es)
  then obtain d d' where d: "map_of es n = Some (Dir d)" "WriteFile (m # ns) b d = Some d'" "es' = AList.update n (Dir d') es"
    by (auto split: option.splits node.splits)
  have "file_at q' d' = (if q' = m # ns then Some b else file_at q' d)" for q' using "3.IH" d by blast
  then show ?case using d by (cases q) (auto simp: file_at_Cons update_conv')
qed simp

lemma Remove_entry_files:
  assumes "Remove_entry n es = Inr es'"
  shows "file_at q es' = (if q = [n] then None else file_at q es)"
proof -
  have es': "es' = AList.delete n es" "\<And>e d. map_of es n \<noteq> Some (Dir (e # d))"
    using assms by (auto simp: Remove_entry_def split: option.splits node.splits list.splits)
  show ?thesis
  proof (cases q)
    case (Cons m q')
    show ?thesis
    proof (cases "m = n")
      case True
      have "d = []" if "map_of es n = Some (Dir d)" for d using es'(2) that by (cases d) auto
      then show ?thesis by (cases "map_of es n") (auto simp: Cons True es'(1) file_at_Cons delete_conv' split: node.splits)
    qed (simp add: Cons es'(1) file_at_Cons delete_conv')
  qed simp
qed

lemma map_sum_Inr: "map_sum f g x = Inr y \<Longrightarrow> (\<And>z. x = Inr z \<Longrightarrow> y = g z \<Longrightarrow> R) \<Longrightarrow> R"
  by (cases x) auto

lemma Remove_files: "Remove p es = Inr es' \<Longrightarrow> file_at q es' = (if q = p then None else file_at q es)"
proof (induction p es arbitrary: es' q rule: Remove.induct)
  case (2 n es)
  then show ?case using Remove_entry_files by simp
next
  case (3 n m ns es)
  then obtain d d' where d: "map_of es n = Some (Dir d)" "Remove (m # ns) d = Inr d'" "es' = AList.update n (Dir d') es"
    by (cases "map_of es n"; cases "the (map_of es n)") (auto elim!: map_sum_Inr)
  have "file_at q' d' = (if q' = m # ns then None else file_at q' d)" for q' using "3.IH" d by blast
  then show ?case using d by (cases q) (auto simp: file_at_Cons update_conv')
qed simp

lemma removeIfEmpty_files: "file_at q (removeIfEmpty n es) = file_at q es"
proof (cases "map_of es n = Some (Dir [])")
  case True
  then show ?thesis by (cases q) (auto simp: removeIfEmpty_def file_at_Cons delete_conv')
qed (auto simp: removeIfEmpty_def split: option.splits node.splits list.splits)

section \<open>The files that are cleaned up\<close>

lemma cleanup_loop:
  "file_at q (foldl (\<lambda>d f. if expired_name nowMs ttlMs f then (case Remove_entry f d of Inr d' \<Rightarrow> d' | Inl _ \<Rightarrow> d) else d) d ns)
    = (if \<exists>n \<in> set ns. expired_name nowMs ttlMs n \<and> q = [n] then None else file_at q d)"
proof (induction ns arbitrary: d)
  case (Cons n ns)
  let ?d = "if expired_name nowMs ttlMs n then (case Remove_entry n d of Inr d' \<Rightarrow> d' | Inl _ \<Rightarrow> d) else d"
  have "file_at q ?d = (if expired_name nowMs ttlMs n \<and> q = [n] then None else file_at q d)"
  proof (cases "Remove_entry n d")
    case (Inl e)
    then have "file_at [n] d = None" by (auto simp: file_at_Cons Remove_entry_def split: option.splits node.splits list.splits)
    then show ?thesis using Inl by simp
  next
    case (Inr d')
    then show ?thesis using Remove_entry_files [OF Inr] by auto
  qed
  then show ?case using Cons [of ?d] by auto
qed simp

lemma file_at_absent: "n \<notin> set (map fst es) \<Longrightarrow> file_at (n # q) es = None"
  using map_of_eq_None_iff [of es n] by (simp add: file_at_Cons)

lemma cleanup_chart_files:
  "file_at q (cleanup_chart nowMs ttlMs files) = (if \<exists>n. q = [n] \<and> expired_name nowMs ttlMs n then None else file_at q files)"
proof (cases "\<exists>n. q = [n] \<and> n \<notin> set (map fst files)")
  case True
  then show ?thesis unfolding cleanup_chart_def cleanup_loop using file_at_absent by auto
next
  case False
  then show ?thesis unfolding cleanup_chart_def cleanup_loop by auto
qed

lemma visit_dirs_files:
  assumes F: "\<And>d q. file_at q (F d) = (if P q then None else file_at q d)" and top: "\<not> P []"
  shows "file_at p (visit_dirs F es) = (if \<exists>n q. p = n # q \<and> isIntName n \<and> P q then None else file_at p es)"
proof -
  let ?step = "\<lambda>es n. case map_of es n of
         Some (Dir d) \<Rightarrow> if isIntName n then removeIfEmpty n (AList.update n (Dir (F d)) es) else es
       | _ \<Rightarrow> es"
  have step: "file_at p (?step es n) = (if \<exists>q. p = n # q \<and> isIntName n \<and> P q then None else file_at p es)" for es n
  proof (cases "\<exists>d. map_of es n = Some (Dir d) \<and> isIntName n")
    case True
    then obtain d where d: "map_of es n = Some (Dir d)" "isIntName n" by blast
    then show ?thesis using F by (cases p) (auto simp: removeIfEmpty_files file_at_Cons update_conv')
  next
    case False
    then have same: "?step es n = es" by (auto split: option.splits node.splits)
    have "file_at p es = None" if "p = n # q" "isIntName n" "P q" for q
      using that False top by (cases "map_of es n") (auto simp: file_at_Cons split: node.splits)
    then show ?thesis unfolding same by auto
  qed
  have "file_at p (foldl ?step es ns) = (if \<exists>n q. n \<in> set ns \<and> p = n # q \<and> isIntName n \<and> P q then None else file_at p es)" for ns
  proof (induction ns arbitrary: es)
    case (Cons n ns)
    show ?case unfolding foldl_Cons Cons [of "?step es n"] step by auto
  qed simp
  then have loop: "file_at p (visit_dirs F es) =
      (if \<exists>n q. n \<in> set (map fst es) \<and> p = n # q \<and> isIntName n \<and> P q then None else file_at p es)"
    unfolding visit_dirs_def .
  show ?thesis
  proof (cases "\<exists>n q. p = n # q \<and> n \<notin> set (map fst es)")
    case True
    then show ?thesis unfolding loop using file_at_absent by auto
  next
    case False
    then show ?thesis unfolding loop by auto
  qed
qed

text \<open>A clean-up of the replay directory removes exactly the recordings that are too old: the
  files \<open><user>/<chart>/<ts>.phirarec\<close> with numbers for names whose time lies more than the given days
  back.  Every other file, at whatever place in the tree, stays with its content.\<close>

theorem cleanup_removes_expired:
  assumes "0 < ttlDays" and "ttlDays < 10 ^ 11"
  shows "file_at p (CleanupExpired nowMs ttlDays es) =
    (case p of
       [u, c, n] \<Rightarrow> (case tsName n of
           Some ts \<Rightarrow> if isIntName u \<and> isIntName c \<and> 0 < ts \<and> ttlDays * 86400000 < nowMs - ts then None else file_at p es
         | None \<Rightarrow> file_at p es)
     | _ \<Rightarrow> file_at p es)"
proof -
  let ?ttl = "ttlDays * 86400000"
  have ttl: "int64 (ttlDays * 24 * 60 * 60 * 1000) = ?ttl"
    using assms unfolding int64_def by (subst sint_word_of_int) (simp_all add: algebra_simps)
  let ?P = "\<lambda>q. \<exists>n. q = [n] \<and> expired_name nowMs ?ttl n"
  let ?Q = "\<lambda>p. \<exists>n q. p = n # q \<and> isIntName n \<and> ?P q"
  have chart: "file_at q (visit_dirs (cleanup_chart nowMs ?ttl) d) = (if ?Q q then None else file_at q d)" for d q
    by (rule visit_dirs_files) (simp_all add: cleanup_chart_files)
  have "file_at p (visit_dirs (visit_dirs (cleanup_chart nowMs ?ttl)) es) =
      (if \<exists>n q. p = n # q \<and> isIntName n \<and> ?Q q then None else file_at p es)"
    by (rule visit_dirs_files [where P = ?Q]) (simp_all add: chart)
  moreover have "CleanupExpired nowMs ttlDays es = visit_dirs (visit_dirs (cleanup_chart nowMs ?ttl)) es"
    using assms(1) unfolding CleanupExpired_def Let_def ttl by simp
  ultimately have "file_at p (CleanupExpired nowMs ttlDays es) =
      (if \<exists>u c n. p = [u, c, n] \<and> isIntName u \<and> isIntName c \<and> expired_name nowMs ?ttl n then None else file_at p es)"
    by auto
  then show ?thesis by (auto simp: expired_name_def split: list.splits option.splits if_splits)
qed

definition old_tree :: entries where
  "old_tree = [(''7'', Dir [(''42'', Dir [(''1000.phirarec'', File [1]), (''90000000.phirarec'', File [2])])]),
    (''notes'', File [3])]"

theorem cleanup_removes_expired_witness:
  "file_at [''7'', ''42'', ''1000.phirarec''] (CleanupExpired 100000000 1 old_tree) = None
    \<and> file_at [''7'', ''42'', ''90000000.phirarec''] (CleanupExpired 100000000 1 old_tree) = Some [2]
    \<and> file_at [''notes''] (CleanupExpired 100000000 1 old_tree) = Some [3]"
proof -
  have names: "tsName ''1000.phirarec'' = Some 1000" "tsName ''90000000.phirarec'' = Some 90000000" "isIntName ''7''" "isIntName ''42''"
    by (simp_all add: tsName_def ParseDigits_def is_digit_def digits_val_def digit_val_def in_int64_def isIntName_def Atoi_def)
  show ?thesis
    using cleanup_removes_expired [of 1 "[''7'', ''42'', ''1000.phirarec'']" 100000000 old_tree]
      cleanup_removes_expired [of 1 "[''7'', ''42'', ''90000000.phirarec'']" 100000000 old_tree]
      cleanup_removes_expired [of 1 "[''notes'']" 100000000 old_tree]
    by (simp add: names old_tree_def file_at_Cons)
qed

end
