(* ===== verification/Replay_Recorder.thy ===== *)
theory Replay_Recorder
  imports Replay_Store
begin

text \<open>
  The recorder of games, \<open>core/replay/recorder.go\<close>: its tables of running and completed recordings, the
  operations that the hub calls, and the writing of the files when a game ends.  A file system maps a
  root directory to its tree.  A set of keys is a list without duplicates; the iteration over it takes
  an order.  What is logged is not recorded, except for the flag that an overflow was reported.
\<close>

section \<open>The recorder\<close>

definition maxFramesPerInflight :: nat where "maxFramesPerInflight = 15000"
definition fake_monitor_id :: i32 where "fake_monitor_id = 2000000000"

record Participant =
  pt_ID :: int
  pt_Name :: string

record FileInfo =
  fi_UserID :: int
  fi_ChartID :: int
  fi_Timestamp :: int
  fi_Path :: "string \<times> string list"

definition info :: "inFlight \<Rightarrow> FileInfo" where
  "info it = \<lparr>fi_UserID = if_userID it, fi_ChartID = if_chartID it, fi_Timestamp = if_timestamp it, fi_Path = if_path it\<rparr>"

definition IDFromFile :: "FileInfo \<Rightarrow> ID" where
  "IDFromFile f = \<lparr>id_UserID = fi_UserID f, id_ChartID = fi_ChartID f, id_Timestamp = fi_Timestamp f\<rparr>"

record Recorder =
  baseDir :: string
  fakeMonitorID :: i32
  inflight :: "(string \<times> inFlight) list"
  keysByRoom :: "(string \<times> string list) list"
  completed :: "(string \<times> FileInfo list) list"
  systemUserID :: i32
  systemUserName :: "string option"

text \<open>\<open>WithSystemUser\<close> counts only with a positive id and a fetcher.\<close>

definition NewRecorder :: "string \<Rightarrow> (i32 \<times> bool) option \<Rightarrow> Recorder" where
  "NewRecorder dir systemUser =
     \<lparr>baseDir = dir, fakeMonitorID = fake_monitor_id, inflight = [], keysByRoom = [], completed = [],
      systemUserID = (case systemUser of Some (n, hasFetcher) \<Rightarrow> if sint n > 0 \<and> hasFetcher then n else 0 | None \<Rightarrow> 0),
      systemUserName = None\<rparr>"

text \<open>A round of \<open>refreshSystemUserName\<close>: the delay until the next one, in seconds.\<close>

definition refresh_round :: "string option \<Rightarrow> Recorder \<Rightarrow> nat \<times> Recorder" where
  "refresh_round fetched r = (case fetched of None \<Rightarrow> (30, r) | Some n \<Rightarrow> (6 * 60 * 60, r\<lparr>systemUserName := Some n\<rparr>))"

definition FakeMonitorInfo :: "string \<Rightarrow> Recorder \<Rightarrow> UserInfo" where
  "FakeMonitorInfo fallbackName r =
     (if sint (systemUserID r) > 0 then
        \<lparr>ui_ID = systemUserID r, ui_Name = (case systemUserName r of Some n \<Rightarrow> n | None \<Rightarrow> fallbackName), ui_Monitor = True\<rparr>
      else \<lparr>ui_ID = fakeMonitorID r, ui_Name = fallbackName, ui_Monitor = True\<rparr>)"

definition rkey :: "string \<Rightarrow> int \<Rightarrow> string" where
  "rkey roomKey userID = roomKey @ CHR '':'' # Itoa userID"

definition SetBaseDir :: "string \<Rightarrow> Recorder \<Rightarrow> Recorder" where
  "SetBaseDir dir r = r\<lparr>baseDir := dir\<rparr>"

definition start_player :: "int \<Rightarrow> string \<Rightarrow> int \<Rightarrow> string \<Rightarrow> Participant \<Rightarrow> Recorder \<times> string list \<Rightarrow> Recorder \<times> string list" where
  "start_player now roomKey chartID chartName p rk =
     (case rk of (r, keys) \<Rightarrow>
        if pt_ID p < 0 then (r, keys)
        else let k = rkey roomKey (pt_ID p)
          in (r\<lparr>inflight := AList.update k
                 \<lparr>if_roomKey = roomKey, if_userID = pt_ID p, if_userName = pt_Name p, if_chartID = chartID,
                  if_chartName = chartName, if_timestamp = now, if_recordID = 0,
                  if_path = FilePath (baseDir r) (pt_ID p) chartID now, if_touches = [], if_judges = [], if_overflow = False\<rparr>
                 (inflight r)\<rparr>, List.insert k keys))"

definition StartRoom :: "int \<Rightarrow> string \<Rightarrow> int \<Rightarrow> string \<Rightarrow> Participant list \<Rightarrow> Recorder \<Rightarrow> Recorder" where
  "StartRoom now roomKey chartID chartName users r =
     (if (case map_of (keysByRoom r) roomKey of Some (k # ks) \<Rightarrow> True | _ \<Rightarrow> False) then r
      else case fold (start_player now roomKey chartID chartName) users (r\<lparr>completed := AList.delete roomKey (completed r)\<rparr>, []) of
          (r, keys) \<Rightarrow> if keys \<noteq> [] then r\<lparr>keysByRoom := AList.update roomKey keys (keysByRoom r)\<rparr> else r)"

section \<open>Recording\<close>

definition warnOverflow :: "inFlight \<Rightarrow> inFlight" where
  "warnOverflow it = it\<lparr>if_overflow := True\<rparr>"

definition with_recording :: "string \<Rightarrow> int \<Rightarrow> (inFlight \<Rightarrow> inFlight) \<Rightarrow> Recorder \<Rightarrow> Recorder" where
  "with_recording roomKey userID f r =
     (case map_of (inflight r) (rkey roomKey userID) of
        None \<Rightarrow> r
      | Some it \<Rightarrow> r\<lparr>inflight := AList.update (rkey roomKey userID) (f it) (inflight r)\<rparr>)"

definition push_touches :: "TouchFrame list \<Rightarrow> inFlight \<Rightarrow> inFlight" where
  "push_touches frames it =
     (let remaining = int maxFramesPerInflight - int (length (if_touches it))
      in if remaining \<le> 0 then warnOverflow it
         else it\<lparr>if_touches := if_touches it @ take (min (length frames) (nat remaining)) frames\<rparr>)"

definition AppendTouches :: "string \<Rightarrow> int \<Rightarrow> TouchFrame list \<Rightarrow> Recorder \<Rightarrow> Recorder" where
  "AppendTouches roomKey userID frames = with_recording roomKey userID (push_touches frames)"

definition push_judges :: "JudgeEvent list \<Rightarrow> inFlight \<Rightarrow> inFlight" where
  "push_judges judges it =
     (let remaining = int maxFramesPerInflight - int (length (if_judges it))
      in if remaining \<le> 0 then warnOverflow it
         else it\<lparr>if_judges := if_judges it @ take (min (length judges) (nat remaining)) judges\<rparr>)"

definition AppendJudges :: "string \<Rightarrow> int \<Rightarrow> JudgeEvent list \<Rightarrow> Recorder \<Rightarrow> Recorder" where
  "AppendJudges roomKey userID judges = with_recording roomKey userID (push_judges judges)"

definition SetRecordID :: "string \<Rightarrow> int \<Rightarrow> int \<Rightarrow> Recorder \<Rightarrow> Recorder" where
  "SetRecordID roomKey userID recordID = with_recording roomKey userID (\<lambda>it. it\<lparr>if_recordID := recordID\<rparr>)"

section \<open>Writing the files\<close>

type_synonym file_system = "string \<Rightarrow> entries option"

definition file_in :: "file_system \<Rightarrow> string \<times> string list \<Rightarrow> bytes option" where
  "file_in fs p = (case fs (fst p) of None \<Rightarrow> None | Some es \<Rightarrow> file_at (snd p) es)"

definition ensureDir :: "string \<Rightarrow> int \<Rightarrow> int \<Rightarrow> file_system \<Rightarrow> bool \<times> file_system" where
  "ensureDir base userID chartID fs =
     (case MkdirAll [Itoa userID, Itoa chartID] (case fs base of Some es \<Rightarrow> es | None \<Rightarrow> []) of
        None \<Rightarrow> (False, fs)
      | Some es \<Rightarrow> (True, fs(base \<mapsto> es)))"

definition writeRecordFile :: "(bytes \<Rightarrow> bytes) \<Rightarrow> string \<Rightarrow> inFlight \<Rightarrow> file_system \<Rightarrow> bool \<times> file_system" where
  "writeRecordFile deflate base it fs =
     (case ensureDir base (if_userID it) (if_chartID it) fs of
        (False, fs) \<Rightarrow> (False, fs)
      | (True, fs) \<Rightarrow>
          let out = buildHeader compressionDeflate @ deflate (buildContent it)
          in (case fs (fst (if_path it)) of
                None \<Rightarrow> (False, fs)
              | Some es \<Rightarrow> (case WriteFile (snd (if_path it)) out es of
                  None \<Rightarrow> (False, fs)
                | Some es \<Rightarrow> (True, fs(fst (if_path it) \<mapsto> es)))))"

definition write_snapshot :: "(bytes \<Rightarrow> bytes) \<Rightarrow> string \<Rightarrow> inFlight \<Rightarrow> FileInfo list \<times> file_system \<Rightarrow> FileInfo list \<times> file_system" where
  "write_snapshot deflate base it cf =
     (case cf of (infos, fs) \<Rightarrow>
        case writeRecordFile deflate base it fs of
          (True, fs) \<Rightarrow> (infos @ [info it], fs)
        | (False, fs) \<Rightarrow> (infos, fs))"

definition EndRoom :: "(bytes \<Rightarrow> bytes) \<Rightarrow> (string list \<Rightarrow> string list) \<Rightarrow> string \<Rightarrow> Recorder \<times> file_system \<Rightarrow> Recorder \<times> file_system" where
  "EndRoom deflate order roomKey rf =
     (case rf of (r, fs) \<Rightarrow>
        let keys = order (case map_of (keysByRoom r) roomKey of Some ks \<Rightarrow> ks | None \<Rightarrow> []);
            snapshots = List.map_filter (map_of (inflight r)) keys;
            r = r\<lparr>keysByRoom := AList.delete roomKey (keysByRoom r), inflight := fold AList.delete keys (inflight r)\<rparr>
        in (case fold (write_snapshot deflate (baseDir r)) snapshots ([], fs) of
              (infos, fs) \<Rightarrow>
                (if infos \<noteq> [] then r\<lparr>completed := AList.update roomKey infos (completed r)\<rparr> else r, fs)))"

definition CloseAll :: "(bytes \<Rightarrow> bytes) \<Rightarrow> (string list \<Rightarrow> string list) \<Rightarrow> Recorder \<times> file_system \<Rightarrow> Recorder \<times> file_system" where
  "CloseAll deflate order rf = fold (EndRoom deflate order) (order (map fst (keysByRoom (fst rf)))) rf"

definition ListRoomFiles :: "(string list \<Rightarrow> string list) \<Rightarrow> string \<Rightarrow> Recorder \<Rightarrow> FileInfo list" where
  "ListRoomFiles order roomKey r =
     (case map_of (keysByRoom r) roomKey of
        None \<Rightarrow> (case map_of (completed r) roomKey of Some fs \<Rightarrow> fs | None \<Rightarrow> [])
      | Some keys \<Rightarrow> map info (List.map_filter (map_of (inflight r)) (order keys)))"

definition ClearRoomFiles :: "string \<Rightarrow> Recorder \<Rightarrow> Recorder" where
  "ClearRoomFiles roomKey r = r\<lparr>completed := AList.delete roomKey (completed r)\<rparr>"

definition recorder_CleanupExpired :: "int \<Rightarrow> int \<Rightarrow> Recorder \<Rightarrow> file_system \<Rightarrow> file_system" where
  "recorder_CleanupExpired nowMs ttlDays r fs =
     (case fs (baseDir r) of None \<Rightarrow> fs | Some es \<Rightarrow> fs(baseDir r \<mapsto> CleanupExpired nowMs ttlDays es))"

section \<open>Keys and paths\<close>

lemma Itoa_injective: "Itoa a = Itoa b \<Longrightarrow> a = b"
proof -
  have inj: "nat_digits m = nat_digits n \<Longrightarrow> m = n" for m n using nat_digits_value(1) by metis
  have head: "CHR ''-'' # s \<noteq> nat_digits n" for s n using nat_digits_head(1) [of n] by (metis list.sel(1))
  assume "Itoa a = Itoa b"
  then have "(a < 0) = (b < 0) \<and> (a < 0 \<and> nat (- a) = nat (- b) \<or> \<not> a < 0 \<and> nat a = nat b)"
    using head inj head [THEN not_sym] by (auto simp: Itoa_def split: if_splits)
  then show ?thesis by auto
qed

lemma last_colon: "a @ CHR '':'' # s = b @ CHR '':'' # t \<Longrightarrow> CHR '':'' \<notin> set s \<Longrightarrow> CHR '':'' \<notin> set t \<Longrightarrow> a = b \<and> s = t"
proof (induction a arbitrary: b)
  case Nil
  then show ?case by (cases b) auto
next
  case (Cons x a)
  then show ?case by (cases b) auto
qed

lemma rkey_eq [simp]: "rkey a u = rkey b v \<longleftrightarrow> a = b \<and> u = v"
  unfolding rkey_def using last_colon [OF _ Itoa_no_colon Itoa_no_colon] Itoa_injective by blast

text \<open>Every running recording stands under its key and writes to a path of its user; the keys of a room
  are keys of that room.\<close>

definition entry_ok :: "string \<Rightarrow> inFlight \<Rightarrow> bool" where
  "entry_ok k it \<longleftrightarrow> k = rkey (if_roomKey it) (if_userID it) \<and> (\<exists>b c n. if_path it = (b, [Itoa (if_userID it), c, n]))"

definition keys_ok :: "string \<Rightarrow> string list \<Rightarrow> bool" where
  "keys_ok rm ks \<longleftrightarrow> distinct ks \<and> (\<forall>k \<in> set ks. \<exists>u. k = rkey rm u)"

definition recorder_inv :: "Recorder \<Rightarrow> bool" where
  "recorder_inv r \<longleftrightarrow> (\<forall>k it. map_of (inflight r) k = Some it \<longrightarrow> entry_ok k it)
     \<and> (\<forall>rm ks. map_of (keysByRoom r) rm = Some ks \<longrightarrow> keys_ok rm ks)"

lemma recorder_invD:
  assumes "recorder_inv r"
  shows inv_entry: "map_of (inflight r) k = Some it \<Longrightarrow> entry_ok k it"
    and inv_keys: "map_of (keysByRoom r) rm = Some ks \<Longrightarrow> keys_ok rm ks"
  using assms unfolding recorder_inv_def by blast+

lemma recorder_inv_entry: "recorder_inv r \<Longrightarrow> entry_ok k it \<Longrightarrow> recorder_inv (r\<lparr>inflight := AList.update k it (inflight r)\<rparr>)"
  by (simp add: recorder_inv_def update_conv')

lemma recorder_inv_keys: "recorder_inv r \<Longrightarrow> keys_ok rm ks \<Longrightarrow> recorder_inv (r\<lparr>keysByRoom := AList.update rm ks (keysByRoom r)\<rparr>)"
  by (simp add: recorder_inv_def update_conv')

lemma recorder_inv_with:
  assumes "recorder_inv r" and f: "\<And>it. if_roomKey (f it) = if_roomKey it \<and> if_userID (f it) = if_userID it \<and> if_path (f it) = if_path it"
  shows "recorder_inv (with_recording rm u f r)"
proof (cases "map_of (inflight r) (rkey rm u)")
  case (Some it)
  have "entry_ok (rkey rm u) (f it)" using inv_entry [OF assms(1) Some] f [of it] by (simp add: entry_ok_def)
  then show ?thesis using recorder_inv_entry [OF assms(1)] by (simp add: with_recording_def Some)
qed (simp add: with_recording_def assms)

lemma recorder_inv_frame [simp]: "recorder_inv (r\<lparr>completed := c\<rparr>) = recorder_inv r" "recorder_inv (r\<lparr>baseDir := d\<rparr>) = recorder_inv r"
  by (simp_all add: recorder_inv_def)

lemma start_players:
  assumes "fold (start_player now rm c cn) users (r, ks) = (r', ks')"
  shows "keysByRoom r' = keysByRoom r" "completed r' = completed r" "baseDir r' = baseDir r"
    and "recorder_inv r \<Longrightarrow> recorder_inv r'" and "distinct ks \<Longrightarrow> distinct ks'"
    and "\<forall>k \<in> set ks. \<exists>u. k = rkey rm u \<Longrightarrow> \<forall>k \<in> set ks'. \<exists>u. k = rkey rm u"
    and "set ks' = set ks \<union> (\<lambda>p. rkey rm (pt_ID p)) ` {p \<in> set users. 0 \<le> pt_ID p}"
    and "rm' \<noteq> rm \<Longrightarrow> map_of (inflight r') (rkey rm' u) = map_of (inflight r) (rkey rm' u)"
proof -
  have "keysByRoom r' = keysByRoom r \<and> completed r' = completed r \<and> baseDir r' = baseDir r
      \<and> (recorder_inv r \<longrightarrow> recorder_inv r') \<and> (distinct ks \<longrightarrow> distinct ks')
      \<and> ((\<forall>k \<in> set ks. \<exists>u. k = rkey rm u) \<longrightarrow> (\<forall>k \<in> set ks'. \<exists>u. k = rkey rm u))
      \<and> set ks' = set ks \<union> (\<lambda>p. rkey rm (pt_ID p)) ` {p \<in> set users. 0 \<le> pt_ID p}
      \<and> (rm' \<noteq> rm \<longrightarrow> map_of (inflight r') (rkey rm' u) = map_of (inflight r) (rkey rm' u))"
    using assms
  proof (induction users arbitrary: r ks)
    case (Cons p users)
    obtain r1 ks1 where s: "start_player now rm c cn p (r, ks) = (r1, ks1)" by fastforce
    have one: "keysByRoom r1 = keysByRoom r" "completed r1 = completed r" "baseDir r1 = baseDir r" "distinct ks \<longrightarrow> distinct ks1"
        "set ks1 = set ks \<union> (if 0 \<le> pt_ID p then {rkey rm (pt_ID p)} else {})"
        "rm' \<noteq> rm \<longrightarrow> map_of (inflight r1) (rkey rm' u) = map_of (inflight r) (rkey rm' u)"
      using s by (auto simp: start_player_def Let_def update_conv' split: if_splits)
    have inv: "recorder_inv r \<longrightarrow> recorder_inv r1"
      using s by (auto simp: start_player_def Let_def FilePath_def entry_ok_def intro!: recorder_inv_entry split: if_splits)
    have "fold (start_player now rm c cn) users (r1, ks1) = (r', ks')" using Cons.prems by (simp add: s)
    from Cons.IH [OF this] show ?case using one inv by auto
  qed auto
  then show "keysByRoom r' = keysByRoom r" "completed r' = completed r" "baseDir r' = baseDir r"
    "recorder_inv r \<Longrightarrow> recorder_inv r'" "distinct ks \<Longrightarrow> distinct ks'"
    "\<forall>k \<in> set ks. \<exists>u. k = rkey rm u \<Longrightarrow> \<forall>k \<in> set ks'. \<exists>u. k = rkey rm u"
    "set ks' = set ks \<union> (\<lambda>p. rkey rm (pt_ID p)) ` {p \<in> set users. 0 \<le> pt_ID p}"
    "rm' \<noteq> rm \<Longrightarrow> map_of (inflight r') (rkey rm' u) = map_of (inflight r) (rkey rm' u)"
    by blast+
qed

definition recording_room :: "Recorder \<Rightarrow> string \<Rightarrow> bool" where
  "recording_room r rm \<longleftrightarrow> (case map_of (keysByRoom r) rm of Some (k # ks) \<Rightarrow> True | _ \<Rightarrow> False)"

lemma StartRoom_skip: "recording_room r rm \<Longrightarrow> StartRoom now rm c cn users r = r"
  by (simp add: StartRoom_def recording_room_def)

lemma recorder_inv_StartRoom:
  assumes "recorder_inv r"
  shows "recorder_inv (StartRoom now rm c cn users r)"
proof (cases "recording_room r rm")
  case False
  obtain r' ks where f: "fold (start_player now rm c cn) users (r\<lparr>completed := AList.delete rm (completed r)\<rparr>, []) = (r', ks)" by fastforce
  have "recorder_inv r'" "keys_ok rm ks"
    using start_players(4-6) [OF f] assms by (simp_all add: keys_ok_def)
  then have "recorder_inv (r'\<lparr>keysByRoom := AList.update rm ks (keysByRoom r')\<rparr>)" by (rule recorder_inv_keys)
  then show ?thesis using False \<open>recorder_inv r'\<close> by (simp add: StartRoom_def recording_room_def f)
qed (simp add: StartRoom_skip assms)

section \<open>The files that are written\<close>

lemma ensureDir_files: "ensureDir base u c fs = (b, fs') \<Longrightarrow> file_in fs' q = file_in fs q"
proof -
  assume a: "ensureDir base u c fs = (b, fs')"
  show ?thesis
  proof (cases "MkdirAll [Itoa u, Itoa c] (case fs base of Some es \<Rightarrow> es | None \<Rightarrow> [])")
    case None
    then show ?thesis using a by (simp add: ensureDir_def del: MkdirAll.simps)
  next
    case (Some es)
    then have fs': "fs' = fs(base \<mapsto> es)" using a by (simp add: ensureDir_def del: MkdirAll.simps)
    have "file_at p es = file_at p (case fs base of Some es \<Rightarrow> es | None \<Rightarrow> [])" for p
      using Some by (rule MkdirAll_files)
    then show ?thesis by (auto simp: fs' file_in_def split: option.splits)
  qed
qed

lemma writeRecordFile_files:
  "writeRecordFile deflate base it fs = (b, fs') \<Longrightarrow>
     file_in fs' q = (if b \<and> q = if_path it then Some (record_file deflate it) else file_in fs q)"
proof -
  assume w: "writeRecordFile deflate base it fs = (b, fs')"
  obtain d fs1 where e: "ensureDir base (if_userID it) (if_chartID it) fs = (d, fs1)" by fastforce
  note keep = ensureDir_files [OF e]
  show ?thesis
  proof (cases b)
    case False
    then show ?thesis using w e keep by (auto simp: writeRecordFile_def Let_def split: bool.splits option.splits)
  next
    case True
    then obtain es es' where es: "fs1 (fst (if_path it)) = Some es" "WriteFile (snd (if_path it)) (record_file deflate it) es = Some es'"
        "fs' = fs1(fst (if_path it) \<mapsto> es')"
      using w e by (auto simp: writeRecordFile_def record_file_def Let_def split: bool.splits option.splits)
    have "file_in fs' q = (if q = if_path it then Some (record_file deflate it) else file_in fs1 q)"
      using WriteFile_files [OF es(2)] es(1) by (auto simp: file_in_def es(3) prod_eq_iff)
    then show ?thesis using keep True by simp
  qed
qed

text \<open>The recordings of a game have different paths, so that no file replaces another: what is listed
  as completed is on the disk.\<close>

lemma write_snapshots:
  assumes "fold (write_snapshot deflate base) its (infos0, fs) = (infos, fs')" and "distinct (map if_path its)"
  shows "\<forall>it \<in> set its. info it \<in> set infos - set infos0 \<longrightarrow> file_in fs' (if_path it) = Some (record_file deflate it)"
    and "\<forall>q. q \<notin> if_path ` set its \<longrightarrow> file_in fs' q = file_in fs q"
    and "set infos \<subseteq> set infos0 \<union> info ` set its"
proof -
  have "(\<forall>it \<in> set its. info it \<in> set infos - set infos0 \<longrightarrow> file_in fs' (if_path it) = Some (record_file deflate it))
     \<and> (\<forall>q. q \<notin> if_path ` set its \<longrightarrow> file_in fs' q = file_in fs q) \<and> set infos \<subseteq> set infos0 \<union> info ` set its"
    using assms
  proof (induction its arbitrary: infos0 fs)
    case (Cons it its)
    obtain b fs1 where w: "writeRecordFile deflate base it fs = (b, fs1)" by fastforce
    let ?infos1 = "if b then infos0 @ [info it] else infos0"
    have "write_snapshot deflate base it (infos0, fs) = (?infos1, fs1)" by (cases b) (simp_all add: write_snapshot_def w)
    then have rest: "fold (write_snapshot deflate base) its (?infos1, fs1) = (infos, fs')" "distinct (map if_path its)"
      using Cons.prems by simp_all
    note IH = Cons.IH [OF rest]
    have new: "if_path it \<notin> if_path ` set its" using Cons.prems(2) by simp
    have later: "file_in fs' (if_path it) = file_in fs1 (if_path it)" using IH new by blast
    have same: "info it = info x \<Longrightarrow> if_path it = if_path x" for x by (simp add: info_def)
    have "info it \<notin> info ` set its" using new same by (metis image_iff)
    then have "b" if "info it \<in> set infos - set infos0" using that IH by (auto split: if_splits)
    then have "file_in fs' (if_path it) = Some (record_file deflate it)" if "info it \<in> set infos - set infos0"
      using that later writeRecordFile_files [OF w, of "if_path it"] by simp
    moreover have "file_in fs' (if_path x) = Some (record_file deflate x)" if "x \<in> set its" "info x \<in> set infos - set infos0" for x
    proof -
      have "info x \<noteq> info it" using that new same by (metis image_eqI)
      then have "info x \<in> set infos - set ?infos1" using that by auto
      then show ?thesis using IH that by blast
    qed
    moreover have "file_in fs' q = file_in fs q" if "q \<notin> if_path ` set (it # its)" for q
    proof -
      have "q \<notin> if_path ` set its" using that by simp
      then have "file_in fs' q = file_in fs1 q" using IH by blast
      then show ?thesis using that writeRecordFile_files [OF w, of q] by simp
    qed
    moreover have "set infos \<subseteq> set infos0 \<union> info ` set (it # its)" using IH by (auto split: if_splits)
    ultimately show ?case by simp
  qed simp
  then show "\<forall>it \<in> set its. info it \<in> set infos - set infos0 \<longrightarrow> file_in fs' (if_path it) = Some (record_file deflate it)"
    "\<forall>q. q \<notin> if_path ` set its \<longrightarrow> file_in fs' q = file_in fs q" "set infos \<subseteq> set infos0 \<union> info ` set its"
    by blast+
qed

lemma map_filter_set: "x \<in> set (List.map_filter f xs) \<longleftrightarrow> (\<exists>y \<in> set xs. f y = Some x)"
  by (induction xs) (auto split: option.splits)

lemma snapshot_paths:
  assumes inv: "recorder_inv r" and ks: "keys_ok rm ks"
  shows "distinct (map if_path (List.map_filter (map_of (inflight r)) ks))"
  using ks
proof (induction ks)
  case (Cons k ks)
  then have rest: "keys_ok rm ks" by (simp add: keys_ok_def)
  show ?case
  proof (cases "map_of (inflight r) k")
    case (Some it)
    obtain u where u: "k = rkey rm u" using Cons.prems by (auto simp: keys_ok_def)
    have ui: "if_userID it = u" using inv_entry [OF inv Some] by (simp add: entry_ok_def u)
    have "if_path x \<noteq> if_path it" if x: "x \<in> set (List.map_filter (map_of (inflight r)) ks)" for x
    proof -
      obtain k' where k': "k' \<in> set ks" "map_of (inflight r) k' = Some x" using iffD1 [OF map_filter_set x] by blast
      then obtain v where v: "k' = rkey rm v" using rest by (auto simp: keys_ok_def)
      have vx: "if_userID x = v" using inv_entry [OF inv k'(2)] by (simp add: entry_ok_def v)
      have "v \<noteq> u" using k'(1) Cons.prems u v by (auto simp: keys_ok_def)
      then have "Itoa v \<noteq> Itoa u" using Itoa_injective by blast
      then show ?thesis using inv_entry [OF inv Some] inv_entry [OF inv k'(2)] by (auto simp: entry_ok_def ui vx)
    qed
    then have "if_path it \<notin> if_path ` set (List.map_filter (map_of (inflight r)) ks)" by (metis imageE)
    then show ?thesis using Cons.IH [OF rest] by (simp add: Some)
  qed (simp add: Cons.IH [OF rest])
qed simp


section \<open>A game\<close>

text \<open>What may happen to a recorder between the start and the end of a game; \<open>played\<close> collects what a
  player sent in a room.\<close>

datatype rec_op =
    TouchesOp string int "TouchFrame list"
  | JudgesOp string int "JudgeEvent list"
  | RecordOp string int int
  | StartOp int string int string "Participant list"
  | EndOp string
  | BaseOp string
  | ClearOp string

fun rec_act :: "(bytes \<Rightarrow> bytes) \<Rightarrow> (string list \<Rightarrow> string list) \<Rightarrow> rec_op \<Rightarrow> Recorder \<times> file_system \<Rightarrow> Recorder \<times> file_system" where
  "rec_act deflate order (TouchesOp rm u fs) s = (AppendTouches rm u fs (fst s), snd s)"
| "rec_act deflate order (JudgesOp rm u js) s = (AppendJudges rm u js (fst s), snd s)"
| "rec_act deflate order (RecordOp rm u n) s = (SetRecordID rm u n (fst s), snd s)"
| "rec_act deflate order (StartOp now rm c cn us) s = (StartRoom now rm c cn us (fst s), snd s)"
| "rec_act deflate order (EndOp rm) s = EndRoom deflate order rm s"
| "rec_act deflate order (BaseOp d) s = (SetBaseDir d (fst s), snd s)"
| "rec_act deflate order (ClearOp rm) s = (ClearRoomFiles rm (fst s), snd s)"

fun played :: "string \<Rightarrow> int \<Rightarrow> rec_op list \<Rightarrow> TouchFrame list \<times> JudgeEvent list \<times> int" where
  "played rm u [] = ([], [], 0)"
| "played rm u (op # ops) =
     (case played rm u ops of (ts, js, n) \<Rightarrow>
        case op of
          TouchesOp rm' u' fs \<Rightarrow> (if rm' = rm \<and> u' = u then (ts @ fs, js, n) else (ts, js, n))
        | JudgesOp rm' u' es \<Rightarrow> (if rm' = rm \<and> u' = u then (ts, js @ es, n) else (ts, js, n))
        | RecordOp rm' u' n' \<Rightarrow> (if rm' = rm \<and> u' = u then (ts, js, n') else (ts, js, n))
        | _ \<Rightarrow> (ts, js, n))"

text \<open>The operations come with the latest one first.\<close>

fun rec_run :: "(bytes \<Rightarrow> bytes) \<Rightarrow> (string list \<Rightarrow> string list) \<Rightarrow> rec_op list \<Rightarrow> Recorder \<times> file_system \<Rightarrow> Recorder \<times> file_system" where
  "rec_run deflate order [] s = s"
| "rec_run deflate order (op # ops) s = rec_act deflate order op (rec_run deflate order ops s)"

definition full_recording :: "inFlight \<Rightarrow> TouchFrame list \<times> JudgeEvent list \<times> int \<Rightarrow> inFlight" where
  "full_recording it g = it\<lparr>if_touches := take maxFramesPerInflight (fst g), if_judges := take maxFramesPerInflight (fst (snd g)),
     if_recordID := snd (snd g)\<rparr>"

text \<open>The entry of a player in a room that is being recorded.\<close>

definition tracks :: "string \<Rightarrow> int \<Rightarrow> inFlight \<Rightarrow> Recorder \<Rightarrow> bool" where
  "tracks rm u it r \<longleftrightarrow> recorder_inv r \<and> (\<exists>ov. map_of (inflight r) (rkey rm u) = Some (it\<lparr>if_overflow := ov\<rparr>))
     \<and> (\<exists>ks. map_of (keysByRoom r) rm = Some ks \<and> rkey rm u \<in> set ks)"

lemma tracks_with_other: "tracks rm u it r \<Longrightarrow> rm' \<noteq> rm \<or> u' \<noteq> u \<Longrightarrow> recorder_inv (with_recording rm' u' f r)
    \<Longrightarrow> tracks rm u it (with_recording rm' u' f r)"
  by (auto simp: tracks_def with_recording_def update_conv' split: option.splits)

lemma tracks_with_own: "tracks rm u it r \<Longrightarrow> recorder_inv (with_recording rm u f r)
    \<Longrightarrow> (\<And>ov. \<exists>ov'. f (it\<lparr>if_overflow := ov\<rparr>) = it'\<lparr>if_overflow := ov'\<rparr>) \<Longrightarrow> tracks rm u it' (with_recording rm u f r)"
  by (fastforce simp: tracks_def with_recording_def update_conv')

lemma append_inv:
  "recorder_inv r \<Longrightarrow> recorder_inv (AppendTouches rm u fs r)"
  "recorder_inv r \<Longrightarrow> recorder_inv (AppendJudges rm u js r)"
  "recorder_inv r \<Longrightarrow> recorder_inv (SetRecordID rm u n r)"
  unfolding AppendTouches_def AppendJudges_def SetRecordID_def
  by (rule recorder_inv_with; simp add: push_touches_def push_judges_def Let_def warnOverflow_def)+

lemma take_remaining: "take (min (length ys) (nat (int m - int k))) ys = take (m - k) ys"
proof -
  have "nat (int m - int k) = m - k" by simp
  then show ?thesis by (metis min.commute nat_le_linear take_all min_def)
qed

lemma push_full:
  "\<exists>ov'. push_touches fs (full_recording it (ts, js, n)\<lparr>if_overflow := ov\<rparr>) = full_recording it (ts @ fs, js, n)\<lparr>if_overflow := ov'\<rparr>"
  "\<exists>ov'. push_judges es (full_recording it (ts, js, n)\<lparr>if_overflow := ov\<rparr>) = full_recording it (ts, js @ es, n)\<lparr>if_overflow := ov'\<rparr>"
proof -
  show "\<exists>ov'. push_touches fs (full_recording it (ts, js, n)\<lparr>if_overflow := ov\<rparr>) = full_recording it (ts @ fs, js, n)\<lparr>if_overflow := ov'\<rparr>"
    by (cases it; cases "length ts < maxFramesPerInflight")
      (auto simp: push_touches_def full_recording_def warnOverflow_def Let_def take_remaining)
  show "\<exists>ov'. push_judges es (full_recording it (ts, js, n)\<lparr>if_overflow := ov\<rparr>) = full_recording it (ts, js @ es, n)\<lparr>if_overflow := ov'\<rparr>"
    by (cases it; cases "length js < maxFramesPerInflight")
      (auto simp: push_judges_def full_recording_def warnOverflow_def Let_def take_remaining)
qed

lemma append_tracks:
  assumes t: "tracks rm u (full_recording it (ts, js, n)) r"
  shows "tracks rm u (full_recording it (ts @ fs, js, n)) (AppendTouches rm u fs r)"
    and "tracks rm u (full_recording it (ts, js @ es, n)) (AppendJudges rm u es r)"
    and "tracks rm u (full_recording it (ts, js, n')) (SetRecordID rm u n' r)"
proof -
  have inv: "recorder_inv r" using t by (simp add: tracks_def)
  show "tracks rm u (full_recording it (ts @ fs, js, n)) (AppendTouches rm u fs r)"
    using append_inv(1) [OF inv, of rm u fs] push_full(1) unfolding AppendTouches_def by (rule tracks_with_own [OF t])
  show "tracks rm u (full_recording it (ts, js @ es, n)) (AppendJudges rm u es r)"
    using append_inv(2) [OF inv, of rm u es] push_full(2) unfolding AppendJudges_def by (rule tracks_with_own [OF t])
  show "tracks rm u (full_recording it (ts, js, n')) (SetRecordID rm u n' r)"
    using append_inv(3) [OF inv, of rm u n'] unfolding SetRecordID_def
    by (rule tracks_with_own [OF t]) (cases it; auto simp: full_recording_def)
qed

lemma StartRoom_other:
  assumes "rm' \<noteq> rm"
  shows "map_of (inflight (StartRoom now rm c cn us r)) (rkey rm' u) = map_of (inflight r) (rkey rm' u)"
    and "map_of (keysByRoom (StartRoom now rm c cn us r)) rm' = map_of (keysByRoom r) rm'"
proof -
  obtain r' ks where f: "fold (start_player now rm c cn) us (r\<lparr>completed := AList.delete rm (completed r)\<rparr>, []) = (r', ks)" by fastforce
  show "map_of (inflight (StartRoom now rm c cn us r)) (rkey rm' u) = map_of (inflight r) (rkey rm' u)"
    "map_of (keysByRoom (StartRoom now rm c cn us r)) rm' = map_of (keysByRoom r) rm'"
    using start_players(8) [OF f assms] start_players(1) [OF f] assms by (auto simp: StartRoom_def f update_conv' split: list.split option.split)
qed

lemma tracks_start: "tracks rm u it r \<Longrightarrow> tracks rm u it (StartRoom now rm' c cn us r)"
proof (cases "rm' = rm")
  case True
  assume t: "tracks rm u it r"
  then obtain ks where "map_of (keysByRoom r) rm = Some ks" "rkey rm u \<in> set ks" by (auto simp: tracks_def)
  then have "recording_room r rm" by (cases ks) (auto simp: recording_room_def)
  then show ?thesis using t True StartRoom_skip by simp
next
  case False
  assume t: "tracks rm u it r"
  then show ?thesis
    using StartRoom_other [of rm rm' now c cn us r] False recorder_inv_StartRoom [of r now rm' c cn us] by (simp add: tracks_def)
qed

lemma fold_delete_map: "map_of (fold AList.delete ks al) k = (if k \<in> set ks then None else map_of al k)"
  by (induction ks arbitrary: al) (auto simp: delete_conv')


definition perm_order :: "(string list \<Rightarrow> string list) \<Rightarrow> bool" where
  "perm_order order \<longleftrightarrow> (\<forall>ks. set (order ks) = set ks \<and> (distinct ks \<longrightarrow> distinct (order ks)))"

definition room_keys :: "Recorder \<Rightarrow> string \<Rightarrow> string list" where
  "room_keys r rm = (case map_of (keysByRoom r) rm of Some ks \<Rightarrow> ks | None \<Rightarrow> [])"

lemma room_keys_ok: "recorder_inv r \<Longrightarrow> perm_order order \<Longrightarrow> keys_ok rm (order (room_keys r rm))"
proof (cases "map_of (keysByRoom r) rm")
  case None
  assume "perm_order order"
  then have "set (order []) = {}" "distinct (order [])" by (auto simp: perm_order_def)
  then show ?thesis by (simp add: room_keys_def None keys_ok_def)
next
  case (Some ks)
  assume inv: "recorder_inv r" and "perm_order order"
  then have "set (order ks) = set ks" "distinct ks \<longrightarrow> distinct (order ks)" unfolding perm_order_def by blast+
  then show ?thesis using inv_keys [OF inv Some] by (simp add: room_keys_def Some keys_ok_def)
qed

lemma EndRoom_tables:
  shows "inflight (fst (EndRoom deflate order rm (r, fs))) = fold AList.delete (order (room_keys r rm)) (inflight r)"
    and "keysByRoom (fst (EndRoom deflate order rm (r, fs))) = AList.delete rm (keysByRoom r)"
    and "baseDir (fst (EndRoom deflate order rm (r, fs))) = baseDir r"
  by (auto simp: EndRoom_def room_keys_def Let_def split: prod.splits)

lemma recorder_inv_EndRoom: "recorder_inv r \<Longrightarrow> recorder_inv (fst (EndRoom deflate order rm (r, fs)))"
  unfolding recorder_inv_def EndRoom_tables by (simp add: fold_delete_map delete_conv')

lemma tracks_end:
  assumes t: "tracks rm u it r" and ord: "perm_order order" and other: "rm' \<noteq> rm"
  shows "tracks rm u it (fst (EndRoom deflate order rm' (r, fs)))"
proof -
  have inv: "recorder_inv r" using t by (simp add: tracks_def)
  have "rkey rm u \<notin> set (order (room_keys r rm'))"
    using room_keys_ok [OF inv ord, of rm'] other by (auto simp: keys_ok_def)
  then show ?thesis
    using t other recorder_inv_EndRoom [OF inv] unfolding tracks_def EndRoom_tables
    by (simp add: fold_delete_map delete_conv')
qed

lemma tracks_frame: "tracks rm u it r \<Longrightarrow> tracks rm u it (SetBaseDir d r)" "tracks rm u it r \<Longrightarrow> tracks rm u it (ClearRoomFiles rm' r)"
  by (simp_all add: tracks_def SetBaseDir_def ClearRoomFiles_def)

lemma tracks_other_append:
  assumes t: "tracks rm u it r" and other: "rm' \<noteq> rm \<or> u' \<noteq> u"
  shows "tracks rm u it (AppendTouches rm' u' fs r)" "tracks rm u it (AppendJudges rm' u' es r)" "tracks rm u it (SetRecordID rm' u' n r)"
proof -
  have inv: "recorder_inv r" using t by (simp add: tracks_def)
  show "tracks rm u it (AppendTouches rm' u' fs r)" "tracks rm u it (AppendJudges rm' u' es r)" "tracks rm u it (SetRecordID rm' u' n r)"
    using append_inv [OF inv] unfolding AppendTouches_def AppendJudges_def SetRecordID_def
    by (blast intro: tracks_with_other [OF t other])+
qed

lemma tracks_run:
  assumes ord: "perm_order order" and start: "tracks rm u (full_recording it ([], [], 0)) (fst s)" and "EndOp rm \<notin> set ops"
  shows "tracks rm u (full_recording it (played rm u ops)) (fst (rec_run deflate order ops s))"
  using assms(3)
proof (induction ops)
  case Nil
  show ?case using start by simp
next
  case (Cons op ops)
  obtain r fs where s: "rec_run deflate order ops s = (r, fs)" by fastforce
  obtain ts js n where pl: "played rm u ops = (ts, js, n)" by (metis prod_cases3)
  have t: "tracks rm u (full_recording it (ts, js, n)) r" using Cons by (simp add: s pl)
  show ?case
  proof (cases op)
    case (TouchesOp rm' u' fr)
    show ?thesis
      by (cases "rm' = rm \<and> u' = u") (use append_tracks(1) [OF t] tracks_other_append(1) [OF t] in \<open>auto simp: TouchesOp s pl\<close>)
  next
    case (JudgesOp rm' u' es)
    show ?thesis
      by (cases "rm' = rm \<and> u' = u") (use append_tracks(2) [OF t] tracks_other_append(2) [OF t] in \<open>auto simp: JudgesOp s pl\<close>)
  next
    case (RecordOp rm' u' n')
    show ?thesis
      by (cases "rm' = rm \<and> u' = u") (use append_tracks(3) [OF t] tracks_other_append(3) [OF t] in \<open>auto simp: RecordOp s pl\<close>)
  next
    case (EndOp rm')
    then show ?thesis using tracks_end [OF t ord] Cons.prems by (auto simp: s pl)
  qed (use t in \<open>auto simp: s pl tracks_start tracks_frame\<close>)
qed


section \<open>From the first frame to the file\<close>

definition fresh_recording :: "string \<Rightarrow> int \<Rightarrow> string \<Rightarrow> int \<Rightarrow> string \<Rightarrow> Participant \<Rightarrow> inFlight" where
  "fresh_recording dir now rm c cn p =
     \<lparr>if_roomKey = rm, if_userID = pt_ID p, if_userName = pt_Name p, if_chartID = c, if_chartName = cn, if_timestamp = now,
      if_recordID = 0, if_path = FilePath dir (pt_ID p) c now, if_touches = [], if_judges = [], if_overflow = False\<rparr>"

lemma start_player_effect: "start_player now rm c cn p (r, ks) =
    (if pt_ID p < 0 then (r, ks)
     else (r\<lparr>inflight := AList.update (rkey rm (pt_ID p)) (fresh_recording (baseDir r) now rm c cn p) (inflight r)\<rparr>,
           List.insert (rkey rm (pt_ID p)) ks))"
  by (simp add: start_player_def fresh_recording_def Let_def)

lemma start_players_absent:
  "fold (start_player now rm c cn) users (r, ks) = (r', ks') \<Longrightarrow> u \<notin> pt_ID ` set users \<Longrightarrow>
     map_of (inflight r') (rkey rm u) = map_of (inflight r) (rkey rm u)"
proof (induction users arbitrary: r ks)
  case (Cons p users)
  obtain r1 ks1 where s: "start_player now rm c cn p (r, ks) = (r1, ks1)" by fastforce
  then have "map_of (inflight r1) (rkey rm u) = map_of (inflight r) (rkey rm u)"
    using Cons.prems(2) by (auto simp: start_player_effect update_conv' split: if_splits)
  then show ?case using Cons.IH [of r1 ks1] Cons.prems by (simp add: s)
qed simp

lemma start_players_entry:
  "fold (start_player now rm c cn) users (r, ks) = (r', ks') \<Longrightarrow> distinct (map pt_ID users) \<Longrightarrow> p \<in> set users \<Longrightarrow> 0 \<le> pt_ID p \<Longrightarrow>
     map_of (inflight r') (rkey rm (pt_ID p)) = Some (fresh_recording (baseDir r) now rm c cn p)"
proof (induction users arbitrary: r ks)
  case (Cons q users)
  obtain r1 ks1 where s: "start_player now rm c cn q (r, ks) = (r1, ks1)" by fastforce
  have rest: "fold (start_player now rm c cn) users (r1, ks1) = (r', ks')" using Cons.prems(1) by (simp add: s)
  have base: "baseDir r1 = baseDir r" using s by (auto simp: start_player_effect split: if_splits)
  show ?case
  proof (cases "p = q")
    case True
    have "map_of (inflight r1) (rkey rm (pt_ID p)) = Some (fresh_recording (baseDir r) now rm c cn p)"
      using s Cons.prems(4) True by (auto simp: start_player_effect update_conv')
    moreover have "pt_ID p \<notin> pt_ID ` set users" using Cons.prems(2) True by simp
    ultimately show ?thesis using start_players_absent [OF rest] by simp
  next
    case False
    then show ?thesis using Cons.IH [OF rest] Cons.prems base by simp
  qed
qed simp

lemma StartRoom_tracks:
  assumes inv: "recorder_inv r" and idle: "\<not> recording_room r rm"
    and p: "distinct (map pt_ID users)" "p \<in> set users" "0 \<le> pt_ID p"
  shows "tracks rm (pt_ID p) (full_recording (fresh_recording (baseDir r) now rm c cn p) ([], [], 0)) (StartRoom now rm c cn users r)"
    and "map_of (completed (StartRoom now rm c cn users r)) rm = None"
proof -
  let ?r = "r\<lparr>completed := AList.delete rm (completed r)\<rparr>" and ?it = "fresh_recording (baseDir r) now rm c cn p"
  obtain r' ks where f: "fold (start_player now rm c cn) users (?r, []) = (r', ks)" by fastforce
  have key: "rkey rm (pt_ID p) \<in> set ks" using start_players(7) [OF f] p by auto
  then have start: "StartRoom now rm c cn users r = r'\<lparr>keysByRoom := AList.update rm ks (keysByRoom r')\<rparr>"
    using idle by (auto simp: StartRoom_def recording_room_def f)
  have it: "full_recording ?it ([], [], 0) = ?it\<lparr>if_overflow := False\<rparr>" by (simp add: full_recording_def fresh_recording_def)
  have "map_of (inflight r') (rkey rm (pt_ID p)) = Some ?it" using start_players_entry [OF f p] by simp
  moreover have "?it = full_recording ?it ([], [], 0)\<lparr>if_overflow := False\<rparr>" by (simp add: full_recording_def fresh_recording_def)
  ultimately have "\<exists>ov. map_of (inflight r') (rkey rm (pt_ID p)) = Some (full_recording ?it ([], [], 0)\<lparr>if_overflow := ov\<rparr>)" by metis
  then show "tracks rm (pt_ID p) (full_recording ?it ([], [], 0)) (StartRoom now rm c cn users r)"
    using recorder_inv_StartRoom [OF inv, of now rm c cn users] key unfolding tracks_def start by (simp add: update_conv')
  show "map_of (completed (StartRoom now rm c cn users r)) rm = None"
    unfolding start using start_players(2) [OF f] by (simp add: delete_conv')
qed

lemma completed_none_act:
  assumes "map_of (completed (fst s)) rm = None" and "op \<noteq> EndOp rm"
  shows "map_of (completed (fst (rec_act deflate order op s))) rm = None"
proof (cases op)
  case (StartOp now rm' c cn us)
  obtain r' ks where f: "fold (start_player now rm' c cn) us (fst s\<lparr>completed := AList.delete rm' (completed (fst s))\<rparr>, []) = (r', ks)" by fastforce
  show ?thesis using assms start_players(2) [OF f] by (auto simp: StartOp StartRoom_def f delete_conv' split: list.splits option.splits)
next
  case (EndOp rm')
  then show ?thesis using assms by (cases s) (auto simp: EndRoom_def Let_def update_conv' split: prod.splits)
qed (use assms in \<open>auto simp: AppendTouches_def AppendJudges_def SetRecordID_def with_recording_def SetBaseDir_def ClearRoomFiles_def delete_conv' split: option.splits\<close>)

lemma completed_none_run:
  "map_of (completed (fst s)) rm = None \<Longrightarrow> EndOp rm \<notin> set ops \<Longrightarrow> map_of (completed (fst (rec_run deflate order ops s))) rm = None"
  by (induction ops) (auto intro!: completed_none_act)

lemma recorder_inv_run: "recorder_inv (fst s) \<Longrightarrow> recorder_inv (fst (rec_run deflate order ops s))"
proof (induction ops)
  case (Cons op ops)
  then show ?case
    by (cases op; cases "rec_run deflate order ops s")
      (auto simp: append_inv recorder_inv_StartRoom recorder_inv_EndRoom SetBaseDir_def ClearRoomFiles_def)
qed simp

lemma recorder_inv_new: "recorder_inv (NewRecorder dir su)"
  by (simp add: recorder_inv_def NewRecorder_def)

lemma EndRoom_listed:
  assumes inv: "recorder_inv r" and ord: "perm_order order" and none: "map_of (completed r) rm = None"
    and fin: "EndRoom deflate order rm (r, fs) = (r', fs')" and f: "f \<in> set (ListRoomFiles order rm r')"
  obtains it where "map_of (inflight r) (rkey rm (if_userID it)) = Some it" "f = info it" "file_in fs' (if_path it) = Some (record_file deflate it)"
proof -
  let ?its = "List.map_filter (map_of (inflight r)) (order (room_keys r rm))"
  obtain infos fs1 where w: "fold (write_snapshot deflate (baseDir r)) ?its ([], fs) = (infos, fs1)" by fastforce
  have fs': "fs' = fs1" using fin w by (simp add: EndRoom_def Let_def room_keys_def)
  have keys: "map_of (keysByRoom r') rm = None"
    using EndRoom_tables(2) [of deflate order rm r fs] fin by (simp add: delete_conv')
  have "map_of (completed r') rm = (if infos \<noteq> [] then Some infos else None)"
    using fin w none by (auto simp: EndRoom_def Let_def room_keys_def update_conv')
  then have f_in: "f \<in> set infos" using f keys by (auto simp: ListRoomFiles_def split: if_splits)
  note ok = write_snapshots [OF w snapshot_paths [OF inv room_keys_ok [OF inv ord]]]
  obtain it where it: "it \<in> set ?its" "f = info it" using f_in ok(3) by auto
  obtain k where k: "k \<in> set (order (room_keys r rm))" "map_of (inflight r) k = Some it" using iffD1 [OF map_filter_set it(1)] by blast
  obtain u where u: "k = rkey rm u" using room_keys_ok [OF inv ord, of rm] k(1) by (auto simp: keys_ok_def)
  have "if_userID it = u" using inv_entry [OF inv k(2)] by (simp add: entry_ok_def u)
  moreover have "file_in fs' (if_path it) = Some (record_file deflate it)" using ok(1) it f_in by (simp add: fs')
  ultimately show ?thesis using that [of it] k(2) u it(2) by simp
qed

text \<open>C36.  A recorded game can be read back.  A recorder that has run for any time starts a room; then
  anything happens (frames, results, other rooms, a change of the root directory) until the room ends.
  Every file that is listed for the room afterwards and belongs to a player of the game is on the disk
  at the path of its user, chart and start time, and reads as the player's game: the ids, names and the
  record id last set, and the first 15000 touch frames and judgements that the player sent, in order.\<close>

theorem replay_records_game:
  assumes codec: "\<And>x. inflate (deflate x) = Some x" and ord: "perm_order order"
    and before: "r0 = fst (rec_run deflate order ops0 (NewRecorder dir su, fsx))" "\<not> recording_room r0 rm"
    and player: "distinct (map pt_ID users)" "p \<in> set users" "0 \<le> pt_ID p" "pt_ID p < 2 ^ 31" "string_ok (pt_Name p)"
    and chart: "0 \<le> chart" "chart < 2 ^ 31" "string_ok cn" "0 \<le> now" "now < 2 ^ 63"
    and run: "rec_run deflate order ops (StartRoom now rm chart cn users r0, fs0) = (r1, fs1)" "EndOp rm \<notin> set ops"
    and game: "played rm (pt_ID p) ops = (ts, js, n)" "- (2 ^ 31) \<le> n" "n < 2 ^ 31" "list_all frame_ok_touch ts"
    and fin: "EndRoom deflate order rm (r1, fs1) = (r2, fs2)"
    and listed: "f \<in> set (ListRoomFiles order rm r2)" "fi_UserID f = pt_ID p"
  shows "fi_Path f = FilePath (baseDir r0) (pt_ID p) chart now
    \<and> (\<exists>raw h. file_in fs2 (fi_Path f) = Some raw
         \<and> h = \<lparr>rh_RecordID = n, rh_Timestamp = now, rh_ChartID = chart, rh_ChartName = cn, rh_UserID = pt_ID p, rh_UserName = pt_Name p\<rparr>
         \<and> ReadReplayHeader inflate unzstd raw = Inr h
         \<and> read_file inflate unzstd raw = Inr (h, take maxFramesPerInflight ts, take maxFramesPerInflight js))"
proof -
  let ?it = "fresh_recording (baseDir r0) now rm chart cn p"
  have inv0: "recorder_inv r0" unfolding before(1) by (rule recorder_inv_run) (simp add: recorder_inv_new)
  note start = StartRoom_tracks [OF inv0 before(2) player(1-3), of now chart cn]
  have t: "tracks rm (pt_ID p) (full_recording ?it (ts, js, n)) r1"
    using tracks_run [OF ord, of rm "pt_ID p" ?it "(StartRoom now rm chart cn users r0, fs0)" ops deflate] start(1) run game(1) by simp
  have none: "map_of (completed r1) rm = None"
    using completed_none_run [of "(StartRoom now rm chart cn users r0, fs0)" rm ops deflate order] start(2) run by simp
  have inv1: "recorder_inv r1" using t by (simp add: tracks_def)
  obtain it where it: "map_of (inflight r1) (rkey rm (if_userID it)) = Some it" "f = info it"
      "file_in fs2 (if_path it) = Some (record_file deflate it)"
    using EndRoom_listed [OF inv1 ord none fin listed(1)] .
  obtain ov where ov: "it = full_recording ?it (ts, js, n)\<lparr>if_overflow := ov\<rparr>"
    using t it(1,2) listed(2) by (auto simp: tracks_def info_def)
  have "min k maxFramesPerInflight \<le> max_len" for k by (simp add: maxFramesPerInflight_def)
  moreover have "list_all frame_ok_touch (take maxFramesPerInflight ts)" using game(4) by (auto simp: list_all_iff dest: in_set_takeD)
  ultimately have ok: "recording_ok it"
    using player chart game(2,3) by (auto simp: ov recording_ok_def full_recording_def fresh_recording_def array_ok_def list_all_iff)
  have path: "fi_Path f = if_path it" "if_path it = FilePath (baseDir r0) (pt_ID p) chart now"
    by (simp_all add: it(2) info_def ov full_recording_def fresh_recording_def)
  have h: "header_of it = \<lparr>rh_RecordID = n, rh_Timestamp = now, rh_ChartID = chart, rh_ChartName = cn, rh_UserID = pt_ID p, rh_UserName = pt_Name p\<rparr>"
    and "if_touches it = take maxFramesPerInflight ts" "if_judges it = take maxFramesPerInflight js"
    by (simp_all add: header_of_def ov full_recording_def fresh_recording_def)
  then show ?thesis using record_file_readable [where inflate = inflate and deflate = deflate and unzstd = unzstd, OF codec ok] it(3) path by auto
qed

text \<open>One player plays a chart in a room; the recorder writes into an empty file system.\<close>

definition demo_recorder :: Recorder where "demo_recorder = NewRecorder ''record'' None"

definition demo_player :: Participant where "demo_player = \<lparr>pt_ID = 7, pt_Name = ''Rin''\<rparr>"

definition demo_frame :: TouchFrame where "demo_frame = \<lparr>tf_Time = 0, tf_Points = []\<rparr>"

definition demo_ops :: "rec_op list" where
  "demo_ops = [RecordOp ''r'' 7 99, TouchesOp ''r'' 7 [demo_frame], BaseOp ''record'']"

definition demo_state :: "Recorder \<times> file_system" where
  "demo_state = rec_run id id demo_ops (StartRoom 5 ''r'' 42 ''Song'' [demo_player] demo_recorder, Map.empty)"

definition demo_info :: FileInfo where
  "demo_info = \<lparr>fi_UserID = 7, fi_ChartID = 42, fi_Timestamp = 5, fi_Path = FilePath ''record'' 7 42 5\<rparr>"

lemma demo_start: "StartRoom 5 ''r'' 42 ''Song'' [demo_player] demo_recorder =
    demo_recorder\<lparr>inflight := [(rkey ''r'' 7, fresh_recording ''record'' 5 ''r'' 42 ''Song'' demo_player)], keysByRoom := [(''r'', [rkey ''r'' 7])]\<rparr>"
  by (simp add: StartRoom_def start_player_effect demo_recorder_def NewRecorder_def demo_player_def)

lemma demo_listed: "demo_info \<in> set (ListRoomFiles id ''r'' (fst (EndRoom id id ''r'' demo_state)))"
proof -
  have names: "Itoa 7 = ''7''" "Itoa 42 = ''42''" by (simp_all add: Itoa_def nat_digits.simps char_of_def bit_0)
  obtain it where st: "inflight (fst demo_state) = [(rkey ''r'' 7, it)]" "keysByRoom (fst demo_state) = [(''r'', [rkey ''r'' 7])]"
      "baseDir (fst demo_state) = ''record''" "snd demo_state = Map.empty" "if_userID it = 7" "if_chartID it = 42" "info it = demo_info"
      "if_path it = FilePath ''record'' 7 42 5"
    unfolding demo_state_def demo_ops_def rec_run.simps rec_act.simps fst_conv snd_conv demo_start
    by (simp add: demo_recorder_def NewRecorder_def AppendTouches_def SetRecordID_def
        with_recording_def push_touches_def maxFramesPerInflight_def Let_def SetBaseDir_def fresh_recording_def demo_player_def
        info_def demo_info_def)
  have "fst (writeRecordFile id ''record'' it Map.empty)"
    by (simp add: writeRecordFile_def ensureDir_def st FilePath_def names Let_def)
  then obtain fs' where "writeRecordFile id ''record'' it Map.empty = (True, fs')" by (metis (full_types) prod.collapse)
  then have "write_snapshot id ''record'' it ([], Map.empty) = ([demo_info], fs')" by (simp add: write_snapshot_def st)
  then have ws: "write_snapshot id ''record'' it ([], Map.empty) = ([demo_info], fs')" .
  obtain r fs where d: "demo_state = (r, fs)" by fastforce
  have "EndRoom id id ''r'' (r, fs) = (r\<lparr>keysByRoom := [], inflight := [], completed := AList.update ''r'' [demo_info] (completed r)\<rparr>, fs')"
    using st ws by (simp add: d EndRoom_def)
  then show ?thesis by (simp add: d ListRoomFiles_def update_conv')
qed

theorem replay_records_game_witness:
  "\<exists>raw. file_in (snd (EndRoom id id ''r'' demo_state)) (FilePath ''record'' 7 42 5) = Some raw
    \<and> read_file Some Some raw = Inr (\<lparr>rh_RecordID = 99, rh_Timestamp = 5, rh_ChartID = 42, rh_ChartName = ''Song'',
        rh_UserID = 7, rh_UserName = ''Rin''\<rparr>, [demo_frame], [])"
proof -
  have ok: "frame_ok_touch demo_frame" by (simp add: frame_ok_touch_def demo_frame_def array_ok_def)
  have perm: "perm_order id" by (simp add: perm_order_def)
  obtain r1 fs1 where d: "demo_state = (r1, fs1)" by fastforce
  obtain r2 fs2 where e: "EndRoom id id ''r'' demo_state = (r2, fs2)" by fastforce
  have listed: "demo_info \<in> set (ListRoomFiles id ''r'' r2)" using demo_listed by (simp add: e)
  have "played ''r'' 7 demo_ops = ([demo_frame], [], 99)" by (simp add: demo_ops_def)
  then show ?thesis
    using replay_records_game [of Some id id demo_recorder "[]" "''record''" None Map.empty "''r''" "[demo_player]" demo_player 42
        "''Song''" 5 demo_ops Map.empty r1 fs1 "[demo_frame]" "[]" 99 r2 fs2 demo_info Some]
      perm d e listed ok
    by (auto simp: demo_recorder_def demo_player_def demo_info_def demo_state_def recording_room_def NewRecorder_def string_ok_def
        demo_ops_def maxFramesPerInflight_def)
qed

text \<open>A change of the root directory during a game loses the recordings of that game, when the old root
  does not have the directory of the player already: the directory is made below the new root, the
  file belongs below the old one.\<close>

lemma moved_root_loses_recording:
  assumes "base \<noteq> fst (if_path it)" and "fs (fst (if_path it)) = None"
  shows "\<not> fst (writeRecordFile deflate base it fs)"
  using assms by (auto simp: writeRecordFile_def ensureDir_def Let_def split: bool.splits option.splits prod.splits)

end
