(* ===== verification/Utf8_Text.thy ===== *)
theory Utf8_Text
  imports Phira_Prelude
begin

text \<open>
  Runes of a Go string: \<open>[]rune(s)\<close> cuts a byte sequence into UTF-8 encodings, an ill-formed byte
  becomes the replacement character U+FFFD.  \<open>truncateRunes\<close> of \<open>dispatch.go\<close> limits a text by the
  number of its runes.
\<close>

definition in_range :: "nat \<Rightarrow> nat \<Rightarrow> char \<Rightarrow> bool" where
  "in_range lo hi c \<longleftrightarrow> lo \<le> of_char c \<and> of_char c \<le> hi"

text \<open>The range of the second byte and the number of bytes, by the first byte; \<open>None\<close> for a byte
  that starts no encoding.\<close>

definition utf8_first :: "char \<Rightarrow> (nat \<times> nat \<times> nat) option" where
  "utf8_first c =
     (let b = of_char c :: nat in
      if b < 0x80 then Some (1, 0, 0)
      else if b < 0xC2 then None
      else if b \<le> 0xDF then Some (2, 0x80, 0xBF)
      else if b = 0xE0 then Some (3, 0xA0, 0xBF)
      else if b = 0xED then Some (3, 0x80, 0x9F)
      else if b \<le> 0xEF then Some (3, 0x80, 0xBF)
      else if b = 0xF0 then Some (4, 0x90, 0xBF)
      else if b \<le> 0xF3 then Some (4, 0x80, 0xBF)
      else if b = 0xF4 then Some (4, 0x80, 0x8F)
      else None)"

definition replacement_rune :: string where
  "replacement_rune = [CHR 0xEF, CHR 0xBF, CHR 0xBD]"

text \<open>The encoding of the first rune of \<open>c # s\<close> and the number of bytes it takes.\<close>

definition first_rune :: "char \<Rightarrow> string \<Rightarrow> string \<times> nat" where
  "first_rune c s = (case utf8_first c of
     None \<Rightarrow> (replacement_rune, 1)
   | Some (n, lo, hi) \<Rightarrow>
       if n = 1 then ([c], 1)
       else if length s + 1 < n \<or> \<not> in_range lo hi (s ! 0) \<or> \<not> list_all (in_range 0x80 0xBF) (take (n - 2) (drop 1 s))
       then (replacement_rune, 1)
       else (c # take (n - 1) s, n))"

lemma first_rune_pos: "0 < snd (first_rune c s)"
  by (auto simp: first_rune_def utf8_first_def Let_def split: option.splits if_splits)

function runes :: "string \<Rightarrow> string list" where
  "runes [] = []"
| "runes (c # s) = (let (r, n) = first_rune c s in r # runes (drop (n - 1) s))"
  by pat_completeness auto
termination by (relation "measure length") auto

definition truncateRunes :: "string \<Rightarrow> nat \<Rightarrow> string" where
  "truncateRunes s n = (let r = runes s in if length r \<le> n then s else concat (take n r))"

lemma length_runes: "length (runes s) \<le> length s"
proof (induction s rule: runes.induct)
  case (2 c s)
  obtain r n where rn: "first_rune c s = (r, n)" by force
  with "2.IH" [OF sym [OF rn] refl] show ?case by (simp add: rn Let_def)
qed simp

lemma truncateRunes_short: "length s \<le> n \<Longrightarrow> truncateRunes s n = s"
  using length_runes [of s] by (simp add: truncateRunes_def)

lemma length_first_rune: "length (fst (first_rune c s)) \<le> 4"
  by (auto simp: first_rune_def utf8_first_def replacement_rune_def Let_def split: option.splits if_splits)

lemma runes_bytes: "\<forall>r\<in>set (runes s). length r \<le> 4"
proof (induction s rule: runes.induct)
  case (2 c s)
  obtain r n where rn: "first_rune c s = (r, n)" by force
  with 2 length_first_rune [of c s] show ?case by (simp add: Let_def)
qed simp

lemma concat_bound: "\<forall>r\<in>set rs. length r \<le> k \<Longrightarrow> length (concat rs) \<le> k * length rs"
  by (induction rs) auto

lemma truncateRunes_bytes: "length (truncateRunes s n) \<le> max (length s) (4 * n)"
proof (cases "length (runes s) \<le> n")
  case False
  have "\<forall>r\<in>set (take n (runes s)). length r \<le> 4"
    using runes_bytes [of s] by (auto dest: in_set_takeD)
  then have "length (concat (take n (runes s))) \<le> 4 * length (take n (runes s))"
    by (rule concat_bound)
  then show ?thesis using False by (simp add: truncateRunes_def max_def)
qed (simp add: truncateRunes_def)

text \<open>An encoding that was cut out decodes to itself, whatever follows it, so a truncated text has
  exactly the runes that were kept.\<close>

lemma utf8_first_count: "utf8_first c = Some (n, lo, hi) \<Longrightarrow> n = 1 \<and> lo = 0 \<and> hi = 0 \<or> 2 \<le> n"
  by (auto simp: utf8_first_def Let_def split: if_splits)

lemma first_rune_self:
  assumes "first_rune c s = (r, n)"
  shows "r \<noteq> [] \<and> first_rune (hd r) (tl r @ rest) = (r, length r)"
proof -
  have rep: "first_rune (CHR 0xEF) ([CHR 0xBF, CHR 0xBD] @ rest) = (replacement_rune, 3)"
    by (simp add: first_rune_def utf8_first_def in_range_def replacement_rune_def)
  consider "r = replacement_rune" | "r = [c]" "utf8_first c = Some (1, 0, 0)"
    | lo hi where "utf8_first c = Some (n, lo, hi)" "n \<noteq> 1" "2 \<le> n" "n \<le> length s + 1" "in_range lo hi (s ! 0)"
        "list_all (in_range 0x80 0xBF) (take (n - 2) (drop 1 s))" "r = c # take (n - 1) s"
  proof (cases "utf8_first c")
    case None
    with assms that(1) show ?thesis by (simp add: first_rune_def)
  next
    case (Some p)
    obtain k lo hi where k: "utf8_first c = Some (k, lo, hi)" using Some by (cases p) auto
    from assms that utf8_first_count [OF k] show ?thesis
      by (simp add: first_rune_def k split: if_splits) (metis Suc_n_not_le_n k numeral_2_eq_2 One_nat_def not_less)+
  qed
  then show ?thesis
  proof cases
    case 1
    with rep show ?thesis by (simp add: replacement_rune_def)
  next
    case 2
    then show ?thesis by (simp add: first_rune_def)
  next
    case (3 lo hi)
    have "take (n - 2) (drop 1 (take (n - 1) s @ rest)) = take (n - 2) (drop 1 s)"
      using 3(3,4) by (simp add: drop_take)
    moreover have "(take (n - 1) s @ rest) ! 0 = s ! 0" using 3(3,4) by (simp add: nth_append)
    ultimately show ?thesis using 3 by (simp add: first_rune_def)
  qed
qed

definition is_rune :: "string \<Rightarrow> bool" where
  "is_rune r \<longleftrightarrow> r \<noteq> [] \<and> (\<forall>rest. first_rune (hd r) (tl r @ rest) = (r, length r))"

lemma runes_are_runes: "list_all is_rune (runes s)"
proof (induction s rule: runes.induct)
  case (2 c s)
  obtain r n where rn: "first_rune c s = (r, n)" by force
  then have "is_rune r" using first_rune_self [OF rn] by (simp add: is_rune_def)
  with "2.IH" [OF sym [OF rn] refl] show ?case by (simp add: rn Let_def)
qed simp

lemma runes_concat: "list_all is_rune rs \<Longrightarrow> runes (concat rs) = rs"
proof (induction rs)
  case (Cons r rs)
  then obtain c r' where r: "r = c # r'" and first: "first_rune c (r' @ concat rs) = (r, length r)"
    by (cases r) (auto simp: is_rune_def)
  show ?case using Cons by (simp add: r first Let_def)
qed simp

lemma runes_truncateRunes: "runes (truncateRunes s n) = take n (runes s)"
proof -
  have "list_all is_rune (take n (runes s))"
    using runes_are_runes [of s] by (auto simp: list_all_iff dest: in_set_takeD)
  then show ?thesis by (simp add: truncateRunes_def Let_def runes_concat)
qed

end
