(* ===== verification/Room_Model.thy ===== *)
theory Room_Model
  imports Wire_Commands Utf8_Text Go_Strconv "HOL-Library.List_Lexorder" "HOL-Library.Product_Lexorder" "HOL-Library.Char_ord"
begin

text \<open>
  The data of the server core (\<open>internal/core/server\<close>): users and rooms as records in a heap
  (\<open>model_user.go\<close>, \<open>model_room.go\<close>), the global tables of \<open>ServerState\<close> (\<open>model_state.go\<close>), and
  the primitive operations on them.  Pointers are references into the heap, so the aliasing of
  the source (\<open>user.Room\<close>, \<open>usersMap\<close>, the participants snapshot) is kept.  What the code does to
  the outside world, sending a command, logging, pushing to the web socket, emitting an event,
  calling the recorder or a hook, is appended to \<open>trace\<close>; what it leaves for a timer or another
  goroutine is appended to \<open>pending\<close>.  The fields the source guards with their own leaf lock or as
  atomics, the room log and the game time, are kept beside the heap.  A panic (an identifier
  outside \<open>int32\<close>) is recorded as the effect \<open>Panic\<close>; what follows it in a trace is never reached.
  A debug message (only written when debugging is on) is not recorded.
\<close>

section \<open>Data\<close>

type_synonym user_ref = nat
type_synonym room_ref = nat
type_synonym session_ref = nat
type_synonym f64 = "64 word"

record Chart =
  c_ID :: int
  c_Name :: string
  c_Level :: string
  c_Charter :: string
  c_Illustration :: string

record RecordData =
  rec_ID :: int
  rec_Player :: int
  rec_Chart :: "int option"
  rec_Score :: int
  rec_Perfect :: int
  rec_Good :: int
  rec_Bad :: int
  rec_Miss :: int
  rec_MaxCombo :: int
  rec_Accuracy :: f64
  rec_Mod :: int
  rec_FullCombo :: bool
  rec_Std :: "f64 option"
  rec_StdScore :: "f64 option"

text \<open>The maps of the playing state are shared by every copy of the structure; a Go map used as a
  set is a set, a map with values an association list without repeated keys.\<close>

record PlayingData =
  Results :: "(int \<times> RecordData) list"
  Aborted :: "int set"
  ReconnectNotified :: "int set option"
  StartedAt :: int

datatype InternalRoomState =
    StateSelectChart
  | StateWaitForReady "int set"
  | StatePlaying PlayingData

record Contest =
  Whitelist :: "int set"
  ManualStart :: bool
  AutoDisband :: bool

record RoomLog =
  log_Message :: string
  log_Timestamp :: int

record Room =
  rID :: RoomID
  MaxUsers :: int
  ReplayEligible :: bool
  HostID :: int
  State :: InternalRoomState
  Live :: bool
  Locked :: bool
  Cycle :: bool
  contest :: "Contest option"
  users :: "int list"
  monitors :: "int list"
  usersMap :: "(int \<times> user_ref) list"
  monitorUsers :: "(int \<times> user_ref) list"
  participantsSnapshot :: "user_ref list option"
  chart :: "Chart option"
  readyCancel :: "nat option"
  playDeadlineCancel :: "nat option"
  nextHostID :: "int option"

record User =
  uID :: int
  Name :: string
  Lang :: string
  session :: "session_ref option"
  uRoom :: "room_ref option"
  Monitor :: bool
  dangleToken :: "nat option"
  DangleDeadline :: "int option"
  dangleTimer :: "nat option"

datatype GameTime = NegInf | GameTimeAt float32

datatype LogLevel = INFO | MARK | WARN

text \<open>An argument of a localised text; a number or a float is rendered by the localisation.  The
  percentage is the accuracy times 100, the deviation is in milliseconds.\<close>

datatype Arg = AStr string | AInt int | ABool bool | AFloat f64 | APercent f64 | APercent32 float32 | AStd f64 | AIsAP f64

type_synonym args = "(string \<times> Arg) list"

record ScoreRankEntry =
  sr_PlayerID :: int
  sr_Player :: string
  sr_Score :: int
  sr_StdScore :: "f64"

datatype EventType = EventGameStart | EventGameEnd | EventScoreSubmitted | EventRoomCreate
  | EventRoomDisband | EventUserJoin | EventMaintenance

record Event =
  ev_Type :: EventType
  ev_Time :: "int option"
  ev_Server :: string
  ev_RoomID :: string
  ev_ChartID :: int
  ev_ChartName :: string
  ev_UserID :: int
  ev_UserName :: string
  ev_UserCount :: int
  ev_Enabled :: bool
  ev_Message :: string
  ev_ChartDifficulty :: string
  ev_ChartCharter :: string
  ev_PlayerList :: string
  ev_ImageURL :: string
  ev_PlayerScoreRank :: "ScoreRankEntry list"
  ev_Players :: "(int \<times> string) list"

definition new_event :: "EventType \<Rightarrow> Event" where
  "new_event t = \<lparr>ev_Type = t, ev_Time = None, ev_Server = [], ev_RoomID = [], ev_ChartID = 0,
     ev_ChartName = [], ev_UserID = 0, ev_UserName = [], ev_UserCount = 0, ev_Enabled = False, ev_Message = [],
     ev_ChartDifficulty = [], ev_ChartCharter = [], ev_PlayerList = [], ev_ImageURL = [],
     ev_PlayerScoreRank = [], ev_Players = []\<rparr>"

datatype Effect =
    Sent session_ref ServerCommand
  | Log LogLevel string
  | WsRoom RoomID
  | WsAdmin
  | Emit Event
  | EnterPlaying room_ref
  | GameEnd room_ref
  | RecTouches RoomID int "TouchFrame list"
  | RecJudges RoomID int "JudgeEvent list"
  | RecSetID RoomID int int
  | BufTouches room_ref int "TouchFrame list"
  | BufJudges room_ref int "JudgeEvent list"
  | CloseSession session_ref
  | Panic string

record PhiraUserInfo =
  pu_ID :: int
  pu_Name :: string
  pu_Language :: string

text \<open>The bodies left for later: a callback scheduled with \<open>time.AfterFunc\<close> or a goroutine.\<close>

datatype Delayed =
    DSend user_ref ServerCommand
  | DFakeMonitorJoin user_ref RoomID
  | DGameStartHint room_ref RoomID i32 string
  | DReadyReminder nat room_ref RoomID nat
  | DReadyTimeout nat room_ref RoomID
  | DPlayDeadline nat room_ref RoomID
  | DAsyncDisband room_ref
  | DDangle user_ref nat
  | DFixState user_ref room_ref
  | DRealState user_ref room_ref
  | DWelcome user_ref
  | DAuthRegister session_ref PhiraUserInfo

record World =
  Rooms :: "(RoomID \<times> room_ref) list"
  Users :: "(int \<times> user_ref) list"
  heapR :: "room_ref \<Rightarrow> Room"
  heapU :: "user_ref \<Rightarrow> User"
  nextR :: room_ref
  nextU :: user_ref
  BannedUsers :: "int set"
  BannedRoomUsers :: "(RoomID \<times> int set) list"
  Maintenance :: bool
  MaintenanceMessage :: "string option"
  RoomCreationEnabled :: bool
  ReplayEnabled :: bool
  fresh :: nat
  cancelled :: "nat set"
  roomLogs :: "room_ref \<Rightarrow> RoomLog list"
  gameTime :: "user_ref \<Rightarrow> GameTime"
  uploadUsers :: "int set"
  sessUser :: "session_ref \<Rightarrow> user_ref option"
  closing :: "session_ref set"
  closed :: "session_ref set"
  pending :: "(int \<times> Delayed) list"
  trace :: "Effect list"
  now :: int

text \<open>What does not change during a run: the configuration, the optional services, the
  localisation and the upstream API.  \<open>TL\<close> and \<open>NewLanguage\<close> stand for the functions of the
  \<open>l10n\<close> package, \<open>PhiraChart\<close>, \<open>PhiraRecord\<close> and \<open>PhiraUser\<close> for the Phira API (\<open>None\<close> when it is
  not configured).\<close>

record Env =
  TL :: "string \<Rightarrow> string \<Rightarrow> args \<Rightarrow> string"
  ServerLang :: string
  ServerName :: string
  AppVersion :: string
  RoomListTip :: string
  HasLogger :: bool
  HasWS :: bool
  HasEvents :: bool
  HasEnterPlaying :: bool
  HasGameEnd :: bool
  HasRecorder :: bool
  HasMonitorBuffer :: bool
  MaxRooms :: int
  RoomMaxUsers :: int
  CfgMonitors :: "int list"
  ChatEnabled :: bool
  SystemUserID :: int
  PlayingReconnectGrace :: int
  FakeMonitorInfo :: "string \<Rightarrow> UserInfo"
  PhiraChart :: "(int \<Rightarrow> string + Chart) option"
  PhiraRecord :: "(int \<Rightarrow> string + RecordData) option"
  PhiraUser :: "(string \<Rightarrow> string + PhiraUserInfo) option"
  NewLanguage :: "string \<Rightarrow> string"
  hackDelay :: int

section \<open>Primitive steps\<close>

definition emit :: "Effect \<Rightarrow> World \<Rightarrow> World" where
  "emit e w = w\<lparr>trace := trace w @ [e]\<rparr>"

definition schedule :: "int \<Rightarrow> Delayed \<Rightarrow> World \<Rightarrow> World" where
  "schedule d a w = w\<lparr>pending := pending w @ [(d, a)]\<rparr>"

definition upd_room :: "room_ref \<Rightarrow> (Room \<Rightarrow> Room) \<Rightarrow> World \<Rightarrow> World" where
  "upd_room rr f w = w\<lparr>heapR := (heapR w)(rr := f (heapR w rr))\<rparr>"

definition upd_user :: "user_ref \<Rightarrow> (User \<Rightarrow> User) \<Rightarrow> World \<Rightarrow> World" where
  "upd_user ur f w = w\<lparr>heapU := (heapU w)(ur := f (heapU w ur))\<rparr>"

definition delete_room :: "RoomID \<Rightarrow> World \<Rightarrow> World" where
  "delete_room rid w = w\<lparr>Rooms := AList.delete rid (Rooms w)\<rparr>"

definition int32FromInt :: "int \<Rightarrow> i32 option" where
  "int32FromInt n = (if n < - (2 ^ 31) \<or> n > 2 ^ 31 - 1 then None else Some (word_of_int n))"

text \<open>The value of the conversion, and the panic it raises on the way.\<close>

definition to_i32 :: "int \<Rightarrow> i32" where
  "to_i32 n = (case int32FromInt n of Some v \<Rightarrow> v | None \<Rightarrow> 0)"

definition check_i32 :: "int \<Rightarrow> World \<Rightarrow> World" where
  "check_i32 n w = (case int32FromInt n of Some _ \<Rightarrow> w
     | None \<Rightarrow> emit (Panic ''integer overflow: value does not fit in int32'') w)"

section \<open>Users\<close>

definition NewUser :: "Env \<Rightarrow> int \<Rightarrow> string \<Rightarrow> string \<Rightarrow> User" where
  "NewUser env i name language = \<lparr>uID = i, Name = name, Lang = NewLanguage env language, session = None, uRoom = None,
     Monitor = False, dangleToken = None, DangleDeadline = None, dangleTimer = None\<rparr>"

definition ToInfo :: "User \<Rightarrow> UserInfo" where
  "ToInfo u = \<lparr>ui_ID = to_i32 (uID u), ui_Name = Name u, ui_Monitor = Monitor u\<rparr>"

definition CanMonitor :: "Env \<Rightarrow> User \<Rightarrow> bool" where
  "CanMonitor env u \<longleftrightarrow> uID u \<in> set (CfgMonitors env)"

definition TrySend :: "user_ref \<Rightarrow> ServerCommand \<Rightarrow> World \<Rightarrow> World" where
  "TrySend ur cmd w = (case session (heapU w ur) of Some s \<Rightarrow> emit (Sent s cmd) w | None \<Rightarrow> w)"

definition IsConnected :: "User \<Rightarrow> bool" where
  "IsConnected u \<longleftrightarrow> session u \<noteq> None"

definition SetSession :: "user_ref \<Rightarrow> session_ref option \<Rightarrow> World \<Rightarrow> World" where
  "SetSession ur s w = upd_user ur
     (\<lambda>u. u\<lparr>dangleTimer := None, dangleToken := None, DangleDeadline := None, session := s\<rparr>) w"

definition MarkDangle :: "user_ref \<Rightarrow> int option \<Rightarrow> World \<Rightarrow> nat \<times> World" where
  "MarkDangle ur deadlineMs w =
     (let token = fresh w
      in (token, upd_user ur (\<lambda>u. u\<lparr>dangleToken := Some token, DangleDeadline := deadlineMs\<rparr>)
                   (w\<lparr>fresh := fresh w + 1\<rparr>)))"

definition IsStillDangling :: "User \<Rightarrow> nat \<Rightarrow> bool" where
  "IsStillDangling u token \<longleftrightarrow> dangleToken u = Some token"

definition SetDangleTimer :: "user_ref \<Rightarrow> nat \<Rightarrow> World \<Rightarrow> World" where
  "SetDangleTimer ur t = upd_user ur (\<lambda>u. u\<lparr>dangleTimer := Some t\<rparr>)"

definition StopDangleTimer :: "user_ref \<Rightarrow> World \<Rightarrow> World" where
  "StopDangleTimer ur = upd_user ur (\<lambda>u. u\<lparr>dangleTimer := None\<rparr>)"

definition ClearDangle :: "user_ref \<Rightarrow> World \<Rightarrow> World" where
  "ClearDangle ur = upd_user ur (\<lambda>u. u\<lparr>dangleTimer := None, dangleToken := None, DangleDeadline := None\<rparr>)"

definition dangleDeadlineMs :: "User \<Rightarrow> int \<Rightarrow> int" where
  "dangleDeadlineMs u nowMs = (case DangleDeadline u of None \<Rightarrow> 0
     | Some d \<Rightarrow> (let remain = d - nowMs in if remain < 0 then 0 else remain))"

section \<open>Rooms\<close>

definition NewRoom :: "RoomID \<Rightarrow> int \<Rightarrow> int \<Rightarrow> bool \<Rightarrow> Room" where
  "NewRoom rid hostID maxUsers replayEligible =
     \<lparr>rID = rid, MaxUsers = maxUsers, ReplayEligible = replayEligible, HostID = hostID,
      State = StateSelectChart, Live = False, Locked = False, Cycle = False, contest = None,
      users = [hostID], monitors = [], usersMap = [], monitorUsers = [], participantsSnapshot = None,
      chart = None, readyCancel = None, playDeadlineCancel = None, nextHostID = None\<rparr>"

definition maxRecentLogs :: nat where "maxRecentLogs = 50"
definition maxLogMessageLen :: nat where "maxLogMessageLen = 1000"

definition AddLog :: "room_ref \<Rightarrow> string \<Rightarrow> int \<Rightarrow> World \<Rightarrow> World" where
  "AddLog rr message timestamp w =
     (let message = (if length message > maxLogMessageLen then take maxLogMessageLen message @ ''...'' else message);
          logs = roomLogs w rr @ [\<lparr>log_Message = message, log_Timestamp = timestamp\<rparr>];
          logs = (if length logs > maxRecentLogs then drop (length logs - maxRecentLogs) logs else logs)
      in w\<lparr>roomLogs := (roomLogs w)(rr := logs)\<rparr>)"

definition RefreshLive :: "bool \<Rightarrow> Room \<Rightarrow> Room" where
  "RefreshLive replayEnabled r = r\<lparr>Live := length (monitors r) > 0 \<or> (replayEnabled \<and> ReplayEligible r)\<rparr>"

definition CheckHost :: "Room \<Rightarrow> User \<Rightarrow> string option" where
  "CheckHost r u = (if HostID r \<noteq> uID u then Some ''room-only-host'' else None)"

definition AllParticipantIDs :: "Room \<Rightarrow> int list" where
  "AllParticipantIDs r = users r @ monitors r"

definition IsEmpty :: "Room \<Rightarrow> bool" where
  "IsEmpty r \<longleftrightarrow> length (users r) = 0 \<and> length (monitors r) = 0"

fun contains_int :: "int list \<Rightarrow> int \<Rightarrow> bool" where
  "contains_int [] i = False"
| "contains_int (uid # us) i = (if uid = i then True else contains_int us i)"

definition ContainsUser :: "Room \<Rightarrow> int \<Rightarrow> bool" where
  "ContainsUser r i = contains_int (users r) i"

definition SetNextHost :: "int \<Rightarrow> Room \<Rightarrow> Room" where
  "SetNextHost i r = r\<lparr>nextHostID := Some i\<rparr>"

definition ClearNextHost :: "Room \<Rightarrow> Room" where
  "ClearNextHost r = r\<lparr>nextHostID := None\<rparr>"

text \<open>A plain conversion \<open>int32(n)\<close> wraps.\<close>

definition wrap_i32 :: "int \<Rightarrow> i32" where
  "wrap_i32 n = word_of_int n"

definition ClientRoomState_of :: "Room \<Rightarrow> RoomState" where
  "ClientRoomState_of r = (case State r of
     StateWaitForReady _ \<Rightarrow> RoomStateWaitingForReady
   | StatePlaying _ \<Rightarrow> RoomStatePlaying
   | StateSelectChart \<Rightarrow> RoomStateSelectChart (map_option (\<lambda>c. wrap_i32 (c_ID c)) (chart r)))"

definition clientRoomStateForJoin :: "Room \<Rightarrow> RoomState" where
  "clientRoomStateForJoin r = (case chart r of
     Some c \<Rightarrow> if State r \<noteq> StateSelectChart then RoomStateSelectChart (Some (wrap_i32 (c_ID c)))
               else ClientRoomState_of r
   | None \<Rightarrow> ClientRoomState_of r)"

definition removeInt :: "int list \<Rightarrow> int \<Rightarrow> int list" where
  "removeInt s v = remove1 v s"

text \<open>The order in which the two maps are iterated is arbitrary in Go; here it is the order of the
  association lists.\<close>

definition refreshParticipantsSnapshot :: "Room \<Rightarrow> Room" where
  "refreshParticipantsSnapshot r =
     r\<lparr>participantsSnapshot := Some (map snd (usersMap r) @ map snd (monitorUsers r))\<rparr>"

definition ParticipantsSnapshot :: "Room \<Rightarrow> user_ref list" where
  "ParticipantsSnapshot r = (case participantsSnapshot r of Some p \<Rightarrow> p | None \<Rightarrow> [])"

definition AddUser :: "User \<Rightarrow> user_ref \<Rightarrow> bool \<Rightarrow> Room \<Rightarrow> bool \<times> Room" where
  "AddUser u ur monitor r =
     (if monitor then
        (let r = (if uID u \<notin> set (monitors r) then r\<lparr>monitors := monitors r @ [uID u]\<rparr> else r);
             r = r\<lparr>monitorUsers := AList.update (uID u) ur (monitorUsers r)\<rparr>
         in (True, refreshParticipantsSnapshot r))
      else if int (length (users r)) \<ge> MaxUsers r \<and> uID u \<notin> set (users r) then (False, r)
      else
        (let r = (if uID u \<notin> set (users r) then r\<lparr>users := users r @ [uID u]\<rparr> else r);
             r = r\<lparr>usersMap := AList.update (uID u) ur (usersMap r)\<rparr>
         in (True, refreshParticipantsSnapshot r)))"

text \<open>The part of \<open>OnUserLeave\<close> that takes the user off the room's lists.\<close>

definition remove_member :: "User \<Rightarrow> Room \<Rightarrow> Room" where
  "remove_member u r =
     (if Monitor u then
        refreshParticipantsSnapshot (r\<lparr>monitors := removeInt (monitors r) (uID u),
          monitorUsers := AList.delete (uID u) (monitorUsers r)\<rparr>)
      else
        refreshParticipantsSnapshot (r\<lparr>users := removeInt (users r) (uID u),
          usersMap := AList.delete (uID u) (usersMap r)\<rparr>))"

section \<open>Choice of the next host\<close>

fun first_above :: "int \<Rightarrow> int list \<Rightarrow> int option" where
  "first_above old [] = None"
| "first_above old (i # is) = (if i > old then Some i else first_above old is)"

definition pickNextHost :: "int list \<Rightarrow> int \<Rightarrow> int option" where
  "pickNextHost ids oldHostID =
     (if length ids = 0 then None
      else let sorted = sort ids
           in case first_above oldHostID sorted of Some i \<Rightarrow> Some i | None \<Rightarrow> Some (hd sorted))"

section \<open>Validation\<close>

definition ValidateJoin :: "Env \<Rightarrow> Room \<Rightarrow> User \<Rightarrow> bool \<Rightarrow> string option" where
  "ValidateJoin env r u monitor =
     (if (\<exists>c\<in>set_option (contest r). uID u \<notin> Whitelist c) then Some ''room-not-whitelisted''
      else if Locked r then Some ''join-room-locked''
      else if monitor \<and> \<not> CanMonitor env u then Some ''join-cant-monitor''
      else None)"

definition ValidateStart :: "Room \<Rightarrow> User \<Rightarrow> string option" where
  "ValidateStart r u = (case CheckHost r u of
     Some e \<Rightarrow> Some e
   | None \<Rightarrow> if chart r = None then Some ''start-no-chart-selected''
             else if State r \<noteq> StateSelectChart then Some ''room-invalid-state'' else None)"

definition ValidateSelectChart :: "Room \<Rightarrow> User \<Rightarrow> string option" where
  "ValidateSelectChart r u = (case CheckHost r u of
     Some e \<Rightarrow> Some e
   | None \<Rightarrow> if State r \<noteq> StateSelectChart then Some ''room-invalid-state'' else None)"

definition contestWhitelist :: "Room \<Rightarrow> int list \<Rightarrow> int set" where
  "contestWhitelist r userIDs =
     (if length userIDs > 0 then set userIDs else set (AllParticipantIDs r)) \<union> set (AllParticipantIDs r)"

end
