(* ===== verification/Room_Lifecycle.thy ===== *)
theory Room_Lifecycle
  imports Room_Model
begin

text \<open>
  The life of a room (\<open>room_lifecycle.go\<close>, \<open>room_events.go\<close>, \<open>hub_broadcast.go\<close> and the two
  \<open>timer_*.go\<close> cancel functions): sending and logging, leaving, the transfer of the host, and the
  state machine SelectChart, WaitForReady, Playing.  A \<open>RoomLifecycle\<close> is the environment with the
  room reference; its \<open>UsersByID\<close> is the look-up in the room's \<open>usersMap\<close>, its \<open>PickNextHostID\<close> is
  \<open>pickNextHost\<close>.
\<close>

section \<open>Sending, logging, notifying\<close>

definition UsersByID :: "room_ref \<Rightarrow> World \<Rightarrow> int \<Rightarrow> user_ref option" where
  "UsersByID rr w i = map_of (usersMap (heapR w rr)) i"

definition send_all :: "user_ref list \<Rightarrow> ServerCommand \<Rightarrow> World \<Rightarrow> World" where
  "send_all us cmd w = fold (\<lambda>u. TrySend u cmd) us w"

definition BroadcastRoom :: "room_ref \<Rightarrow> ServerCommand \<Rightarrow> World \<Rightarrow> World" where
  "BroadcastRoom rr cmd w = send_all (ParticipantsSnapshot (heapR w rr)) cmd w"

definition BroadcastRoomExcept :: "room_ref \<Rightarrow> ServerCommand \<Rightarrow> int set \<Rightarrow> World \<Rightarrow> World" where
  "BroadcastRoomExcept rr cmd exclude w =
     send_all (filter (\<lambda>u. uID (heapU w u) \<notin> exclude) (ParticipantsSnapshot (heapR w rr))) cmd w"

definition broadcastToMonitors :: "room_ref \<Rightarrow> ServerCommand \<Rightarrow> World \<Rightarrow> World" where
  "broadcastToMonitors rr cmd w = send_all (map snd (monitorUsers (heapR w rr))) cmd w"

definition nameOf :: "room_ref \<Rightarrow> World \<Rightarrow> int \<Rightarrow> string" where
  "nameOf rr w i = (case UsersByID rr w i of Some u \<Rightarrow> Name (heapU w u) | None \<Rightarrow> Itoa i)"

fun formatMessageForLog :: "Env \<Rightarrow> room_ref \<Rightarrow> World \<Rightarrow> Message \<Rightarrow> string" where
  "formatMessageForLog env rr w (MsgCreateRoom u) =
     TL env (ServerLang env) ''log-msg-create-room'' [(''user'', AStr (nameOf rr w (sint u)))]"
| "formatMessageForLog env rr w (MsgJoinRoom _ n) = TL env (ServerLang env) ''log-msg-join-room'' [(''name'', AStr n)]"
| "formatMessageForLog env rr w (MsgLeaveRoom _ n) = TL env (ServerLang env) ''log-msg-leave-room'' [(''name'', AStr n)]"
| "formatMessageForLog env rr w (MsgNewHost u) =
     TL env (ServerLang env) ''log-msg-new-host'' [(''user'', AStr (nameOf rr w (sint u)))]"
| "formatMessageForLog env rr w (MsgSelectChart u n cid) =
     TL env (ServerLang env) ''log-msg-select-chart''
       [(''user'', AStr (nameOf rr w (sint u))), (''name'', AStr n), (''id'', AInt (sint cid))]"
| "formatMessageForLog env rr w (MsgGameStart u) =
     TL env (ServerLang env) ''log-msg-game-start'' [(''user'', AStr (nameOf rr w (sint u)))]"
| "formatMessageForLog env rr w (MsgReady u) =
     TL env (ServerLang env) ''log-msg-ready'' [(''user'', AStr (nameOf rr w (sint u)))]"
| "formatMessageForLog env rr w (MsgCancelReady u) =
     TL env (ServerLang env) ''log-msg-cancel-ready'' [(''user'', AStr (nameOf rr w (sint u)))]"
| "formatMessageForLog env rr w (MsgCancelGame u) =
     TL env (ServerLang env) ''log-msg-cancel-game'' [(''user'', AStr (nameOf rr w (sint u)))]"
| "formatMessageForLog env rr w MsgStartPlaying = TL env (ServerLang env) ''log-msg-start-playing'' []"
| "formatMessageForLog env rr w (MsgPlayed u score acc fc) =
     TL env (ServerLang env) ''log-msg-played''
       [(''user'', AStr (nameOf rr w (sint u))), (''score'', AInt (sint score)), (''acc'', APercent32 acc), (''fc'', ABool fc)]"
| "formatMessageForLog env rr w MsgGameEnd = TL env (ServerLang env) ''log-msg-game-end'' []"
| "formatMessageForLog env rr w (MsgAbort u) =
     TL env (ServerLang env) ''log-msg-abort'' [(''user'', AStr (nameOf rr w (sint u)))]"
| "formatMessageForLog env rr w (MsgLockRoom lock) = TL env (ServerLang env) ''log-msg-lock-room'' [(''lock'', ABool lock)]"
| "formatMessageForLog env rr w (MsgCycleRoom cycle) = TL env (ServerLang env) ''log-msg-cycle-room'' [(''cycle'', ABool cycle)]"
| "formatMessageForLog env rr w (MsgChat _ _) = []"

definition Send :: "Env \<Rightarrow> room_ref \<Rightarrow> Message \<Rightarrow> World \<Rightarrow> World" where
  "Send env rr msg w =
     (let w = (case msg of
            MsgChat _ content \<Rightarrow> AddLog rr content (now w) w
          | _ \<Rightarrow> (let logText = formatMessageForLog env rr w msg
                  in if logText \<noteq> [] then AddLog rr logText (now w) w else w))
      in BroadcastRoom rr (SrvMessage msg) w)"

definition SystemChat :: "Env \<Rightarrow> room_ref \<Rightarrow> string \<Rightarrow> World \<Rightarrow> World" where
  "SystemChat env rr content w =
     Send env rr (MsgChat (to_i32 (SystemUserID env)) content) (check_i32 (SystemUserID env) w)"

definition SendAs :: "Env \<Rightarrow> room_ref \<Rightarrow> user_ref \<Rightarrow> string \<Rightarrow> World \<Rightarrow> World" where
  "SendAs env rr ur content w =
     Send env rr (MsgChat (to_i32 (uID (heapU w ur))) content) (check_i32 (uID (heapU w ur)) w)"

definition log_room :: "LogLevel \<Rightarrow> Env \<Rightarrow> room_ref \<Rightarrow> string \<Rightarrow> args \<Rightarrow> World \<Rightarrow> World" where
  "log_room level env rr key arg w =
     (if \<not> HasLogger env then w
      else emit (Log level (TL env (ServerLang env) key (AList.update ''room'' (AStr (rID (heapR w rr))) arg))) w)"

definition logRoomInfo :: "Env \<Rightarrow> room_ref \<Rightarrow> string \<Rightarrow> args \<Rightarrow> World \<Rightarrow> World" where
  "logRoomInfo = log_room INFO"

definition logRoomMark :: "Env \<Rightarrow> room_ref \<Rightarrow> string \<Rightarrow> args \<Rightarrow> World \<Rightarrow> World" where
  "logRoomMark = log_room MARK"

definition NotifyWebSocket :: "Env \<Rightarrow> room_ref \<Rightarrow> World \<Rightarrow> World" where
  "NotifyWebSocket env rr w = (if HasWS env then emit WsAdmin (emit (WsRoom (rID (heapR w rr))) w) else w)"

definition OnStateChange :: "room_ref \<Rightarrow> World \<Rightarrow> World" where
  "OnStateChange rr w = BroadcastRoom rr (SrvChangeState (ClientRoomState_of (heapR w rr))) w"

definition NotifyState :: "Env \<Rightarrow> room_ref \<Rightarrow> World \<Rightarrow> World" where
  "NotifyState env rr w = NotifyWebSocket env rr (OnStateChange rr w)"

definition LogAndBroadcast :: "Env \<Rightarrow> room_ref \<Rightarrow> string \<Rightarrow> args \<Rightarrow> Message \<Rightarrow> World \<Rightarrow> World" where
  "LogAndBroadcast env rr key arg msg w =
     Send env rr msg (if key \<noteq> [] then logRoomInfo env rr key arg w else w)"

definition MarkAndBroadcast :: "Env \<Rightarrow> room_ref \<Rightarrow> string \<Rightarrow> args \<Rightarrow> Message \<Rightarrow> World \<Rightarrow> World" where
  "MarkAndBroadcast env rr key arg msg w =
     Send env rr msg (if key \<noteq> [] then logRoomMark env rr key arg w else w)"

definition LogBroadcastAndNotify :: "Env \<Rightarrow> room_ref \<Rightarrow> string \<Rightarrow> args \<Rightarrow> Message \<Rightarrow> World \<Rightarrow> World" where
  "LogBroadcastAndNotify env rr key arg msg w = NotifyWebSocket env rr (LogAndBroadcast env rr key arg msg w)"

definition MarkBroadcastAndNotify :: "Env \<Rightarrow> room_ref \<Rightarrow> string \<Rightarrow> args \<Rightarrow> Message \<Rightarrow> World \<Rightarrow> World" where
  "MarkBroadcastAndNotify env rr key arg msg w = NotifyWebSocket env rr (MarkAndBroadcast env rr key arg msg w)"

section \<open>Events and ranking\<close>

definition EmitEvent :: "Env \<Rightarrow> Event \<Rightarrow> World \<Rightarrow> World" where
  "EmitEvent env ev w =
     (if \<not> HasEvents env then w
      else let ev = (if ev_Time ev = None then ev\<lparr>ev_Time := Some (now w)\<rparr> else ev);
               ev = (if ev_Server ev = [] then ev\<lparr>ev_Server := ServerName env\<rparr> else ev)
           in emit (Emit ev) w)"

definition EmitRoomEvent :: "Env \<Rightarrow> room_ref \<Rightarrow> Event \<Rightarrow> World \<Rightarrow> World" where
  "EmitRoomEvent env rr ev w =
     (let ev = (if ev_RoomID ev = [] then ev\<lparr>ev_RoomID := rID (heapR w rr)\<rparr> else ev);
          ev = (if ev_UserCount ev = 0 then ev\<lparr>ev_UserCount := int (length (users (heapR w rr)))\<rparr> else ev)
      in EmitEvent env ev w)"

definition EmitUserEvent :: "Env \<Rightarrow> room_ref \<Rightarrow> EventType \<Rightarrow> user_ref \<Rightarrow> World \<Rightarrow> World" where
  "EmitUserEvent env rr typ ur w =
     EmitRoomEvent env rr ((new_event typ)\<lparr>ev_UserID := uID (heapU w ur), ev_UserName := Name (heapU w ur)\<rparr>) w"

definition rank_entry :: "room_ref \<Rightarrow> World \<Rightarrow> int \<times> RecordData \<Rightarrow> ScoreRankEntry" where
  "rank_entry rr w e =
     (let name = (case map_of (usersMap (heapR w rr)) (fst e) of Some u \<Rightarrow> Name (heapU w u) | None \<Rightarrow> []);
          name = (if name = [] then Itoa (fst e) else name)
      in \<lparr>sr_PlayerID = fst e, sr_Player = name, sr_Score = rec_Score (snd e),
          sr_StdScore = (case rec_StdScore (snd e) of Some x \<Rightarrow> x | None \<Rightarrow> 0)\<rparr>)"

definition BuildScoreRank :: "room_ref \<Rightarrow> World \<Rightarrow> PlayingData \<Rightarrow> ScoreRankEntry list" where
  "BuildScoreRank rr w st =
     (if Results st = [] then []
      else sort_key (\<lambda>e. (- sr_Score e, sr_Player e)) (map (rank_entry rr w) (Results st)))"

definition ranking_ids :: "PlayingData \<Rightarrow> int list" where
  "ranking_ids st = sort_key (\<lambda>i. (- rec_Score (the (map_of (Results st) i)), i)) (map fst (Results st))"

definition ranking_line :: "Env \<Rightarrow> room_ref \<Rightarrow> World \<Rightarrow> PlayingData \<Rightarrow> nat \<Rightarrow> int \<Rightarrow> string" where
  "ranking_line env rr w st i uid =
     (let res = the (map_of (Results st) uid);
          arg = [(''rank'', AInt (int i + 1)), (''name'', AStr (nameOf rr w uid)),
                 (''score'', AInt (rec_Score res)), (''acc'', APercent (rec_Accuracy res))];
          arg = (case rec_Std res of
              Some s \<Rightarrow> arg @ [(''hasStd'', ABool True), (''std'', AStd s)]
            | None \<Rightarrow> arg @ [(''hasStd'', ABool False)])
      in TL env (ServerLang env) ''chat-game-ranking-line'' arg)"

fun join_lines :: "string \<Rightarrow> string list \<Rightarrow> string" where
  "join_lines sep [] = []"
| "join_lines sep [l] = l"
| "join_lines sep (l # ls) = l @ sep @ join_lines sep ls"

definition newline :: string where "newline = [CHR 0x0A]"

definition broadcastGameRanking :: "Env \<Rightarrow> room_ref \<Rightarrow> PlayingData \<Rightarrow> World \<Rightarrow> World" where
  "broadcastGameRanking env rr st w =
     (if length (Results st) \<le> 1 then w
      else let ids = ranking_ids st;
               ls = map (\<lambda>(i, uid). ranking_line env rr w st i uid) (enumerate 0 ids);
               text = newline @ replicate 72 CHR ''='' @ newline
                 @ TL env (ServerLang env) ''chat-game-ranking-title'' [] @ newline @ join_lines newline ls
           in SystemChat env rr text w)"

section \<open>Timers of the room\<close>

definition cancelReadyCountdown :: "room_ref \<Rightarrow> World \<Rightarrow> World" where
  "cancelReadyCountdown rr w = (case readyCancel (heapR w rr) of
     None \<Rightarrow> w
   | Some c \<Rightarrow> (upd_room rr (\<lambda>r. r\<lparr>readyCancel := None\<rparr>) w)\<lparr>cancelled := insert c (cancelled w)\<rparr>)"

definition cancelPlayDeadline :: "room_ref \<Rightarrow> World \<Rightarrow> World" where
  "cancelPlayDeadline rr w = (case playDeadlineCancel (heapR w rr) of
     None \<Rightarrow> w
   | Some c \<Rightarrow> (upd_room rr (\<lambda>r. r\<lparr>playDeadlineCancel := None\<rparr>) w)\<lparr>cancelled := insert c (cancelled w)\<rparr>)"

section \<open>The state machine\<close>

definition ResetGameTime :: "(int \<Rightarrow> user_ref option) \<Rightarrow> room_ref \<Rightarrow> World \<Rightarrow> World" where
  "ResetGameTime usersByID rr w =
     fold (\<lambda>i w. case usersByID i of Some u \<Rightarrow> w\<lparr>gameTime := (gameTime w)(u := NegInf)\<rparr> | None \<Rightarrow> w)
       (users (heapR w rr)) w"

definition joinIntIDs :: "int list \<Rightarrow> string \<Rightarrow> string" where
  "joinIntIDs ids sep = join_lines sep (map Itoa ids)"

definition list_sep :: "Env \<Rightarrow> string" where
  "list_sep env = (if ServerLang env = ''zh-CN'' then [CHR 0xE3, CHR 0x80, CHR 0x81] else '', '')"

definition new_playing :: "int \<Rightarrow> PlayingData" where
  "new_playing t = \<lparr>Results = [], Aborted = {}, ReconnectNotified = None, StartedAt = t\<rparr>"

definition log_game_start :: "Env \<Rightarrow> room_ref \<Rightarrow> World \<Rightarrow> World" where
  "log_game_start env rr w =
     (let r = heapR w rr;
          suffix = (if length (monitors r) > 0
            then TL env (ServerLang env) ''log-room-game-start-monitors'' [(''monitors'', AStr (joinIntIDs (monitors r) (list_sep env)))]
            else [])
      in logRoomInfo env rr ''log-room-game-start''
           [(''users'', AStr (joinIntIDs (users r) (list_sep env))), (''monitorsSuffix'', AStr suffix)] w)"

definition startPlaying :: "Env \<Rightarrow> room_ref \<Rightarrow> int list \<Rightarrow> World \<Rightarrow> World" where
  "startPlaying env rr unreadyIDs w =
     (let w = cancelReadyCountdown rr w;
          w = cancelPlayDeadline rr w;
          w = (if HasEnterPlaying env then emit (EnterPlaying rr) w else w);
          w = log_game_start env rr w;
          logText = formatMessageForLog env rr w MsgStartPlaying;
          w = (if logText \<noteq> [] then AddLog rr logText (now w) w else w);
          w = ResetGameTime (UsersByID rr w) rr w;
          w = upd_room rr (\<lambda>r. r\<lparr>State := StatePlaying (new_playing (now w))\<rparr>) w;
          startCmd = SrvMessage MsgStartPlaying;
          stateCmd = SrvChangeState (ClientRoomState_of (heapR w rr));
          w = (if length unreadyIDs > 0
               then BroadcastRoomExcept rr stateCmd (set unreadyIDs) (BroadcastRoomExcept rr startCmd (set unreadyIDs) w)
               else BroadcastRoom rr stateCmd (BroadcastRoom rr startCmd w))
      in NotifyState env rr w)"

definition checkWaitForReady :: "Env \<Rightarrow> room_ref \<Rightarrow> int set \<Rightarrow> World \<Rightarrow> World" where
  "checkWaitForReady env rr started w =
     (let r = heapR w rr
      in if (\<exists>i\<in>set (AllParticipantIDs r). i \<notin> started) then w
         else if (\<exists>c\<in>set_option (contest r). ManualStart c) then w
         else startPlaying env rr [] w)"

definition has_finished :: "PlayingData \<Rightarrow> int \<Rightarrow> bool" where
  "has_finished st i \<longleftrightarrow> map_of (Results st) i \<noteq> None \<or> i \<in> Aborted st"

fun notify_loop :: "Env \<Rightarrow> room_ref \<Rightarrow> int list \<Rightarrow> int set \<Rightarrow> World \<Rightarrow> int set \<times> World" where
  "notify_loop env rr [] notified w = (notified, w)"
| "notify_loop env rr (i # is) notified w =
     (if i \<in> notified then notify_loop env rr is notified w
      else case UsersByID rr w i of
          None \<Rightarrow> notify_loop env rr is notified w
        | Some u \<Rightarrow>
            (let remainMs = dangleDeadlineMs (heapU w u) (now w);
                 seconds = max 1 ((remainMs + 999) div 1000);
                 w = SystemChat env rr (TL env (ServerLang env) ''chat-waiting-reconnect''
                       [(''user'', AStr (Name (heapU w u))), (''seconds'', AInt seconds)]) w
             in notify_loop env rr is (insert i notified) w))"

text \<open>The caller passes a pointer to its own copy of the playing state: the map of notified players
  is shared with the room only when it exists already, a map made here is lost.\<close>

definition notifyDanglingReconnect :: "Env \<Rightarrow> room_ref \<Rightarrow> PlayingData \<Rightarrow> World \<Rightarrow> World" where
  "notifyDanglingReconnect env rr st w =
     (let unfinished = filter (\<lambda>i. \<not> has_finished st i) (users (heapR w rr));
          dangling = filter (\<lambda>i. case UsersByID rr w i of None \<Rightarrow> True | Some u \<Rightarrow> session (heapU w u) = None) unfinished
      in if length unfinished = 0 \<or> length dangling \<noteq> length unfinished then w
         else case ReconnectNotified st of
             None \<Rightarrow> snd (notify_loop env rr dangling {} w)
           | Some notified \<Rightarrow>
               (let (notified', w) = notify_loop env rr dangling notified w
                in upd_room rr (\<lambda>r. case State r of
                       StatePlaying p \<Rightarrow> r\<lparr>State := StatePlaying (p\<lparr>ReconnectNotified := Some notified'\<rparr>)\<rparr>
                     | _ \<Rightarrow> r) w))"

definition choose_cycle_host :: "Room \<Rightarrow> int option" where
  "choose_cycle_host r = (case nextHostID r of
     Some cand \<Rightarrow> if cand \<noteq> HostID r \<and> ContainsUser r cand then Some cand else pickNextHost (users r) (HostID r)
   | None \<Rightarrow> pickNextHost (users r) (HostID r))"

definition send_change_host :: "room_ref \<Rightarrow> int \<Rightarrow> bool \<Rightarrow> World \<Rightarrow> World" where
  "send_change_host rr i isHost w = (case UsersByID rr w i of
     Some u \<Rightarrow> TrySend u (SrvChangeHost isHost) w | None \<Rightarrow> w)"

definition rotateCycleHost :: "Env \<Rightarrow> room_ref \<Rightarrow> World \<Rightarrow> World" where
  "rotateCycleHost env rr w =
     (let oldHost = HostID (heapR w rr);
          chosen = choose_cycle_host (heapR w rr);
          w = upd_room rr (\<lambda>r. r\<lparr>nextHostID := None\<rparr>) w
      in case chosen of
           None \<Rightarrow> w
         | Some newHost \<Rightarrow>
             (let w = upd_room rr (\<lambda>r. r\<lparr>HostID := newHost\<rparr>) w;
                  w = logRoomInfo env rr ''log-room-host-changed-cycle'' [(''old'', AInt oldHost), (''next'', AInt newHost)] w;
                  w = Send env rr (MsgNewHost (wrap_i32 newHost)) w;
                  w = send_change_host rr oldHost False w
              in send_change_host rr newHost True w))"

definition checkPlaying :: "Env \<Rightarrow> room_ref \<Rightarrow> PlayingData \<Rightarrow> World \<Rightarrow> bool \<times> World" where
  "checkPlaying env rr st w =
     (if (\<exists>i\<in>set (users (heapR w rr)). \<not> has_finished st i)
      then (False, notifyDanglingReconnect env rr st w)
      else
        (let w = broadcastGameRanking env rr st w;
             w = logRoomInfo env rr ''log-room-game-end''
                   [(''uploaded'', AInt (int (length (Results st)))), (''aborted'', AInt (int (card (Aborted st))))] w;
             w = Send env rr MsgGameEnd w;
             w = (if HasGameEnd env then emit (GameEnd rr) w else w);
             w = cancelPlayDeadline rr w;
             w = upd_room rr (\<lambda>r. r\<lparr>State := StateSelectChart\<rparr>) w
         in if (\<exists>c\<in>set_option (contest (heapR w rr)). AutoDisband c) then (True, w)
            else (let w = (if Cycle (heapR w rr) \<and> length (users (heapR w rr)) > 1 then rotateCycleHost env rr w else w)
                  in (False, NotifyState env rr w))))"

definition CheckAllReady :: "Env \<Rightarrow> room_ref \<Rightarrow> World \<Rightarrow> bool \<times> World" where
  "CheckAllReady env rr w = (case State (heapR w rr) of
     StateWaitForReady started \<Rightarrow> (False, checkWaitForReady env rr started w)
   | StatePlaying st \<Rightarrow> checkPlaying env rr st w
   | StateSelectChart \<Rightarrow> (False, w))"

section \<open>Leaving\<close>

text \<open>\<open>OnUserLeave\<close> in its three parts: the announcement and the removal from the lists, the hand-over
  to a new host, the notification with the check of the state machine.\<close>

definition take_out :: "Env \<Rightarrow> room_ref \<Rightarrow> user_ref \<Rightarrow> World \<Rightarrow> World" where
  "take_out env rr ur w =
     (let u = heapU w ur;
          w = Send env rr (MsgLeaveRoom (to_i32 (uID u)) (Name u)) (check_i32 (uID u) w);
          w = upd_user ur (\<lambda>u. u\<lparr>uRoom := None\<rparr>) w
      in upd_room rr (remove_member u) w)"

definition hand_over :: "Env \<Rightarrow> room_ref \<Rightarrow> int \<Rightarrow> int \<Rightarrow> World \<Rightarrow> World" where
  "hand_over env rr old newHost w =
     (let w = upd_room rr (\<lambda>r. r\<lparr>HostID := newHost\<rparr>) w;
          w = logRoomInfo env rr ''log-room-host-changed-offline'' [(''old'', AInt old), (''next'', AInt newHost)] w;
          w = Send env rr (MsgNewHost (wrap_i32 newHost)) w
      in send_change_host rr newHost True w)"

definition finish_leave :: "Env \<Rightarrow> room_ref \<Rightarrow> World \<Rightarrow> (bool \<times> bool) \<times> World" where
  "finish_leave env rr w =
     (let (disband, w) = CheckAllReady env rr (NotifyWebSocket env rr w)
      in ((IsEmpty (heapR w rr), disband), w))"

definition OnUserLeave :: "Env \<Rightarrow> room_ref \<Rightarrow> user_ref \<Rightarrow> World \<Rightarrow> (bool \<times> bool) \<times> World" where
  "OnUserLeave env rr ur w =
     (let i = uID (heapU w ur);
          w = take_out env rr ur w
      in if HostID (heapR w rr) = i then
           (if length (users (heapR w rr)) = 0 then ((True, False), w)
            else case pickNextHost (users (heapR w rr)) i of
                None \<Rightarrow> ((True, False), w)
              | Some newHost \<Rightarrow> finish_leave env rr (hand_over env rr i newHost w))
         else finish_leave env rr w)"

fun disband_loop :: "Env \<Rightarrow> room_ref \<Rightarrow> user_ref list \<Rightarrow> World \<Rightarrow> World" where
  "disband_loop env rr [] w = w"
| "disband_loop env rr (u # us) w =
     (case uRoom (heapU w u) of
        None \<Rightarrow> disband_loop env rr us w
      | Some rr' \<Rightarrow> if rID (heapR w rr') \<noteq> rID (heapR w rr) then disband_loop env rr us w
                   else disband_loop env rr us (snd (OnUserLeave env rr u w)))"

definition DisbandRoom :: "Env \<Rightarrow> room_ref \<Rightarrow> World \<Rightarrow> World" where
  "DisbandRoom env rr w =
     (let w = cancelReadyCountdown rr w;
          w = cancelPlayDeadline rr w;
          w = disband_loop env rr (ParticipantsSnapshot (heapR w rr)) w;
          w = delete_room (rID (heapR w rr)) w
      in EmitRoomEvent env rr (new_event EventRoomDisband) w)"

end
