(* ===== verification/Hub_Ops.thy ===== *)
theory Hub_Ops
  imports Room_Lifecycle
begin

text \<open>
  The operations of the hub on rooms: creating and joining (\<open>hub_room_ops.go\<close>), contests
  (\<open>room_contest.go\<close>), moving an offline user (\<open>room_move.go\<close>), the operations of an administrator
  (\<open>admin_room.go\<close>), the two countdowns (\<open>timer_ready_countdown.go\<close>, \<open>timer_play_deadline.go\<close>), the
  protocol compensations (\<open>protocol_hack.go\<close>) and the welcome text (\<open>welcome.go\<close>).  An operation that
  returns an error returns its key as \<open>Some\<close>.
\<close>

section \<open>Texts and hints\<close>

definition localize :: "Env \<Rightarrow> User \<Rightarrow> string \<Rightarrow> string" where
  "localize env u key = TL env (Lang u) key []"

definition tlOrSkip :: "Env \<Rightarrow> string \<Rightarrow> string \<Rightarrow> args \<Rightarrow> string option" where
  "tlOrSkip env lang key arg = (let s = TL env lang key arg in if s = [] \<or> s = key then None else Some s)"

definition isBanned :: "World \<Rightarrow> User \<Rightarrow> bool" where
  "isBanned w u \<longleftrightarrow> uID u \<in> BannedUsers w"

definition monitorSuffix :: "Env \<Rightarrow> bool \<Rightarrow> string" where
  "monitorSuffix env monitor = (if \<not> monitor then [] else TL env (ServerLang env) ''label-monitor-suffix'' [])"

definition sysID :: "Env \<Rightarrow> i32" where
  "sysID env = to_i32 (SystemUserID env)"

definition sendReplayRecorderHint :: "Env \<Rightarrow> user_ref \<Rightarrow> World \<Rightarrow> World" where
  "sendReplayRecorderHint env ur w = (case tlOrSkip env (ServerLang env) ''chat-replay-recorder-hint'' [] of
     None \<Rightarrow> w
   | Some hint \<Rightarrow> TrySend ur (SrvMessage (MsgChat (sysID env) hint)) (check_i32 (SystemUserID env) w))"

definition sendLateJoinHint :: "Env \<Rightarrow> user_ref \<Rightarrow> World \<Rightarrow> World" where
  "sendLateJoinHint env ur w = (case tlOrSkip env (ServerLang env) ''chat-late-join-hint'' [] of
     None \<Rightarrow> w
   | Some hint \<Rightarrow> schedule (hackDelay env) (DSend ur (SrvMessage (MsgChat (sysID env) hint)))
       (check_i32 (SystemUserID env) w))"

definition sendFakeMonitorJoin :: "Env \<Rightarrow> user_ref \<Rightarrow> room_ref \<Rightarrow> World \<Rightarrow> World" where
  "sendFakeMonitorJoin env ur rr w =
     (if \<not> ReplayEnabled w \<or> \<not> ReplayEligible (heapR w rr) then w
      else schedule (hackDelay env) (DFakeMonitorJoin ur (rID (heapR w rr))) w)"

definition run_fake_monitor_join :: "Env \<Rightarrow> user_ref \<Rightarrow> RoomID \<Rightarrow> World \<Rightarrow> World" where
  "run_fake_monitor_join env ur roomID w = (case uRoom (heapU w ur) of
     None \<Rightarrow> w
   | Some rr \<Rightarrow>
       if rID (heapR w rr) \<noteq> roomID \<or> \<not> HasRecorder env then w
       else let fake = FakeMonitorInfo env (TL env (ServerLang env) ''replay-recorder-name'' []);
                w = TrySend ur (SrvOnJoinRoom fake) w;
                w = TrySend ur (SrvMessage (MsgJoinRoom (ui_ID fake) (ui_Name fake))) w
            in sendReplayRecorderHint env ur w)"

section \<open>Creating and joining\<close>

definition ProcessCreateRoom :: "Env \<Rightarrow> user_ref \<Rightarrow> RoomID \<Rightarrow> World \<Rightarrow> string option \<times> World" where
  "ProcessCreateRoom env ur rid w =
     (let u = heapU w ur in
      if isBanned w u then (Some ''user-banned-by-server'', w)
      else if Maintenance w then (Some ''server-maintenance'', w)
      else if \<not> RoomCreationEnabled w then (Some ''room-creation-disabled'', w)
      else if uRoom u \<noteq> None then (Some ''room-already-in-room'', w)
      else if map_of (Rooms w) rid \<noteq> None then (Some ''create-id-occupied'', w)
      else if MaxRooms env \<ge> 1 \<and> int (length (Rooms w)) \<ge> MaxRooms env then (Some ''rooms-limit-reached'', w)
      else
        (let rr = nextR w;
             room = NewRoom rid (uID u) (RoomMaxUsers env) (ReplayEnabled w);
             room = refreshParticipantsSnapshot (room\<lparr>usersMap := AList.update (uID u) ur (usersMap room)\<rparr>);
             room = RefreshLive (ReplayEnabled w) room;
             w = w\<lparr>nextR := rr + 1, heapR := (heapR w)(rr := room), roomLogs := (roomLogs w)(rr := []),
                   Rooms := AList.update rid rr (Rooms w)\<rparr>;
             w = upd_user ur (\<lambda>u. u\<lparr>uRoom := Some rr\<rparr>) w;
             w = logRoomMark env rr ''log-room-created'' [(''user'', AStr (Name u))] w;
             w = Send env rr (MsgCreateRoom (to_i32 (uID u))) (check_i32 (uID u) w);
             w = EmitUserEvent env rr EventRoomCreate ur w
         in (None, sendFakeMonitorJoin env ur rr w)))"

definition HandleJoin :: "Env \<Rightarrow> room_ref \<Rightarrow> user_ref \<Rightarrow> World \<Rightarrow> World" where
  "HandleJoin env rr ur w = (case State (heapR w rr) of
     StatePlaying st \<Rightarrow>
       (let u = heapU w ur in
        if Monitor u \<or> uID u \<in> Aborted st then w
        else logRoomInfo env rr ''log-user-join-late'' [(''user'', AStr (Name u)), (''room'', AStr (rID (heapR w rr)))]
               (upd_room rr (\<lambda>r. r\<lparr>State := StatePlaying (st\<lparr>Aborted := insert (uID u) (Aborted st)\<rparr>)\<rparr>) w))
   | _ \<Rightarrow> w)"

definition is_late :: "Room \<Rightarrow> int \<Rightarrow> bool" where
  "is_late r i = (case State r of StatePlaying st \<Rightarrow> i \<in> Aborted st | _ \<Rightarrow> False)"

definition participant_infos :: "room_ref \<Rightarrow> World \<Rightarrow> UserInfo list" where
  "participant_infos rr w =
     map (\<lambda>u. ToInfo (heapU w u)) (List.map_filter (map_of (Users w)) (AllParticipantIDs (heapR w rr)))"

definition ProcessJoinRoom :: "Env \<Rightarrow> user_ref \<Rightarrow> RoomID \<Rightarrow> bool \<Rightarrow> World \<Rightarrow> (string + JoinRoomResponse) \<times> World" where
  "ProcessJoinRoom env ur rid monitor w =
     (let u = heapU w ur in
      if isBanned w u then (Inl ''user-banned-by-server'', w)
      else if Maintenance w then (Inl ''server-maintenance'', w)
      else if uRoom u \<noteq> None then (Inl ''room-already-in-room'', w)
      else if (\<exists>b\<in>set_option (map_of (BannedRoomUsers w) rid). uID u \<in> b) then (Inl ''room-banned'', w)
      else case map_of (Rooms w) rid of
          None \<Rightarrow> (Inl ''room-not-found'', w)
        | Some rr \<Rightarrow>
            (case ValidateJoin env (heapR w rr) u monitor of
               Some e \<Rightarrow> (Inl e, w)
             | None \<Rightarrow>
                 (let (ok, room) = AddUser u ur monitor (heapR w rr)
                  in if \<not> ok then (Inl ''join-room-full'', w)
                     else
                       (let w = upd_room rr (\<lambda>_. room) w;
                            w = upd_user ur (\<lambda>u. u\<lparr>Monitor := monitor, uRoom := Some rr\<rparr>) w;
                            w = HandleJoin env rr ur w;
                            w = (if \<not> monitor \<and> is_late (heapR w rr) (uID u) then sendLateJoinHint env ur w else w);
                            w = upd_room rr (RefreshLive (ReplayEnabled w)) w;
                            w = logRoomMark env rr ''log-room-joined''
                                  [(''user'', AStr (Name u)), (''suffix'', AStr (monitorSuffix env monitor))] w;
                            w = BroadcastRoom rr (SrvOnJoinRoom (ToInfo (heapU w ur))) (check_i32 (uID u) w);
                            w = Send env rr (MsgJoinRoom (to_i32 (uID u)) (Name u)) (check_i32 (uID u) w);
                            w = sendFakeMonitorJoin env ur rr w;
                            w = EmitUserEvent env rr EventUserJoin ur w
                        in (Inr \<lparr>jr_State = clientRoomStateForJoin (heapR w rr), jr_Users = participant_infos rr w,
                                 jr_Live = Live (heapR w rr)\<rparr>, w)))))"

section \<open>Contests\<close>

definition EnableContest :: "room_ref \<Rightarrow> int list \<Rightarrow> World \<Rightarrow> World" where
  "EnableContest rr userIDs w = upd_room rr (\<lambda>r. r\<lparr>contest :=
     Some \<lparr>Whitelist = contestWhitelist r userIDs, ManualStart = True, AutoDisband = True\<rparr>\<rparr>) w"

definition DisableContest :: "room_ref \<Rightarrow> World \<Rightarrow> World" where
  "DisableContest rr w = upd_room rr (\<lambda>r. r\<lparr>contest := None\<rparr>) w"

definition SetContestWhitelist :: "room_ref \<Rightarrow> int list \<Rightarrow> World \<Rightarrow> bool \<times> World" where
  "SetContestWhitelist rr userIDs w = (case contest (heapR w rr) of
     None \<Rightarrow> (False, w)
   | Some c \<Rightarrow> (True, upd_room rr (\<lambda>r. r\<lparr>contest := Some (c\<lparr>Whitelist := contestWhitelist r userIDs\<rparr>)\<rparr>) w))"

definition StartContest :: "Env \<Rightarrow> room_ref \<Rightarrow> bool \<Rightarrow> World \<Rightarrow> string option \<times> World" where
  "StartContest env rr force w =
     (let r = heapR w rr in
      if contest r = None then (Some ''contest-room-not-found'', w)
      else case State r of
          StateWaitForReady started \<Rightarrow>
            if chart r = None then (Some ''no-chart-selected'', w)
            else if \<not> force \<and> (\<exists>i\<in>set (AllParticipantIDs r). i \<notin> started) then (Some ''not-all-ready'', w)
            else (None, startPlaying env rr [] w)
        | _ \<Rightarrow> (Some ''room-not-waiting'', w))"

section \<open>Administration\<close>

definition MoveUser :: "Env \<Rightarrow> user_ref \<Rightarrow> room_ref \<Rightarrow> bool \<Rightarrow> World \<Rightarrow> string option \<times> World" where
  "MoveUser env ur toRoom monitor w =
     (let u = heapU w ur in
      if IsConnected u then (Some ''user-must-be-disconnected'', w)
      else case uRoom u of
          None \<Rightarrow> (Some ''user-not-in-room'', w)
        | Some from \<Rightarrow>
            if State (heapR w from) \<noteq> StateSelectChart then (Some ''cannot-move-while-playing'', w)
            else if State (heapR w toRoom) \<noteq> StateSelectChart then (Some ''target-room-not-idle'', w)
            else case ValidateJoin env (heapR w toRoom) u monitor of
                Some e \<Rightarrow> (Some e, w)
              | None \<Rightarrow>
                  (let (ok, room) = AddUser u ur monitor (heapR w toRoom)
                   in if \<not> ok then (Some ''join-room-full'', w)
                      else
                        (let w = upd_room toRoom (\<lambda>_. room) w;
                             ((shouldDrop, _), w) = OnUserLeave env from ur w;
                             w = (if shouldDrop then delete_room (rID (heapR w from)) w else w)
                         in (None, upd_user ur (\<lambda>u. u\<lparr>Monitor := monitor, uRoom := Some toRoom\<rparr>) w))))"

definition adminActorLabel :: "Env \<Rightarrow> string" where
  "adminActorLabel env = TL env (ServerLang env) ''cli-admin-actor'' []"

definition SetRoomLocked :: "Env \<Rightarrow> room_ref \<Rightarrow> bool \<Rightarrow> World \<Rightarrow> World" where
  "SetRoomLocked env rr lock w =
     MarkAndBroadcast env rr ''log-room-lock'' [(''user'', AStr (adminActorLabel env)), (''lock'', ABool lock)]
       (MsgLockRoom lock) (upd_room rr (\<lambda>r. r\<lparr>Locked := lock\<rparr>) w)"

definition SetRoomCycle :: "Env \<Rightarrow> room_ref \<Rightarrow> bool \<Rightarrow> World \<Rightarrow> World" where
  "SetRoomCycle env rr cycle w =
     MarkAndBroadcast env rr ''log-room-cycle'' [(''user'', AStr (adminActorLabel env)), (''cycle'', ABool cycle)]
       (MsgCycleRoom cycle) (upd_room rr (\<lambda>r. r\<lparr>Cycle := cycle\<rparr>) w)"

definition TransferHost :: "Env \<Rightarrow> room_ref \<Rightarrow> int \<Rightarrow> World \<Rightarrow> string option \<times> World" where
  "TransferHost env rr userID w =
     (if \<not> ContainsUser (heapR w rr) userID then (Some ''user-not-in-room'', w)
      else if HostID (heapR w rr) = userID then (Some ''user-already-host'', w)
      else
        (let old = HostID (heapR w rr);
             w = upd_room rr (\<lambda>r. ClearNextHost (r\<lparr>HostID := userID\<rparr>)) w;
             w = LogAndBroadcast env rr ''log-room-host-changed-admin'' [(''old'', AInt old), (''next'', AInt userID)]
                   (MsgNewHost (to_i32 userID)) (check_i32 userID w);
             w = send_change_host rr old False w
         in (None, send_change_host rr userID True w)))"

section \<open>Countdowns\<close>

definition readyCountdownDuration :: int where "readyCountdownDuration = 60000"
definition readyCountdownReminders :: "nat list" where "readyCountdownReminders = [10, 5, 3, 2, 1]"
definition playDeadlineDuration :: int where "playDeadlineDuration = 120000"

definition startReadyCountdown :: "Env \<Rightarrow> room_ref \<Rightarrow> World \<Rightarrow> World" where
  "startReadyCountdown env rr w =
     (if (\<exists>c\<in>set_option (contest (heapR w rr)). ManualStart c) then w
      else
        (let w = cancelReadyCountdown rr w;
             ctx = fresh w;
             w = upd_room rr (\<lambda>r. r\<lparr>readyCancel := Some ctx\<rparr>) (w\<lparr>fresh := ctx + 1\<rparr>);
             w = check_i32 (SystemUserID env) w;
             rid = rID (heapR w rr);
             w = fold (\<lambda>sec. schedule (readyCountdownDuration - 1000 * int sec) (DReadyReminder ctx rr rid sec))
                   readyCountdownReminders w
         in schedule readyCountdownDuration (DReadyTimeout ctx rr rid) w))"

definition run_ready_reminder :: "Env \<Rightarrow> nat \<Rightarrow> room_ref \<Rightarrow> RoomID \<Rightarrow> nat \<Rightarrow> World \<Rightarrow> World" where
  "run_ready_reminder env ctx rr rid sec w =
     (if ctx \<in> cancelled w then w
      else case tlOrSkip env (ServerLang env) ''chat-ready-countdown'' [(''seconds'', AInt (int sec))] of
          None \<Rightarrow> w
        | Some hint \<Rightarrow>
            if map_of (Rooms w) rid \<noteq> Some rr then w
            else case State (heapR w rr) of
                StateWaitForReady _ \<Rightarrow> Send env rr (MsgChat (sysID env) hint) w
              | _ \<Rightarrow> w)"

text \<open>An unready player is told to go back to the chart selection.\<close>

definition send_back_unready :: "Env \<Rightarrow> room_ref \<Rightarrow> int list \<Rightarrow> World \<Rightarrow> World" where
  "send_back_unready env rr unready w =
     (let chartID = (case chart (heapR w rr) of Some c \<Rightarrow> wrap_i32 (c_ID c) | None \<Rightarrow> 0)
      in fold (\<lambda>i w.
           let (name, w) = (case map_of (Users w) i of
                 Some u \<Rightarrow> (Name (heapU w u), TrySend u (SrvChangeState (RoomStateSelectChart (Some chartID))) w)
               | None \<Rightarrow> (Itoa i, w))
           in logRoomMark env rr ''log-room-abort'' [(''user'', AStr name)] w) unready w)"

definition run_ready_timeout :: "Env \<Rightarrow> nat \<Rightarrow> room_ref \<Rightarrow> RoomID \<Rightarrow> World \<Rightarrow> World" where
  "run_ready_timeout env ctx rr rid w =
     (if ctx \<in> cancelled w then w
      else if map_of (Rooms w) rid \<noteq> Some rr then w
      else case State (heapR w rr) of
          StateWaitForReady started \<Rightarrow>
            (let unready = filter (\<lambda>i. i \<notin> started) (users (heapR w rr));
                 w = startPlaying env rr unready w
             in if length unready = 0 then w
                else case State (heapR w rr) of
                    StatePlaying st \<Rightarrow>
                      (let w = upd_room rr (\<lambda>r. r\<lparr>State := StatePlaying (st\<lparr>Aborted := Aborted st \<union> set unready\<rparr>)\<rparr>) w;
                           w = send_back_unready env rr unready w
                       in NotifyWebSocket env rr w)
                  | _ \<Rightarrow> w)
        | _ \<Rightarrow> w)"

definition startPlayDeadline :: "Env \<Rightarrow> room_ref \<Rightarrow> World \<Rightarrow> World" where
  "startPlayDeadline env rr w =
     (if contest (heapR w rr) \<noteq> None then w
      else
        (let w = cancelPlayDeadline rr w;
             ctx = fresh w;
             w = upd_room rr (\<lambda>r. r\<lparr>playDeadlineCancel := Some ctx\<rparr>) (w\<lparr>fresh := ctx + 1\<rparr>);
             w = check_i32 (SystemUserID env) w
         in schedule playDeadlineDuration (DPlayDeadline ctx rr (rID (heapR w rr))) w))"

text \<open>The body of the loop over the players: one who has neither result nor abort is aborted.\<close>

definition abort_player :: "Env \<Rightarrow> room_ref \<Rightarrow> int \<Rightarrow> World \<Rightarrow> World" where
  "abort_player env rr i w = (case State (heapR w rr) of
     StatePlaying st \<Rightarrow>
       if has_finished st i then w
       else (let w = upd_room rr (\<lambda>r. r\<lparr>State := StatePlaying (st\<lparr>Aborted := insert i (Aborted st)\<rparr>)\<rparr>) w;
                 name = (case map_of (Users w) i of Some u \<Rightarrow> Name (heapU w u) | None \<Rightarrow> Itoa i)
             in MarkAndBroadcast env rr ''log-room-abort'' [(''user'', AStr name)] (MsgAbort (to_i32 i)) (check_i32 i w))
   | _ \<Rightarrow> w)"

definition run_play_deadline :: "Env \<Rightarrow> nat \<Rightarrow> room_ref \<Rightarrow> RoomID \<Rightarrow> World \<Rightarrow> World" where
  "run_play_deadline env ctx rr rid w =
     (if ctx \<in> cancelled w then w
      else if map_of (Rooms w) rid \<noteq> Some rr then w
      else case State (heapR w rr) of
          StatePlaying _ \<Rightarrow>
            (let w = fold (abort_player env rr) (users (heapR w rr)) w;
                 w = (case tlOrSkip env (ServerLang env) ''chat-play-deadline'' [(''seconds'', AInt (playDeadlineDuration div 1000))] of
                        Some hint \<Rightarrow> Send env rr (MsgChat (sysID env) hint) w
                      | None \<Rightarrow> w);
                 w = NotifyWebSocket env rr w;
                 (disband, w) = CheckAllReady env rr w
             in if disband then DisbandRoom env rr w else w)
        | _ \<Rightarrow> w)"

section \<open>Protocol compensation\<close>

definition fixClientRoomState :: "Env \<Rightarrow> room_ref \<Rightarrow> user_ref \<Rightarrow> World \<Rightarrow> World" where
  "fixClientRoomState env rr ur w =
     (if State (heapR w rr) = StateSelectChart \<or> chart (heapR w rr) = None then w
      else schedule (hackDelay env) (DFixState ur rr) w)"

text \<open>The chart is never removed from a room, so the dereference in \<open>fixClientRoomState0\<close> succeeds;
  without a chart it would panic.\<close>

definition fixClientRoomState0 :: "Env \<Rightarrow> room_ref \<Rightarrow> user_ref \<Rightarrow> World \<Rightarrow> World" where
  "fixClientRoomState0 env rr ur w = (case chart (heapR w rr) of
     None \<Rightarrow> emit (Panic ''nil pointer dereference'') w
   | Some c \<Rightarrow> schedule (hackDelay env) (DRealState ur rr)
       (TrySend ur (SrvChangeState (RoomStateSelectChart (Some (wrap_i32 (c_ID c))))) w))"

section \<open>Welcome\<close>

definition availableRooms :: "World \<Rightarrow> (RoomID \<times> int \<times> int) list" where
  "availableRooms w =
     sort_key fst (List.map_filter (\<lambda>(rid, rr).
       let r = heapR w rr; count = int (length (users r))
       in if prefix ''_'' rid \<or> Locked r then None
          else if count \<ge> MaxUsers r then None else Some (rid, count, MaxUsers r)) (Rooms w))"

definition availableRoomsText :: "Env \<Rightarrow> string \<Rightarrow> World \<Rightarrow> string" where
  "availableRoomsText env lang w =
     (let rooms = availableRooms w
      in if rooms = [] then TL env lang ''chat-roomlist-empty'' []
         else join_lines (if lang = ''zh-CN'' then [CHR 0xEF, CHR 0xBC, CHR 0x9B] else ''; '')
                (map (\<lambda>(rid, count, maxU). TL env lang ''chat-roomlist-item''
                        [(''id'', AStr rid), (''count'', AInt count), (''max'', AInt maxU)]) rooms))"

text \<open>The text for a user, with the quote of the day when one was fetched.\<close>

definition BuildWelcomeText :: "Env \<Rightarrow> User \<Rightarrow> (string \<times> string) option \<Rightarrow> World \<Rightarrow> string" where
  "BuildWelcomeText env u hitokoto w =
     (let lang = Lang u; sep = replicate 73 CHR ''='' @ newline
      in replicate 40 CHR 0x0A
         @ TL env lang ''chat-welcome'' [(''userName'', AStr (Name u)), (''serverName'', AStr (ServerName env))] @ newline
         @ sep
         @ TL env lang ''chat-welcome-version'' [(''version'', AStr (AppVersion env))] @ newline
         @ TL env lang ''chat-welcome-stats''
             [(''online'', AInt (int (length (Users w)))), (''rooms'', AInt (int (length (Rooms w))))] @ newline
         @ sep
         @ TL env lang ''chat-roomlist-title'' [] @ newline
         @ availableRoomsText env lang w @ newline
         @ sep
         @ (if RoomListTip env \<noteq> [] then RoomListTip env @ newline else [])
         @ (case hitokoto of None \<Rightarrow> []
            | Some (quote, from) \<Rightarrow>
                TL env lang ''chat-hitokoto'' [(''quote'', AStr quote),
                  (''from'', AStr (if from = [] then TL env lang ''chat-hitokoto-from-unknown'' [] else from))]))"

end
