(* ===== verification/Hub_Dispatch.thy ===== *)
theory Hub_Dispatch
  imports Hub_Ops
begin

text \<open>
  The commands of an authenticated client (\<open>dispatch.go\<close>, \<open>dispatch_room.go\<close>, \<open>dispatch_play.go\<close>):
  one definition per handler, the router \<open>ProcessClientCommand\<close>, and the bodies that run later.  A
  handler returns the error key (\<open>None\<close> for success) and the new world.
\<close>

definition maxChatLength :: nat where "maxChatLength = 500"

definition unitResultFromError :: "Env \<Rightarrow> User \<Rightarrow> string option \<Rightarrow> unit StringResult" where
  "unitResultFromError env u err = (case err of Some e \<Rightarrow> Errr (localize env u e) | None \<Rightarrow> Ok ())"

definition RequireRoom :: "User \<Rightarrow> string + room_ref" where
  "RequireRoom u = (case uRoom u of None \<Rightarrow> Inl ''room-no-room'' | Some rr \<Rightarrow> Inr rr)"

text \<open>Most handlers start with \<open>RequireRoom\<close>.\<close>

definition with_room :: "user_ref \<Rightarrow> (room_ref \<Rightarrow> World \<Rightarrow> string option \<times> World) \<Rightarrow> World \<Rightarrow> string option \<times> World" where
  "with_room ur f w = (case RequireRoom (heapU w ur) of Inl e \<Rightarrow> (Some e, w) | Inr rr \<Rightarrow> f rr w)"

section \<open>Room commands\<close>

definition handleLockRoom :: "Env \<Rightarrow> user_ref \<Rightarrow> bool \<Rightarrow> World \<Rightarrow> string option \<times> World" where
  "handleLockRoom env ur lock = with_room ur (\<lambda>rr w.
     case CheckHost (heapR w rr) (heapU w ur) of
       Some e \<Rightarrow> (Some e, w)
     | None \<Rightarrow> (None, MarkAndBroadcast env rr ''log-room-lock'' [(''user'', AStr (Name (heapU w ur))), (''lock'', ABool lock)]
                  (MsgLockRoom lock) (upd_room rr (\<lambda>r. r\<lparr>Locked := lock\<rparr>) w)))"

definition handleCycleRoom :: "Env \<Rightarrow> user_ref \<Rightarrow> bool \<Rightarrow> World \<Rightarrow> string option \<times> World" where
  "handleCycleRoom env ur cycle = with_room ur (\<lambda>rr w.
     case CheckHost (heapR w rr) (heapU w ur) of
       Some e \<Rightarrow> (Some e, w)
     | None \<Rightarrow> (None, MarkAndBroadcast env rr ''log-room-cycle'' [(''user'', AStr (Name (heapU w ur))), (''cycle'', ABool cycle)]
                  (MsgCycleRoom cycle) (upd_room rr (\<lambda>r. r\<lparr>Cycle := cycle\<rparr>) w)))"

definition FetchChart :: "Env \<Rightarrow> int \<Rightarrow> string + Chart" where
  "FetchChart env i = (case PhiraChart env of None \<Rightarrow> Inl ''chart-fetch-failed'' | Some f \<Rightarrow> f i)"

definition FetchRecord :: "Env \<Rightarrow> int \<Rightarrow> string + RecordData" where
  "FetchRecord env i = (case PhiraRecord env of None \<Rightarrow> Inl ''record-fetch-failed'' | Some f \<Rightarrow> f i)"

definition handleSelectChart :: "Env \<Rightarrow> user_ref \<Rightarrow> i32 \<Rightarrow> World \<Rightarrow> string option \<times> World" where
  "handleSelectChart env ur cid = with_room ur (\<lambda>rr w.
     case ValidateSelectChart (heapR w rr) (heapU w ur) of
       Some e \<Rightarrow> (Some e, w)
     | None \<Rightarrow>
         (case FetchChart env (sint cid) of
            Inl e \<Rightarrow> (Some e, w)
          | Inr c \<Rightarrow>
              (let u = heapU w ur;
                   w = upd_room rr (\<lambda>r. r\<lparr>chart := Some c\<rparr>) w;
                   w = logRoomMark env rr ''log-room-select-chart''
                         [(''user'', AStr (Name u)), (''userId'', AInt (uID u)), (''chart'', AStr (c_Name c))] w;
                   w = Send env rr (MsgSelectChart (to_i32 (uID u)) (c_Name c) (to_i32 (c_ID c)))
                         (check_i32 (c_ID c) (check_i32 (uID u) w))
               in (None, NotifyState env rr w))))"

definition handleRequestStart :: "Env \<Rightarrow> user_ref \<Rightarrow> World \<Rightarrow> string option \<times> World" where
  "handleRequestStart env ur = with_room ur (\<lambda>rr w.
     case ValidateStart (heapR w rr) (heapU w ur) of
       Some e \<Rightarrow> (Some e, w)
     | None \<Rightarrow>
         (let u = heapU w ur;
              w = ResetGameTime (map_of (Users w)) rr w;
              w = logRoomMark env rr ''log-room-request-start'' [(''user'', AStr (Name u))] w;
              w = Send env rr (MsgGameStart (to_i32 (uID u))) (check_i32 (uID u) w);
              w = (case tlOrSkip env (ServerLang env) ''chat-game-start-hint'' [(''user'', AStr (Name u))] of
                     Some hint \<Rightarrow> if length (users (heapR w rr)) > 1
                       then schedule (hackDelay env) (DGameStartHint rr (rID (heapR w rr)) (sysID env) hint)
                              (check_i32 (SystemUserID env) w)
                       else w
                   | None \<Rightarrow> w);
              w = upd_room rr (\<lambda>r. r\<lparr>State := StateWaitForReady {uID u}\<rparr>) w;
              w = NotifyState env rr w;
              (disband, w) = CheckAllReady env rr w
          in if disband then (None, DisbandRoom env rr w)
             else case State (heapR w rr) of
                 StateWaitForReady _ \<Rightarrow> (None, startReadyCountdown env rr w)
               | _ \<Rightarrow> (None, w)))"

definition check_and_disband :: "Env \<Rightarrow> room_ref \<Rightarrow> World \<Rightarrow> World" where
  "check_and_disband env rr w =
     (let (disband, w) = CheckAllReady env rr w in if disband then DisbandRoom env rr w else w)"

definition handleReady :: "Env \<Rightarrow> user_ref \<Rightarrow> World \<Rightarrow> string option \<times> World" where
  "handleReady env ur = with_room ur (\<lambda>rr w.
     case State (heapR w rr) of
       StatePlaying _ \<Rightarrow> (Some ''room-invalid-state'', w)
     | StateSelectChart \<Rightarrow> (None, w)
     | StateWaitForReady started \<Rightarrow>
         (let u = heapU w ur in
          if uID u \<in> started then (Some ''room-already-ready'', w)
          else
            (let w = upd_room rr (\<lambda>r. r\<lparr>State := StateWaitForReady (insert (uID u) started)\<rparr>) w;
                 w = LogBroadcastAndNotify env rr ''log-room-ready'' [(''user'', AStr (Name u))]
                       (MsgReady (to_i32 (uID u))) (check_i32 (uID u) w)
             in (None, check_and_disband env rr w))))"

definition handleCancelReady :: "Env \<Rightarrow> user_ref \<Rightarrow> World \<Rightarrow> string option \<times> World" where
  "handleCancelReady env ur = with_room ur (\<lambda>rr w.
     case State (heapR w rr) of
       StatePlaying _ \<Rightarrow> (Some ''room-invalid-state'', w)
     | StateSelectChart \<Rightarrow> (None, w)
     | StateWaitForReady started \<Rightarrow>
         (let u = heapU w ur in
          if uID u \<notin> started then (Some ''room-not-ready'', w)
          else
            (let w = upd_room rr (\<lambda>r. r\<lparr>State := StateWaitForReady (started - {uID u})\<rparr>) w in
             if HostID (heapR w rr) = uID u then
               (let w = logRoomMark env rr ''log-room-cancel-game'' [(''user'', AStr (Name u))] w;
                    w = Send env rr (MsgCancelGame (to_i32 (uID u))) (check_i32 (uID u) w);
                    w = cancelReadyCountdown rr w;
                    w = upd_room rr (\<lambda>r. r\<lparr>State := StateSelectChart\<rparr>) w
                in (None, NotifyState env rr w))
             else (None, LogBroadcastAndNotify env rr ''log-room-cancel-ready'' [(''user'', AStr (Name u))]
                     (MsgCancelReady (to_i32 (uID u))) (check_i32 (uID u) w)))))"

definition handleAbort :: "Env \<Rightarrow> user_ref \<Rightarrow> World \<Rightarrow> string option \<times> World" where
  "handleAbort env ur = with_room ur (\<lambda>rr w.
     case State (heapR w rr) of
       StatePlaying st \<Rightarrow>
         (let u = heapU w ur in
          if map_of (Results st) (uID u) \<noteq> None then (Some ''record-already-uploaded'', w)
          else if uID u \<in> Aborted st then (Some ''room-game-aborted'', w)
          else
            (let w = upd_room rr (\<lambda>r. r\<lparr>State := StatePlaying (st\<lparr>Aborted := insert (uID u) (Aborted st)\<rparr>)\<rparr>) w;
                 w = MarkBroadcastAndNotify env rr ''log-room-abort'' [(''user'', AStr (Name u))]
                       (MsgAbort (to_i32 (uID u))) (check_i32 (uID u) w)
             in (None, check_and_disband env rr w)))
     | _ \<Rightarrow> (None, w))"

definition handleChat :: "Env \<Rightarrow> user_ref \<Rightarrow> string \<Rightarrow> World \<Rightarrow> string option \<times> World" where
  "handleChat env ur message = with_room ur (\<lambda>rr w.
     (let u = heapU w ur;
          w = logRoomInfo env rr ''log-user-chat'' [(''user'', AStr (Name u))] w;
          content = (if \<not> ChatEnabled env then localize env u ''chat-disabled-by-server'' else message)
      in (None, SendAs env rr ur (truncateRunes content maxChatLength) w)))"

definition handleLeaveRoom :: "Env \<Rightarrow> user_ref \<Rightarrow> World \<Rightarrow> string option \<times> World" where
  "handleLeaveRoom env ur = with_room ur (\<lambda>rr w.
     (let u = heapU w ur;
          w = logRoomMark env rr ''log-room-left'' [(''user'', AStr (Name u)), (''suffix'', AStr (monitorSuffix env (Monitor u)))] w;
          ((shouldDrop, disband), w) = OnUserLeave env rr ur w;
          w = (if shouldDrop then delete_room (rID (heapR w rr)) (logRoomInfo env rr ''log-room-recycled'' [] w)
               else upd_room rr (RefreshLive (ReplayEnabled w)) w)
      in (None, if disband then DisbandRoom env rr w else w)))"

section \<open>Playing\<close>

definition playingStateFor :: "Room \<Rightarrow> int \<Rightarrow> bool" where
  "playingStateFor r i = (case State r of StatePlaying st \<Rightarrow> i \<notin> Aborted st \<and> map_of (Results st) i = None | _ \<Rightarrow> False)"

definition forwardTouches :: "Env \<Rightarrow> room_ref \<Rightarrow> int \<Rightarrow> TouchFrame list \<Rightarrow> World \<Rightarrow> World" where
  "forwardTouches env rr i frames w =
     (if HasMonitorBuffer env then emit (BufTouches rr i frames) w
      else broadcastToMonitors rr (SrvTouches (to_i32 i) frames) (check_i32 i w))"

definition forwardJudges :: "Env \<Rightarrow> room_ref \<Rightarrow> int \<Rightarrow> JudgeEvent list \<Rightarrow> World \<Rightarrow> World" where
  "forwardJudges env rr i judges w =
     (if HasMonitorBuffer env then emit (BufJudges rr i judges) w
      else broadcastToMonitors rr (SrvJudges (to_i32 i) judges) (check_i32 i w))"

definition shouldRecord :: "Env \<Rightarrow> room_ref \<Rightarrow> World \<Rightarrow> bool" where
  "shouldRecord env rr w \<longleftrightarrow> ReplayEnabled w \<and> ReplayEligible (heapR w rr) \<and> HasRecorder env"

definition handleTouches :: "Env \<Rightarrow> user_ref \<Rightarrow> TouchFrame list \<Rightarrow> World \<Rightarrow> World" where
  "handleTouches env ur frames w = (case uRoom (heapU w ur) of
     None \<Rightarrow> w
   | Some rr \<Rightarrow>
       (let i = uID (heapU w ur) in
        if \<not> playingStateFor (heapR w rr) i then w
        else
          (let w = (if length frames > 0 then w\<lparr>gameTime := (gameTime w)(ur := GameTimeAt (tf_Time (last frames)))\<rparr> else w);
               w = (if length (monitors (heapR w rr)) > 0 then forwardTouches env rr i frames w else w)
           in if shouldRecord env rr w then emit (RecTouches (rID (heapR w rr)) i frames) w else w)))"

definition handleJudges :: "Env \<Rightarrow> user_ref \<Rightarrow> JudgeEvent list \<Rightarrow> World \<Rightarrow> World" where
  "handleJudges env ur judges w = (case uRoom (heapU w ur) of
     None \<Rightarrow> w
   | Some rr \<Rightarrow>
       (let i = uID (heapU w ur) in
        if \<not> playingStateFor (heapR w rr) i then w
        else
          (let w = (if length (monitors (heapR w rr)) > 0 then forwardJudges env rr i judges w else w)
           in if shouldRecord env rr w then emit (RecJudges (rID (heapR w rr)) i judges) w else w)))"

definition recordChatMods :: "(int \<times> string) list" where
  "recordChatMods = [(1, ''chat-record-mod-autoplay''), (2, ''chat-record-mod-flip-x''),
     (4, ''chat-record-mod-hide-top''), (8, ''chat-record-mod-hide-bottom''), (16, ''chat-record-mod-club''),
     (32, ''chat-record-mod-rainbow''), (64, ''chat-record-mod-no-shader''),
     (128, ''chat-record-mod-sudden-death-ap''), (256, ''chat-record-mod-sudden-death-fc'')]"

definition fillChatRecordMap :: "Env \<Rightarrow> User \<Rightarrow> RecordData \<Rightarrow> args" where
  "fillChatRecordMap env u record =
     (let hasStd = rec_Std record \<noteq> None \<and> rec_StdScore record \<noteq> None;
          hasMod = rec_Mod record \<noteq> 0
      in [(''user'', AStr (Name u)), (''userid'', AInt (uID u)), (''score'', AInt (rec_Score record)),
          (''acc'', APercent (rec_Accuracy record)), (''hasStd'', ABool hasStd), (''fc'', ABool (rec_FullCombo record)),
          (''isAp'', AIsAP (rec_Accuracy record)), (''perfect'', AInt (rec_Perfect record)), (''good'', AInt (rec_Good record)),
          (''bad'', AInt (rec_Bad record)), (''miss'', AInt (rec_Miss record)), (''hasMod'', ABool hasMod)]
         @ (if hasStd then [(''std'', AStd (the (rec_Std record))), (''stdScore'', AFloat (the (rec_StdScore record)))] else [])
         @ (if hasMod then [(''modList'', AStr (join_lines '', ''
              (map (\<lambda>d. TL env (ServerLang env) (snd d) [])
                (filter (\<lambda>d. rec_Mod record AND fst d \<noteq> 0) recordChatMods))))] else []))"

definition already_done :: "Room \<Rightarrow> int \<Rightarrow> bool" where
  "already_done r i = (case State r of StatePlaying st \<Rightarrow> has_finished st i | _ \<Rightarrow> False)"

text \<open>The part of \<open>handlePlayed\<close> after the record was accepted.\<close>

definition store_result :: "Env \<Rightarrow> room_ref \<Rightarrow> user_ref \<Rightarrow> RecordData \<Rightarrow> PlayingData \<Rightarrow> World \<Rightarrow> World" where
  "store_result env rr ur record st w =
     (let u = heapU w ur;
          st = st\<lparr>Results := AList.update (uID u) record (Results st)\<rparr>;
          w = upd_room rr (\<lambda>r. r\<lparr>State := StatePlaying st\<rparr>) w;
          firstResult = (length (Results st) = 1);
          ev = (new_event EventScoreSubmitted)\<lparr>ev_PlayerScoreRank := BuildScoreRank rr w st\<rparr>;
          ev = (case chart (heapR w rr) of Some c \<Rightarrow> ev\<lparr>ev_ChartID := c_ID c, ev_ChartName := c_Name c\<rparr> | None \<Rightarrow> ev);
          w = EmitRoomEvent env rr ev w;
          w = (if shouldRecord env rr w then emit (RecSetID (rID (heapR w rr)) (uID u) (rec_ID record)) w else w);
          w = NotifyWebSocket env rr w;
          (disband, w) = CheckAllReady env rr w
      in if disband then schedule 0 (DAsyncDisband rr) w
         else if firstResult \<and> contest (heapR w rr) = None then
           (case State (heapR w rr) of StatePlaying _ \<Rightarrow> startPlayDeadline env rr w | _ \<Rightarrow> w)
         else w)"

definition handlePlayed :: "Env \<Rightarrow> user_ref \<Rightarrow> i32 \<Rightarrow> World \<Rightarrow> string option \<times> World" where
  "handlePlayed env ur recId = with_room ur (\<lambda>rr w.
     (let u = heapU w ur in
      if already_done (heapR w rr) (uID u) then (None, w)
      else case FetchRecord env (sint recId) of
          Inl e \<Rightarrow> (Some e, w)
        | Inr record \<Rightarrow>
            if rec_Player record \<noteq> uID u then (Some ''record-invalid'', w)
            else if (\<exists>c\<in>set_option (chart (heapR w rr)). \<exists>rc\<in>set_option (rec_Chart record). rc \<noteq> c_ID c)
            then (Some ''record-chart-mismatch'', w)
            else
              (let w = logRoomMark env rr ''log-room-played''
                     [(''user'', AStr (Name u)), (''score'', AInt (rec_Score record)), (''acc'', AFloat (rec_Accuracy record))] w;
                   w = SystemChat env rr (TL env (ServerLang env) ''chat-record-send-template'' (fillChatRecordMap env u record)) w
               in case State (heapR w rr) of
                    StatePlaying st \<Rightarrow> (None, store_result env rr ur record st w)
                  | _ \<Rightarrow> (None, w))))"

section \<open>The router\<close>

definition unit_reply :: "Env \<Rightarrow> user_ref \<Rightarrow> (unit StringResult \<Rightarrow> ServerCommand) \<Rightarrow> World \<Rightarrow> string option \<times> World \<Rightarrow>
    ServerCommand option \<times> World" where
  "unit_reply env ur mk w0 res = (Some (mk (unitResultFromError env (heapU w0 ur) (fst res))), snd res)"

definition handleJoinRoomResult :: "Env \<Rightarrow> user_ref \<Rightarrow> RoomID \<Rightarrow> bool \<Rightarrow> World \<Rightarrow> JoinRoomResponse StringResult \<times> World" where
  "handleJoinRoomResult env ur rid monitor w = (case ProcessJoinRoom env ur rid monitor w of
     (Inl e, w') \<Rightarrow> (Errr (localize env (heapU w ur) e), w')
   | (Inr resp, w') \<Rightarrow> (Ok resp, w'))"

fun ProcessClientCommand :: "Env \<Rightarrow> user_ref \<Rightarrow> ClientCommand \<Rightarrow> World \<Rightarrow> ServerCommand option \<times> World" where
  "ProcessClientCommand env ur CmdPing w = (None, w)"
| "ProcessClientCommand env ur (CmdAuthenticate _) w =
     (Some (SrvAuthenticate (Errr (localize env (heapU w ur) ''auth-repeated-authenticate''))), w)"
| "ProcessClientCommand env ur (CmdChat m) w = unit_reply env ur SrvChat w (handleChat env ur m w)"
| "ProcessClientCommand env ur (CmdTouches fs) w = (None, handleTouches env ur fs w)"
| "ProcessClientCommand env ur (CmdJudges js) w = (None, handleJudges env ur js w)"
| "ProcessClientCommand env ur (CmdCreateRoom rid) w = unit_reply env ur SrvCreateRoom w (ProcessCreateRoom env ur rid w)"
| "ProcessClientCommand env ur (CmdJoinRoom rid monitor) w =
     map_prod (\<lambda>r. Some (SrvJoinRoom r)) id (handleJoinRoomResult env ur rid monitor w)"
| "ProcessClientCommand env ur CmdLeaveRoom w = unit_reply env ur SrvLeaveRoom w (handleLeaveRoom env ur w)"
| "ProcessClientCommand env ur (CmdLockRoom lock) w = unit_reply env ur SrvLockRoom w (handleLockRoom env ur lock w)"
| "ProcessClientCommand env ur (CmdCycleRoom cycle) w = unit_reply env ur SrvCycleRoom w (handleCycleRoom env ur cycle w)"
| "ProcessClientCommand env ur (CmdSelectChart cid) w = unit_reply env ur SrvSelectChart w (handleSelectChart env ur cid w)"
| "ProcessClientCommand env ur CmdRequestStart w = unit_reply env ur SrvRequestStart w (handleRequestStart env ur w)"
| "ProcessClientCommand env ur CmdReady w = unit_reply env ur SrvReady w (handleReady env ur w)"
| "ProcessClientCommand env ur CmdCancelReady w = unit_reply env ur SrvCancelReady w (handleCancelReady env ur w)"
| "ProcessClientCommand env ur (CmdPlayed rid) w = unit_reply env ur SrvPlayed w (handlePlayed env ur rid w)"
| "ProcessClientCommand env ur CmdAbort w = unit_reply env ur SrvAbort w (handleAbort env ur w)"

end
