(* ===== verification/Session_Life.thy ===== *)
theory Session_Life
  imports Hub_Dispatch
begin

text \<open>
  The life of a session (\<open>internal/server/network/session_auth.go\<close>, \<open>session_dangle.go\<close>,
  \<open>session.go\<close>): authentication and reconnection, the grace period after a disconnection, the
  removal of a user, and the delayed bodies of the whole server.  \<open>time.Timer.Stop\<close> does not take
  a body that has already started off the run queue, so a stopped timer may still fire here: the
  guards in the bodies are what keeps it harmless.
\<close>

section \<open>Removal and grace\<close>

definition logLocalized :: "Env \<Rightarrow> LogLevel \<Rightarrow> string \<Rightarrow> args \<Rightarrow> World \<Rightarrow> World" where
  "logLocalized env level key arg w =
     (if \<not> HasLogger env then w else emit (Log level (TL env (ServerLang env) key arg)) w)"

definition CleanupUserData :: "int \<Rightarrow> World \<Rightarrow> World" where
  "CleanupUserData i w = w\<lparr>uploadUsers := uploadUsers w - {i}\<rparr>"

definition leave_current :: "Env \<Rightarrow> user_ref \<Rightarrow> World \<Rightarrow> World" where
  "leave_current env ur w = (case uRoom (heapU w ur) of
     None \<Rightarrow> w
   | Some rr \<Rightarrow>
       (let ((shouldDrop, disband), w) = OnUserLeave env rr ur w;
            w = (if shouldDrop then delete_room (rID (heapR w rr)) w else w)
        in if disband then DisbandRoom env rr w else w))"

definition removeUser :: "Env \<Rightarrow> user_ref \<Rightarrow> World \<Rightarrow> World" where
  "removeUser env ur w =
     (let w = leave_current env ur w;
          i = uID (heapU w ur);
          w = w\<lparr>Users := AList.delete i (Users w)\<rparr>;
          w = CleanupUserData i w
      in ClearDangle ur w)"

definition dangleWindowNonPlaying :: int where "dangleWindowNonPlaying = 10000"

definition dangleGrace :: "Env \<Rightarrow> user_ref \<Rightarrow> World \<Rightarrow> int" where
  "dangleGrace env ur w = (case uRoom (heapU w ur) of
     Some rr \<Rightarrow> (case State (heapR w rr) of
         StatePlaying _ \<Rightarrow> PlayingReconnectGrace env * 1000
       | _ \<Rightarrow> dangleWindowNonPlaying)
   | None \<Rightarrow> dangleWindowNonPlaying)"

definition room_arg :: "World \<Rightarrow> User \<Rightarrow> string" where
  "room_arg w u = (case uRoom u of Some rr \<Rightarrow> rID (heapR w rr) | None \<Rightarrow> [])"

definition cleanup :: "Env \<Rightarrow> session_ref \<Rightarrow> World \<Rightarrow> World" where
  "cleanup env s w = (case sessUser w s of
     None \<Rightarrow> w
   | Some ur \<Rightarrow>
       if session (heapU w ur) \<noteq> Some s then w
       else
         (let w = SetSession ur None w;
              u = heapU w ur;
              banned = isBanned w u;
              grace = dangleGrace env ur w
          in if banned \<or> grace \<le> 0 \<or> s \<in> closing w then
               (let w = (if banned then logLocalized env INFO ''log-user-dangle'' [(''user'', AStr (Name u))] w
                         else if uRoom u \<noteq> None then
                           logLocalized env WARN ''log-user-disconnect-playing''
                             [(''user'', AStr (Name u)), (''room'', AStr (room_arg w u))] w
                         else w)
                in removeUser env ur w)
             else
               (let w = logLocalized env INFO ''log-user-dangle'' [(''user'', AStr (Name u))] w;
                    (token, w) = MarkDangle ur (Some (now w + grace)) w;
                    w = schedule grace (DDangle ur token) w
                in SetDangleTimer ur token w)))"

definition processDangle :: "Env \<Rightarrow> user_ref \<Rightarrow> nat \<Rightarrow> World \<Rightarrow> World" where
  "processDangle env ur token w =
     (let u = heapU w ur in
      if map_of (Users w) (uID u) = None then w
      else if \<not> IsStillDangling u token then w
      else
        (let w = (if uRoom u \<noteq> None then
                    logLocalized env WARN ''log-user-dangle-timeout-remove''
                      [(''user'', AStr (Name u)), (''room'', AStr (room_arg w u))] w
                  else w)
         in removeUser env ur w))"

section \<open>Closing\<close>

text \<open>\<open>Close\<close> runs once for a session.\<close>

definition Close :: "Env \<Rightarrow> session_ref \<Rightarrow> World \<Rightarrow> World" where
  "Close env s w = (if s \<in> closed w then w
     else cleanup env s (emit (CloseSession s) (w\<lparr>closed := insert s (closed w)\<rparr>)))"

definition closeForShutdown :: "Env \<Rightarrow> session_ref \<Rightarrow> World \<Rightarrow> World" where
  "closeForShutdown env s w =
     (let w = w\<lparr>closing := insert s (closing w)\<rparr>;
          w = (case sessUser w s of Some ur \<Rightarrow> StopDangleTimer ur w | None \<Rightarrow> w)
      in Close env s w)"

definition detachKeepRoom :: "session_ref \<Rightarrow> World \<Rightarrow> World" where
  "detachKeepRoom s w = (case sessUser w s of
     None \<Rightarrow> w
   | Some ur \<Rightarrow> if session (heapU w ur) \<noteq> Some s then w else SetSession ur None w)"

definition AdminDisconnect :: "Env \<Rightarrow> session_ref \<Rightarrow> bool \<Rightarrow> World \<Rightarrow> World" where
  "AdminDisconnect env s preserveRoom w =
     (if \<not> preserveRoom then Close env s w
      else if s \<in> closed w then w
      else detachKeepRoom s (emit (CloseSession s) (w\<lparr>closed := insert s (closed w)\<rparr>)))"

section \<open>Authentication\<close>

definition send_session :: "session_ref \<Rightarrow> ServerCommand \<Rightarrow> World \<Rightarrow> World" where
  "send_session s cmd w = (if s \<in> closed w then w else emit (Sent s cmd) w)"

definition failAuth :: "Env \<Rightarrow> session_ref \<Rightarrow> string \<Rightarrow> World \<Rightarrow> World" where
  "failAuth env s reasonKey w =
     (let reason = TL env (ServerLang env) reasonKey [];
          w = logLocalized env WARN ''log-auth-failed'' [(''id'', AInt (int s)), (''reason'', AStr reason)] w;
          w = send_session s (SrvAuthenticate (Errr reason)) w
      in Close env s w)"

definition logAuthSuccess :: "Env \<Rightarrow> user_ref \<Rightarrow> World \<Rightarrow> World" where
  "logAuthSuccess env ur w =
     (let u = heapU w ur
      in logLocalized env INFO ''log-player-join''
           [(''user'', AStr (Name u)), (''id'', AInt (uID u)), (''monitorSuffix'', AStr (monitorSuffix env (Monitor u)))] w)"

text \<open>The room as the client sees it (\<open>Room.ClientState\<close>), members looked up in the table of users.\<close>

definition ClientState :: "room_ref \<Rightarrow> user_ref \<Rightarrow> World \<Rightarrow> ClientRoomState" where
  "ClientState rr ur w =
     (let r = heapR w rr; u = heapU w ur
      in \<lparr>crs_ID = rID r, crs_State = ClientRoomState_of r, crs_Live = Live r, crs_Locked = Locked r,
          crs_Cycle = Cycle r, crs_IsHost = (HostID r = uID u),
          crs_IsReady = (case State r of StateWaitForReady started \<Rightarrow> uID u \<in> started | _ \<Rightarrow> False),
          crs_Users = fold (\<lambda>i m. case map_of (Users w) i of
              Some v \<Rightarrow> AList.update (wrap_i32 i) (ToInfo (heapU w v)) m | None \<Rightarrow> m) (AllParticipantIDs r) []\<rparr>)"

definition reconnect_state :: "room_ref \<Rightarrow> user_ref \<Rightarrow> World \<Rightarrow> ClientRoomState" where
  "reconnect_state rr ur w =
     (let cs = ClientState rr ur w
      in case State (heapR w rr) of
           StateWaitForReady _ \<Rightarrow>
             if chart (heapR w rr) \<noteq> None then cs\<lparr>crs_State := clientRoomStateForJoin (heapR w rr)\<rparr> else cs
         | _ \<Rightarrow> cs)"

definition kick_stale :: "Env \<Rightarrow> session_ref \<Rightarrow> session_ref option \<Rightarrow> World \<Rightarrow> World" where
  "kick_stale env s old w = (case old of
     Some o' \<Rightarrow> if o' \<noteq> s then
         Close env o' (send_session o' (SrvMessage (MsgChat 0 (TL env (ServerLang env) ''error-logged-in-elsewhere'' []))) w)
       else w
   | None \<Rightarrow> w)"

definition auth_reconnect :: "Env \<Rightarrow> session_ref \<Rightarrow> user_ref \<Rightarrow> World \<Rightarrow> World" where
  "auth_reconnect env s ur w =
     (let stale = session (heapU w ur);
          w = SetSession ur (Some s) w;
          w = w\<lparr>sessUser := (sessUser w)(s := Some ur)\<rparr>;
          roomState = map_option (\<lambda>rr. reconnect_state rr ur w) (uRoom (heapU w ur));
          me = ToInfo (heapU w ur);
          w = check_i32 (uID (heapU w ur)) w;
          room = uRoom (heapU w ur);
          waiting = (case room of Some rr \<Rightarrow> (case State (heapR w rr) of StateWaitForReady _ \<Rightarrow> chart (heapR w rr) \<noteq> None | _ \<Rightarrow> False)
                     | None \<Rightarrow> False);
          w = kick_stale env s stale w;
          w = send_session s (SrvAuthenticate (Ok \<lparr>ai_Me = me, ai_Room = roomState\<rparr>)) w;
          w = (case room of Some rr \<Rightarrow> if waiting then fixClientRoomState env rr ur w else w | None \<Rightarrow> w);
          w = logAuthSuccess env ur w
      in schedule 0 (DWelcome ur) w)"

text \<open>Phase 1, under the lock.  A new user is registered in phase 2, after the lock was released
  in between.\<close>

definition auth_phase1 :: "Env \<Rightarrow> session_ref \<Rightarrow> PhiraUserInfo \<Rightarrow> World \<Rightarrow> World" where
  "auth_phase1 env s info w =
     (if Maintenance w \<and> map_of (Users w) (pu_ID info) = None then
        failAuth env s (case MaintenanceMessage w of Some m \<Rightarrow> if m \<noteq> [] then m else ''server-maintenance''
                        | None \<Rightarrow> ''server-maintenance'') w
      else case map_of (Users w) (pu_ID info) of
          Some ur \<Rightarrow> auth_reconnect env s ur w
        | None \<Rightarrow> schedule 0 (DAuthRegister s info) w)"

definition auth_phase2 :: "Env \<Rightarrow> session_ref \<Rightarrow> PhiraUserInfo \<Rightarrow> World \<Rightarrow> World" where
  "auth_phase2 env s info w = (case map_of (Users w) (pu_ID info) of
     Some ur \<Rightarrow>
       (let stale = session (heapU w ur);
            w = SetSession ur (Some s) w;
            w = w\<lparr>sessUser := (sessUser w)(s := Some ur)\<rparr>;
            w = kick_stale env s stale w;
            w = send_session s (SrvAuthenticate (Ok \<lparr>ai_Me = ToInfo (heapU w ur), ai_Room = None\<rparr>))
                  (check_i32 (uID (heapU w ur)) w);
            w = logAuthSuccess env ur w
        in schedule 0 (DWelcome ur) w)
   | None \<Rightarrow>
       (let ur = nextU w;
            u = (NewUser env (pu_ID info) (pu_Name info) (pu_Language info))\<lparr>session := Some s\<rparr>;
            w = w\<lparr>nextU := ur + 1, heapU := (heapU w)(ur := u), gameTime := (gameTime w)(ur := NegInf),
                  Users := AList.update (pu_ID info) ur (Users w), sessUser := (sessUser w)(s := Some ur)\<rparr>;
            w = send_session s (SrvAuthenticate (Ok \<lparr>ai_Me = ToInfo u, ai_Room = None\<rparr>)) (check_i32 (uID u) w);
            w = logAuthSuccess env ur w
        in schedule 0 (DWelcome ur) w))"

definition handleAuthenticate :: "Env \<Rightarrow> session_ref \<Rightarrow> string \<Rightarrow> World \<Rightarrow> World" where
  "handleAuthenticate env s token w =
     (if length token > 32 then failAuth env s ''auth-invalid-token'' w
      else case (case PhiraUser env of None \<Rightarrow> Inl ''auth-fetch-failed'' | Some f \<Rightarrow> f token) of
          Inl e \<Rightarrow> failAuth env s e w
        | Inr info \<Rightarrow> auth_phase1 env s info w)"

section \<open>Commands of a session\<close>

text \<open>\<open>onCommand\<close> with the verdict of the rate limiter.\<close>

definition onCommand :: "Env \<Rightarrow> session_ref \<Rightarrow> ClientCommand \<Rightarrow> bool \<Rightarrow> ServerCommand option \<Rightarrow> World \<Rightarrow> World" where
  "onCommand env s cmd allowed limited w =
     (if cmd = CmdPing then send_session s SrvPong w
      else case sessUser w s of
          None \<Rightarrow> (case cmd of CmdAuthenticate token \<Rightarrow> handleAuthenticate env s token w | _ \<Rightarrow> w)
        | Some ur \<Rightarrow>
            if \<not> allowed then (case limited of Some resp \<Rightarrow> send_session s resp w | None \<Rightarrow> w)
            else (let (resp, w) = ProcessClientCommand env ur cmd w
                  in case resp of Some r \<Rightarrow> send_session s r w | None \<Rightarrow> w))"

section \<open>Delayed bodies\<close>

definition run_game_start_hint :: "Env \<Rightarrow> room_ref \<Rightarrow> RoomID \<Rightarrow> i32 \<Rightarrow> string \<Rightarrow> World \<Rightarrow> World" where
  "run_game_start_hint env rr rid sid hint w =
     (if map_of (Rooms w) rid \<noteq> Some rr then w else Send env rr (MsgChat sid hint) w)"

definition run_async_disband :: "Env \<Rightarrow> room_ref \<Rightarrow> World \<Rightarrow> World" where
  "run_async_disband env rr w =
     (if map_of (Rooms w) (rID (heapR w rr)) = Some rr then DisbandRoom env rr w else w)"

text \<open>\<open>sendWelcome\<close> with the quote that was fetched before the lock was taken.\<close>

definition sendWelcome :: "Env \<Rightarrow> user_ref \<Rightarrow> (string \<times> string) option \<Rightarrow> World \<Rightarrow> World" where
  "sendWelcome env ur hitokoto w =
     TrySend ur (SrvMessage (MsgChat (sysID env) (BuildWelcomeText env (heapU w ur) hitokoto w)))
       (check_i32 (SystemUserID env) w)"

fun run_delayed :: "Env \<Rightarrow> (string \<times> string) option \<Rightarrow> Delayed \<Rightarrow> World \<Rightarrow> World" where
  "run_delayed env hk (DSend ur cmd) w = TrySend ur cmd w"
| "run_delayed env hk (DFakeMonitorJoin ur rid) w = run_fake_monitor_join env ur rid w"
| "run_delayed env hk (DGameStartHint rr rid sid hint) w = run_game_start_hint env rr rid sid hint w"
| "run_delayed env hk (DReadyReminder ctx rr rid sec) w = run_ready_reminder env ctx rr rid sec w"
| "run_delayed env hk (DReadyTimeout ctx rr rid) w = run_ready_timeout env ctx rr rid w"
| "run_delayed env hk (DPlayDeadline ctx rr rid) w = run_play_deadline env ctx rr rid w"
| "run_delayed env hk (DAsyncDisband rr) w = run_async_disband env rr w"
| "run_delayed env hk (DDangle ur token) w = processDangle env ur token w"
| "run_delayed env hk (DFixState ur rr) w = fixClientRoomState0 env rr ur w"
| "run_delayed env hk (DRealState ur rr) w = TrySend ur (SrvChangeState (ClientRoomState_of (heapR w rr))) w"
| "run_delayed env hk (DWelcome ur) w = sendWelcome env ur hk w"
| "run_delayed env hk (DAuthRegister s info) w = auth_phase2 env s info w"

end
