(* ===== verification/Hub_Frame.thy ===== *)
theory Hub_Frame
  imports Session_Life
begin

text \<open>
  What the operations leave alone.  The locale \<open>quiet_op\<close> is the contract of an operation that only
  talks to the outside: it may extend the trace, the room logs and the game times and nothing
  else.  Sending, logging, notifying and the emission of events satisfy it, so that a property of
  the tables and the heap can be followed through a handler by looking at its few real updates.
\<close>

definition core :: "World \<Rightarrow> World" where
  "core w = w\<lparr>trace := [], roomLogs := \<lambda>_. [], gameTime := \<lambda>_. NegInf\<rparr>"

locale quiet_op =
  fixes act :: "World \<Rightarrow> World"
  assumes quiet: "core (act w) = core w"
begin

lemma field: "(\<And>w. F (core w) = F w) \<Longrightarrow> F (act w) = F w"
  using quiet [of w] by metis

lemma keeps [simp]:
  "heapR (act w) = heapR w" "heapU (act w) = heapU w" "Rooms (act w) = Rooms w" "Users (act w) = Users w"
  "nextR (act w) = nextR w" "nextU (act w) = nextU w" "BannedUsers (act w) = BannedUsers w"
  "BannedRoomUsers (act w) = BannedRoomUsers w" "Maintenance (act w) = Maintenance w"
  "MaintenanceMessage (act w) = MaintenanceMessage w" "RoomCreationEnabled (act w) = RoomCreationEnabled w"
  "ReplayEnabled (act w) = ReplayEnabled w" "fresh (act w) = fresh w" "cancelled (act w) = cancelled w"
  "uploadUsers (act w) = uploadUsers w" "sessUser (act w) = sessUser w" "closing (act w) = closing w"
  "closed (act w) = closed w" "pending (act w) = pending w" "now (act w) = now w"
  by (rule field, simp add: core_def)+

end

section \<open>The quiet operations\<close>

lemma core_emit [simp]: "core (emit e w) = core w"
  by (simp add: core_def emit_def)

lemma core_AddLog [simp]: "core (AddLog rr m t w) = core w"
  by (simp add: core_def AddLog_def Let_def)

interpretation q_emit: quiet_op "emit e" for e by unfold_locales simp
interpretation q_AddLog: quiet_op "AddLog rr m t" for rr m t by unfold_locales simp

lemma core_check_i32 [simp]: "core (check_i32 n w) = core w"
  by (simp add: check_i32_def split: option.splits)

lemma core_TrySend [simp]: "core (TrySend u cmd w) = core w"
  by (simp add: TrySend_def split: option.splits)

interpretation q_check: quiet_op "check_i32 n" for n by unfold_locales simp
interpretation q_TrySend: quiet_op "TrySend u cmd" for u cmd by unfold_locales simp

lemma core_fold: "(\<And>x w. core (f x w) = core w) \<Longrightarrow> core (fold f xs w) = core w"
  by (induction xs arbitrary: w) auto

lemma core_send_all [simp]: "core (send_all us cmd w) = core w"
  unfolding send_all_def by (rule core_fold) simp

interpretation q_send_all: quiet_op "send_all us cmd" for us cmd by unfold_locales simp

lemma core_broadcasts [simp]:
  "core (BroadcastRoom rr cmd w) = core w" "core (BroadcastRoomExcept rr cmd ex w) = core w"
  "core (broadcastToMonitors rr cmd w) = core w"
  by (simp_all add: BroadcastRoom_def BroadcastRoomExcept_def broadcastToMonitors_def)

lemma core_Send [simp]: "core (Send env rr msg w) = core w"
  by (cases msg) (simp_all add: Send_def Let_def)

lemma core_log_room [simp]:
  "core (log_room l env rr k a w) = core w" "core (logRoomInfo env rr k a w) = core w"
  "core (logRoomMark env rr k a w) = core w"
  by (simp_all add: log_room_def logRoomInfo_def logRoomMark_def)

lemma core_notify [simp]:
  "core (NotifyWebSocket env rr w) = core w" "core (OnStateChange rr w) = core w" "core (NotifyState env rr w) = core w"
  by (simp_all add: NotifyWebSocket_def OnStateChange_def NotifyState_def)

lemma core_EmitEvent [simp]: "core (EmitEvent env ev w) = core w"
  by (simp add: EmitEvent_def Let_def)

lemma core_ResetGameTime [simp]: "core (ResetGameTime f rr w) = core w"
  unfolding ResetGameTime_def by (rule core_fold) (simp add: core_def split: option.splits)

interpretation q_BroadcastRoom: quiet_op "BroadcastRoom rr cmd" for rr cmd by unfold_locales simp
interpretation q_BroadcastRoomExcept: quiet_op "BroadcastRoomExcept rr cmd ex" for rr cmd ex by unfold_locales simp
interpretation q_broadcastToMonitors: quiet_op "broadcastToMonitors rr cmd" for rr cmd by unfold_locales simp
interpretation q_Send: quiet_op "Send env rr msg" for env rr msg by unfold_locales simp
interpretation q_logRoomInfo: quiet_op "logRoomInfo env rr k a" for env rr k a by unfold_locales simp
interpretation q_logRoomMark: quiet_op "logRoomMark env rr k a" for env rr k a by unfold_locales simp
interpretation q_NotifyWebSocket: quiet_op "NotifyWebSocket env rr" for env rr by unfold_locales simp
interpretation q_OnStateChange: quiet_op "OnStateChange rr" for rr by unfold_locales simp
interpretation q_NotifyState: quiet_op "NotifyState env rr" for env rr by unfold_locales simp
interpretation q_EmitEvent: quiet_op "EmitEvent env ev" for env ev by unfold_locales simp
interpretation q_ResetGameTime: quiet_op "ResetGameTime f rr" for f rr by unfold_locales simp

lemma core_composed [simp]:
  "core (SystemChat env rr c w) = core w" "core (SendAs env rr ur c w) = core w"
  "core (LogAndBroadcast env rr k a m w) = core w" "core (MarkAndBroadcast env rr k a m w) = core w"
  "core (LogBroadcastAndNotify env rr k a m w) = core w" "core (MarkBroadcastAndNotify env rr k a m w) = core w"
  "core (EmitRoomEvent env rr ev w) = core w" "core (EmitUserEvent env rr t ur w) = core w"
  "core (log_game_start env rr w) = core w" "core (logLocalized env l k a w) = core w"
  "core (send_change_host rr i b w) = core w" "core (sendReplayRecorderHint env ur w) = core w"
  "core (send_session s cmd w) = core w" "core (logAuthSuccess env ur w) = core w"
  by (simp_all add: SystemChat_def SendAs_def LogAndBroadcast_def MarkAndBroadcast_def LogBroadcastAndNotify_def
      MarkBroadcastAndNotify_def EmitRoomEvent_def EmitUserEvent_def log_game_start_def logLocalized_def
      send_change_host_def sendReplayRecorderHint_def send_session_def logAuthSuccess_def Let_def split: option.splits)

interpretation q_SystemChat: quiet_op "SystemChat env rr c" for env rr c by unfold_locales simp
interpretation q_SendAs: quiet_op "SendAs env rr ur c" for env rr ur c by unfold_locales simp
interpretation q_LogAndBroadcast: quiet_op "LogAndBroadcast env rr k a m" for env rr k a m by unfold_locales simp
interpretation q_MarkAndBroadcast: quiet_op "MarkAndBroadcast env rr k a m" for env rr k a m by unfold_locales simp
interpretation q_LogBroadcastAndNotify: quiet_op "LogBroadcastAndNotify env rr k a m" for env rr k a m by unfold_locales simp
interpretation q_MarkBroadcastAndNotify: quiet_op "MarkBroadcastAndNotify env rr k a m" for env rr k a m by unfold_locales simp
interpretation q_EmitRoomEvent: quiet_op "EmitRoomEvent env rr ev" for env rr ev by unfold_locales simp
interpretation q_EmitUserEvent: quiet_op "EmitUserEvent env rr t ur" for env rr t ur by unfold_locales simp
interpretation q_log_game_start: quiet_op "log_game_start env rr" for env rr by unfold_locales simp
interpretation q_logLocalized: quiet_op "logLocalized env l k a" for env l k a by unfold_locales simp
interpretation q_send_change_host: quiet_op "send_change_host rr i b" for rr i b by unfold_locales simp
interpretation q_sendReplayRecorderHint: quiet_op "sendReplayRecorderHint env ur" for env ur by unfold_locales simp
interpretation q_send_session: quiet_op "send_session s cmd" for s cmd by unfold_locales simp
interpretation q_logAuthSuccess: quiet_op "logAuthSuccess env ur" for env ur by unfold_locales simp

lemma core_notify_loop [simp]: "core (snd (notify_loop env rr is n w)) = core w"
  by (induction env rr "is" n w rule: notify_loop.induct) (auto simp: Let_def split: option.splits)

lemma core_ranking [simp]: "core (broadcastGameRanking env rr st w) = core w"
  by (simp add: broadcastGameRanking_def Let_def)

lemma core_send_back [simp]: "core (send_back_unready env rr us w) = core w"
  unfolding send_back_unready_def Let_def by (rule core_fold) (simp split: option.splits)

lemma core_fake_join [simp]: "core (run_fake_monitor_join env ur rid w) = core w"
  by (simp add: run_fake_monitor_join_def Let_def split: option.splits)

lemma core_touches [simp]: "core (handleTouches env ur fs w) = core w"
proof -
  have "core (forwardTouches env rr i fs' w) = core w" for rr i fs' w
    by (simp add: forwardTouches_def)
  moreover have "core (w\<lparr>gameTime := g\<rparr>) = core w" for w g by (simp add: core_def)
  ultimately show ?thesis by (simp add: handleTouches_def Let_def split: option.splits)
qed

lemma core_judges [simp]: "core (handleJudges env ur js w) = core w"
  by (simp add: handleJudges_def forwardJudges_def Let_def split: option.splits)

lemma core_quiet_delayed [simp]:
  "core (run_ready_reminder env ctx rr rid sec w) = core w" "core (run_game_start_hint env rr rid sid hint w) = core w"
  "core (sendWelcome env ur hk w) = core w"
  by (simp_all add: run_ready_reminder_def run_game_start_hint_def sendWelcome_def split: option.splits InternalRoomState.splits)

interpretation q_notify_loop: quiet_op "\<lambda>w. snd (notify_loop env rr is n w)" for env rr "is" n by unfold_locales simp
interpretation q_ranking: quiet_op "broadcastGameRanking env rr st" for env rr st by unfold_locales simp
interpretation q_send_back: quiet_op "send_back_unready env rr us" for env rr us by unfold_locales simp
interpretation q_fake_join: quiet_op "run_fake_monitor_join env ur rid" for env ur rid by unfold_locales simp
interpretation q_touches: quiet_op "handleTouches env ur fs" for env ur fs by unfold_locales simp
interpretation q_judges: quiet_op "handleJudges env ur js" for env ur js by unfold_locales simp
interpretation q_reminder: quiet_op "run_ready_reminder env ctx rr rid sec" for env ctx rr rid sec by unfold_locales simp
interpretation q_start_hint: quiet_op "run_game_start_hint env rr rid sid hint" for env rr rid sid hint by unfold_locales simp
interpretation q_welcome: quiet_op "sendWelcome env ur hk" for env ur hk by unfold_locales simp

section \<open>The updating primitives\<close>

lemma upd_room_fields [simp]:
  "heapR (upd_room rr f w) = (heapR w)(rr := f (heapR w rr))" "heapU (upd_room rr f w) = heapU w"
  "Rooms (upd_room rr f w) = Rooms w" "Users (upd_room rr f w) = Users w" "nextR (upd_room rr f w) = nextR w"
  "nextU (upd_room rr f w) = nextU w" "cancelled (upd_room rr f w) = cancelled w" "fresh (upd_room rr f w) = fresh w"
  "pending (upd_room rr f w) = pending w" "sessUser (upd_room rr f w) = sessUser w" "now (upd_room rr f w) = now w"
  "ReplayEnabled (upd_room rr f w) = ReplayEnabled w" "BannedUsers (upd_room rr f w) = BannedUsers w"
  "trace (upd_room rr f w) = trace w" "closed (upd_room rr f w) = closed w"
  "BannedRoomUsers (upd_room rr f w) = BannedRoomUsers w" "Maintenance (upd_room rr f w) = Maintenance w"
  "MaintenanceMessage (upd_room rr f w) = MaintenanceMessage w" "RoomCreationEnabled (upd_room rr f w) = RoomCreationEnabled w"
  "closing (upd_room rr f w) = closing w" "uploadUsers (upd_room rr f w) = uploadUsers w"
  by (simp_all add: upd_room_def)

lemma upd_user_fields [simp]:
  "heapU (upd_user ur f w) = (heapU w)(ur := f (heapU w ur))" "heapR (upd_user ur f w) = heapR w"
  "Rooms (upd_user ur f w) = Rooms w" "Users (upd_user ur f w) = Users w" "nextR (upd_user ur f w) = nextR w"
  "nextU (upd_user ur f w) = nextU w" "cancelled (upd_user ur f w) = cancelled w" "fresh (upd_user ur f w) = fresh w"
  "pending (upd_user ur f w) = pending w" "sessUser (upd_user ur f w) = sessUser w" "now (upd_user ur f w) = now w"
  "ReplayEnabled (upd_user ur f w) = ReplayEnabled w" "BannedUsers (upd_user ur f w) = BannedUsers w"
  "trace (upd_user ur f w) = trace w" "closed (upd_user ur f w) = closed w"
  "BannedRoomUsers (upd_user ur f w) = BannedRoomUsers w" "Maintenance (upd_user ur f w) = Maintenance w"
  "MaintenanceMessage (upd_user ur f w) = MaintenanceMessage w" "RoomCreationEnabled (upd_user ur f w) = RoomCreationEnabled w"
  "closing (upd_user ur f w) = closing w" "uploadUsers (upd_user ur f w) = uploadUsers w"
  by (simp_all add: upd_user_def)

lemma schedule_fields [simp]:
  "heapU (schedule d a w) = heapU w" "heapR (schedule d a w) = heapR w"
  "Rooms (schedule d a w) = Rooms w" "Users (schedule d a w) = Users w" "nextR (schedule d a w) = nextR w"
  "nextU (schedule d a w) = nextU w" "cancelled (schedule d a w) = cancelled w" "fresh (schedule d a w) = fresh w"
  "pending (schedule d a w) = pending w @ [(d, a)]" "sessUser (schedule d a w) = sessUser w" "now (schedule d a w) = now w"
  "ReplayEnabled (schedule d a w) = ReplayEnabled w" "trace (schedule d a w) = trace w" "closed (schedule d a w) = closed w"
  "BannedUsers (schedule d a w) = BannedUsers w" "BannedRoomUsers (schedule d a w) = BannedRoomUsers w"
  "Maintenance (schedule d a w) = Maintenance w" "MaintenanceMessage (schedule d a w) = MaintenanceMessage w"
  "RoomCreationEnabled (schedule d a w) = RoomCreationEnabled w" "closing (schedule d a w) = closing w"
  "uploadUsers (schedule d a w) = uploadUsers w"
  by (simp_all add: schedule_def)

lemma delete_room_fields [simp]:
  "heapU (delete_room rid w) = heapU w" "heapR (delete_room rid w) = heapR w"
  "Rooms (delete_room rid w) = AList.delete rid (Rooms w)" "Users (delete_room rid w) = Users w"
  "nextR (delete_room rid w) = nextR w" "nextU (delete_room rid w) = nextU w" "pending (delete_room rid w) = pending w"
  "sessUser (delete_room rid w) = sessUser w" "ReplayEnabled (delete_room rid w) = ReplayEnabled w"
  "BannedUsers (delete_room rid w) = BannedUsers w" "BannedRoomUsers (delete_room rid w) = BannedRoomUsers w"
  "Maintenance (delete_room rid w) = Maintenance w" "MaintenanceMessage (delete_room rid w) = MaintenanceMessage w"
  "RoomCreationEnabled (delete_room rid w) = RoomCreationEnabled w" "closing (delete_room rid w) = closing w"
  "closed (delete_room rid w) = closed w" "uploadUsers (delete_room rid w) = uploadUsers w"
  "cancelled (delete_room rid w) = cancelled w" "fresh (delete_room rid w) = fresh w"
  "now (delete_room rid w) = now w" "trace (delete_room rid w) = trace w"
  by (simp_all add: delete_room_def)

section \<open>Progress of the state machine\<close>

text \<open>The second contract: an operation that may move a room through its states and hand the host
  over, but changes neither who is in a room nor the tables, nor what is pending.\<close>

definition stable :: "Room \<Rightarrow> Room" where
  "stable r = r\<lparr>State := StateSelectChart, HostID := 0, readyCancel := None, playDeadlineCancel := None, nextHostID := None\<rparr>"

definition frozen :: "World \<Rightarrow> World" where
  "frozen w = (core w)\<lparr>heapR := \<lambda>r. stable (heapR w r), cancelled := {}\<rparr>"

locale progress_op =
  fixes act :: "World \<Rightarrow> World"
  assumes progress: "frozen (act w) = frozen w"
begin

lemma field: "(\<And>w. F (frozen w) = F w) \<Longrightarrow> F (act w) = F w"
  using progress [of w] by metis

lemma keeps [simp]:
  "heapU (act w) = heapU w" "Rooms (act w) = Rooms w" "Users (act w) = Users w"
  "nextR (act w) = nextR w" "nextU (act w) = nextU w" "BannedUsers (act w) = BannedUsers w"
  "ReplayEnabled (act w) = ReplayEnabled w" "fresh (act w) = fresh w"
  "uploadUsers (act w) = uploadUsers w" "sessUser (act w) = sessUser w" "closing (act w) = closing w"
  "closed (act w) = closed w" "pending (act w) = pending w" "now (act w) = now w"
  "BannedRoomUsers (act w) = BannedRoomUsers w" "Maintenance (act w) = Maintenance w"
  "MaintenanceMessage (act w) = MaintenanceMessage w" "RoomCreationEnabled (act w) = RoomCreationEnabled w"
  by (rule field, simp add: frozen_def core_def)+

lemma keeps_room [simp]:
  "rID (heapR (act w) r) = rID (heapR w r)" "users (heapR (act w) r) = users (heapR w r)"
  "monitors (heapR (act w) r) = monitors (heapR w r)" "usersMap (heapR (act w) r) = usersMap (heapR w r)"
  "monitorUsers (heapR (act w) r) = monitorUsers (heapR w r)" "chart (heapR (act w) r) = chart (heapR w r)"
  "contest (heapR (act w) r) = contest (heapR w r)" "MaxUsers (heapR (act w) r) = MaxUsers (heapR w r)"
  "Locked (heapR (act w) r) = Locked (heapR w r)" "Cycle (heapR (act w) r) = Cycle (heapR w r)"
  "Live (heapR (act w) r) = Live (heapR w r)" "ReplayEligible (heapR (act w) r) = ReplayEligible (heapR w r)"
  "ParticipantsSnapshot (heapR (act w) r) = ParticipantsSnapshot (heapR w r)"
  "participantsSnapshot (heapR (act w) r) = participantsSnapshot (heapR w r)"
  by (rule field, simp add: frozen_def core_def stable_def ParticipantsSnapshot_def)+

end

lemma frozen_core: "core w' = core w \<Longrightarrow> frozen w' = frozen w"
proof -
  assume c: "core w' = core w"
  then have "heapR (core w') = heapR (core w)" by simp
  then have "heapR w' = heapR w" by (simp add: core_def)
  with c show ?thesis by (simp add: frozen_def)
qed

sublocale quiet_op \<subseteq> prog: progress_op act
  by unfold_locales (rule frozen_core [OF quiet])

lemma frozen_upd [simp]:
  "frozen (upd_room rr (\<lambda>r. r\<lparr>State := s\<rparr>) w) = frozen w" "frozen (upd_room rr (\<lambda>r. r\<lparr>HostID := i\<rparr>) w) = frozen w"
  "frozen (upd_room rr (\<lambda>r. r\<lparr>readyCancel := c\<rparr>) w) = frozen w" "frozen (upd_room rr (\<lambda>r. r\<lparr>playDeadlineCancel := c\<rparr>) w) = frozen w"
  "frozen (upd_room rr (\<lambda>r. r\<lparr>nextHostID := h\<rparr>) w) = frozen w" "frozen (w\<lparr>cancelled := cs\<rparr>) = frozen w"
  by (auto simp: frozen_def core_def upd_room_def stable_def fun_eq_iff)

lemma frozen_cancel [simp]:
  "frozen (cancelReadyCountdown rr w) = frozen w" "frozen (cancelPlayDeadline rr w) = frozen w"
  by (simp_all add: cancelReadyCountdown_def cancelPlayDeadline_def split: option.splits)

lemma frozen_startPlaying [simp]: "frozen (startPlaying env rr us w) = frozen w"
  by (simp add: startPlaying_def Let_def q_NotifyState.prog.progress q_BroadcastRoom.prog.progress
      q_BroadcastRoomExcept.prog.progress q_ResetGameTime.prog.progress q_AddLog.prog.progress
      q_log_game_start.prog.progress q_emit.prog.progress)

lemma frozen_rotate [simp]: "frozen (rotateCycleHost env rr w) = frozen w"
  by (simp add: rotateCycleHost_def Let_def q_send_change_host.prog.progress q_Send.prog.progress
      q_logRoomInfo.prog.progress split: option.splits)

lemma frozen_notifyDangling [simp]: "frozen (notifyDanglingReconnect env rr st w) = frozen w"
proof -
  have "frozen (upd_room rr (\<lambda>r. case State r of
      StatePlaying p \<Rightarrow> r\<lparr>State := StatePlaying (p\<lparr>ReconnectNotified := n\<rparr>)\<rparr> | _ \<Rightarrow> r) w) = frozen w" for n w
    by (auto simp: frozen_def core_def upd_room_def stable_def fun_eq_iff split: InternalRoomState.splits)
  then show ?thesis
    by (simp add: notifyDanglingReconnect_def Let_def split_beta q_notify_loop.prog.progress split: option.splits)
qed

lemma frozen_CheckAllReady [simp]:
  "frozen (checkWaitForReady env rr s w) = frozen w" "frozen (snd (checkPlaying env rr st w)) = frozen w"
  "frozen (snd (CheckAllReady env rr w)) = frozen w"
proof -
  show wait: "frozen (checkWaitForReady env rr s w) = frozen w" for s
    by (simp add: checkWaitForReady_def Let_def)
  show playing: "frozen (snd (checkPlaying env rr st w)) = frozen w" for st
    by (simp add: checkPlaying_def Let_def q_NotifyState.prog.progress q_Send.prog.progress q_logRoomInfo.prog.progress
        q_ranking.prog.progress q_emit.prog.progress)
  show "frozen (snd (CheckAllReady env rr w)) = frozen w"
    by (simp add: CheckAllReady_def wait playing split: InternalRoomState.splits)
qed

lemma frozen_leave_parts [simp]:
  "frozen (hand_over env rr i j w) = frozen w" "frozen (snd (finish_leave env rr w)) = frozen w"
  "frozen (abort_player env rr i w) = frozen w"
  by (simp_all add: hand_over_def finish_leave_def abort_player_def Let_def split_beta q_send_change_host.prog.progress
      q_Send.prog.progress q_logRoomInfo.prog.progress q_NotifyWebSocket.prog.progress q_MarkAndBroadcast.prog.progress
      q_check.prog.progress split: InternalRoomState.splits)

interpretation p_cancelReady: progress_op "cancelReadyCountdown rr" for rr by unfold_locales simp
interpretation p_cancelPlay: progress_op "cancelPlayDeadline rr" for rr by unfold_locales simp
interpretation p_startPlaying: progress_op "startPlaying env rr us" for env rr us by unfold_locales simp
interpretation p_rotate: progress_op "rotateCycleHost env rr" for env rr by unfold_locales simp
interpretation p_notifyDangling: progress_op "notifyDanglingReconnect env rr st" for env rr st by unfold_locales simp
interpretation p_checkWait: progress_op "checkWaitForReady env rr s" for env rr s by unfold_locales simp
interpretation p_checkPlaying: progress_op "\<lambda>w. snd (checkPlaying env rr st w)" for env rr st by unfold_locales simp
interpretation p_CheckAllReady: progress_op "\<lambda>w. snd (CheckAllReady env rr w)" for env rr by unfold_locales simp
interpretation p_hand_over: progress_op "hand_over env rr i j" for env rr i j by unfold_locales simp
interpretation p_finish_leave: progress_op "\<lambda>w. snd (finish_leave env rr w)" for env rr by unfold_locales simp
interpretation p_abort: progress_op "abort_player env rr i" for env rr i by unfold_locales simp

lemma frozen_HandleJoin [simp]: "frozen (HandleJoin env rr ur w) = frozen w"
  by (simp add: HandleJoin_def Let_def q_logRoomInfo.prog.progress split: InternalRoomState.splits)

interpretation p_HandleJoin: progress_op "HandleJoin env rr ur" for env rr ur by unfold_locales simp

lemma frozen_fold: "(\<And>x w. frozen (f x w) = frozen w) \<Longrightarrow> frozen (fold f xs w) = frozen w"
  by (induction xs arbitrary: w) auto

interpretation p_aborts: progress_op "fold (abort_player env rr) is" for env rr "is"
  by unfold_locales (simp add: frozen_fold)

section \<open>Scheduling operations\<close>

lemma hint_fields [simp]:
  "heapR (sendFakeMonitorJoin env ur rr w) = heapR w" "heapU (sendFakeMonitorJoin env ur rr w) = heapU w"
  "nextR (sendFakeMonitorJoin env ur rr w) = nextR w" "nextU (sendFakeMonitorJoin env ur rr w) = nextU w"
  "Rooms (sendFakeMonitorJoin env ur rr w) = Rooms w" "Users (sendFakeMonitorJoin env ur rr w) = Users w"
  "heapR (sendLateJoinHint env ur w) = heapR w" "heapU (sendLateJoinHint env ur w) = heapU w"
  "nextR (sendLateJoinHint env ur w) = nextR w" "nextU (sendLateJoinHint env ur w) = nextU w"
  "Rooms (sendLateJoinHint env ur w) = Rooms w" "Users (sendLateJoinHint env ur w) = Users w"
  "ReplayEnabled (sendLateJoinHint env ur w) = ReplayEnabled w"
  by (simp_all add: sendFakeMonitorJoin_def sendLateJoinHint_def split: option.splits)

lemma fix_fields [simp]:
  "heapR (fixClientRoomState env rr ur w) = heapR w" "heapU (fixClientRoomState env rr ur w) = heapU w"
  "nextR (fixClientRoomState env rr ur w) = nextR w" "nextU (fixClientRoomState env rr ur w) = nextU w"
  by (simp_all add: fixClientRoomState_def)

section \<open>Leaving and disbanding\<close>

lemma take_out_fields [simp]:
  "nextR (take_out env rr ur w) = nextR w" "nextU (take_out env rr ur w) = nextU w" "Rooms (take_out env rr ur w) = Rooms w"
  "Users (take_out env rr ur w) = Users w" "pending (take_out env rr ur w) = pending w" "sessUser (take_out env rr ur w) = sessUser w"
  "closed (take_out env rr ur w) = closed w" "ReplayEnabled (take_out env rr ur w) = ReplayEnabled w"
  "heapU (take_out env rr ur w) = (heapU w)(ur := (heapU w ur)\<lparr>uRoom := None\<rparr>)"
  "heapR (take_out env rr ur w) = (heapR w)(rr := remove_member (heapU w ur) (heapR w rr))"
  "fresh (take_out env rr ur w) = fresh w"
  by (simp_all add: take_out_def Let_def)

lemma OnUserLeave_fields [simp]:
  "nextR (snd (OnUserLeave env rr ur w)) = nextR w" "nextU (snd (OnUserLeave env rr ur w)) = nextU w"
  "Rooms (snd (OnUserLeave env rr ur w)) = Rooms w" "Users (snd (OnUserLeave env rr ur w)) = Users w"
  "pending (snd (OnUserLeave env rr ur w)) = pending w" "sessUser (snd (OnUserLeave env rr ur w)) = sessUser w"
  "closed (snd (OnUserLeave env rr ur w)) = closed w" "ReplayEnabled (snd (OnUserLeave env rr ur w)) = ReplayEnabled w"
  "heapU (snd (OnUserLeave env rr ur w)) = (heapU w)(ur := (heapU w ur)\<lparr>uRoom := None\<rparr>)"
  "fresh (snd (OnUserLeave env rr ur w)) = fresh w"
  by (auto simp: OnUserLeave_def Let_def split: option.splits)

lemma disband_loop_fields [simp]:
  "nextR (disband_loop env rr us w) = nextR w" "nextU (disband_loop env rr us w) = nextU w"
  "Rooms (disband_loop env rr us w) = Rooms w" "Users (disband_loop env rr us w) = Users w"
  "pending (disband_loop env rr us w) = pending w" "sessUser (disband_loop env rr us w) = sessUser w"
  by (induction env rr us w rule: disband_loop.induct) (auto split: option.splits)

lemma DisbandRoom_fields [simp]:
  "nextR (DisbandRoom env rr w) = nextR w" "nextU (DisbandRoom env rr w) = nextU w"
  "Users (DisbandRoom env rr w) = Users w" "pending (DisbandRoom env rr w) = pending w"
  "sessUser (DisbandRoom env rr w) = sessUser w"
  by (simp_all add: DisbandRoom_def Let_def)

end
