(* ===== verification/Hub_Inv.thy ===== *)
theory Hub_Inv
  imports Hub_Frame
begin

text \<open>
  The invariant of the server.  Every room is well formed: its two member lists have no
  repetition, agree with the maps of user pointers and with the broadcast snapshot, the players
  respect the capacity, a game only runs on a chart, and every player has at most one result.
  The tables have unique keys that agree with the identifiers in the heap, and the host of a
  room in the table is one of its players.  While a member is being taken out, the last clause
  does not hold for that room: the invariant is stated up to a set of rooms under change.
\<close>

named_theorems inv \<open>preservation of the invariant\<close>

section \<open>Definition\<close>

definition playing_ok :: "PlayingData \<Rightarrow> bool" where
  "playing_ok p \<longleftrightarrow> distinct (map fst (Results p)) \<and> ReconnectNotified p = None"

definition state_ok :: "Room \<Rightarrow> bool" where
  "state_ok r \<longleftrightarrow> (State r = StateSelectChart \<or> chart r \<noteq> None)
     \<and> (case State r of StatePlaying p \<Rightarrow> playing_ok p | _ \<Rightarrow> True)"

definition members_ok :: "Room \<Rightarrow> bool" where
  "members_ok r \<longleftrightarrow> distinct (users r) \<and> distinct (monitors r)
     \<and> map fst (usersMap r) = users r \<and> map fst (monitorUsers r) = monitors r
     \<and> ParticipantsSnapshot r = map snd (usersMap r) @ map snd (monitorUsers r)
     \<and> int (length (users r)) \<le> max 1 (MaxUsers r)"

definition refs_ok :: "World \<Rightarrow> Room \<Rightarrow> bool" where
  "refs_ok w r \<longleftrightarrow> (\<forall>e\<in>set (usersMap r @ monitorUsers r). snd e < nextU w \<and> uID (heapU w (snd e)) = fst e)"

definition room_ok :: "World \<Rightarrow> Room \<Rightarrow> bool" where
  "room_ok w r \<longleftrightarrow> members_ok r \<and> refs_ok w r \<and> state_ok r"

definition host_ok :: "Room \<Rightarrow> bool" where
  "host_ok r \<longleftrightarrow> HostID r \<in> set (users r)"

fun del_ok :: "user_ref \<Rightarrow> room_ref \<Rightarrow> Delayed \<Rightarrow> bool" where
  "del_ok nu nr (DSend u _) = (u < nu)"
| "del_ok nu nr (DFakeMonitorJoin u _) = (u < nu)"
| "del_ok nu nr (DGameStartHint rr _ _ _) = (rr < nr)"
| "del_ok nu nr (DReadyReminder _ rr _ _) = (rr < nr)"
| "del_ok nu nr (DReadyTimeout _ rr _) = (rr < nr)"
| "del_ok nu nr (DPlayDeadline _ rr _) = (rr < nr)"
| "del_ok nu nr (DAsyncDisband rr) = (rr < nr)"
| "del_ok nu nr (DDangle u _) = (u < nu)"
| "del_ok nu nr (DFixState u rr) = (u < nu \<and> rr < nr)"
| "del_ok nu nr (DRealState u rr) = (u < nu \<and> rr < nr)"
| "del_ok nu nr (DWelcome u) = (u < nu)"
| "del_ok nu nr (DAuthRegister _ _) = True"

definition tables_ok :: "room_ref set \<Rightarrow> World \<Rightarrow> bool" where
  "tables_ok X w \<longleftrightarrow> distinct (map fst (Rooms w)) \<and> distinct (map fst (Users w))
     \<and> (\<forall>e\<in>set (Rooms w). snd e < nextR w \<and> rID (heapR w (snd e)) = fst e \<and> (snd e \<notin> X \<longrightarrow> host_ok (heapR w (snd e))))
     \<and> (\<forall>e\<in>set (Users w). snd e < nextU w \<and> uID (heapU w (snd e)) = fst e)"

definition links_ok :: "World \<Rightarrow> bool" where
  "links_ok w \<longleftrightarrow> (\<forall>u<nextU w. \<forall>rr. uRoom (heapU w u) = Some rr \<longrightarrow> rr < nextR w)
     \<and> (\<forall>s u. sessUser w s = Some u \<longrightarrow> u < nextU w)
     \<and> (\<forall>e\<in>set (pending w). del_ok (nextU w) (nextR w) (snd e))"

definition hub_inv_x :: "room_ref set \<Rightarrow> World \<Rightarrow> bool" where
  "hub_inv_x X w \<longleftrightarrow> (\<forall>rr<nextR w. room_ok w (heapR w rr)) \<and> tables_ok X w \<and> links_ok w"

abbreviation hub_inv :: "World \<Rightarrow> bool" where
  "hub_inv \<equiv> hub_inv_x {}"

lemmas inv_defs = hub_inv_x_def tables_ok_def links_ok_def

section \<open>Quiet operations\<close>

lemma hub_inv_core [simp]: "hub_inv_x X (core w) = hub_inv_x X w"
  by (simp add: inv_defs room_ok_def refs_ok_def core_def)

context quiet_op
begin

lemma inv [simp]: "hub_inv_x X (act w) = hub_inv_x X w"
  by (rule field) simp

lemma room_ok [simp]: "room_ok (act w) r = room_ok w r"
  by (simp add: room_ok_def refs_ok_def)

end

lemma inv_mono: "hub_inv_x X w \<Longrightarrow> X \<subseteq> Y \<Longrightarrow> hub_inv_x Y w"
  unfolding inv_defs by auto

section \<open>Updates\<close>

lemma refs_ok_mono:
  assumes "refs_ok w r" "nextU w \<le> nextU w'" "\<And>u. u < nextU w \<Longrightarrow> uID (heapU w' u) = uID (heapU w u)"
  shows "refs_ok w' r"
  using assms unfolding refs_ok_def by (simp add: less_le_trans [of _ "nextU w" "nextU w'"])

lemma room_ok_upd_room [simp]: "room_ok (upd_room rr f w) r = room_ok w r"
  by (simp add: room_ok_def refs_ok_def)

lemma inv_upd_room:
  assumes inv: "hub_inv_x X w" and r: "rr < nextR w \<Longrightarrow> room_ok w (f (heapR w rr))"
    and rid: "rID (f (heapR w rr)) = rID (heapR w rr)"
    and host: "rr \<notin> X \<Longrightarrow> host_ok (heapR w rr) \<Longrightarrow> host_ok (f (heapR w rr))"
  shows "hub_inv_x X (upd_room rr f w)"
  using assms unfolding inv_defs by auto

lemma inv_upd_user:
  assumes inv: "hub_inv_x X w" and i: "uID (f (heapU w ur)) = uID (heapU w ur)"
    and room: "\<And>rr. ur < nextU w \<Longrightarrow> uRoom (f (heapU w ur)) = Some rr \<Longrightarrow> rr < nextR w"
  shows "hub_inv_x X (upd_user ur f w)"
proof -
  have "uID (((heapU w)(ur := f (heapU w ur))) u) = uID (heapU w u)" for u using i by simp
  then have "refs_ok (upd_user ur f w) r = refs_ok w r" for r
    by (simp add: refs_ok_def)
  then show ?thesis
    using assms unfolding inv_defs room_ok_def by (auto simp: i)
qed

lemma inv_schedule [inv]:
  "hub_inv_x X w \<Longrightarrow> del_ok (nextU w) (nextR w) a \<Longrightarrow> hub_inv_x X (schedule d a w)"
  by (auto simp: inv_defs room_ok_def refs_ok_def)

lemma inv_delete_room:
  assumes "hub_inv_x X w" "X \<subseteq> {rr}" shows "hub_inv (delete_room (rID (heapR w rr)) w)"
proof -
  have "\<forall>e\<in>set (Rooms w). fst e \<noteq> rID (heapR w rr) \<longrightarrow> host_ok (heapR w (snd e))"
    using assms unfolding inv_defs by fastforce
  then show ?thesis
    using assms unfolding inv_defs
    by (auto simp: room_ok_def refs_ok_def distinct_map_filter AList.delete_eq)
qed

lemma inv_other_fields [inv]:
  "hub_inv_x X w \<Longrightarrow> hub_inv_x X (w\<lparr>cancelled := c\<rparr>)" "hub_inv_x X w \<Longrightarrow> hub_inv_x X (w\<lparr>fresh := n\<rparr>)"
  "hub_inv_x X w \<Longrightarrow> hub_inv_x X (w\<lparr>closed := s\<rparr>)" "hub_inv_x X w \<Longrightarrow> hub_inv_x X (w\<lparr>closing := s\<rparr>)"
  "hub_inv_x X w \<Longrightarrow> hub_inv_x X (w\<lparr>uploadUsers := us\<rparr>)" "hub_inv_x X w \<Longrightarrow> hub_inv_x X (w\<lparr>now := t\<rparr>)"
  by (auto simp: inv_defs room_ok_def refs_ok_def)

lemma inv_room: "hub_inv_x X w \<Longrightarrow> rr < nextR w \<Longrightarrow> room_ok w (heapR w rr)"
  by (simp add: hub_inv_x_def)

lemma inv_Rooms: "hub_inv_x X w \<Longrightarrow> map_of (Rooms w) rid = Some rr \<Longrightarrow> rr < nextR w \<and> rID (heapR w rr) = rid"
  unfolding inv_defs by (auto dest!: map_of_SomeD)

lemma inv_host: "hub_inv_x X w \<Longrightarrow> map_of (Rooms w) rid = Some rr \<Longrightarrow> rr \<notin> X \<Longrightarrow> host_ok (heapR w rr)"
  unfolding inv_defs by (auto dest!: map_of_SomeD)

lemma inv_Users: "hub_inv_x X w \<Longrightarrow> map_of (Users w) i = Some u \<Longrightarrow> u < nextU w \<and> uID (heapU w u) = i"
  unfolding inv_defs by (auto dest!: map_of_SomeD)

lemma inv_uRoom: "hub_inv_x X w \<Longrightarrow> u < nextU w \<Longrightarrow> uRoom (heapU w u) = Some rr \<Longrightarrow> rr < nextR w"
  unfolding inv_defs by auto

lemma inv_sess: "hub_inv_x X w \<Longrightarrow> sessUser w s = Some u \<Longrightarrow> u < nextU w"
  unfolding inv_defs by auto

section \<open>Rooms\<close>

lemma refs_ok_fields: "usersMap r' = usersMap r \<Longrightarrow> monitorUsers r' = monitorUsers r \<Longrightarrow> refs_ok w r' = refs_ok w r"
  by (simp add: refs_ok_def)

lemma first_above_member: "first_above old xs = Some i \<Longrightarrow> i \<in> set xs"
  by (induction xs) (auto split: if_splits)

lemma pickNextHost_member: "pickNextHost ids old = Some i \<Longrightarrow> i \<in> set ids"
proof -
  assume p: "pickNextHost ids old = Some i"
  then have "ids \<noteq> []" by (auto simp: pickNextHost_def)
  then have "sort ids \<noteq> []" by (metis length_0_conv length_sort)
  then have "hd (sort ids) \<in> set (sort ids)" by (rule hd_in_set)
  moreover from p have "i = hd (sort ids) \<or> first_above old (sort ids) = Some i"
    by (auto simp: pickNextHost_def Let_def split: if_splits option.splits)
  ultimately have "i \<in> set (sort ids)" using first_above_member by blast
  then show ?thesis by simp
qed

lemma contains_int_iff [simp]: "contains_int xs i \<longleftrightarrow> i \<in> set xs"
  by (induction xs) auto

lemma ContainsUser_iff [simp]: "ContainsUser r i \<longleftrightarrow> i \<in> set (users r)"
  by (simp add: ContainsUser_def)

lemma choose_cycle_host_member: "choose_cycle_host r = Some i \<Longrightarrow> i \<in> set (users r)"
  by (auto simp: choose_cycle_host_def split: option.splits if_splits dest: pickNextHost_member)

lemma snapshot_refresh [simp]:
  "ParticipantsSnapshot (refreshParticipantsSnapshot r) = map snd (usersMap r) @ map snd (monitorUsers r)"
  by (simp add: refreshParticipantsSnapshot_def ParticipantsSnapshot_def)

lemma refresh_fields [simp]:
  "users (refreshParticipantsSnapshot r) = users r" "monitors (refreshParticipantsSnapshot r) = monitors r"
  "usersMap (refreshParticipantsSnapshot r) = usersMap r" "monitorUsers (refreshParticipantsSnapshot r) = monitorUsers r"
  "State (refreshParticipantsSnapshot r) = State r" "chart (refreshParticipantsSnapshot r) = chart r"
  "HostID (refreshParticipantsSnapshot r) = HostID r" "rID (refreshParticipantsSnapshot r) = rID r"
  "MaxUsers (refreshParticipantsSnapshot r) = MaxUsers r" "contest (refreshParticipantsSnapshot r) = contest r"
  by (simp_all add: refreshParticipantsSnapshot_def)

lemma keys_delete [simp]: "map fst (AList.delete k m) = filter (\<lambda>x. x \<noteq> k) (map fst m)"
  by (induction m) (auto simp: AList.delete_eq)

lemma keys_update_new: "k \<notin> set (map fst m) \<Longrightarrow> map fst (AList.update k v m) = map fst m @ [k]"
  by (simp add: update_new)

lemma keys_update_old: "k \<in> set (map fst m) \<Longrightarrow> map fst (AList.update k v m) = map fst m"
  by (induction m) auto

lemma removeInt_filter: "distinct xs \<Longrightarrow> removeInt xs i = filter (\<lambda>x. x \<noteq> i) xs"
  by (simp add: removeInt_def distinct_remove1_removeAll removeAll_filter_not_eq) (metis)

lemma members_ok_AddUser:
  assumes "members_ok r" "AddUser u ur monitor r = (True, r')"
  shows "members_ok r'"
proof (cases monitor)
  case True
  with assms have r': "users r' = users r" "usersMap r' = usersMap r" "MaxUsers r' = MaxUsers r"
    "monitors r' = (if uID u \<in> set (monitors r) then monitors r else monitors r @ [uID u])"
    "monitorUsers r' = AList.update (uID u) ur (monitorUsers r)"
    "ParticipantsSnapshot r' = map snd (usersMap r') @ map snd (monitorUsers r')"
    by (auto simp: AddUser_def Let_def)
  have "map fst (monitorUsers r) = monitors r" using assms by (simp add: members_ok_def)
  then have "map fst (monitorUsers r') = monitors r'"
    using keys_update_new [of "uID u" "monitorUsers r" ur] keys_update_old [of "uID u" "monitorUsers r" ur]
    by (simp add: r')
  with assms r' show ?thesis by (simp add: members_ok_def)
next
  case False
  with assms have r': "monitors r' = monitors r" "monitorUsers r' = monitorUsers r" "MaxUsers r' = MaxUsers r"
    "users r' = (if uID u \<in> set (users r) then users r else users r @ [uID u])"
    "usersMap r' = AList.update (uID u) ur (usersMap r)"
    "ParticipantsSnapshot r' = map snd (usersMap r') @ map snd (monitorUsers r')"
    "uID u \<notin> set (users r) \<Longrightarrow> int (length (users r)) < MaxUsers r"
    by (auto simp: AddUser_def Let_def split: if_splits)
  have "map fst (usersMap r) = users r" using assms by (simp add: members_ok_def)
  then have "map fst (usersMap r') = users r'"
    using keys_update_new [of "uID u" "usersMap r" ur] keys_update_old [of "uID u" "usersMap r" ur]
    by (simp add: r')
  with assms r' show ?thesis by (auto simp: members_ok_def)
qed

lemma set_update: "set (AList.update k v m) \<subseteq> insert (k, v) (set m)"
  by (induction m) auto

lemma AddUser_fields:
  "State (snd (AddUser u ur monitor r)) = State r" "chart (snd (AddUser u ur monitor r)) = chart r"
  "HostID (snd (AddUser u ur monitor r)) = HostID r" "rID (snd (AddUser u ur monitor r)) = rID r"
  "contest (snd (AddUser u ur monitor r)) = contest r" "set (users r) \<subseteq> set (users (snd (AddUser u ur monitor r)))"
  "ReplayEligible (snd (AddUser u ur monitor r)) = ReplayEligible r"
  by (auto simp: AddUser_def Let_def refreshParticipantsSnapshot_def)

lemma refs_ok_AddUser:
  assumes "refs_ok w r" "ur < nextU w" "u = heapU w ur"
  shows "refs_ok w (snd (AddUser u ur monitor r))"
  using assms set_update [of "uID u" ur "usersMap r"] set_update [of "uID u" ur "monitorUsers r"]
  by (auto simp: AddUser_def Let_def refs_ok_def)

lemma room_ok_AddUser:
  assumes "room_ok w r" "ur < nextU w" "AddUser (heapU w ur) ur monitor r = (True, r')"
  shows "room_ok w r'" "host_ok r \<Longrightarrow> host_ok r'" "rID r' = rID r"
  using assms members_ok_AddUser [OF _ assms(3)] refs_ok_AddUser [of w r ur "heapU w ur" monitor]
    AddUser_fields [where u = "heapU w ur" and ur = ur and monitor = monitor and r = r]
  by (auto simp: room_ok_def state_ok_def host_ok_def)

lemma remove_member_fields [simp]:
  "State (remove_member u r) = State r" "chart (remove_member u r) = chart r" "HostID (remove_member u r) = HostID r"
  "rID (remove_member u r) = rID r" "contest (remove_member u r) = contest r"
  by (simp_all add: remove_member_def)

lemma members_ok_remove: "members_ok r \<Longrightarrow> members_ok (remove_member u r)"
  by (auto simp: members_ok_def remove_member_def removeInt_filter intro: order_trans [OF of_nat_mono [OF length_filter_le]])

lemma refs_ok_remove: "refs_ok w r \<Longrightarrow> refs_ok w (remove_member u r)"
  by (auto simp: refs_ok_def remove_member_def AList.delete_eq)

lemma room_ok_remove_member: "room_ok w r \<Longrightarrow> room_ok w (remove_member u r)"
  by (simp add: room_ok_def members_ok_remove refs_ok_remove) (simp add: state_ok_def)

end
