(* ===== verification/Hub_Preserve.thy ===== *)
theory Hub_Preserve
  imports Hub_Inv
begin

text \<open>
  Every operation of the room life cycle keeps the invariant of \<open>Hub_Inv\<close>, operation by operation.
\<close>

section \<open>Single fields of a room\<close>

lemma members_ok_upd [simp]:
  "members_ok (r\<lparr>Locked := b\<rparr>) = members_ok r" "members_ok (r\<lparr>Cycle := b\<rparr>) = members_ok r"
  "members_ok (r\<lparr>Live := b\<rparr>) = members_ok r" "members_ok (r\<lparr>contest := c\<rparr>) = members_ok r"
  "members_ok (r\<lparr>readyCancel := n\<rparr>) = members_ok r" "members_ok (r\<lparr>playDeadlineCancel := n\<rparr>) = members_ok r"
  "members_ok (r\<lparr>nextHostID := h\<rparr>) = members_ok r" "members_ok (r\<lparr>HostID := i\<rparr>) = members_ok r"
  "members_ok (r\<lparr>State := s\<rparr>) = members_ok r" "members_ok (r\<lparr>chart := ch\<rparr>) = members_ok r"
  by (simp_all add: members_ok_def ParticipantsSnapshot_def)

lemma refs_ok_upd [simp]:
  "refs_ok w (r\<lparr>Locked := b\<rparr>) = refs_ok w r" "refs_ok w (r\<lparr>Cycle := b\<rparr>) = refs_ok w r"
  "refs_ok w (r\<lparr>Live := b\<rparr>) = refs_ok w r" "refs_ok w (r\<lparr>contest := c\<rparr>) = refs_ok w r"
  "refs_ok w (r\<lparr>readyCancel := n\<rparr>) = refs_ok w r" "refs_ok w (r\<lparr>playDeadlineCancel := n\<rparr>) = refs_ok w r"
  "refs_ok w (r\<lparr>nextHostID := h\<rparr>) = refs_ok w r" "refs_ok w (r\<lparr>HostID := i\<rparr>) = refs_ok w r"
  "refs_ok w (r\<lparr>State := s\<rparr>) = refs_ok w r" "refs_ok w (r\<lparr>chart := ch\<rparr>) = refs_ok w r"
  by (simp_all add: refs_ok_def)

lemma state_ok_upd [simp]:
  "state_ok (r\<lparr>Locked := b\<rparr>) = state_ok r" "state_ok (r\<lparr>Cycle := b\<rparr>) = state_ok r"
  "state_ok (r\<lparr>Live := b\<rparr>) = state_ok r" "state_ok (r\<lparr>contest := c\<rparr>) = state_ok r"
  "state_ok (r\<lparr>readyCancel := n\<rparr>) = state_ok r" "state_ok (r\<lparr>playDeadlineCancel := n\<rparr>) = state_ok r"
  "state_ok (r\<lparr>nextHostID := h\<rparr>) = state_ok r" "state_ok (r\<lparr>HostID := i\<rparr>) = state_ok r"
  "state_ok (r\<lparr>State := StateSelectChart\<rparr>)"
  "state_ok (r\<lparr>State := StateWaitForReady ws\<rparr>) = (chart r \<noteq> None)"
  "state_ok (r\<lparr>State := StatePlaying p\<rparr>) = (chart r \<noteq> None \<and> playing_ok p)"
  by (simp_all add: state_ok_def)

lemma room_ok_simple [simp]:
  "room_ok w (r\<lparr>Locked := b\<rparr>) = room_ok w r" "room_ok w (r\<lparr>Cycle := b\<rparr>) = room_ok w r"
  "room_ok w (r\<lparr>Live := b\<rparr>) = room_ok w r" "room_ok w (r\<lparr>contest := c\<rparr>) = room_ok w r"
  "room_ok w (r\<lparr>readyCancel := n\<rparr>) = room_ok w r" "room_ok w (r\<lparr>playDeadlineCancel := n\<rparr>) = room_ok w r"
  "room_ok w (r\<lparr>nextHostID := h\<rparr>) = room_ok w r" "room_ok w (r\<lparr>HostID := i\<rparr>) = room_ok w r"
  by (simp_all add: room_ok_def)

lemma host_ok_upd [simp]:
  "host_ok (r\<lparr>Locked := b\<rparr>) = host_ok r" "host_ok (r\<lparr>Cycle := b\<rparr>) = host_ok r"
  "host_ok (r\<lparr>Live := b\<rparr>) = host_ok r" "host_ok (r\<lparr>contest := c\<rparr>) = host_ok r"
  "host_ok (r\<lparr>readyCancel := n\<rparr>) = host_ok r" "host_ok (r\<lparr>playDeadlineCancel := n\<rparr>) = host_ok r"
  "host_ok (r\<lparr>nextHostID := h\<rparr>) = host_ok r" "host_ok (r\<lparr>State := s\<rparr>) = host_ok r"
  "host_ok (r\<lparr>chart := ch\<rparr>) = host_ok r" "host_ok (r\<lparr>HostID := i\<rparr>) \<longleftrightarrow> i \<in> set (users r)"
  by (simp_all add: host_ok_def)

lemma RefreshLive_ok [simp]:
  "room_ok w (RefreshLive b r) = room_ok w r" "host_ok (RefreshLive b r) = host_ok r" "rID (RefreshLive b r) = rID r"
  "State (RefreshLive b r) = State r" "users (RefreshLive b r) = users r" "chart (RefreshLive b r) = chart r"
  by (simp_all add: RefreshLive_def)

lemma room_ok_chart: "room_ok w r \<Longrightarrow> State r \<noteq> StateSelectChart \<Longrightarrow> chart r \<noteq> None"
  by (auto simp: room_ok_def state_ok_def)

lemma room_ok_playing: "room_ok w r \<Longrightarrow> State r = StatePlaying p \<Longrightarrow> playing_ok p"
  by (simp add: room_ok_def state_ok_def)

lemma inv_upd_host:
  assumes inv: "hub_inv_x (insert rr X) w" and r: "rr < nextR w \<Longrightarrow> room_ok w (f (heapR w rr))"
    and rid: "rID (f (heapR w rr)) = rID (heapR w rr)" and host: "host_ok (f (heapR w rr))"
  shows "hub_inv_x X (upd_room rr f w)"
  using assms unfolding inv_defs by auto

section \<open>Life cycle\<close>

lemma inv_cancelReady [inv]: "hub_inv_x X w \<Longrightarrow> hub_inv_x X (cancelReadyCountdown rr w)"
  by (auto simp: cancelReadyCountdown_def intro!: inv inv_upd_room dest: inv_room split: option.splits)

lemma inv_cancelPlay [inv]: "hub_inv_x X w \<Longrightarrow> hub_inv_x X (cancelPlayDeadline rr w)"
  by (auto simp: cancelPlayDeadline_def intro!: inv inv_upd_room dest: inv_room split: option.splits)

lemma cancel_fields [simp]:
  "HostID (heapR (cancelReadyCountdown rr w) r) = HostID (heapR w r)" "HostID (heapR (cancelPlayDeadline rr w) r) = HostID (heapR w r)"
  "State (heapR (cancelReadyCountdown rr w) r) = State (heapR w r)" "State (heapR (cancelPlayDeadline rr w) r) = State (heapR w r)"
  by (auto simp: cancelReadyCountdown_def cancelPlayDeadline_def split: option.splits)

lemma playing_ok_new [simp]: "playing_ok (new_playing t)"
  by (simp add: playing_ok_def new_playing_def)

lemma room_ok_State:
  "room_ok w r \<Longrightarrow> state_ok (r\<lparr>State := s\<rparr>) \<Longrightarrow> room_ok w (r\<lparr>State := s\<rparr>)"
  by (simp add: room_ok_def)

lemma inv_State:
  "hub_inv_x X w \<Longrightarrow> (rr < nextR w \<Longrightarrow> state_ok ((heapR w rr)\<lparr>State := s\<rparr>)) \<Longrightarrow>
     hub_inv_x X (upd_room rr (\<lambda>r. r\<lparr>State := s\<rparr>) w)"
  by (rule inv_upd_room) (auto intro: room_ok_State inv_room)

lemma inv_startPlaying [inv]:
  "hub_inv_x X w \<Longrightarrow> (rr < nextR w \<Longrightarrow> chart (heapR w rr) \<noteq> None) \<Longrightarrow> hub_inv_x X (startPlaying env rr unready w)"
  by (auto simp: startPlaying_def Let_def intro!: inv inv_State)

lemma inv_chart:
  "hub_inv_x X w \<Longrightarrow> rr < nextR w \<Longrightarrow> State (heapR w rr) \<noteq> StateSelectChart \<Longrightarrow> chart (heapR w rr) \<noteq> None"
  using inv_room room_ok_chart by blast

lemma inv_checkWait [inv]:
  "hub_inv_x X w \<Longrightarrow> State (heapR w rr) = StateWaitForReady s \<Longrightarrow> hub_inv_x X (checkWaitForReady env rr s w)"
  using inv_chart [of X w rr] by (auto simp: checkWaitForReady_def Let_def intro!: inv)

lemma inv_notifyDangling [inv]:
  assumes "hub_inv_x X w" "State (heapR w rr) = StatePlaying st"
  shows "hub_inv_x X (notifyDanglingReconnect env rr st w)"
proof -
  have None: "rr < nextR w \<Longrightarrow> ReconnectNotified st = None"
    using assms by (auto dest!: inv_room room_ok_playing simp: playing_ok_def)
  have "hub_inv_x X (upd_room rr (\<lambda>r. case State r of
           StatePlaying p \<Rightarrow> r\<lparr>State := StatePlaying (p\<lparr>ReconnectNotified := n\<rparr>)\<rparr> | _ \<Rightarrow> r) w')"
    if "\<not> rr < nextR w'" "hub_inv_x X w'" for w' n
    using that by (intro inv_upd_room) (auto split: InternalRoomState.splits)
  with assms None show ?thesis
    by (cases "rr < nextR w")
       (auto simp: notifyDanglingReconnect_def Let_def split_beta split: option.splits)
qed

lemma inv_rotate [inv]: "hub_inv_x X w \<Longrightarrow> hub_inv_x X (rotateCycleHost env rr w)"
  by (auto simp: rotateCycleHost_def Let_def dest!: choose_cycle_host_member intro!: inv_upd_room dest: inv_room split: option.splits)

lemma inv_checkPlaying [inv]:
  assumes "hub_inv_x X w" "State (heapR w rr) = StatePlaying st"
  shows "hub_inv_x X (snd (checkPlaying env rr st w))"
  using assms by (auto simp: checkPlaying_def Let_def intro!: inv inv_State)

lemma inv_CheckAllReady [inv]: "hub_inv_x X w \<Longrightarrow> hub_inv_x X (snd (CheckAllReady env rr w))"
  by (auto simp: CheckAllReady_def intro!: inv split: InternalRoomState.splits)


section \<open>Leaving and disbanding\<close>

lemma host_ok_remove: "HostID r \<noteq> uID u \<Longrightarrow> host_ok r \<Longrightarrow> host_ok (remove_member u r)"
  by (auto simp: host_ok_def remove_member_def removeInt_def in_set_remove1)

lemma inv_user_room [inv]: "hub_inv_x X w \<Longrightarrow> hub_inv_x X (upd_user ur (\<lambda>u. u\<lparr>uRoom := None\<rparr>) w)"
  by (rule inv_upd_user) auto

lemma inv_take_out:
  assumes "hub_inv_x X w"
  shows "hub_inv_x (insert rr X) (take_out env rr ur w)"
    "HostID (heapR w rr) \<noteq> uID (heapU w ur) \<Longrightarrow> hub_inv_x X (take_out env rr ur w)"
proof -
  define w1 where "w1 = upd_user ur (\<lambda>u. u\<lparr>uRoom := None\<rparr>)
    (Send env rr (MsgLeaveRoom (to_i32 (uID (heapU w ur))) (Name (heapU w ur))) (check_i32 (uID (heapU w ur)) w))"
  have w1: "hub_inv_x X w1" using assms unfolding w1_def by (intro inv) simp
  have eq: "take_out env rr ur w = upd_room rr (remove_member (heapU w ur)) w1"
    by (simp add: take_out_def Let_def w1_def)
  show "hub_inv_x (insert rr X) (take_out env rr ur w)"
    unfolding eq using inv_mono [OF w1, of "insert rr X"] inv_room [OF w1]
    by (intro inv_upd_room) (auto intro: room_ok_remove_member)
  assume "HostID (heapR w rr) \<noteq> uID (heapU w ur)"
  then show "hub_inv_x X (take_out env rr ur w)"
    unfolding eq using w1 inv_room [OF w1]
    by (intro inv_upd_room) (auto intro: room_ok_remove_member host_ok_remove simp: w1_def)
qed

lemma inv_hand_over:
  "hub_inv_x (insert rr X) w \<Longrightarrow> newHost \<in> set (users (heapR w rr)) \<Longrightarrow> hub_inv_x X (hand_over env rr old newHost w)"
  by (auto simp: hand_over_def Let_def intro!: inv_upd_host dest: inv_room)

lemma inv_finish_leave: "hub_inv_x X w \<Longrightarrow> hub_inv_x X (snd (finish_leave env rr w))"
  using inv_CheckAllReady [of X "NotifyWebSocket env rr w" env rr]
  by (simp add: finish_leave_def Let_def split_beta)

lemma take_out_host: "HostID (heapR (take_out env rr ur w) rr) = HostID (heapR w rr)"
  by (simp add: take_out_def Let_def)

lemma inv_OnUserLeave:
  assumes inv: "hub_inv_x X w"
  shows "hub_inv_x (insert rr X) (snd (OnUserLeave env rr ur w))"
    "\<not> fst (fst (OnUserLeave env rr ur w)) \<Longrightarrow> hub_inv_x X (snd (OnUserLeave env rr ur w))"
proof -
  let ?w = "take_out env rr ur w"
  have out: "hub_inv_x (insert rr X) ?w" using inv by (rule inv_take_out)
  have other: "hub_inv_x X (snd (finish_leave env rr ?w))" if "HostID (heapR ?w rr) \<noteq> uID (heapU w ur)"
    using that inv_take_out(2) [OF inv] by (intro inv_finish_leave) (simp add: take_out_host)
  have host: "hub_inv_x X (snd (finish_leave env rr (hand_over env rr (uID (heapU w ur)) h ?w)))"
    if "pickNextHost (users (heapR ?w rr)) (uID (heapU w ur)) = Some h" for h
    using that by (intro inv_finish_leave inv_hand_over out pickNextHost_member)
  have "if fst (fst (OnUserLeave env rr ur w)) \<and> snd (OnUserLeave env rr ur w) = ?w then True
        else hub_inv_x X (snd (OnUserLeave env rr ur w))"
    using other host by (auto simp: OnUserLeave_def Let_def split: option.splits)
  with out show "hub_inv_x (insert rr X) (snd (OnUserLeave env rr ur w))"
    "\<not> fst (fst (OnUserLeave env rr ur w)) \<Longrightarrow> hub_inv_x X (snd (OnUserLeave env rr ur w))"
    by (auto split: if_splits intro: inv_mono [of X])
qed

lemma inv_disband_loop: "hub_inv_x {rr} w \<Longrightarrow> hub_inv_x {rr} (disband_loop env rr us w)"
proof (induction env rr us w rule: disband_loop.induct)
  case (2 env rr u us w)
  then show ?case using inv_OnUserLeave(1) [of "{rr}" w rr env u] by (auto split: option.splits)
qed simp

lemma inv_DisbandRoom [inv]: "hub_inv_x X w \<Longrightarrow> X \<subseteq> {rr} \<Longrightarrow> hub_inv (DisbandRoom env rr w)"
proof -
  assume "hub_inv_x X w" "X \<subseteq> {rr}"
  then have "hub_inv_x {rr} (cancelPlayDeadline rr (cancelReadyCountdown rr w))"
    by (intro inv) (rule inv_mono)
  then have "hub_inv_x {rr} (disband_loop env rr us (cancelPlayDeadline rr (cancelReadyCountdown rr w)))" for us
    by (rule inv_disband_loop)
  then show ?thesis
    by (simp add: DisbandRoom_def Let_def) (rule inv_delete_room, auto)
qed

end
