(* ===== verification/Hub_Preserve_Ops.thy ===== *)
theory Hub_Preserve_Ops
  imports Hub_Preserve
begin

text \<open>
  The handlers of client commands, the operations of the administrator, the delayed bodies and the
  life of the sessions keep the invariant.
\<close>

section \<open>Shared steps\<close>

lemma del_ok_mono: "del_ok nu nr a \<Longrightarrow> nu \<le> nu' \<Longrightarrow> nr \<le> nr' \<Longrightarrow> del_ok nu' nr' a"
  by (cases a) auto

lemma inv_with_room:
  assumes "hub_inv w" "ur < nextU w"
    and "\<And>rr. uRoom (heapU w ur) = Some rr \<Longrightarrow> rr < nextR w \<Longrightarrow> hub_inv (snd (f rr w))"
  shows "hub_inv (snd (with_room ur f w))"
  using assms by (auto simp: with_room_def RequireRoom_def dest: inv_uRoom split: option.splits)

lemma inv_Locked [inv]: "hub_inv_x X w \<Longrightarrow> hub_inv_x X (upd_room rr (\<lambda>r. r\<lparr>Locked := b\<rparr>) w)"
  by (rule inv_upd_room) (auto dest: inv_room)

lemma inv_Cycle [inv]: "hub_inv_x X w \<Longrightarrow> hub_inv_x X (upd_room rr (\<lambda>r. r\<lparr>Cycle := b\<rparr>) w)"
  by (rule inv_upd_room) (auto dest: inv_room)

lemma inv_contest: "hub_inv_x X w \<Longrightarrow> hub_inv_x X (upd_room rr (\<lambda>r. r\<lparr>contest := f r\<rparr>) w)"
  by (rule inv_upd_room) (auto dest: inv_room)

lemma inv_RefreshLive [inv]: "hub_inv_x X w \<Longrightarrow> hub_inv_x X (upd_room rr (RefreshLive b) w)"
  by (rule inv_upd_room) (auto dest: inv_room)

lemma inv_readyCancel [inv]: "hub_inv_x X w \<Longrightarrow> hub_inv_x X (upd_room rr (\<lambda>r. r\<lparr>readyCancel := c\<rparr>) w)"
  by (rule inv_upd_room) (auto dest: inv_room)

lemma inv_playCancel [inv]: "hub_inv_x X w \<Longrightarrow> hub_inv_x X (upd_room rr (\<lambda>r. r\<lparr>playDeadlineCancel := c\<rparr>) w)"
  by (rule inv_upd_room) (auto dest: inv_room)

lemma room_ok_set_chart: "room_ok w r \<Longrightarrow> room_ok w (r\<lparr>chart := Some c\<rparr>)"
  by (auto simp: room_ok_def state_ok_def)

lemma inv_chart_set [inv]: "hub_inv_x X w \<Longrightarrow> hub_inv_x X (upd_room rr (\<lambda>r. r\<lparr>chart := Some c\<rparr>) w)"
  by (rule inv_upd_room) (auto dest: inv_room intro: room_ok_set_chart)

lemma inv_check_and_disband [inv]: "hub_inv w \<Longrightarrow> hub_inv (check_and_disband env rr w)"
  using inv_CheckAllReady [of "{}" w env rr]
  by (auto simp: check_and_disband_def split_beta intro!: inv)

lemma playing_ok_abort [simp]: "playing_ok (p\<lparr>Aborted := a\<rparr>) = playing_ok p"
  by (simp add: playing_ok_def)

lemma playing_ok_result: "playing_ok p \<Longrightarrow> playing_ok (p\<lparr>Results := AList.update i r (Results p)\<rparr>)"
  by (simp add: playing_ok_def distinct_update)

lemma inv_playing: "hub_inv_x X w \<Longrightarrow> rr < nextR w \<Longrightarrow> State (heapR w rr) = StatePlaying p \<Longrightarrow>
    playing_ok p \<and> chart (heapR w rr) \<noteq> None"
  using inv_room [of X w rr] inv_chart [of X w rr] by (auto dest: room_ok_playing)

section \<open>Room commands\<close>

lemma inv_handleLockRoom: "hub_inv w \<Longrightarrow> ur < nextU w \<Longrightarrow> hub_inv (snd (handleLockRoom env ur b w))"
  unfolding handleLockRoom_def by (rule inv_with_room) (auto intro!: inv split: option.splits)

lemma inv_handleCycleRoom: "hub_inv w \<Longrightarrow> ur < nextU w \<Longrightarrow> hub_inv (snd (handleCycleRoom env ur b w))"
  unfolding handleCycleRoom_def by (rule inv_with_room) (auto intro!: inv split: option.splits)

lemma inv_handleSelectChart: "hub_inv w \<Longrightarrow> ur < nextU w \<Longrightarrow> hub_inv (snd (handleSelectChart env ur c w))"
  unfolding handleSelectChart_def
  by (rule inv_with_room) (auto simp: Let_def intro!: inv split: option.splits sum.splits)

lemma fold_schedule_fields [simp]:
  "nextR (fold (\<lambda>x. schedule (g x) (a x)) xs w) = nextR w" "nextU (fold (\<lambda>x. schedule (g x) (a x)) xs w) = nextU w"
  by (induction xs arbitrary: w) auto

lemma inv_fold_schedule:
  "hub_inv w \<Longrightarrow> (\<And>x. del_ok (nextU w) (nextR w) (a x)) \<Longrightarrow> hub_inv (fold (\<lambda>x. schedule (g x) (a x)) xs w)"
proof (induction xs arbitrary: w)
  case (Cons x xs)
  then show ?case by (simp add: inv_schedule)
qed simp

lemma inv_startReadyCountdown [inv]:
  "hub_inv w \<Longrightarrow> rr < nextR w \<Longrightarrow> hub_inv (startReadyCountdown env rr w)"
  by (auto simp: startReadyCountdown_def Let_def intro!: inv inv_fold_schedule)

lemma inv_startPlayDeadline [inv]:
  "hub_inv w \<Longrightarrow> rr < nextR w \<Longrightarrow> hub_inv (startPlayDeadline env rr w)"
  by (auto simp: startPlayDeadline_def Let_def intro!: inv)

lemma ValidateStart_chart: "ValidateStart r u = None \<Longrightarrow> chart r \<noteq> None \<and> State r = StateSelectChart \<and> HostID r = uID u"
  by (auto simp: ValidateStart_def CheckHost_def split: option.splits if_splits)

lemma inv_handleRequestStart: "hub_inv w \<Longrightarrow> ur < nextU w \<Longrightarrow> hub_inv (snd (handleRequestStart env ur w))"
  unfolding handleRequestStart_def
  by (rule inv_with_room)
     (auto simp: Let_def split_beta dest!: ValidateStart_chart intro!: inv inv_State split: option.splits InternalRoomState.splits)

lemma inv_handleReady: "hub_inv w \<Longrightarrow> ur < nextU w \<Longrightarrow> hub_inv (snd (handleReady env ur w))"
  unfolding handleReady_def using inv_chart [of "{}" w]
  by (intro inv_with_room) (auto simp: Let_def intro!: inv inv_State split: InternalRoomState.splits)

lemma inv_handleCancelReady: "hub_inv w \<Longrightarrow> ur < nextU w \<Longrightarrow> hub_inv (snd (handleCancelReady env ur w))"
  unfolding handleCancelReady_def using inv_chart [of "{}" w]
  by (intro inv_with_room) (auto simp: Let_def intro!: inv inv_State split: InternalRoomState.splits)

lemma inv_handleAbort: "hub_inv w \<Longrightarrow> ur < nextU w \<Longrightarrow> hub_inv (snd (handleAbort env ur w))"
  unfolding handleAbort_def using inv_playing [of "{}" w]
  by (intro inv_with_room) (auto simp: Let_def intro!: inv inv_State split: InternalRoomState.splits)

lemma inv_handleChat: "hub_inv w \<Longrightarrow> ur < nextU w \<Longrightarrow> hub_inv (snd (handleChat env ur m w))"
  unfolding handleChat_def by (rule inv_with_room) (auto simp: Let_def)

text \<open>Leaving for good: the room is dropped from the table when the departure says so.\<close>

lemma inv_leave_and_drop:
  assumes "hub_inv w" and f: "\<And>X w. hub_inv_x X (f w) = hub_inv_x X w" "\<And>w. heapR (f w) = heapR w"
    and g: "\<And>w. hub_inv w \<Longrightarrow> hub_inv (g w)"
  shows "hub_inv (let ((shouldDrop, disband), w) = OnUserLeave env rr ur w;
            w = (if shouldDrop then delete_room (rID (heapR w rr)) (f w) else g w)
        in if disband then DisbandRoom env rr w else w)"
proof -
  let ?w = "snd (OnUserLeave env rr ur w)"
  have "hub_inv (delete_room (rID (heapR ?w rr)) (f ?w))"
    using inv_delete_room [of "{rr}" "f ?w" rr] inv_OnUserLeave(1) [OF assms(1), of rr env ur] f by simp
  moreover have "\<not> fst (fst (OnUserLeave env rr ur w)) \<Longrightarrow> hub_inv (g ?w)"
    using inv_OnUserLeave(2) [OF assms(1), of env rr ur] g by simp
  ultimately show ?thesis
    by (auto simp: Let_def split_beta intro!: inv_DisbandRoom [of "{}"])
qed

lemma inv_handleLeaveRoom: "hub_inv w \<Longrightarrow> ur < nextU w \<Longrightarrow> hub_inv (snd (handleLeaveRoom env ur w))"
  unfolding handleLeaveRoom_def
  using inv_leave_and_drop [where f = "logRoomInfo env rr ''log-room-recycled'' []" and
      g = "\<lambda>w. upd_room rr (RefreshLive (ReplayEnabled w)) w" for rr]
  by (intro inv_with_room) (auto simp: Let_def split_beta inv_RefreshLive)

section \<open>Creating and joining\<close>

lemma inv_new_room:
  assumes w: "hub_inv w" "map_of (Rooms w) rid = None" and r: "room_ok w r" "host_ok r" "rID r = rid"
  shows "hub_inv (w\<lparr>nextR := Suc (nextR w), heapR := (heapR w)(nextR w := r), roomLogs := l,
           Rooms := AList.update rid (nextR w) (Rooms w)\<rparr>)"
proof -
  have upd: "AList.update rid (nextR w) (Rooms w) = Rooms w @ [(rid, nextR w)]"
    using w(2) by (intro update_new) (simp add: map_of_eq_None_iff)
  have del: "\<And>e. e \<in> set (pending w) \<Longrightarrow> del_ok (nextU w) (Suc (nextR w)) (snd e)"
    using w(1) unfolding inv_defs by (auto intro: del_ok_mono)
  have ok: "room_ok (w\<lparr>nextR := Suc (nextR w), heapR := (heapR w)(nextR w := r), roomLogs := l,
      Rooms := Rooms w @ [(rid, nextR w)]\<rparr>) r' = room_ok w r'" for r'
    by (simp add: room_ok_def refs_ok_def)
  show ?thesis
    unfolding upd using assms del unfolding inv_defs ok
    by (auto simp: less_Suc_eq map_of_eq_None_iff)
qed

lemma room_ok_NewRoom:
  assumes "ur < nextU w"
  shows "room_ok w (refreshParticipantsSnapshot ((NewRoom rid (uID (heapU w ur)) n b)\<lparr>usersMap := [(uID (heapU w ur), ur)]\<rparr>))"
  using assms by (simp add: room_ok_def members_ok_def refs_ok_def state_ok_def NewRoom_def)

lemma inv_enter [inv]:
  "hub_inv_x X w \<Longrightarrow> rr < nextR w \<Longrightarrow> hub_inv_x X (upd_user ur (\<lambda>u. u\<lparr>uRoom := Some rr\<rparr>) w)"
  "hub_inv_x X w \<Longrightarrow> rr < nextR w \<Longrightarrow> hub_inv_x X (upd_user ur (\<lambda>u. u\<lparr>Monitor := m, uRoom := Some rr\<rparr>) w)"
  by (auto intro!: inv_upd_user)

lemma inv_sendFakeMonitorJoin [inv]: "hub_inv_x X w \<Longrightarrow> ur < nextU w \<Longrightarrow> hub_inv_x X (sendFakeMonitorJoin env ur rr w)"
  by (auto simp: sendFakeMonitorJoin_def intro!: inv)

lemma inv_sendLateJoinHint [inv]: "hub_inv_x X w \<Longrightarrow> ur < nextU w \<Longrightarrow> hub_inv_x X (sendLateJoinHint env ur w)"
  by (auto simp: sendLateJoinHint_def intro!: inv split: option.splits)

lemma inv_ProcessCreateRoom:
  assumes "hub_inv w" "ur < nextU w" shows "hub_inv (snd (ProcessCreateRoom env ur rid w))"
proof -
  define room where "room = refreshParticipantsSnapshot
    ((NewRoom rid (uID (heapU w ur)) (RoomMaxUsers env) (ReplayEnabled w))\<lparr>usersMap := [(uID (heapU w ur), ur)]\<rparr>)"
  have room: "room_ok w (RefreshLive b room)" "host_ok (RefreshLive b room)" "rID (RefreshLive b room) = rid" for b
    using room_ok_NewRoom [OF assms(2)] by (simp_all add: room_def) (simp_all add: host_ok_def NewRoom_def)
  show ?thesis
    using assms inv_new_room [OF assms(1) _ room]
    by (auto simp: ProcessCreateRoom_def Let_def room_def NewRoom_def intro!: inv)
qed

lemma inv_HandleJoin [inv]:
  assumes "hub_inv_x X w" "rr < nextR w"
  shows "hub_inv_x X (HandleJoin env rr ur w)"
  using assms inv_playing [OF assms(1,2)]
  by (auto simp: HandleJoin_def Let_def intro!: inv inv_State split: InternalRoomState.splits)

lemma inv_AddUser:
  assumes "hub_inv_x X w" "ur < nextU w" "rr < nextR w" "fst (AddUser (heapU w ur) ur m (heapR w rr))"
  shows "hub_inv_x X (upd_room rr (\<lambda>_. snd (AddUser (heapU w ur) ur m (heapR w rr))) w)"
proof -
  have eq: "AddUser (heapU w ur) ur m (heapR w rr) = (True, snd (AddUser (heapU w ur) ur m (heapR w rr)))"
    using assms(4) by (simp add: prod_eq_iff)
  show ?thesis
    using assms(1) room_ok_AddUser [OF inv_room [OF assms(1,3)] assms(2) eq] by (intro inv_upd_room) auto
qed

lemma inv_ProcessJoinRoom:
  assumes "hub_inv w" "ur < nextU w" shows "hub_inv (snd (ProcessJoinRoom env ur rid m w))"
  using assms inv_Rooms [OF assms(1), of rid]
  by (auto simp: ProcessJoinRoom_def Let_def split_beta intro!: inv inv_AddUser split: option.splits)

lemma inv_handleJoinRoomResult:
  "hub_inv w \<Longrightarrow> ur < nextU w \<Longrightarrow> hub_inv (snd (handleJoinRoomResult env ur rid m w))"
  using inv_ProcessJoinRoom [of w ur env rid m]
  by (auto simp: handleJoinRoomResult_def split: prod.splits sum.splits)

section \<open>Scores\<close>

lemma inv_store_result:
  assumes "hub_inv w" "rr < nextR w" "State (heapR w rr) = StatePlaying st"
  shows "hub_inv (store_result env rr ur record st w)"
proof -
  have "playing_ok (st\<lparr>Results := AList.update i record (Results st)\<rparr>)" "chart (heapR w rr) \<noteq> None" for i
    using inv_playing [OF assms] by (auto intro: playing_ok_result)
  with assms show ?thesis
    by (auto simp: store_result_def Let_def split_beta intro!: inv inv_State split: InternalRoomState.splits)
qed

lemma inv_handlePlayed: "hub_inv w \<Longrightarrow> ur < nextU w \<Longrightarrow> hub_inv (snd (handlePlayed env ur rid w))"
  unfolding handlePlayed_def
  by (rule inv_with_room)
     (auto simp: Let_def intro!: inv_store_result split: sum.splits InternalRoomState.splits)

lemma inv_ProcessClientCommand:
  assumes "hub_inv w" "ur < nextU w" shows "hub_inv (snd (ProcessClientCommand env ur cmd w))"
  using assms
  by (cases cmd)
     (auto simp: unit_reply_def inv_handleJoinRoomResult inv_handleChat inv_ProcessCreateRoom inv_handleLeaveRoom
       inv_handleLockRoom inv_handleCycleRoom inv_handleSelectChart inv_handleRequestStart inv_handleReady
       inv_handleCancelReady inv_handlePlayed inv_handleAbort)

section \<open>Administration and contests\<close>

lemma inv_contests:
  "hub_inv w \<Longrightarrow> hub_inv (EnableContest rr us w)" "hub_inv w \<Longrightarrow> hub_inv (DisableContest rr w)"
  "hub_inv w \<Longrightarrow> hub_inv (snd (SetContestWhitelist rr us w))"
  by (auto simp: EnableContest_def DisableContest_def SetContestWhitelist_def intro!: inv_contest split: option.splits)

lemma inv_StartContest: "hub_inv w \<Longrightarrow> hub_inv (snd (StartContest env rr force w))"
  by (auto simp: StartContest_def Let_def intro!: inv split: InternalRoomState.splits)

lemma inv_admin:
  "hub_inv w \<Longrightarrow> hub_inv (SetRoomLocked env rr b w)" "hub_inv w \<Longrightarrow> hub_inv (SetRoomCycle env rr b w)"
  by (auto simp: SetRoomLocked_def SetRoomCycle_def intro!: inv)

lemma inv_TransferHost: "hub_inv w \<Longrightarrow> hub_inv (snd (TransferHost env rr i w))"
  by (auto simp: TransferHost_def Let_def ClearNextHost_def intro!: inv_upd_room dest: inv_room)

lemma inv_SetNextHost: "hub_inv w \<Longrightarrow> hub_inv (upd_room rr (SetNextHost i) w)"
  by (rule inv_upd_room) (auto simp: SetNextHost_def dest: inv_room)

lemma inv_leave_dropped:
  "hub_inv w \<Longrightarrow> hub_inv (delete_room (rID (heapR (snd (OnUserLeave env rr ur w)) rr)) (snd (OnUserLeave env rr ur w)))"
  using inv_OnUserLeave(1) [of "{}" w rr env ur] by (intro inv_delete_room [of "{rr}"]) auto

lemma inv_MoveUser:
  assumes "hub_inv w" "ur < nextU w" "toRoom < nextR w"
  shows "hub_inv (snd (MoveUser env ur toRoom m w))"
  using assms inv_AddUser [OF assms, of m]
  by (auto simp: MoveUser_def Let_def split_beta intro!: inv inv_leave_dropped inv_OnUserLeave(2) split: option.splits)

section \<open>Delayed bodies\<close>

lemma inv_run_ready_timeout: "hub_inv w \<Longrightarrow> hub_inv (run_ready_timeout env ctx rr rid w)"
proof -
  assume w: "hub_inv w"
  have start: "hub_inv (startPlaying env rr us' w)" if "State (heapR w rr) = StateWaitForReady s" for us' s
    using w that inv_chart [OF w, of rr] by (auto intro!: inv)
  have "hub_inv (upd_room rr (\<lambda>r. r\<lparr>State := StatePlaying (st\<lparr>Aborted := a\<rparr>)\<rparr>) v)"
    if "hub_inv v" "State (heapR v rr) = StatePlaying st" for v st a
    using that inv_playing [OF that(1) _ that(2)] by (intro inv_State) auto
  with w start show ?thesis
    by (auto simp: run_ready_timeout_def Let_def split: InternalRoomState.splits)
qed

lemma inv_abort_player: "hub_inv w \<Longrightarrow> hub_inv (abort_player env rr i w)"
  using inv_playing [of "{}" w rr]
  by (auto simp: abort_player_def Let_def intro!: inv_State split: InternalRoomState.splits)

lemma inv_aborts: "hub_inv w \<Longrightarrow> hub_inv (fold (abort_player env rr) is w)"
  by (induction "is" arbitrary: w) (auto intro: inv_abort_player)

lemma inv_run_play_deadline: "hub_inv w \<Longrightarrow> hub_inv (run_play_deadline env ctx rr rid w)"
  using inv_aborts [of w env rr]
  by (auto simp: run_play_deadline_def Let_def split_beta intro!: inv split: InternalRoomState.splits option.splits)

lemma inv_fix:
  "hub_inv w \<Longrightarrow> ur < nextU w \<Longrightarrow> rr < nextR w \<Longrightarrow> hub_inv (fixClientRoomState0 env rr ur w)"
  "hub_inv w \<Longrightarrow> ur < nextU w \<Longrightarrow> rr < nextR w \<Longrightarrow> hub_inv (fixClientRoomState env rr ur w)"
  by (auto simp: fixClientRoomState0_def fixClientRoomState_def intro!: inv split: option.splits)

section \<open>Sessions\<close>

lemma inv_user_fields [inv]:
  "hub_inv_x X w \<Longrightarrow> hub_inv_x X (SetSession ur s w)" "hub_inv_x X w \<Longrightarrow> hub_inv_x X (ClearDangle ur w)"
  "hub_inv_x X w \<Longrightarrow> hub_inv_x X (StopDangleTimer ur w)" "hub_inv_x X w \<Longrightarrow> hub_inv_x X (SetDangleTimer ur t w)"
  by (auto simp: SetSession_def ClearDangle_def StopDangleTimer_def SetDangleTimer_def intro!: inv_upd_user dest: inv_uRoom)

lemma user_field_fields [simp]:
  "nextU (SetSession ur s w) = nextU w" "nextR (SetSession ur s w) = nextR w" "Users (SetSession ur s w) = Users w"
  "heapR (SetSession ur s w) = heapR w" "closing (SetSession ur s w) = closing w" "closed (SetSession ur s w) = closed w"
  "sessUser (SetSession ur s w) = sessUser w" "now (SetSession ur s w) = now w"
  by (simp_all add: SetSession_def upd_user_def)

lemma inv_MarkDangle: "hub_inv_x X w \<Longrightarrow> hub_inv_x X (snd (MarkDangle ur d w))"
  by (auto simp: MarkDangle_def Let_def intro!: inv_upd_user inv dest: inv_uRoom)

lemma inv_leave_current: "hub_inv w \<Longrightarrow> hub_inv (leave_current env ur w)"
  by (auto simp: leave_current_def Let_def split_beta intro!: inv_DisbandRoom [of "{}"] inv_leave_dropped inv_OnUserLeave(2)
      split: option.splits)

lemma inv_Users_delete [inv]: "hub_inv_x X w \<Longrightarrow> hub_inv_x X (w\<lparr>Users := AList.delete i (Users w)\<rparr>)"
  unfolding inv_defs by (auto simp: room_ok_def refs_ok_def distinct_map_filter AList.delete_eq)

lemma inv_removeUser: "hub_inv w \<Longrightarrow> hub_inv (removeUser env ur w)"
  by (auto simp: removeUser_def Let_def CleanupUserData_def intro!: inv inv_leave_current)

lemma inv_processDangle: "hub_inv w \<Longrightarrow> hub_inv (processDangle env ur token w)"
  by (auto simp: processDangle_def Let_def intro!: inv_removeUser)

lemma MarkDangle_fields [simp]:
  "nextU (snd (MarkDangle ur d w)) = nextU w" "nextR (snd (MarkDangle ur d w)) = nextR w" "fst (MarkDangle ur d w) = fresh w"
  by (simp_all add: MarkDangle_def Let_def)

lemma inv_cleanup: "hub_inv w \<Longrightarrow> hub_inv (cleanup env s w)"
  using inv_sess [of "{}" w s]
  by (auto simp: cleanup_def Let_def split_beta intro!: inv_removeUser inv_MarkDangle inv split: option.splits)

lemma inv_Close: "hub_inv w \<Longrightarrow> hub_inv (Close env s w)"
  by (auto simp: Close_def intro!: inv_cleanup inv)

lemma inv_closings:
  "hub_inv w \<Longrightarrow> hub_inv (closeForShutdown env s w)" "hub_inv w \<Longrightarrow> hub_inv (detachKeepRoom s w)"
  "hub_inv w \<Longrightarrow> hub_inv (AdminDisconnect env s b w)"
  by (auto simp: closeForShutdown_def detachKeepRoom_def AdminDisconnect_def Let_def intro!: inv_Close inv split: option.splits)


text \<open>No closing changes the tables' sizes, so references stay valid across it.\<close>

lemma leave_current_fields [simp]:
  "nextR (leave_current env ur w) = nextR w" "nextU (leave_current env ur w) = nextU w"
  by (auto simp: leave_current_def Let_def split_beta split: option.splits)

lemma removeUser_fields [simp]: "nextR (removeUser env ur w) = nextR w" "nextU (removeUser env ur w) = nextU w"
  by (simp_all add: removeUser_def Let_def CleanupUserData_def ClearDangle_def)

lemma Close_fields [simp]: "nextR (Close env s w) = nextR w" "nextU (Close env s w) = nextU w"
  by (auto simp: Close_def cleanup_def Let_def split_beta SetDangleTimer_def split: option.splits)

lemma inv_sessUser [inv]:
  "hub_inv_x X w \<Longrightarrow> sessUser w = m \<Longrightarrow> ur < nextU w \<Longrightarrow> hub_inv_x X (w\<lparr>sessUser := m(s \<mapsto> ur)\<rparr>)"
  unfolding inv_defs by (auto simp: room_ok_def refs_ok_def)

lemma inv_failAuth: "hub_inv w \<Longrightarrow> hub_inv (failAuth env s r w)"
  by (auto simp: failAuth_def Let_def intro!: inv_Close)

lemma inv_kick_stale: "hub_inv w \<Longrightarrow> hub_inv (kick_stale env s old w)"
  by (auto simp: kick_stale_def intro!: inv_Close split: option.splits)

lemma kick_stale_fields [simp]: "nextR (kick_stale env s old w) = nextR w" "nextU (kick_stale env s old w) = nextU w"
  by (auto simp: kick_stale_def split: option.splits)

lemma inv_auth_reconnect:
  assumes "hub_inv w" "ur < nextU w" shows "hub_inv (auth_reconnect env s ur w)"
proof -
  have room: "uRoom (heapU (SetSession ur (Some s) w) ur) = Some rr \<Longrightarrow> rr < nextR w" for rr
    using inv_uRoom [OF assms] by (auto simp: SetSession_def)
  show ?thesis
    using assms room
    by (auto simp: auth_reconnect_def Let_def intro!: inv inv_fix inv_kick_stale split: option.splits)
qed

lemma inv_new_user:
  assumes w: "hub_inv w" "map_of (Users w) i = None" and u: "uID u = i" "uRoom u = None"
  shows "hub_inv (w\<lparr>nextU := Suc (nextU w), heapU := (heapU w)(nextU w := u), gameTime := g,
           Users := AList.update i (nextU w) (Users w), sessUser := (sessUser w)(s := Some (nextU w))\<rparr>)"
    (is "hub_inv ?w'")
proof -
  have upd: "AList.update i (nextU w) (Users w) = Users w @ [(i, nextU w)]"
    using w(2) by (intro update_new) (simp add: map_of_eq_None_iff)
  have del: "\<And>e. e \<in> set (pending w) \<Longrightarrow> del_ok (Suc (nextU w)) (nextR w) (snd e)"
    using w(1) unfolding inv_defs by (auto intro: del_ok_mono)
  have ok: "room_ok ?w' r" if "room_ok w r" for r
    using that by (auto simp: room_ok_def intro: refs_ok_mono)
  have "\<forall>rr<nextR w. room_ok ?w' (heapR w rr)" using inv_room [OF w(1)] ok by blast
  moreover have "tables_ok {} ?w'"
    using w u unfolding inv_defs upd by (auto simp: map_of_eq_None_iff)
  moreover have "links_ok ?w'"
    using w u del unfolding inv_defs by (auto simp: less_Suc_eq)
  ultimately show ?thesis by (simp add: hub_inv_x_def)
qed

lemma inv_auth_phase2: "hub_inv w \<Longrightarrow> hub_inv (auth_phase2 env s info w)"
proof (cases "map_of (Users w) (pu_ID info)")
  case None
  assume "hub_inv w"
  then have "hub_inv (w\<lparr>nextU := Suc (nextU w), heapU := (heapU w)(nextU w := u), gameTime := g,
      Users := AList.update (pu_ID info) (nextU w) (Users w), sessUser := (sessUser w)(s \<mapsto> nextU w)\<rparr>)"
    if "uID u = pu_ID info" "uRoom u = None" for u g
    using inv_new_user None that by blast
  with None show ?thesis by (auto simp: auth_phase2_def Let_def NewUser_def intro!: inv)
next
  case (Some ur)
  assume "hub_inv w"
  with Some inv_Users [OF this Some] show ?thesis
    by (auto simp: auth_phase2_def Let_def intro!: inv inv_kick_stale)
qed

lemma inv_handleAuthenticate: "hub_inv w \<Longrightarrow> hub_inv (handleAuthenticate env s token w)"
proof -
  assume w: "hub_inv w"
  have "hub_inv (auth_phase1 env s info w)" for info
    using w inv_Users [OF w, of "pu_ID info"]
    by (auto simp: auth_phase1_def intro!: inv inv_failAuth inv_auth_reconnect split: option.splits)
  with w show ?thesis
    by (auto simp: handleAuthenticate_def intro!: inv_failAuth split: option.splits sum.splits)
qed

lemma inv_onCommand: "hub_inv w \<Longrightarrow> hub_inv (onCommand env s cmd allowed limited w)"
  using inv_ProcessClientCommand [of w _ env cmd] inv_sess [of "{}" w s]
  by (auto simp: onCommand_def Let_def split_beta intro!: inv_handleAuthenticate split: option.splits ClientCommand.splits)

lemma inv_run_delayed:
  assumes "hub_inv w" "del_ok (nextU w) (nextR w) a" shows "hub_inv (run_delayed env hk a w)"
  using assms
  by (cases a) (auto simp: run_async_disband_def inv_run_ready_timeout inv_run_play_deadline inv_processDangle inv_fix
      inv_auth_phase2 intro!: inv_DisbandRoom [of "{}"])

end
