(* ===== verification/Hub_Step.thy ===== *)
theory Hub_Step
  imports Hub_Preserve_Ops
begin

text \<open>
  The server as a transition system.  A step is one critical section: a command of a session, the
  body of a timer or goroutine that is pending (in any order, whatever delay was asked for), the
  end of a connection, an operation of the administrator, or the passing of time.  The locale
  \<open>transition_system\<close> proves once that an inductive invariant holds in every reachable state; it is
  interpreted on the server with the invariant of \<open>Hub_Inv\<close>.
\<close>

section \<open>Transition systems\<close>

locale transition_system =
  fixes init :: "'s \<Rightarrow> bool" and trans :: "'s \<Rightarrow> 's \<Rightarrow> bool" and good :: "'s \<Rightarrow> bool"
  assumes start: "init s \<Longrightarrow> good s" and keeps: "good s \<Longrightarrow> trans s s' \<Longrightarrow> good s'"
begin

lemma along: "trans\<^sup>*\<^sup>* s s' \<Longrightarrow> good s \<Longrightarrow> good s'"
  by (induction rule: rtranclp_induct) (auto intro: keeps)

lemma everywhere: "init s \<Longrightarrow> trans\<^sup>*\<^sup>* s s' \<Longrightarrow> good s'"
  using along start by blast

end

section \<open>Steps of the server\<close>

definition init_world :: "World \<Rightarrow> bool" where
  "init_world w \<longleftrightarrow> Rooms w = [] \<and> Users w = [] \<and> nextR w = 0 \<and> nextU w = 0 \<and> pending w = []
     \<and> (\<forall>s. sessUser w s = None)"

inductive step :: "Env \<Rightarrow> World \<Rightarrow> World \<Rightarrow> bool" for env where
  command: "step env w (onCommand env s cmd allowed limited w)"
| delayed: "pending w = xs @ (d, a) # ys \<Longrightarrow> step env w (run_delayed env hk a (w\<lparr>pending := xs @ ys\<rparr>))"
| close: "step env w (Close env s w)"
| shutdown: "step env w (closeForShutdown env s w)"
| admin_disconnect: "step env w (AdminDisconnect env s preserve w)"
| disband: "map_of (Rooms w) rid = Some rr \<Longrightarrow> step env w (DisbandRoom env rr w)"
| enable_contest: "map_of (Rooms w) rid = Some rr \<Longrightarrow> step env w (EnableContest rr us w)"
| disable_contest: "map_of (Rooms w) rid = Some rr \<Longrightarrow> step env w (DisableContest rr w)"
| whitelist: "map_of (Rooms w) rid = Some rr \<Longrightarrow> step env w (snd (SetContestWhitelist rr us w))"
| start_contest: "map_of (Rooms w) rid = Some rr \<Longrightarrow> step env w (snd (StartContest env rr force w))"
| lock: "map_of (Rooms w) rid = Some rr \<Longrightarrow> step env w (SetRoomLocked env rr b w)"
| cycle: "map_of (Rooms w) rid = Some rr \<Longrightarrow> step env w (SetRoomCycle env rr b w)"
| transfer: "map_of (Rooms w) rid = Some rr \<Longrightarrow> step env w (snd (TransferHost env rr i w))"
| next_host: "map_of (Rooms w) rid = Some rr \<Longrightarrow> step env w (upd_room rr (SetNextHost i) w)"
| move: "map_of (Users w) i = Some ur \<Longrightarrow> map_of (Rooms w) rid = Some rr \<Longrightarrow> step env w (snd (MoveUser env ur rr m w))"
| ban: "step env w (w\<lparr>BannedUsers := us\<rparr>)"
| ban_room: "step env w (w\<lparr>BannedRoomUsers := bs\<rparr>)"
| maintenance: "step env w (w\<lparr>Maintenance := b, MaintenanceMessage := msg\<rparr>)"
| creation: "step env w (w\<lparr>RoomCreationEnabled := b\<rparr>)"
| tick: "now w \<le> t \<Longrightarrow> step env w (w\<lparr>now := t\<rparr>)"

inductive_cases step_cases: "step env w w'"

definition reachable :: "Env \<Rightarrow> World \<Rightarrow> bool" where
  "reachable env w \<longleftrightarrow> (\<exists>w0. init_world w0 \<and> (step env)\<^sup>*\<^sup>* w0 w)"

lemma reachable_init: "init_world w \<Longrightarrow> reachable env w"
  by (auto simp: reachable_def)

lemma reachable_step: "reachable env w \<Longrightarrow> step env w w' \<Longrightarrow> reachable env w'"
  by (auto simp: reachable_def intro: rtranclp.rtrancl_into_rtrancl)

lemma inv_init: "init_world w \<Longrightarrow> hub_inv w"
  by (simp add: init_world_def inv_defs)

lemma inv_pending: "hub_inv w \<Longrightarrow> pending w = xs @ (d, a) # ys \<Longrightarrow>
    hub_inv (w\<lparr>pending := xs @ ys\<rparr>) \<and> del_ok (nextU w) (nextR w) a"
  unfolding inv_defs by (auto simp: room_ok_def refs_ok_def)

lemma inv_settings:
  "hub_inv w \<Longrightarrow> hub_inv (w\<lparr>BannedUsers := us\<rparr>)" "hub_inv w \<Longrightarrow> hub_inv (w\<lparr>BannedRoomUsers := bs\<rparr>)"
  "hub_inv w \<Longrightarrow> hub_inv (w\<lparr>Maintenance := b, MaintenanceMessage := msg\<rparr>)"
  "hub_inv w \<Longrightarrow> hub_inv (w\<lparr>RoomCreationEnabled := b\<rparr>)"
  by (auto simp: inv_defs room_ok_def refs_ok_def)

lemma inv_step: "step env w w' \<Longrightarrow> hub_inv w \<Longrightarrow> hub_inv w'"
proof (induction rule: step.induct)
  case (delayed w xs d a ys hk)
  then show ?case using inv_pending [of w xs d a ys] inv_run_delayed [of "w\<lparr>pending := xs @ ys\<rparr>"] by simp
next
  case (move w i ur rid rr m)
  then show ?case using inv_Users [of "{}" w i ur] inv_Rooms [of "{}" w rid rr] by (simp add: inv_MoveUser)
qed (simp_all add: inv_onCommand inv_Close inv_closings inv_contests inv_StartContest inv_admin inv_TransferHost
    inv_SetNextHost inv_settings inv_other_fields inv_DisbandRoom [of "{}"])

interpretation hub: transition_system init_world "step env" hub_inv for env
  by unfold_locales (auto intro: inv_init inv_step)

lemma reachable_inv: "reachable env w \<Longrightarrow> hub_inv w"
  using hub.everywhere by (auto simp: reachable_def)

end
