(* ===== verification/Hub_Facts.thy ===== *)
theory Hub_Facts
  imports Hub_Step
begin

text \<open>
  What the operations achieve.  The abstract state machine \<open>next_state\<close> says when a waiting room
  starts and when a game ends; \<open>CheckAllReady\<close> implements it.  From there: the two countdowns
  really end the phase they guard, departures, and the order of the ranking.
\<close>

section \<open>The next host\<close>

lemma first_above_sorted:
  "sorted xs \<Longrightarrow> first_above old xs = Some i \<Longrightarrow> i > old \<and> (\<forall>j\<in>set xs. j > old \<longrightarrow> i \<le> j)"
  by (induction xs) (auto split: if_splits)

lemma first_above_None: "first_above old xs = None \<longleftrightarrow> (\<forall>j\<in>set xs. j \<le> old)"
  by (induction xs) auto

definition next_host_of :: "int set \<Rightarrow> int \<Rightarrow> int" where
  "next_host_of ids old = (if \<exists>j\<in>ids. j > old then Min {j\<in>ids. j > old} else Min ids)"

lemma pickNextHost_eq: "pickNextHost ids old = (if ids = [] then None else Some (next_host_of (set ids) old))"
proof (cases "ids = []")
  case False
  then have ne: "sort ids \<noteq> []" by (metis length_0_conv length_sort)
  show ?thesis
  proof (cases "first_above old (sort ids)")
    case None
    then have above: "\<not> (\<exists>j\<in>set ids. j > old)" by (auto simp: first_above_None)
    obtain x xs where srt: "sort ids = x # xs" using ne by (metis neq_Nil_conv)
    have "\<forall>j\<in>set xs. x \<le> j" using sorted_sort [of ids] by (simp add: srt)
    moreover have set_eq: "set ids = insert x (set xs)" by (metis srt set_sort list.simps(15))
    ultimately have "Min (set ids) = x" unfolding set_eq by (intro Min_eqI) auto
    then have "hd (sort ids) = Min (set ids)" by (simp add: srt)
    with None False above show ?thesis by (simp add: pickNextHost_def next_host_of_def)
  next
    case (Some i)
    have "i > old" "\<forall>j\<in>set ids. j > old \<longrightarrow> i \<le> j" "i \<in> set ids"
      using first_above_sorted [OF sorted_sort Some] first_above_member [OF Some] by auto
    moreover from this have "Min {j\<in>set ids. j > old} = i" by (intro Min_eqI) auto
    ultimately show ?thesis using Some False by (auto simp: pickNextHost_def next_host_of_def)
  qed
qed (simp add: pickNextHost_def)

section \<open>The abstract state machine\<close>

definition all_ready :: "Room \<Rightarrow> int set \<Rightarrow> bool" where
  "all_ready r started \<longleftrightarrow> set (AllParticipantIDs r) \<subseteq> started"

definition manual :: "Room \<Rightarrow> bool" where
  "manual r = (case contest r of Some c \<Rightarrow> ManualStart c | None \<Rightarrow> False)"

definition auto_disband :: "Room \<Rightarrow> bool" where
  "auto_disband r = (case contest r of Some c \<Rightarrow> AutoDisband c | None \<Rightarrow> False)"

definition all_finished :: "Room \<Rightarrow> PlayingData \<Rightarrow> bool" where
  "all_finished r st \<longleftrightarrow> (\<forall>i\<in>set (users r). has_finished st i)"

definition next_state :: "int \<Rightarrow> Room \<Rightarrow> InternalRoomState" where
  "next_state t r = (case State r of
     StateSelectChart \<Rightarrow> StateSelectChart
   | StateWaitForReady started \<Rightarrow>
       if all_ready r started \<and> \<not> manual r then StatePlaying (new_playing t) else StateWaitForReady started
   | StatePlaying st \<Rightarrow> if all_finished r st then StateSelectChart else StatePlaying st)"

definition game_over :: "Room \<Rightarrow> bool" where
  "game_over r = (case State r of StatePlaying st \<Rightarrow> all_finished r st | _ \<Rightarrow> False)"

definition next_host :: "Room \<Rightarrow> int" where
  "next_host r = (if game_over r \<and> \<not> auto_disband r \<and> Cycle r \<and> length (users r) > 1
     then (case choose_cycle_host r of Some h \<Rightarrow> h | None \<Rightarrow> HostID r) else HostID r)"

lemma manual_iff: "(\<exists>c\<in>set_option (contest r). ManualStart c) = manual r"
  by (simp add: manual_def split: option.splits)

lemma auto_disband_iff: "(\<exists>c\<in>set_option (contest r). AutoDisband c) = auto_disband r"
  by (simp add: auto_disband_def split: option.splits)

lemma unfinished_iff: "(\<exists>i\<in>set (users r). \<not> has_finished st i) = (\<not> all_finished r st)"
  by (simp add: all_finished_def)

lemma not_ready_iff: "(\<exists>i\<in>set (AllParticipantIDs r). i \<notin> s) = (\<not> all_ready r s)"
  by (auto simp: all_ready_def)

lemmas machine_iff = manual_iff auto_disband_iff unfinished_iff not_ready_iff

lemma startPlaying_room:
  "State (heapR (startPlaying env rr us w) r) = (if r = rr then StatePlaying (new_playing (now w)) else State (heapR w r))"
  "HostID (heapR (startPlaying env rr us w) r) = HostID (heapR w r)"
  by (simp_all add: startPlaying_def Let_def)

lemma rotate_State [simp]: "State (heapR (rotateCycleHost env rr w) r) = State (heapR w r)"
  by (simp add: rotateCycleHost_def Let_def split: option.splits)

lemma rotate_HostID: "HostID (heapR (rotateCycleHost env rr w) r) =
    (if r = rr then (case choose_cycle_host (heapR w rr) of Some h \<Rightarrow> h | None \<Rightarrow> HostID (heapR w rr)) else HostID (heapR w r))"
  by (simp add: rotateCycleHost_def Let_def split: option.splits)

lemma notifyDangling_heapR: "ReconnectNotified st = None \<Longrightarrow> heapR (notifyDanglingReconnect env rr st w) = heapR w"
  by (simp add: notifyDanglingReconnect_def Let_def)

lemma choose_cycle_host_State: "choose_cycle_host (r\<lparr>State := s, playDeadlineCancel := c\<rparr>) = choose_cycle_host r"
  "choose_cycle_host (r\<lparr>State := s\<rparr>) = choose_cycle_host r" "choose_cycle_host (r\<lparr>playDeadlineCancel := c\<rparr>) = choose_cycle_host r"
  by (simp_all add: choose_cycle_host_def ContainsUser_def split: option.splits)

lemma choose_cancel: "choose_cycle_host (heapR (cancelPlayDeadline rr w) r) = choose_cycle_host (heapR w r)"
  by (auto simp: cancelPlayDeadline_def choose_cycle_host_State split: option.splits)

lemma checkPlaying_result:
  assumes "ReconnectNotified st = None"
  shows "fst (checkPlaying env rr st w) = (all_finished (heapR w rr) st \<and> auto_disband (heapR w rr))"
    "State (heapR (snd (checkPlaying env rr st w)) r) =
       (if r = rr \<and> all_finished (heapR w rr) st then StateSelectChart else State (heapR w r))"
    "HostID (heapR (snd (checkPlaying env rr st w)) r) =
       (if r = rr \<and> all_finished (heapR w rr) st \<and> \<not> auto_disband (heapR w rr) \<and> Cycle (heapR w rr) \<and> length (users (heapR w rr)) > 1
        then (case choose_cycle_host (heapR w rr) of Some h \<Rightarrow> h | None \<Rightarrow> HostID (heapR w rr)) else HostID (heapR w r))"
proof -
  have ad: "auto_disband (heapR (cancelPlayDeadline rr w') rr) = auto_disband (heapR w' rr)" for w'
    by (simp add: auto_disband_def)
  have ads: "auto_disband (r\<lparr>State := s\<rparr>) = auto_disband r" for r s by (simp add: auto_disband_def)
  show "fst (checkPlaying env rr st w) = (all_finished (heapR w rr) st \<and> auto_disband (heapR w rr))"
    by (simp add: checkPlaying_def Let_def machine_iff ad ads)
  show "State (heapR (snd (checkPlaying env rr st w)) r) =
       (if r = rr \<and> all_finished (heapR w rr) st then StateSelectChart else State (heapR w r))"
    using notifyDangling_heapR [OF assms] by (simp add: checkPlaying_def Let_def machine_iff)
  show "HostID (heapR (snd (checkPlaying env rr st w)) r) =
       (if r = rr \<and> all_finished (heapR w rr) st \<and> \<not> auto_disband (heapR w rr) \<and> Cycle (heapR w rr) \<and> length (users (heapR w rr)) > 1
        then (case choose_cycle_host (heapR w rr) of Some h \<Rightarrow> h | None \<Rightarrow> HostID (heapR w rr)) else HostID (heapR w r))"
    using notifyDangling_heapR [OF assms]
    by (simp add: checkPlaying_def Let_def machine_iff ad ads rotate_HostID choose_cycle_host_State choose_cancel split: option.splits)
qed

text \<open>\<open>CheckAllReady\<close> implements the abstract machine on its room and leaves the others alone.\<close>

lemma CheckAllReady_machine:
  assumes "\<And>st. State (heapR w rr) = StatePlaying st \<Longrightarrow> ReconnectNotified st = None"
  shows "fst (CheckAllReady env rr w) = (game_over (heapR w rr) \<and> auto_disband (heapR w rr))"
    "State (heapR (snd (CheckAllReady env rr w)) r) = (if r = rr then next_state (now w) (heapR w rr) else State (heapR w r))"
    "HostID (heapR (snd (CheckAllReady env rr w)) r) = (if r = rr then next_host (heapR w rr) else HostID (heapR w r))"
proof -
  note simps = CheckAllReady_def game_over_def next_state_def next_host_def checkWaitForReady_def Let_def
    machine_iff startPlaying_room
  show "fst (CheckAllReady env rr w) = (game_over (heapR w rr) \<and> auto_disband (heapR w rr))"
    using assms by (simp add: simps checkPlaying_result split: InternalRoomState.splits)
  show "State (heapR (snd (CheckAllReady env rr w)) r) = (if r = rr then next_state (now w) (heapR w rr) else State (heapR w r))"
    using assms by (simp add: simps checkPlaying_result split: InternalRoomState.splits)
  show "HostID (heapR (snd (CheckAllReady env rr w)) r) = (if r = rr then next_host (heapR w rr) else HostID (heapR w r))"
    using assms by (simp add: simps checkPlaying_result split: InternalRoomState.splits)
qed

end
