(* ===== verification/Hub_Game.thy ===== *)
theory Hub_Game
  imports Hub_Facts
begin

text \<open>
  The course of a game.  The two countdowns end the phase they guard: the ready countdown starts
  the game and marks the players who were not ready, the play deadline brings the room back to the
  chart selection.  A result is stored once, and a player who is done can no longer change the
  game.
\<close>

section \<open>The play deadline\<close>

lemma abort_player_State:
  "State (heapR w rr) = StatePlaying st \<Longrightarrow>
     State (heapR (abort_player env rr i w) rr) =
       StatePlaying (if has_finished st i then st else st\<lparr>Aborted := insert i (Aborted st)\<rparr>)"
  by (simp add: abort_player_def Let_def)

lemma aborts_State:
  assumes "State (heapR w rr) = StatePlaying st"
  shows "State (heapR (fold (abort_player env rr) is w) rr) =
    StatePlaying (st\<lparr>Aborted := Aborted st \<union> {i\<in>set is. \<not> has_finished st i}\<rparr>)"
  using assms
proof (induction "is" arbitrary: w st)
  case (Cons i "is")
  let ?st = "if has_finished st i then st else st\<lparr>Aborted := insert i (Aborted st)\<rparr>"
  have st: "State (heapR (abort_player env rr i w) rr) = StatePlaying ?st"
    by (rule abort_player_State [OF Cons.prems])
  have fin: "has_finished ?st j \<longleftrightarrow> has_finished st j \<or> j = i" for j
    by (auto simp: has_finished_def)
  have "Aborted ?st \<union> {j\<in>set is. \<not> has_finished ?st j} = Aborted st \<union> {j\<in>set (i # is). \<not> has_finished st j}"
    unfolding fin by (auto simp: has_finished_def)
  then show ?case
    by (simp add: Cons.IH [OF st])
qed simp

lemma all_finished_aborts:
  "all_finished r (st\<lparr>Aborted := Aborted st \<union> {i\<in>set (users r). \<not> has_finished st i}\<rparr>)"
  by (auto simp: all_finished_def has_finished_def)

text \<open>A room in the chart selection stays there while it is disbanded.\<close>

lemma Select_OnUserLeave:
  "State (heapR w rr) = StateSelectChart \<Longrightarrow> State (heapR (snd (OnUserLeave env rr ur w)) rr) = StateSelectChart"
  by (simp add: OnUserLeave_def finish_leave_def hand_over_def CheckAllReady_def Let_def split_beta split: option.splits)

lemma Select_disband_loop:
  "State (heapR w rr) = StateSelectChart \<Longrightarrow> State (heapR (disband_loop env rr us w) rr) = StateSelectChart"
  by (induction env rr us w rule: disband_loop.induct) (auto simp: Select_OnUserLeave split: option.splits)

lemma Select_cancel [simp]:
  "State (heapR (cancelReadyCountdown rr w) r) = State (heapR w r)" "State (heapR (cancelPlayDeadline rr w) r) = State (heapR w r)"
  by (auto simp: cancelReadyCountdown_def cancelPlayDeadline_def split: option.splits)

lemma Select_DisbandRoom:
  "State (heapR w rr) = StateSelectChart \<Longrightarrow> State (heapR (DisbandRoom env rr w) rr) = StateSelectChart"
  by (simp add: DisbandRoom_def Let_def Select_disband_loop)

lemma run_play_deadline_ends:
  assumes inv: "hub_inv w" and live: "ctx \<notin> cancelled w" "map_of (Rooms w) rid = Some rr"
    and playing: "State (heapR w rr) = StatePlaying st"
  shows "State (heapR (run_play_deadline env ctx rr rid w) rr) = StateSelectChart"
proof -
  define v where "v = fold (abort_player env rr) (users (heapR w rr)) w"
  define st' where "st' = st\<lparr>Aborted := Aborted st \<union> {i\<in>set (users (heapR w rr)). \<not> has_finished st i}\<rparr>"
  define v' where "v' = NotifyWebSocket env rr (case tlOrSkip env (ServerLang env) ''chat-play-deadline''
      [(''seconds'', AInt (playDeadlineDuration div 1000))] of
      Some hint \<Rightarrow> Send env rr (MsgChat (sysID env) hint) v | None \<Rightarrow> v)"
  have v': "heapR v' = heapR v" by (simp add: v'_def split: option.splits)
  have st': "State (heapR v rr) = StatePlaying st'"
    unfolding v_def st'_def by (rule aborts_State [OF playing])
  have "ReconnectNotified st' = None"
    using inv_playing [OF inv _ playing] inv_Rooms [OF inv live(2)] by (simp add: playing_ok_def st'_def)
  moreover have "users (heapR v rr) = users (heapR w rr)" by (simp add: v_def)
  ultimately have "State (heapR (snd (CheckAllReady env rr v')) rr) = StateSelectChart"
    using CheckAllReady_machine(2) [of v' rr env rr] all_finished_aborts [of "heapR w rr" st]
    by (simp add: v' st' next_state_def all_finished_def) (simp add: st'_def)
  then show ?thesis
    using live playing by (simp add: run_play_deadline_def Let_def split_beta Select_DisbandRoom flip: v_def v'_def)
qed

section \<open>The ready countdown\<close>

lemma run_ready_timeout_starts:
  assumes live: "ctx \<notin> cancelled w" "map_of (Rooms w) rid = Some rr"
    and waiting: "State (heapR w rr) = StateWaitForReady started"
  shows "State (heapR (run_ready_timeout env ctx rr rid w) rr) =
    StatePlaying \<lparr>Results = [], Aborted = set (users (heapR w rr)) - started, ReconnectNotified = None, StartedAt = now w\<rparr>"
  using assms
  by (auto simp: run_ready_timeout_def Let_def startPlaying_room new_playing_def filter_empty_conv)

end
