(* ===== verification/Hub_Evolve.thy ===== *)
theory Hub_Evolve
  imports Hub_Game
begin

text \<open>
  The phases of a room along the steps of the server.  Inside one critical section a room only
  moves forward: from waiting to playing or to the chart selection, from playing to the chart
  selection; a running game keeps its start, its results and its aborted players.  Only the
  command that asks for a start opens the waiting phase, and only in the chart selection.
\<close>

named_theorems evo \<open>operations along which rooms only move forward\<close>

section \<open>Moving forward\<close>

definition game_keeps :: "PlayingData \<Rightarrow> PlayingData \<Rightarrow> bool" where
  "game_keeps p p' \<longleftrightarrow> StartedAt p' = StartedAt p \<and> Aborted p \<subseteq> Aborted p' \<and> map_of (Results p) \<subseteq>\<^sub>m map_of (Results p')"

fun state_le :: "InternalRoomState \<Rightarrow> InternalRoomState \<Rightarrow> bool" where
  "state_le (StateWaitForReady _) s' = True"
| "state_le (StatePlaying p) (StatePlaying p') = game_keeps p p'"
| "state_le (StatePlaying p) StateSelectChart = True"
| "state_le (StatePlaying p) (StateWaitForReady _) = False"
| "state_le StateSelectChart s' = (s' = StateSelectChart)"

definition evolves :: "World \<Rightarrow> World \<Rightarrow> bool" where
  "evolves w w' \<longleftrightarrow> nextR w \<le> nextR w' \<and> (\<forall>rr<nextR w. state_le (State (heapR w rr)) (State (heapR w' rr)))"

lemma game_keeps_refl [simp]: "game_keeps p p"
  by (simp add: game_keeps_def)

lemma game_keeps_trans: "game_keeps p q \<Longrightarrow> game_keeps q r \<Longrightarrow> game_keeps p r"
  by (auto simp: game_keeps_def intro: map_le_trans)

lemma state_le_refl [simp]: "state_le s s"
  by (cases s) auto

lemma state_le_trans: "state_le s t \<Longrightarrow> state_le t u \<Longrightarrow> state_le s u"
  by (cases s; cases t; cases u) (auto intro: game_keeps_trans)

lemma state_le_Select [simp]: "state_le s StateSelectChart"
  by (cases s) auto

lemma evolves_refl [simp]: "evolves w w"
  by (simp add: evolves_def)

lemma evolves_trans: "evolves u v \<Longrightarrow> evolves v w \<Longrightarrow> evolves u w"
  unfolding evolves_def by (meson le_trans less_le_trans state_le_trans)

lemma evolves_heap: "heapR w' = heapR v \<Longrightarrow> nextR w' = nextR v \<Longrightarrow> evolves u w' = evolves u v"
  by (simp add: evolves_def)

context quiet_op
begin

lemma evolves [simp]: "evolves u (act w) = evolves u w"
  by (rule evolves_heap) simp_all

end

lemma evolves_fields [simp]:
  "evolves u (upd_user ur f w) = evolves u w" "evolves u (schedule d a w) = evolves u w"
  "evolves u (delete_room rid w) = evolves u w" "evolves u (w\<lparr>cancelled := c\<rparr>) = evolves u w"
  "evolves u (w\<lparr>fresh := n\<rparr>) = evolves u w" "evolves u (w\<lparr>closed := s\<rparr>) = evolves u w"
  "evolves u (w\<lparr>closing := s\<rparr>) = evolves u w" "evolves u (w\<lparr>uploadUsers := us\<rparr>) = evolves u w"
  "evolves u (w\<lparr>now := t\<rparr>) = evolves u w" "evolves u (w\<lparr>Users := us'\<rparr>) = evolves u w"
  "evolves u (w\<lparr>sessUser := m\<rparr>) = evolves u w" "evolves u (w\<lparr>pending := ps\<rparr>) = evolves u w"
  "evolves u (w\<lparr>BannedUsers := b\<rparr>) = evolves u w" "evolves u (w\<lparr>BannedRoomUsers := bs\<rparr>) = evolves u w"
  "evolves u (w\<lparr>Maintenance := mt, MaintenanceMessage := msg\<rparr>) = evolves u w"
  "evolves u (w\<lparr>RoomCreationEnabled := rc\<rparr>) = evolves u w" "evolves u (w\<lparr>nextU := i\<rparr>) = evolves u w"
  "evolves u (w\<lparr>heapU := h\<rparr>) = evolves u w" "evolves u (w\<lparr>gameTime := g\<rparr>) = evolves u w"
  by (rule evolves_heap; simp)+

lemma evolves_upd_room [evo]:
  "evolves u w \<Longrightarrow> state_le (State (heapR w rr)) (State (f (heapR w rr))) \<Longrightarrow> evolves u (upd_room rr f w)"
  by (rule evolves_trans) (auto simp: evolves_def)

lemma State_updates [simp]:
  "State (RefreshLive b r) = State r" "State (SetNextHost i r) = State r" "State (ClearNextHost r) = State r"
  by (simp_all add: RefreshLive_def SetNextHost_def ClearNextHost_def)

section \<open>Life cycle\<close>

lemma evolves_cancel [simp]:
  "evolves u (cancelReadyCountdown rr w) = evolves u w" "evolves u (cancelPlayDeadline rr w) = evolves u w"
  by (simp_all add: evolves_def)

lemma evolves_startPlaying [evo]:
  "evolves u w \<Longrightarrow> State (heapR w rr) = StateWaitForReady s \<Longrightarrow> evolves u (startPlaying env rr us w)"
  by (rule evolves_trans) (auto simp: evolves_def startPlaying_room)

lemma evolves_checkWait [evo]:
  "evolves u w \<Longrightarrow> State (heapR w rr) = StateWaitForReady s \<Longrightarrow> evolves u (checkWaitForReady env rr s w)"
  by (auto simp: checkWaitForReady_def Let_def intro: evo)

lemma evolves_notifyDangling [evo]: "evolves u w \<Longrightarrow> evolves u (notifyDanglingReconnect env rr st w)"
  by (auto simp: notifyDanglingReconnect_def Let_def split_beta game_keeps_def intro!: evo
      split: option.splits InternalRoomState.splits)

lemma evolves_rotate [simp]: "evolves u (rotateCycleHost env rr w) = evolves u w"
  by (simp add: evolves_def)

lemma evolves_checkPlaying [evo]: "evolves u w \<Longrightarrow> evolves u (snd (checkPlaying env rr st w))"
  by (auto simp: checkPlaying_def Let_def intro!: evo)

lemma evolves_CheckAllReady [evo]: "evolves u w \<Longrightarrow> evolves u (snd (CheckAllReady env rr w))"
  by (auto simp: CheckAllReady_def intro!: evo split: InternalRoomState.splits)

lemma evolves_OnUserLeave [evo]: "evolves u w \<Longrightarrow> evolves u (snd (OnUserLeave env rr ur w))"
  by (auto simp: OnUserLeave_def take_out_def hand_over_def finish_leave_def Let_def split_beta intro!: evo split: option.splits)

lemma evolves_disband_loop [evo]: "evolves u w \<Longrightarrow> evolves u (disband_loop env rr us w)"
  by (induction env rr us w rule: disband_loop.induct) (auto intro!: evo split: option.splits)

lemma evolves_DisbandRoom [evo]: "evolves u w \<Longrightarrow> evolves u (DisbandRoom env rr w)"
  by (auto simp: DisbandRoom_def Let_def intro!: evo)

lemma evolves_check_and_disband [evo]: "evolves u w \<Longrightarrow> evolves u (check_and_disband env rr w)"
  by (auto simp: check_and_disband_def Let_def split_beta intro!: evo)

section \<open>Commands\<close>

lemma evolves_with_room: "(\<And>rr. evolves u (snd (f rr w))) \<Longrightarrow> evolves u w \<Longrightarrow> evolves u (snd (with_room ur f w))"
  by (simp add: with_room_def split: sum.splits)

lemma evolves_aborted: "evolves u w \<Longrightarrow> State (heapR w rr) = StatePlaying st \<Longrightarrow> Aborted st \<subseteq> a \<Longrightarrow>
    evolves u (upd_room rr (\<lambda>r. r\<lparr>State := StatePlaying (st\<lparr>Aborted := a\<rparr>)\<rparr>) w)"
  by (auto intro!: evo simp: game_keeps_def)

lemma game_keeps_abort [simp]: "game_keeps p (p\<lparr>Aborted := a\<rparr>) \<longleftrightarrow> Aborted p \<subseteq> a"
  by (simp add: game_keeps_def)

lemma evolves_handlers [evo]:
  "evolves w (snd (handleLockRoom env ur b w))" "evolves w (snd (handleCycleRoom env ur b w))"
  "evolves w (snd (handleSelectChart env ur c w))" "evolves w (snd (handleReady env ur w))"
  "evolves w (snd (handleCancelReady env ur w))" "evolves w (snd (handleAbort env ur w))"
  "evolves w (snd (handleChat env ur m w))" "evolves w (snd (handleLeaveRoom env ur w))"
  unfolding handleLockRoom_def handleCycleRoom_def handleSelectChart_def handleReady_def handleCancelReady_def handleAbort_def
    handleChat_def handleLeaveRoom_def
  by (auto simp: Let_def split_beta intro!: evo evolves_with_room evolves_aborted
      split: option.splits sum.splits InternalRoomState.splits)

lemma game_keeps_result:
  "map_of (Results p) i = None \<Longrightarrow> game_keeps p (p\<lparr>Results := AList.update i rec (Results p)\<rparr>)"
  by (auto simp: game_keeps_def map_le_def update_conv')

lemma evolves_deadline [simp]: "evolves u (startPlayDeadline env rr w) = evolves u w"
  by (auto simp: startPlayDeadline_def Let_def evolves_def)

lemma evolves_store_result [evo]:
  assumes "evolves u w" "State (heapR w rr) = StatePlaying st" "map_of (Results st) (uID (heapU w ur)) = None"
  shows "evolves u (store_result env rr ur record st w)"
proof -
  have "evolves u (upd_room rr (\<lambda>r. r\<lparr>State := StatePlaying (st\<lparr>Results := AList.update (uID (heapU w ur)) record (Results st)\<rparr>)\<rparr>) w)"
    using assms by (auto intro!: evo game_keeps_result)
  then show ?thesis
    by (auto simp: store_result_def Let_def split_beta intro!: evolves_CheckAllReady split: option.splits InternalRoomState.splits)
qed

lemma evolves_handlePlayed [evo]: "evolves w (snd (handlePlayed env ur rid w))"
  unfolding handlePlayed_def
  by (auto simp: Let_def already_done_def has_finished_def intro!: evo evolves_with_room
      split: option.splits sum.splits InternalRoomState.splits)

lemma evolves_hints [simp]:
  "evolves u (sendFakeMonitorJoin env ur rr w) = evolves u w" "evolves u (sendLateJoinHint env ur w) = evolves u w"
  "evolves u (fixClientRoomState env rr ur w) = evolves u w" "evolves u (fixClientRoomState0 env rr ur w) = evolves u w"
  by (simp_all add: sendFakeMonitorJoin_def sendLateJoinHint_def fixClientRoomState_def fixClientRoomState0_def split: option.splits)

lemma evolves_HandleJoin [evo]: "evolves u w \<Longrightarrow> evolves u (HandleJoin env rr ur w)"
  by (auto simp: HandleJoin_def Let_def intro!: evolves_aborted split: InternalRoomState.splits)

lemma evolves_new_room [evo]:
  "evolves u w \<Longrightarrow> evolves u (w\<lparr>nextR := Suc (nextR w), heapR := (heapR w)(nextR w := r), roomLogs := l, Rooms := rs\<rparr>)"
  by (auto simp: evolves_def)

lemma evolves_ProcessCreateRoom [evo]: "evolves w (snd (ProcessCreateRoom env ur rid w))"
  by (auto simp: ProcessCreateRoom_def Let_def intro!: evo)

lemma evolves_ProcessJoinRoom [evo]: "evolves w (snd (ProcessJoinRoom env ur rid m w))"
  by (auto simp: ProcessJoinRoom_def Let_def split_beta AddUser_fields intro!: evo split: option.splits)

section \<open>Administration\<close>

lemma evolves_admin [evo]:
  "evolves w (EnableContest rr us w)" "evolves w (DisableContest rr w)" "evolves w (snd (SetContestWhitelist rr us w))"
  "evolves w (snd (StartContest env rr force w))" "evolves w (SetRoomLocked env rr b w)" "evolves w (SetRoomCycle env rr b w)"
  "evolves w (snd (TransferHost env rr i w))"
  unfolding EnableContest_def DisableContest_def SetContestWhitelist_def StartContest_def SetRoomLocked_def SetRoomCycle_def
    TransferHost_def
  by (auto simp: Let_def intro!: evo split: option.splits InternalRoomState.splits)

lemma evolves_MoveUser [evo]: "evolves w (snd (MoveUser env ur rr m w))"
  by (auto simp: MoveUser_def Let_def split_beta AddUser_fields intro!: evo split: option.splits)

section \<open>Countdowns and sessions\<close>

lemma evolves_ready_timeout [evo]: "evolves w (run_ready_timeout env ctx rr rid w)"
  by (auto simp: run_ready_timeout_def Let_def intro!: evo split: InternalRoomState.splits)

lemma evolves_abort_player: "evolves u w \<Longrightarrow> evolves u (abort_player env rr i w)"
  by (auto simp: abort_player_def Let_def intro!: evo split: InternalRoomState.splits)

lemma evolves_aborts: "evolves u w \<Longrightarrow> evolves u (fold (abort_player env rr) is w)"
  by (induction "is" arbitrary: w) (auto intro: evolves_abort_player)

lemma evolves_play_deadline [evo]: "evolves w (run_play_deadline env ctx rr rid w)"
  using evolves_aborts [of w w env rr]
  by (auto simp: run_play_deadline_def Let_def split_beta intro!: evo split: InternalRoomState.splits option.splits)

lemma evolves_user_fields [simp]:
  "evolves u (SetSession ur s w) = evolves u w" "evolves u (ClearDangle ur w) = evolves u w"
  "evolves u (StopDangleTimer ur w) = evolves u w" "evolves u (SetDangleTimer ur t w) = evolves u w"
  "evolves u (snd (MarkDangle ur d w)) = evolves u w" "evolves u (CleanupUserData i w) = evolves u w"
  by (simp_all add: SetSession_def ClearDangle_def StopDangleTimer_def SetDangleTimer_def MarkDangle_def CleanupUserData_def Let_def)

lemma evolves_removeUser [evo]: "evolves u w \<Longrightarrow> evolves u (removeUser env ur w)"
  by (auto simp: removeUser_def leave_current_def Let_def split_beta intro!: evo split: option.splits)

lemma evolves_processDangle [evo]: "evolves w (processDangle env ur token w)"
  by (auto simp: processDangle_def Let_def intro!: evo)

lemma evolves_cleanup [evo]: "evolves u w \<Longrightarrow> evolves u (cleanup env s w)"
  by (auto simp: cleanup_def Let_def split_beta intro!: evo split: option.splits)

lemma evolves_Close [evo]: "evolves u w \<Longrightarrow> evolves u (Close env s w)"
  by (auto simp: Close_def intro!: evo)

lemma evolves_closings [evo]:
  "evolves w (closeForShutdown env s w)" "evolves w (AdminDisconnect env s b w)"
  by (auto simp: closeForShutdown_def AdminDisconnect_def detachKeepRoom_def Let_def intro!: evo split: option.splits)

lemma evolves_failAuth [evo]: "evolves u w \<Longrightarrow> evolves u (failAuth env s r w)"
  by (auto simp: failAuth_def Let_def intro!: evo)

lemma evolves_kick [evo]: "evolves u w \<Longrightarrow> evolves u (kick_stale env s old w)"
  by (auto simp: kick_stale_def intro!: evo split: option.splits)

lemma evolves_auth [evo]: "evolves w (auth_phase2 env s info w)" "evolves w (handleAuthenticate env s token w)"
  by (auto simp: auth_phase2_def handleAuthenticate_def auth_phase1_def auth_reconnect_def Let_def intro!: evo
      split: option.splits sum.splits)

lemma evolves_run_delayed [evo]: "evolves w (run_delayed env hk a w)"
  by (cases a) (auto simp: run_async_disband_def intro!: evo)

section \<open>Every step\<close>

lemma evolves_schedules [simp]: "evolves u (fold (\<lambda>x. schedule (f x) (g x)) xs w) = evolves u w"
  by (induction xs arbitrary: w) simp_all

lemma evolves_startReadyCountdown [evo]: "evolves u w \<Longrightarrow> evolves u (startReadyCountdown env rr w)"
  by (auto simp: startReadyCountdown_def Let_def intro!: evo)

text \<open>A request to start only touches a room in the chart selection.\<close>

lemma RequestStart_rooms:
  assumes r: "rr < nextR w" "State (heapR w rr) \<noteq> StateSelectChart"
  shows "state_le (State (heapR w rr)) (State (heapR (snd (handleRequestStart env ur w)) rr))"
proof (cases "\<exists>r0. uRoom (heapU w ur) = Some r0 \<and> ValidateStart (heapR w r0) (heapU w ur) = None")
  case True
  then obtain r0 where r0: "uRoom (heapU w ur) = Some r0" "ValidateStart (heapR w r0) (heapU w ur) = None" by blast
  define f :: "Room \<Rightarrow> Room" where "f = (\<lambda>r. r\<lparr>State := StateWaitForReady {uID (heapU w ur)}\<rparr>)"
  have base: "evolves (upd_room r0 f w) (upd_room r0 f v)" if "heapR v = heapR w" "nextR v = nextR w" for v
    using that by (simp add: evolves_def)
  have "evolves (upd_room r0 f w) (snd (handleRequestStart env ur w))"
    using r0 by (auto simp: handleRequestStart_def with_room_def RequireRoom_def Let_def split_beta
        intro!: evolves_CheckAllReady evolves_DisbandRoom evolves_startReadyCountdown base
        split: option.splits InternalRoomState.splits simp flip: f_def)
  moreover have "rr \<noteq> r0" using r r0 ValidateStart_chart by blast
  ultimately show ?thesis using r(1) by (auto simp: evolves_def dest!: spec [of _ rr])
next
  case False
  then have "snd (handleRequestStart env ur w) = w"
    by (auto simp: handleRequestStart_def with_room_def RequireRoom_def split: option.splits)
  then show ?thesis by simp
qed

lemma evolves_playing:
  "evolves w w' \<Longrightarrow> rr < nextR w \<Longrightarrow> State (heapR w rr) = StatePlaying p \<Longrightarrow> state_le (StatePlaying p) (State (heapR w' rr))"
  by (metis evolves_def)

lemma command_rooms:
  assumes "rr < nextR w" "State (heapR w rr) = StatePlaying p"
  shows "state_le (StatePlaying p) (State (heapR (snd (ProcessClientCommand env ur cmd w)) rr))"
proof (cases "cmd = CmdRequestStart")
  case True
  then show ?thesis using RequestStart_rooms [of rr w env ur] assms by (simp add: unit_reply_def)
next
  case False
  then have "evolves w (snd (ProcessClientCommand env ur cmd w))"
    by (cases cmd) (auto simp: unit_reply_def handleJoinRoomResult_def split_beta intro!: evo split: prod.splits sum.splits)
  then show ?thesis using assms by (rule evolves_playing)
qed

text \<open>A running game either goes on with what it has, or ends.\<close>

lemma step_playing:
  assumes "step env w w'" "rr < nextR w" "State (heapR w rr) = StatePlaying p"
  shows "State (heapR w' rr) = StateSelectChart \<or> (\<exists>p'. State (heapR w' rr) = StatePlaying p' \<and> game_keeps p p')"
proof -
  have "state_le (StatePlaying p) (State (heapR w' rr))"
    using assms
  proof (cases rule: step.cases)
    case (command s cmd allowed limited)
    then show ?thesis
      using command_rooms [OF assms(2,3)] evolves_playing [OF evolves_auth(2) assms(2,3)] assms(3)
      by (auto simp: onCommand_def Let_def split_beta split: option.splits ClientCommand.splits)
  next
    case (delayed xs d a ys hk)
    then have "evolves w w'" using evolves_run_delayed [of "w\<lparr>pending := xs @ ys\<rparr>" env hk a] by (simp add: evolves_def)
    then show ?thesis using assms(2,3) by (rule evolves_playing)
  qed (auto intro!: evolves_playing [OF _ assms(2,3)] evo)
  then show ?thesis by (cases "State (heapR w' rr)") auto
qed

end
