(* ===== verification/Hub_Contracts.thy ===== *)
theory Hub_Contracts
  imports Hub_Evolve
begin

text \<open>
  What the operations promise their callers: who may join or create a room and what a refusal
  leaves behind, who receives a broadcast, how results are ranked, what a removal and a disband
  take away, and why a reconnection wins over the timer of the grace period.
\<close>

section \<open>Joining\<close>

definition room_admits :: "Env \<Rightarrow> Room \<Rightarrow> User \<Rightarrow> bool \<Rightarrow> bool" where
  "room_admits env r u monitor \<longleftrightarrow>
     (case contest r of Some c \<Rightarrow> uID u \<in> Whitelist c | None \<Rightarrow> True) \<and> \<not> Locked r
     \<and> (if monitor then CanMonitor env u else int (length (users r)) < MaxUsers r \<or> uID u \<in> set (users r))"

definition may_join :: "Env \<Rightarrow> user_ref \<Rightarrow> RoomID \<Rightarrow> bool \<Rightarrow> World \<Rightarrow> bool" where
  "may_join env ur rid monitor w \<longleftrightarrow>
     (let u = heapU w ur in
      uID u \<notin> BannedUsers w \<and> \<not> Maintenance w \<and> uRoom u = None
      \<and> (case map_of (BannedRoomUsers w) rid of Some b \<Rightarrow> uID u \<notin> b | None \<Rightarrow> True)
      \<and> (case map_of (Rooms w) rid of Some rr \<Rightarrow> room_admits env (heapR w rr) u monitor | None \<Rightarrow> False))"

lemma ValidateJoin_None: "ValidateJoin env r u m = None \<longleftrightarrow>
    (case contest r of Some c \<Rightarrow> uID u \<in> Whitelist c | None \<Rightarrow> True) \<and> \<not> Locked r \<and> (m \<longrightarrow> CanMonitor env u)"
  by (auto simp: ValidateJoin_def split: option.splits)

lemma AddUser_fst: "fst (AddUser u ur m r) \<longleftrightarrow> m \<or> int (length (users r)) < MaxUsers r \<or> uID u \<in> set (users r)"
  by (auto simp: AddUser_def Let_def)

lemma room_admits_iff: "room_admits env r u m \<longleftrightarrow> ValidateJoin env r u m = None \<and> fst (AddUser u ur m r)"
  by (auto simp: room_admits_def ValidateJoin_None AddUser_fst)

lemma banned_iff: "(\<exists>b\<in>set_option o'. i \<in> b) \<longleftrightarrow> \<not> (case o' of Some b \<Rightarrow> i \<notin> b | None \<Rightarrow> True)"
  by (auto split: option.splits)

lemma join_succeeds_iff: "isl (fst (ProcessJoinRoom env ur rid m w)) \<longleftrightarrow> \<not> may_join env ur rid m w"
  by (auto simp: ProcessJoinRoom_def may_join_def Let_def isBanned_def split_beta banned_iff room_admits_iff [where ur = ur]
      split: option.splits)

lemma join_refused: "isl (fst (ProcessJoinRoom env ur rid m w)) \<Longrightarrow> snd (ProcessJoinRoom env ur rid m w) = w"
  by (auto simp: ProcessJoinRoom_def Let_def split_beta split: option.splits)

lemma AddUser_member:
  "fst (AddUser u ur m r) \<Longrightarrow> uID u \<in> set (if m then monitors (snd (AddUser u ur m r)) else users (snd (AddUser u ur m r)))"
  by (auto simp: AddUser_def Let_def split: if_splits)

lemma RefreshLive_lists [simp]:
  "users (RefreshLive b r) = users r" "monitors (RefreshLive b r) = monitors r" "usersMap (RefreshLive b r) = usersMap r"
  "HostID (RefreshLive b r) = HostID r" "Live (RefreshLive b r) \<longleftrightarrow> length (monitors r) > 0 \<or> (b \<and> ReplayEligible r)"
  by (simp_all add: RefreshLive_def)

lemma join_effect:
  assumes ok: "may_join env ur rid m w" and w': "w' = snd (ProcessJoinRoom env ur rid m w)"
  shows "\<exists>rr. map_of (Rooms w) rid = Some rr \<and> uRoom (heapU w' ur) = Some rr \<and> Monitor (heapU w' ur) = m
     \<and> uID (heapU w ur) \<in> set (if m then monitors (heapR w' rr) else users (heapR w' rr))"
proof -
  obtain rr where rr: "map_of (Rooms w) rid = Some rr" and adm: "room_admits env (heapR w rr) (heapU w ur) m"
    using ok by (auto simp: may_join_def Let_def split: option.splits)
  have v: "ValidateJoin env (heapR w rr) (heapU w ur) m = None" and a: "fst (AddUser (heapU w ur) ur m (heapR w rr))"
    using adm by (auto simp: room_admits_iff [where ur = ur])
  have rest: "\<not> isBanned w (heapU w ur)" "\<not> Maintenance w" "uRoom (heapU w ur) = None"
    "\<not> (\<exists>b\<in>set_option (map_of (BannedRoomUsers w) rid). uID (heapU w ur) \<in> b)"
    using ok by (auto simp: may_join_def Let_def isBanned_def split: option.splits)
  have "uRoom (heapU w' ur) = Some rr" "Monitor (heapU w' ur) = m"
    "users (heapR w' rr) = users (snd (AddUser (heapU w ur) ur m (heapR w rr)))"
    "monitors (heapR w' rr) = monitors (snd (AddUser (heapU w ur) ur m (heapR w rr)))"
    unfolding w' ProcessJoinRoom_def Let_def split_beta using rest by (simp_all add: rr v a)
  then show ?thesis using rr AddUser_member [OF a] by (cases m) simp_all
qed

section \<open>Creating\<close>

definition may_create :: "Env \<Rightarrow> user_ref \<Rightarrow> RoomID \<Rightarrow> World \<Rightarrow> bool" where
  "may_create env ur rid w \<longleftrightarrow>
     uID (heapU w ur) \<notin> BannedUsers w \<and> \<not> Maintenance w \<and> RoomCreationEnabled w \<and> uRoom (heapU w ur) = None
     \<and> map_of (Rooms w) rid = None \<and> (MaxRooms env < 1 \<or> int (length (Rooms w)) < MaxRooms env)"

lemma create_succeeds_iff: "fst (ProcessCreateRoom env ur rid w) = None \<longleftrightarrow> may_create env ur rid w"
  by (auto simp: ProcessCreateRoom_def may_create_def Let_def isBanned_def)

lemma create_refused: "fst (ProcessCreateRoom env ur rid w) \<noteq> None \<Longrightarrow> snd (ProcessCreateRoom env ur rid w) = w"
  by (auto simp: ProcessCreateRoom_def Let_def)

lemma create_effect:
  assumes "may_create env ur rid w" "w' = snd (ProcessCreateRoom env ur rid w)"
  shows "map_of (Rooms w') rid = Some (nextR w) \<and> uRoom (heapU w' ur) = Some (nextR w)
    \<and> users (heapR w' (nextR w)) = [uID (heapU w ur)] \<and> HostID (heapR w' (nextR w)) = uID (heapU w ur)
    \<and> State (heapR w' (nextR w)) = StateSelectChart
    \<and> (MaxRooms env \<ge> 1 \<longrightarrow> int (length (Rooms w')) \<le> MaxRooms env)"
  using assms
  by (auto simp: ProcessCreateRoom_def may_create_def Let_def isBanned_def NewRoom_def update_new
      map_of_eq_None_iff map_add_Some_iff)

section \<open>Broadcasts\<close>

lemma TrySend_trace: "trace (TrySend u cmd w) = trace w @ map (\<lambda>s. Sent s cmd) (case session (heapU w u) of Some s \<Rightarrow> [s] | None \<Rightarrow> [])"
  by (simp add: TrySend_def emit_def split: option.splits)

lemma send_all_trace: "trace (send_all us cmd w) = trace w @ map (\<lambda>s. Sent s cmd) (List.map_filter (\<lambda>u. session (heapU w u)) us)"
  by (induction us arbitrary: w) (simp_all add: send_all_def TrySend_trace map_filter_simps split: option.splits)

lemma send_all_sent: "set (trace (send_all us cmd w)) = set (trace w) \<union> {Sent s cmd |s. \<exists>u\<in>set us. session (heapU w u) = Some s}"
  by (auto simp: send_all_trace List.map_filter_def image_def)

text \<open>A member of a room with the pointer the room keeps for it.\<close>

definition member_ref :: "Room \<Rightarrow> int \<Rightarrow> user_ref \<Rightarrow> bool" where
  "member_ref r i u \<longleftrightarrow> (i \<in> set (users r) \<and> map_of (usersMap r) i = Some u)
     \<or> (i \<in> set (monitors r) \<and> map_of (monitorUsers r) i = Some u)"

lemma member_ref_iff: "members_ok r \<Longrightarrow> member_ref r i u \<longleftrightarrow> (i, u) \<in> set (usersMap r @ monitorUsers r)"
proof -
  assume "members_ok r"
  then have k: "map fst (usersMap r) = users r" "map fst (monitorUsers r) = monitors r" "distinct (users r)" "distinct (monitors r)"
    by (simp_all add: members_ok_def)
  have "map_of m i = Some u \<longleftrightarrow> (i, u) \<in> set m" if "distinct (map fst m)" for m :: "(int \<times> user_ref) list"
    using that by simp
  then show ?thesis
    using k by (simp add: member_ref_def) (metis image_set map_of_SomeD set_zip_leftD weak_map_of_SomeI zip_map_fst_snd)
qed

lemma snapshot_members: "members_ok r \<Longrightarrow> u \<in> set (ParticipantsSnapshot r) \<longleftrightarrow> (\<exists>i. member_ref r i u)"
  unfolding member_ref_iff by (force simp: members_ok_def image_iff)

lemma broadcast_sent:
  "members_ok (heapR w rr) \<Longrightarrow> set (trace (BroadcastRoom rr cmd w)) =
     set (trace w) \<union> {Sent s cmd |s. \<exists>i u. member_ref (heapR w rr) i u \<and> session (heapU w u) = Some s}"
  unfolding BroadcastRoom_def send_all_sent using snapshot_members [of "heapR w rr"] by blast

section \<open>Ranking\<close>

lemma ranking_members: "set (ranking_ids st) = fst ` set (Results st)" "length (ranking_ids st) = length (Results st)"
  "distinct (map fst (Results st)) \<Longrightarrow> distinct (ranking_ids st)"
  by (simp_all add: ranking_ids_def)

lemma ranking_sorted: "sorted (map (\<lambda>i. (- rec_Score (the (map_of (Results st) i)), i)) (ranking_ids st))"
  by (simp add: ranking_ids_def)

lemma ranking_order:
  assumes "a < b" "b < length (ranking_ids st)"
    and "map_of (Results st) (ranking_ids st ! a) = Some ra" "map_of (Results st) (ranking_ids st ! b) = Some rb"
  shows "rec_Score rb < rec_Score ra \<or> (rec_Score rb = rec_Score ra \<and> ranking_ids st ! a \<le> ranking_ids st ! b)"
  using sorted_nth_mono [OF ranking_sorted [of st], of a b] assms by auto

section \<open>Grace period\<close>

lemma processDangle_other:
  "dangleToken (heapU w ur) \<noteq> Some token \<Longrightarrow> processDangle env ur token w = w"
  by (simp add: processDangle_def IsStillDangling_def Let_def)

lemma disband_loop_heapU:
  "uRoom (heapU w u) = None \<Longrightarrow> uRoom (heapU (disband_loop env rr us w) u) = None"
  "uID (heapU (disband_loop env rr us w) u) = uID (heapU w u)"
  by (induction env rr us w rule: disband_loop.induct) (auto split: option.splits)

lemma DisbandRoom_heapU:
  "uRoom (heapU w u) = None \<Longrightarrow> uRoom (heapU (DisbandRoom env rr w) u) = None"
  "uID (heapU (DisbandRoom env rr w) u) = uID (heapU w u)"
  by (simp_all add: DisbandRoom_def Let_def disband_loop_heapU)

lemma leave_current_heapU:
  "uRoom (heapU (leave_current env ur w) ur) = None" "uID (heapU (leave_current env ur w) ur) = uID (heapU w ur)"
  by (auto simp: leave_current_def Let_def split_beta DisbandRoom_heapU split: option.splits)

lemma removeUser_gone:
  "map_of (Users (removeUser env ur w)) (uID (heapU w ur)) = None" "uRoom (heapU (removeUser env ur w) ur) = None"
  "dangleToken (heapU (removeUser env ur w) ur) = None"
  by (simp_all add: removeUser_def Let_def ClearDangle_def CleanupUserData_def leave_current_heapU delete_conv')

lemma dangle_expires:
  assumes "map_of (Users w) (uID (heapU w ur)) \<noteq> None" "dangleToken (heapU w ur) = Some token"
    and "w' = processDangle env ur token w"
  shows "map_of (Users w') (uID (heapU w ur)) = None \<and> uRoom (heapU w' ur) = None"
  using assms removeUser_gone [of env ur]
  by (auto simp: processDangle_def IsStillDangling_def Let_def) (metis q_logLocalized.keeps(2) removeUser_gone(1))+

section \<open>Leaving\<close>

text \<open>The room after a departure: without the member, and with the next host when the host left
  other players behind.\<close>

definition after_leave :: "User \<Rightarrow> Room \<Rightarrow> Room" where
  "after_leave u r =
     (let r' = remove_member u r
      in if HostID r = uID u \<and> users r' \<noteq> [] then r'\<lparr>HostID := next_host_of (set (users r')) (uID u)\<rparr> else r')"

definition host_gone :: "User \<Rightarrow> Room \<Rightarrow> bool" where
  "host_gone u r \<longleftrightarrow> HostID r = uID u \<and> users (remove_member u r) = []"

lemma IsEmpty_after: "IsEmpty (after_leave u r) = IsEmpty (remove_member u r)"
  by (simp add: after_leave_def IsEmpty_def Let_def)

lemma hand_over_heapR: "heapR (hand_over env rr i j w) = (heapR w)(rr := (heapR w rr)\<lparr>HostID := j\<rparr>)"
  by (simp add: hand_over_def Let_def)

lemma OnUserLeave_split:
  "OnUserLeave env rr ur w =
     (if host_gone (heapU w ur) (heapR w rr) then ((True, False), take_out env rr ur w)
      else finish_leave env rr
        (if HostID (heapR w rr) = uID (heapU w ur)
         then hand_over env rr (uID (heapU w ur))
                (next_host_of (set (users (remove_member (heapU w ur) (heapR w rr)))) (uID (heapU w ur))) (take_out env rr ur w)
         else take_out env rr ur w))"
  by (simp add: OnUserLeave_def Let_def host_gone_def pickNextHost_eq)

lemma OnUserLeave_machine:
  assumes "\<And>st. State (heapR w rr) = StatePlaying st \<Longrightarrow> ReconnectNotified st = None"
    and "\<not> host_gone (heapU w ur) (heapR w rr)"
  shows "fst (OnUserLeave env rr ur w) = (IsEmpty (after_leave (heapU w ur) (heapR w rr)),
           game_over (after_leave (heapU w ur) (heapR w rr)) \<and> auto_disband (after_leave (heapU w ur) (heapR w rr)))"
    "State (heapR (snd (OnUserLeave env rr ur w)) rr) = next_state (now w) (after_leave (heapU w ur) (heapR w rr))"
    "HostID (heapR (snd (OnUserLeave env rr ur w)) rr) = next_host (after_leave (heapU w ur) (heapR w rr))"
    "users (heapR (snd (OnUserLeave env rr ur w)) rr) = users (remove_member (heapU w ur) (heapR w rr))"
    "monitors (heapR (snd (OnUserLeave env rr ur w)) rr) = monitors (remove_member (heapU w ur) (heapR w rr))"
proof -
  define v where "v = NotifyWebSocket env rr (if HostID (heapR w rr) = uID (heapU w ur)
         then hand_over env rr (uID (heapU w ur))
                (next_host_of (set (users (remove_member (heapU w ur) (heapR w rr)))) (uID (heapU w ur))) (take_out env rr ur w)
         else take_out env rr ur w)"
  have v: "OnUserLeave env rr ur w = ((IsEmpty (heapR (snd (CheckAllReady env rr v)) rr), fst (CheckAllReady env rr v)), snd (CheckAllReady env rr v))"
    using assms(2) by (simp add: OnUserLeave_split finish_leave_def split_beta v_def)
  have room: "heapR v rr = after_leave (heapU w ur) (heapR w rr)"
    using assms(2) by (auto simp: v_def hand_over_heapR after_leave_def Let_def host_gone_def)
  have now: "now v = now w" by (simp add: v_def take_out_def Let_def)
  have st: "State (heapR v rr) = StatePlaying st \<Longrightarrow> ReconnectNotified st = None" for st
    using assms(1) by (simp add: room after_leave_def Let_def split: if_splits)
  have lists: "users (after_leave u r) = users (remove_member u r)" "monitors (after_leave u r) = monitors (remove_member u r)" for u r
    by (simp_all add: after_leave_def Let_def)
  show "fst (OnUserLeave env rr ur w) = (IsEmpty (after_leave (heapU w ur) (heapR w rr)),
           game_over (after_leave (heapU w ur) (heapR w rr)) \<and> auto_disband (after_leave (heapU w ur) (heapR w rr)))"
    using CheckAllReady_machine(1) [of v rr env] st by (simp add: v room IsEmpty_def)
  show "State (heapR (snd (OnUserLeave env rr ur w)) rr) = next_state (now w) (after_leave (heapU w ur) (heapR w rr))"
    "HostID (heapR (snd (OnUserLeave env rr ur w)) rr) = next_host (after_leave (heapU w ur) (heapR w rr))"
    "users (heapR (snd (OnUserLeave env rr ur w)) rr) = users (remove_member (heapU w ur) (heapR w rr))"
    "monitors (heapR (snd (OnUserLeave env rr ur w)) rr) = monitors (remove_member (heapU w ur) (heapR w rr))"
    using CheckAllReady_machine(2,3) [of v rr env rr] st by (simp_all add: v room now lists)
qed

section \<open>Disbanding\<close>

lemma disband_loop_leaves:
  assumes "u \<in> set us" "uRoom (heapU w u) = Some rr"
  shows "uRoom (heapU (disband_loop env rr us w) u) = None"
  using assms
proof (induction env rr us w rule: disband_loop.induct)
  case (2 env rr v us w)
  then show ?case
    by (cases "v = u") (auto simp: disband_loop_heapU split: option.splits)
qed simp

lemma OnUserLeave_rID [simp]: "rID (heapR (snd (OnUserLeave env rr ur w)) r) = rID (heapR w r)"
  by (simp add: OnUserLeave_split)

lemma disband_loop_rID [simp]: "rID (heapR (disband_loop env rr us w) r) = rID (heapR w r)"
  by (induction env rr us w rule: disband_loop.induct) (auto split: option.splits)

lemma DisbandRoom_gone: "map_of (Rooms (DisbandRoom env rr w)) (rID (heapR w rr)) = None"
  by (simp add: DisbandRoom_def Let_def delete_conv')

lemma DisbandRoom_leaves:
  assumes "u \<in> set (ParticipantsSnapshot (heapR w rr))" "uRoom (heapU w u) = Some rr"
  shows "uRoom (heapU (DisbandRoom env rr w) u) = None"
  using assms by (simp add: DisbandRoom_def Let_def disband_loop_leaves)

end
