(* ===== verification/Demo_Run.thy ===== *)
theory Demo_Run
  imports Hub_Contracts
begin

text \<open>
  A concrete run of the server, used to show that the hypotheses of the theorems can hold.  The
  localisation returns the key, the upstream service knows every token as a user, every chart and
  every record.  Alice (1) and Bob (2) log in, Alice creates the room \<open>r\<close>, Bob joins, Alice selects a
  chart and asks for a start, Bob is ready, Alice hands in her result, and Bob loses his connection.
\<close>

definition demo_user :: "string \<Rightarrow> string + PhiraUserInfo" where
  "demo_user token = Inr (if token = ''a'' then \<lparr>pu_ID = 1, pu_Name = ''Alice'', pu_Language = ''en''\<rparr>
     else if token = ''b'' then \<lparr>pu_ID = 2, pu_Name = ''Bob'', pu_Language = ''en''\<rparr>
     else \<lparr>pu_ID = 3, pu_Name = ''Carol'', pu_Language = ''en''\<rparr>)"

definition demo_record :: "int \<Rightarrow> string + RecordData" where
  "demo_record i = Inr \<lparr>rec_ID = i, rec_Player = i, rec_Chart = Some 7, rec_Score = 900000 + i, rec_Perfect = 10, rec_Good = 0,
     rec_Bad = 0, rec_Miss = 0, rec_MaxCombo = 10, rec_Accuracy = 0, rec_Mod = 0, rec_FullCombo = True,
     rec_Std = None, rec_StdScore = None\<rparr>"

definition demo_env :: Env where
  "demo_env = \<lparr>TL = (\<lambda>_ key _. key), ServerLang = ''en'', ServerName = ''demo'', AppVersion = ''1'', RoomListTip = [],
     HasLogger = False, HasWS = False, HasEvents = False, HasEnterPlaying = True, HasGameEnd = True, HasRecorder = False,
     HasMonitorBuffer = False, MaxRooms = 10, RoomMaxUsers = 2, CfgMonitors = [3], ChatEnabled = True, SystemUserID = 0,
     PlayingReconnectGrace = 30, FakeMonitorInfo = (\<lambda>n. \<lparr>ui_ID = 0, ui_Name = n, ui_Monitor = True\<rparr>),
     PhiraChart = Some (\<lambda>i. Inr \<lparr>c_ID = i, c_Name = ''song'', c_Level = [], c_Charter = [], c_Illustration = []\<rparr>),
     PhiraRecord = Some demo_record, PhiraUser = Some demo_user, NewLanguage = (\<lambda>l. l), hackDelay = 10\<rparr>"

definition song :: Chart where
  "song = \<lparr>c_ID = 7, c_Name = ''song'', c_Level = [], c_Charter = [], c_Illustration = []\<rparr>"

definition nobody :: User where
  "nobody = NewUser demo_env 0 [] []"

definition no_room :: Room where
  "no_room = NewRoom [] 0 0 False"

definition demo_init :: World where
  "demo_init = \<lparr>Rooms = [], Users = [], heapR = (\<lambda>_. no_room), heapU = (\<lambda>_. nobody), nextR = 0, nextU = 0,
     BannedUsers = {}, BannedRoomUsers = [], Maintenance = False, MaintenanceMessage = None, RoomCreationEnabled = True,
     ReplayEnabled = False, fresh = 0, cancelled = {}, roomLogs = (\<lambda>_. []), gameTime = (\<lambda>_. NegInf), uploadUsers = {},
     sessUser = (\<lambda>_. None), closing = {}, closed = {}, pending = [], trace = [], now = 0\<rparr>"

text \<open>A command of a session, and the run of a pending body.\<close>

definition demo_cmd :: "session_ref \<Rightarrow> ClientCommand \<Rightarrow> World \<Rightarrow> World" where
  "demo_cmd s c = onCommand demo_env s c True None"

definition demo_run :: "nat \<Rightarrow> World \<Rightarrow> World" where
  "demo_run n w = run_delayed demo_env None (snd (pending w ! n)) (w\<lparr>pending := take n (pending w) @ drop (Suc n) (pending w)\<rparr>)"

section \<open>The stages\<close>

definition demo_1 :: World where "demo_1 = demo_cmd 10 (CmdAuthenticate ''a'') demo_init"
definition demo_2 :: World where "demo_2 = demo_run 0 demo_1"
definition demo_3 :: World where "demo_3 = demo_cmd 11 (CmdAuthenticate ''b'') demo_2"
definition demo_4 :: World where "demo_4 = demo_run 1 demo_3"
definition demo_created :: World where "demo_created = demo_cmd 10 (CmdCreateRoom ''r'') demo_4"
definition demo_joined :: World where "demo_joined = demo_cmd 11 (CmdJoinRoom ''r'' False) demo_created"
definition demo_chart :: World where "demo_chart = demo_cmd 10 (CmdSelectChart 7) demo_joined"
definition demo_wait :: World where "demo_wait = demo_cmd 10 CmdRequestStart demo_chart"
definition demo_play :: World where "demo_play = demo_cmd 11 CmdReady demo_wait"
definition demo_result :: World where "demo_result = demo_cmd 10 (CmdPlayed 1) demo_play"
definition demo_lost :: World where "demo_lost = Close demo_env 11 demo_result"

lemma reachable_cmd: "reachable demo_env w \<Longrightarrow> reachable demo_env (demo_cmd s c w)"
  unfolding demo_cmd_def by (rule reachable_step) (auto intro: step.intros)

lemma reachable_run:
  assumes "reachable demo_env w" "n < length (pending w)"
  shows "reachable demo_env (demo_run n w)"
proof -
  have "pending w = take n (pending w) @ (fst (pending w ! n), snd (pending w ! n)) # drop (Suc n) (pending w)"
    using id_take_nth_drop [OF assms(2)] by simp
  from step.delayed [OF this, of demo_env None] show ?thesis
    unfolding demo_run_def by (rule reachable_step [OF assms(1)])
qed

lemma reachable_demo_init: "reachable demo_env demo_init"
  by (rule reachable_init) (simp add: init_world_def demo_init_def)

section \<open>What each stage looks like\<close>

lemma demo_env_simps [simp]:
  "TL demo_env l k a = k" "HasLogger demo_env = False" "HasWS demo_env = False" "HasEvents demo_env = False"
  "HasEnterPlaying demo_env = True" "HasGameEnd demo_env = True" "MaxRooms demo_env = 10" "RoomMaxUsers demo_env = 2"
  "HasRecorder demo_env = False" "HasMonitorBuffer demo_env = False" "CfgMonitors demo_env = [3]"
  "SystemUserID demo_env = 0" "hackDelay demo_env = 10" "PlayingReconnectGrace demo_env = 30"
  "PhiraChart demo_env = Some (\<lambda>i. Inr \<lparr>c_ID = i, c_Name = ''song'', c_Level = [], c_Charter = [], c_Illustration = []\<rparr>)"
  "PhiraRecord demo_env = Some demo_record" "PhiraUser demo_env = Some demo_user" "NewLanguage demo_env l = l"
  by (simp_all add: demo_env_def)

definition view where
  "view w = (Rooms w, Users w, heapR w 0, heapU w 0, heapU w (Suc 0), nextR w, nextU w, pending w, sessUser w 10, sessUser w 11,
     cancelled w, closed w, closing w, fresh w, now w, Maintenance w, BannedUsers w, RoomCreationEnabled w, ReplayEnabled w,
     BannedRoomUsers w)"

definition alice :: User where
  "alice = \<lparr>uID = 1, Name = ''Alice'', Lang = ''en'', session = Some 10, uRoom = None, Monitor = False, dangleToken = None,
     DangleDeadline = None, dangleTimer = None\<rparr>"

definition bob :: User where
  "bob = \<lparr>uID = 2, Name = ''Bob'', Lang = ''en'', session = Some 11, uRoom = None, Monitor = False, dangleToken = None,
     DangleDeadline = None, dangleTimer = None\<rparr>"

definition room_r :: Room where
  "room_r = \<lparr>rID = ''r'', MaxUsers = 2, ReplayEligible = False, HostID = 1, State = StateSelectChart, Live = False,
     Locked = False, Cycle = False, contest = None, users = [1, 2], monitors = [], usersMap = [(1, 0), (2, Suc 0)],
     monitorUsers = [], participantsSnapshot = Some [0, Suc 0], chart = None, readyCancel = None,
     playDeadlineCancel = None, nextHostID = None\<rparr>"

definition demo_pending :: "(int \<times> Delayed) list" where
  "demo_pending = [(0, DWelcome 0), (0, DWelcome (Suc 0)), (50000, DReadyReminder 0 0 ''r'' 10),
     (55000, DReadyReminder 0 0 ''r'' 5), (57000, DReadyReminder 0 0 ''r'' 3), (58000, DReadyReminder 0 0 ''r'' 2),
     (59000, DReadyReminder 0 0 ''r'' (Suc 0)), (60000, DReadyTimeout 0 0 ''r'')]"

definition demo_record1 :: RecordData where
  "demo_record1 = projr (demo_record 1)"

definition demo_game :: PlayingData where
  "demo_game = (new_playing 0)\<lparr>Results := [(1, demo_record1)]\<rparr>"

lemmas demo_data = alice_def bob_def room_r_def song_def demo_pending_def nobody_def demo_game_def demo_record1_def

lemmas auth_defs = demo_cmd_def demo_run_def onCommand_def handleAuthenticate_def auth_phase1_def auth_phase2_def Let_def
  demo_user_def NewUser_def unit_reply_def

lemmas room_defs = ProcessCreateRoom_def NewRoom_def isBanned_def refreshParticipantsSnapshot_def RefreshLive_def
  sendFakeMonitorJoin_def handleJoinRoomResult_def ProcessJoinRoom_def ValidateJoin_def AddUser_def HandleJoin_def is_late_def

lemmas start_defs = handleSelectChart_def with_room_def RequireRoom_def ValidateSelectChart_def CheckHost_def FetchChart_def
  handleRequestStart_def ValidateStart_def CheckAllReady_def checkWaitForReady_def AllParticipantIDs_def tlOrSkip_def
  startReadyCountdown_def cancelReadyCountdown_def readyCountdownReminders_def readyCountdownDuration_def

lemmas play_defs = handleReady_def check_and_disband_def startPlaying_def cancelPlayDeadline_def new_playing_def
  handlePlayed_def already_done_def FetchRecord_def demo_record_def store_result_def checkPlaying_def has_finished_def
  notifyDanglingReconnect_def UsersByID_def startPlayDeadline_def playDeadlineDuration_def shouldRecord_def

lemma demo_1: "view demo_1 = ([], [], no_room, nobody, nobody, 0, 0,
    [(0, DAuthRegister 10 \<lparr>pu_ID = 1, pu_Name = ''Alice'', pu_Language = ''en''\<rparr>)], None, None,
    {}, {}, {}, 0, 0, False, {}, True, False, [])"
  by (simp add: view_def demo_1_def auth_defs demo_init_def)

lemmas demo_1_fields [simp] = demo_1 [unfolded view_def prod.inject]

lemma demo_2: "view demo_2 = ([], [(1, 0)], no_room, alice, nobody, 0, 1, [(0, DWelcome 0)], Some 0, None,
    {}, {}, {}, 0, 0, False, {}, True, False, [])"
  by (simp add: view_def demo_2_def auth_defs demo_data)

lemmas demo_2_fields [simp] = demo_2 [unfolded view_def prod.inject]

lemma demo_3: "view demo_3 = ([], [(1, 0)], no_room, alice, nobody, 0, 1,
    [(0, DWelcome 0), (0, DAuthRegister 11 \<lparr>pu_ID = 2, pu_Name = ''Bob'', pu_Language = ''en''\<rparr>)], Some 0, None,
    {}, {}, {}, 0, 0, False, {}, True, False, [])"
  by (simp add: view_def demo_3_def auth_defs)

lemmas demo_3_fields [simp] = demo_3 [unfolded view_def prod.inject]

lemma demo_4: "view demo_4 = ([], [(1, 0), (2, Suc 0)], no_room, alice, bob, 0, 2, [(0, DWelcome 0), (0, DWelcome (Suc 0))],
    Some 0, Some (Suc 0), {}, {}, {}, 0, 0, False, {}, True, False, [])"
  by (simp add: view_def demo_4_def auth_defs demo_data)

lemmas demo_4_fields [simp] = demo_4 [unfolded view_def prod.inject]

lemma demo_created: "view demo_created = ([(''r'', 0)], [(1, 0), (2, Suc 0)],
    room_r\<lparr>users := [1], usersMap := [(1, 0)], participantsSnapshot := Some [0]\<rparr>, alice\<lparr>uRoom := Some 0\<rparr>, bob, Suc 0, 2,
    [(0, DWelcome 0), (0, DWelcome (Suc 0))], Some 0, Some (Suc 0), {}, {}, {}, 0, 0, False, {}, True, False, [])"
  by (simp add: view_def demo_created_def auth_defs room_defs demo_data)

lemmas demo_created_fields [simp] = demo_created [unfolded view_def prod.inject]

lemma demo_joined: "view demo_joined = ([(''r'', 0)], [(1, 0), (2, Suc 0)],
    room_r, alice\<lparr>uRoom := Some 0\<rparr>, bob\<lparr>uRoom := Some 0\<rparr>, Suc 0, 2,
    [(0, DWelcome 0), (0, DWelcome (Suc 0))], Some 0, Some (Suc 0), {}, {}, {}, 0, 0, False, {}, True, False, [])"
  by (simp add: view_def demo_joined_def auth_defs room_defs demo_data)

lemmas demo_joined_fields [simp] = demo_joined [unfolded view_def prod.inject]

lemma demo_chart: "view demo_chart = ([(''r'', 0)], [(1, 0), (2, Suc 0)],
    room_r\<lparr>chart := Some song\<rparr>, alice\<lparr>uRoom := Some 0\<rparr>, bob\<lparr>uRoom := Some 0\<rparr>, Suc 0, 2,
    [(0, DWelcome 0), (0, DWelcome (Suc 0))], Some 0, Some (Suc 0), {}, {}, {}, 0, 0, False, {}, True, False, [])"
  by (simp add: view_def demo_chart_def auth_defs start_defs demo_data)

lemmas demo_chart_fields [simp] = demo_chart [unfolded view_def prod.inject]

lemma demo_wait: "view demo_wait = ([(''r'', 0)], [(1, 0), (2, Suc 0)],
    room_r\<lparr>State := StateWaitForReady {1}, chart := Some song, readyCancel := Some 0\<rparr>, alice\<lparr>uRoom := Some 0\<rparr>,
    bob\<lparr>uRoom := Some 0\<rparr>, Suc 0, 2, demo_pending, Some 0, Some (Suc 0), {}, {}, {}, Suc 0, 0, False, {}, True, False, [])"
  by (simp add: view_def demo_wait_def auth_defs start_defs demo_data)

lemmas demo_wait_fields [simp] = demo_wait [unfolded view_def prod.inject]

lemma demo_play: "view demo_play = ([(''r'', 0)], [(1, 0), (2, Suc 0)],
    room_r\<lparr>State := StatePlaying (new_playing 0), chart := Some song\<rparr>, alice\<lparr>uRoom := Some 0\<rparr>,
    bob\<lparr>uRoom := Some 0\<rparr>, Suc 0, 2, demo_pending, Some 0, Some (Suc 0), {0}, {}, {}, Suc 0, 0, False, {}, True, False, [])"
  by (simp add: view_def demo_play_def auth_defs start_defs play_defs demo_data)

lemmas demo_play_fields [simp] = demo_play [unfolded view_def prod.inject]

lemma demo_result: "view demo_result = ([(''r'', 0)], [(1, 0), (2, Suc 0)],
    room_r\<lparr>State := StatePlaying demo_game, chart := Some song, playDeadlineCancel := Some (Suc 0)\<rparr>,
    alice\<lparr>uRoom := Some 0\<rparr>, bob\<lparr>uRoom := Some 0\<rparr>, Suc 0, 2, demo_pending @ [(120000, DPlayDeadline (Suc 0) 0 ''r'')],
    Some 0, Some (Suc 0), {0}, {}, {}, Suc (Suc 0), 0, False, {}, True, False, [])"
  by (simp add: view_def demo_result_def auth_defs start_defs play_defs demo_data)

lemmas demo_result_fields [simp] = demo_result [unfolded view_def prod.inject]

lemmas lost_defs = Close_def cleanup_def SetSession_def dangleGrace_def MarkDangle_def SetDangleTimer_def

lemma demo_lost: "view demo_lost = ([(''r'', 0)], [(1, 0), (2, Suc 0)],
    room_r\<lparr>State := StatePlaying demo_game, chart := Some song, playDeadlineCancel := Some (Suc 0)\<rparr>, alice\<lparr>uRoom := Some 0\<rparr>,
    bob\<lparr>uRoom := Some 0, session := None, dangleToken := Some 2, DangleDeadline := Some 30000, dangleTimer := Some 2\<rparr>, Suc 0, 2,
    demo_pending @ [(120000, DPlayDeadline (Suc 0) 0 ''r''), (30000, DDangle (Suc 0) 2)],
    Some 0, Some (Suc 0), {0}, {11}, {}, 3, 0, False, {}, True, False, [])"
  by (simp add: view_def demo_lost_def lost_defs isBanned_def Let_def demo_data)

lemmas demo_lost_fields [simp] = demo_lost [unfolded view_def prod.inject]

text \<open>Every stage is reachable.\<close>

lemma demo_reachable_early: "reachable demo_env demo_4"
  unfolding demo_4_def demo_3_def
  by (rule reachable_run, rule reachable_cmd, unfold demo_2_def, rule reachable_run, unfold demo_1_def,
      rule reachable_cmd, rule reachable_demo_init)
     (simp_all flip: demo_1_def demo_2_def demo_3_def)

lemma demo_reachable [simp]:
  "reachable demo_env demo_joined" "reachable demo_env demo_chart" "reachable demo_env demo_wait"
  "reachable demo_env demo_play" "reachable demo_env demo_result"
  by (simp_all add: demo_created_def demo_joined_def demo_chart_def demo_wait_def demo_play_def demo_result_def
      reachable_cmd demo_reachable_early)

lemma demo_lost_reachable [simp]: "reachable demo_env demo_lost"
  unfolding demo_lost_def by (rule reachable_step [OF _ step.close]) simp

end
