(* ===== verification/Agent_Bridge.thy ===== *)
theory Agent_Bridge
  imports Agent_Webhook Replay_Recorder Demo_Run
begin

text \<open>
  The bridge from the server to its outbox: \<open>agent/bridge/publisher.go\<close> with the publisher and its queue,
  the translation of the events of the server, the capture of a finished match, and the part of
  \<open>cmd/server/main.go\<close> that publishes the end of a game.  A binary64 pattern of the game state gets the
  number that it stands for, which its JSON text carries.  The JSON text of a payload is a parameter of
  the publisher.
\<close>

section \<open>Numbers\<close>

text \<open>The value of a pattern of a finite number; the JSON encoder refuses the others, which is an encoder of the
  publisher that gives no text.\<close>

definition f64_value :: "f64 \<Rightarrow> rat" where
  "f64_value x =
     (let e = (unat x div 2 ^ 52) mod 2 ^ 11; m = unat x mod 2 ^ 52;
          a = (if e = 0 then of_nat m * power_int 2 (-1074) else of_nat (2 ^ 52 + m) * power_int 2 (int e - 1075))
      in if unat x div 2 ^ 63 = 0 then a else - a)"

section \<open>Payloads\<close>

record CapturedResult =
  cr_ID :: int
  cr_Name :: string
  cr_Record :: RecordData
  cr_Rank :: nat
  cr_ReplayID :: string

record CapturedMatch =
  cm_Server :: string
  cm_RoomID :: string
  cm_Chart :: ChartV1
  cm_StartedAt :: int
  cm_Duration :: rat
  cm_Results :: "CapturedResult list"

record ReplayCompletedV1 =
  rc_Server :: string
  rc_RoomID :: string
  rc_ReplayID :: string
  rc_UserID :: int
  rc_ChartID :: int

datatype payload =
    PStarted GameStartedV1
  | PEnded GameEndedV1
  | PFinished CapturedMatch
  | PScore ScoreSubmittedV1
  | PRoom RoomEventV1
  | PMaintenance MaintenanceChangedV1
  | PReplay ReplayCompletedV1



section \<open>Translation\<close>

definition no_chart :: ChartV1 where
  "no_chart = \<lparr>cv_ID = 0, cv_Name = [], cv_Difficulty = [], cv_Charter = [], cv_Illustration = []\<rparr>"

definition chart_of :: "Chart option \<Rightarrow> ChartV1" where
  "chart_of c = (case c of None \<Rightarrow> no_chart | Some c \<Rightarrow>
     \<lparr>cv_ID = c_ID c, cv_Name = c_Name c, cv_Difficulty = c_Level c, cv_Charter = c_Charter c, cv_Illustration = c_Illustration c\<rparr>)"

text \<open>An entry of the ranking carries a score and the standard score, its other numbers are 0.\<close>

definition rank_result :: "ScoreRankEntry \<Rightarrow> MatchPlayerResultV1" where
  "rank_result r = \<lparr>mp_PlayerID = sr_PlayerID r, mp_PlayerName = ScoreRankEntry.sr_Player r,
     mp_Record = RecordRow.make 0 (sr_PlayerID r) (ScoreRankEntry.sr_Score r) 0 0 0 0 0 0 False None (Some (f64_value (ScoreRankEntry.sr_StdScore r)))\<rparr>"

definition base_event :: "Event \<Rightarrow> RoomEventV1" where
  "base_event ev = \<lparr>re_Server = ev_Server ev, re_RoomID = ev_RoomID ev, re_UserCount = ev_UserCount ev,
     re_User = (if ev_UserID ev \<noteq> 0 then Some (ev_UserID ev, ev_UserName ev) else None)\<rparr>"

definition mapServerEvent :: "Event \<Rightarrow> (string \<times> payload) option" where
  "mapServerEvent ev =
     (case ev_Type ev of
        EventRoomCreate \<Rightarrow> Some (''room.created.v1'', PRoom (base_event ev))
      | EventRoomDisband \<Rightarrow> Some (''room.disbanded.v1'', PRoom (base_event ev))
      | EventUserJoin \<Rightarrow> Some (''user.joined.v1'', PRoom (base_event ev))
      | EventMaintenance \<Rightarrow> Some (''maintenance.changed.v1'',
          PMaintenance \<lparr>mc_Server = ev_Server ev, mc_Enabled = ev_Enabled ev, mc_Message = ev_Message ev\<rparr>)
      | EventGameStart \<Rightarrow> Some (''game.started.v1'',
          PStarted \<lparr>gs_Server = ev_Server ev, gs_RoomID = ev_RoomID ev,
            gs_Chart = \<lparr>cv_ID = ev_ChartID ev, cv_Name = ev_ChartName ev, cv_Difficulty = ev_ChartDifficulty ev,
              cv_Charter = ev_ChartCharter ev, cv_Illustration = ev_ImageURL ev\<rparr>,
            gs_Players = ev_Players ev\<rparr>)
      | EventScoreSubmitted \<Rightarrow> Some (''score.submitted.v1'',
          PScore \<lparr>ss_Server = ev_Server ev, ss_RoomID = ev_RoomID ev,
            ss_Chart = no_chart\<lparr>cv_ID := ev_ChartID ev, cv_Name := ev_ChartName ev\<rparr>,
            ss_Ranks = map rank_result (ev_PlayerScoreRank ev)\<rparr>)
      | EventGameEnd \<Rightarrow> None)"

section \<open>The finished match\<close>

definition captured_name :: "room_ref \<Rightarrow> World \<Rightarrow> int \<Rightarrow> string" where
  "captured_name rr w i =
     (case map_of (usersMap (heapR w rr)) i of
        Some u \<Rightarrow> if Name (heapU w u) \<noteq> [] then Name (heapU w u) else Itoa i
      | None \<Rightarrow> Itoa i)"

text \<open>\<open>Seconds\<close> of a duration in milliseconds adds the whole seconds and the rest as \<open>float64\<close>.\<close>

definition duration_seconds :: "int \<Rightarrow> rat" where
  "duration_seconds ms = rnd64 (of_int (ms div 1000) + rnd64 (of_int (ms mod 1000) / 1000))"

definition CaptureMatchFinished :: "string \<Rightarrow> room_ref \<Rightarrow> World \<Rightarrow> CapturedMatch option" where
  "CaptureMatchFinished serverName rr w =
     (case State (heapR w rr) of
        StatePlaying st \<Rightarrow>
          if Results st = [] then None
          else Some \<lparr>cm_Server = serverName, cm_RoomID = rID (heapR w rr), cm_Chart = chart_of (chart (heapR w rr)),
            cm_StartedAt = StartedAt st, cm_Duration = duration_seconds (now w - StartedAt st),
            cm_Results = map (\<lambda>(index, i). \<lparr>cr_ID = i, cr_Name = captured_name rr w i, cr_Record = the (map_of (Results st) i),
                cr_Rank = index + 1, cr_ReplayID = []\<rparr>) (enumerate 0 (ranking_ids st))\<rparr>
      | _ \<Rightarrow> None)"

definition AttachReplayIDs :: "CapturedMatch \<Rightarrow> (int \<Rightarrow> string option) \<Rightarrow> CapturedMatch" where
  "AttachReplayIDs m ids = m\<lparr>cm_Results := map (\<lambda>r. r\<lparr>cr_ReplayID := (case ids (cr_ID r) of None \<Rightarrow> [] | Some s \<Rightarrow> s)\<rparr>) (cm_Results m)\<rparr>"

section \<open>The end of a game\<close>

text \<open>The hook \<open>OnGameEnd\<close>: what is published, when the recordings of the room are closed.  The message that a
  game without results has ended is sent by a routine of its own, so that it may also come later.\<close>

definition replay_completed :: "string \<Rightarrow> string \<Rightarrow> FileInfo \<Rightarrow> payload" where
  "replay_completed serverName roomID f = PReplay \<lparr>rc_Server = serverName, rc_RoomID = roomID, rc_ReplayID = ID_String (IDFromFile f),
     rc_UserID = fi_UserID f, rc_ChartID = fi_ChartID f\<rparr>"

definition replay_ids :: "FileInfo list \<Rightarrow> int \<Rightarrow> string option" where
  "replay_ids files = fold (\<lambda>f ids. ids(fi_UserID f \<mapsto> ID_String (IDFromFile f))) files Map.empty"

definition game_end_payloads :: "string \<Rightarrow> room_ref \<Rightarrow> FileInfo list \<Rightarrow> World \<Rightarrow> (string \<times> payload) list" where
  "game_end_payloads serverName rr files w =
     (let roomID = rID (heapR w rr); completed = map (\<lambda>f. (''replay.completed.v1'', replay_completed serverName roomID f)) files
      in case CaptureMatchFinished serverName rr w of
          None \<Rightarrow> (''game.ended.v1'', PEnded \<lparr>ge_Server = serverName, ge_RoomID = roomID, ge_Chart = chart_of (chart (heapR w rr))\<rparr>) # completed
        | Some m \<Rightarrow> completed @ [(''match.finished.v1'', PFinished (AttachReplayIDs m (replay_ids files)))])"

definition OnGameEnd :: "(bytes \<Rightarrow> bytes) \<Rightarrow> (string list \<Rightarrow> string list) \<Rightarrow> string \<Rightarrow> room_ref \<Rightarrow> World \<Rightarrow> Recorder \<times> file_system
    \<Rightarrow> (string \<times> payload) list \<times> Recorder \<times> file_system" where
  "OnGameEnd deflate order serverName rr w rf =
     (let rf = EndRoom deflate order (rID (heapR w rr)) rf
      in (game_end_payloads serverName rr (ListRoomFiles order (rID (heapR w rr)) (fst rf)) w, rf))"

text \<open>The event with which \<open>OnEnterPlaying\<close> begins.\<close>

definition start_name :: "World \<Rightarrow> int \<Rightarrow> string" where
  "start_name w i = (let name = (case map_of (Users w) i of Some u \<Rightarrow> Name (heapU w u) | None \<Rightarrow> []) in if name = [] then Itoa i else name)"

definition game_start_event :: "room_ref \<Rightarrow> World \<Rightarrow> Event" where
  "game_start_event rr w =
     (let r = heapR w rr; players = map (\<lambda>i. (i, start_name w i)) (users r);
          ev = (new_event EventGameStart)\<lparr>ev_RoomID := rID r, ev_UserCount := int (length (users r)), ev_Players := players,
                 ev_PlayerList := player_list players\<rparr>
      in case chart r of None \<Rightarrow> ev
         | Some c \<Rightarrow> ev\<lparr>ev_ChartID := c_ID c, ev_ChartName := c_Name c, ev_ChartDifficulty := c_Level c, ev_ChartCharter := c_Charter c,
                        ev_ImageURL := c_Illustration c\<rparr>)"

section \<open>Events for webhooks\<close>



section \<open>The publisher\<close>

text \<open>The mutex of the publisher may be held by a publication that waits for a place in the queue
  (\<open>pb_sender\<close>); nothing else that takes it can run then.  The goroutine \<open>run\<close> takes one event after the
  other.\<close>

record queuedEvent =
  qe_type :: string
  qe_payload :: payload
  qe_priority :: Priority
  qe_done :: "nat option"

record Publisher =
  pb_queue :: "queuedEvent list"
  pb_size :: nat
  pb_sender :: "queuedEvent option"
  pb_closed :: bool
  pb_ended :: bool

text \<open>A run records the publications that have begun, by a number each, and the answers that they got.\<close>

record PublisherRun =
  pr_pub :: Publisher
  pr_out :: OutboxRun
  pr_begun :: "nat list"
  pr_answers :: "(nat \<times> (string + Envelope)) list"

definition publisher_New :: "int \<Rightarrow> Publisher" where
  "publisher_New queueSize = \<lparr>pb_queue = [], pb_size = (if queueSize < 1 then 1024 else nat queueSize), pb_sender = None,
     pb_closed = False, pb_ended = False\<rparr>"

definition enqueue :: "queuedEvent \<Rightarrow> PublisherRun \<Rightarrow> PublisherRun" where
  "enqueue q st = st\<lparr>pr_pub := (pr_pub st)\<lparr>pb_queue := pb_queue (pr_pub st) @ [q]\<rparr>\<rparr>"

definition publisher_Emit :: "Event \<Rightarrow> PublisherRun \<Rightarrow> PublisherRun" where
  "publisher_Emit ev st =
     (case mapServerEvent ev of
        None \<Rightarrow> st
      | Some (typeName, p) \<Rightarrow>
          if pb_closed (pr_pub st) then st
          else if length (pb_queue (pr_pub st)) < pb_size (pr_pub st)
          then enqueue \<lparr>qe_type = typeName, qe_payload = p, qe_priority = PriorityNormal, qe_done = None\<rparr> st
          else st\<lparr>pr_out := (pr_out st)\<lparr>run_store := RecordDroppedNormal (run_store (pr_out st))\<rparr>\<rparr>)"

definition PublishCritical :: "nat \<Rightarrow> string \<Rightarrow> payload \<Rightarrow> PublisherRun \<Rightarrow> PublisherRun" where
  "PublishCritical i typeName p st =
     (let st = st\<lparr>pr_begun := pr_begun st @ [i]\<rparr>
      in if pb_closed (pr_pub st) then st\<lparr>pr_answers := pr_answers st @ [(i, Inl ''Agent event publisher is closed'')]\<rparr>
         else st\<lparr>pr_pub := (pr_pub st)\<lparr>pb_sender := Some \<lparr>qe_type = typeName, qe_payload = p, qe_priority = PriorityCritical, qe_done = Some i\<rparr>\<rparr>\<rparr>)"

text \<open>The waiting publication gets its place and releases the mutex.\<close>

definition publish_send :: "PublisherRun \<Rightarrow> PublisherRun" where
  "publish_send st =
     (case pb_sender (pr_pub st) of
        None \<Rightarrow> st
      | Some q \<Rightarrow> if length (pb_queue (pr_pub st)) < pb_size (pr_pub st)
          then enqueue q (st\<lparr>pr_pub := (pr_pub st)\<lparr>pb_sender := None\<rparr>\<rparr>) else st)"

definition publisher_append :: "Codec \<Rightarrow> (payload \<Rightarrow> bytes option) \<Rightarrow> string \<Rightarrow> int \<Rightarrow> write_fate \<Rightarrow> queuedEvent \<Rightarrow> PublisherRun \<Rightarrow> PublisherRun" where
  "publisher_append cd enc uuid t fate q st =
     (let r = fst (ob_Append cd (qe_type q) (enc (qe_payload q)) (qe_priority q) uuid t fate (run_store (pr_out st)) (run_disk (pr_out st)))
      in st\<lparr>pr_out := run_append cd (qe_type q) (enc (qe_payload q)) (qe_priority q) uuid t fate (pr_out st),
            pr_answers := pr_answers st @ (case qe_done q of None \<Rightarrow> [] | Some i \<Rightarrow> [(i, r)])\<rparr>)"

definition publisher_run :: "Codec \<Rightarrow> (payload \<Rightarrow> bytes option) \<Rightarrow> string \<Rightarrow> int \<Rightarrow> write_fate \<Rightarrow> PublisherRun \<Rightarrow> PublisherRun" where
  "publisher_run cd enc uuid t fate st =
     (case pb_queue (pr_pub st) of
        q # qs \<Rightarrow> publisher_append cd enc uuid t fate q (st\<lparr>pr_pub := (pr_pub st)\<lparr>pb_queue := qs\<rparr>\<rparr>)
      | [] \<Rightarrow> if pb_closed (pr_pub st) then st\<lparr>pr_pub := (pr_pub st)\<lparr>pb_ended := True\<rparr>\<rparr> else st)"

definition publisher_Close :: "PublisherRun \<Rightarrow> PublisherRun" where
  "publisher_Close st = st\<lparr>pr_pub := (pr_pub st)\<lparr>pb_closed := True\<rparr>\<rparr>"

text \<open>The agent's acknowledgements and the closing of the outbox may come in between; a restart begins with a
  new publisher and the outbox as it is found on the disk.\<close>

inductive pub_step :: "Codec \<Rightarrow> (payload \<Rightarrow> bytes option) \<Rightarrow> PublisherRun \<Rightarrow> PublisherRun \<Rightarrow> bool" for cd enc where
  emits: "pb_sender (pr_pub st) = None \<Longrightarrow> pub_step cd enc st (publisher_Emit ev st)"
| begins: "pb_sender (pr_pub st) = None \<Longrightarrow> i \<notin> set (pr_begun st) \<Longrightarrow> pub_step cd enc st (PublishCritical i typeName p st)"
| sends: "pub_step cd enc st (publish_send st)"
| runs: "\<not> pb_ended (pr_pub st) \<Longrightarrow> uuid \<noteq> [] \<Longrightarrow> ob_latest (run_store (pr_out st)) + 2 < 2 ^ 64
    \<Longrightarrow> pub_step cd enc st (publisher_run cd enc uuid t fate st)"
| closes: "pb_sender (pr_pub st) = None \<Longrightarrow> pub_step cd enc st (publisher_Close st)"
| agent: "pub_step cd enc st (st\<lparr>pr_out := run_ack cd n cf lf (pr_out st)\<rparr>)"
| log_closes: "pub_step cd enc st (st\<lparr>pr_out := (pr_out st)\<lparr>run_store := ob_Close (run_store (pr_out st))\<rparr>\<rparr>)"
| restarts: "ob_Open cd (ob_max (run_store (pr_out st))) (run_disk (pr_out st)) = Inr (s, d)
    \<Longrightarrow> ob_latest (run_store (pr_out st)) + 2 < 2 ^ 64
    \<Longrightarrow> pub_step cd enc st \<lparr>pr_pub = publisher_New queueSize, pr_out = (pr_out st)\<lparr>run_store := s, run_disk := d\<rparr>, pr_begun = [], pr_answers = []\<rparr>"

inductive pub_reach :: "Codec \<Rightarrow> (payload \<Rightarrow> bytes option) \<Rightarrow> nat \<Rightarrow> PublisherRun \<Rightarrow> bool" for cd enc maxBytes where
  start: "ob_reach cd maxBytes r \<Longrightarrow> pub_reach cd enc maxBytes \<lparr>pr_pub = publisher_New queueSize, pr_out = r, pr_begun = [], pr_answers = []\<rparr>"
| more: "pub_reach cd enc maxBytes st \<Longrightarrow> pub_step cd enc st st' \<Longrightarrow> pub_reach cd enc maxBytes st'"

section \<open>Every publication is answered\<close>

definition waiting :: "Publisher \<Rightarrow> nat list" where
  "waiting p = List.map_filter qe_done (pb_queue p @ (case pb_sender p of None \<Rightarrow> [] | Some q \<Rightarrow> [q]))"

definition pub_inv :: "PublisherRun \<Rightarrow> bool" where
  "pub_inv st \<longleftrightarrow> distinct (map fst (pr_answers st) @ waiting (pr_pub st))
     \<and> set (pr_begun st) = set (map fst (pr_answers st) @ waiting (pr_pub st))
     \<and> (pb_closed (pr_pub st) \<longrightarrow> pb_sender (pr_pub st) = None)
     \<and> (pb_ended (pr_pub st) \<longrightarrow> pb_closed (pr_pub st) \<and> pb_queue (pr_pub st) = [])
     \<and> length (pb_queue (pr_pub st)) \<le> pb_size (pr_pub st) \<and> 0 < pb_size (pr_pub st)
     \<and> (\<forall>i e. (i, Inr e) \<in> set (pr_answers st) \<longrightarrow> e \<in> set (accepted (pr_out st)))"

lemma map_filter_simps: "List.map_filter f [] = []" "List.map_filter f (x # xs) = (case f x of None \<Rightarrow> [] | Some y \<Rightarrow> [y]) @ List.map_filter f xs"
  "List.map_filter f (xs @ ys) = List.map_filter f xs @ List.map_filter f ys"
  by (auto simp: List.map_filter_def split: option.splits)

lemma pub_inv_new: "pub_inv \<lparr>pr_pub = publisher_New queueSize, pr_out = r, pr_begun = [], pr_answers = []\<rparr>"
  by (simp add: pub_inv_def publisher_New_def waiting_def map_filter_simps)

lemma pub_inv_take:
  assumes st: "pub_inv st" and q: "pb_queue (pr_pub st) = q # qs"
  shows "pub_inv (publisher_append cd enc uuid t fate q (st\<lparr>pr_pub := (pr_pub st)\<lparr>pb_queue := qs\<rparr>\<rparr>))"
proof -
  obtain res s d where step: "ob_Append cd (qe_type q) (enc (qe_payload q)) (qe_priority q) uuid t fate
      (run_store (pr_out st)) (run_disk (pr_out st)) = (res, s, d)" by (metis prod_cases3)
  have out: "accepted (run_append cd (qe_type q) (enc (qe_payload q)) (qe_priority q) uuid t fate (pr_out st))
      = accepted (pr_out st) @ (case res of Inr e \<Rightarrow> [e] | Inl _ \<Rightarrow> [])"
    using step by (simp add: run_append_def)
  show ?thesis
  proof (cases "qe_done q")
    case None
    then show ?thesis using st q step out by (auto simp: pub_inv_def publisher_append_def waiting_def map_filter_simps)
  next
    case (Some i)
    then show ?thesis using st q step out by (auto simp: pub_inv_def publisher_append_def waiting_def map_filter_simps)
  qed
qed

lemma pub_inv_step: "pub_step cd enc st st' \<Longrightarrow> pub_inv st \<Longrightarrow> pub_inv st'"
proof (induction rule: pub_step.induct)
  case (emits st ev)
  then show ?case
    by (auto simp: publisher_Emit_def pub_inv_def enqueue_def waiting_def map_filter_simps split: option.splits prod.splits)
next
  case (begins st i typeName p)
  then show ?case by (auto simp: PublishCritical_def pub_inv_def waiting_def map_filter_simps Let_def)
next
  case (sends st)
  show ?case
  proof (cases "pb_sender (pr_pub st)")
    case (Some q)
    have "waiting (pr_pub (publish_send st)) = waiting (pr_pub st)"
      using Some by (simp add: publish_send_def enqueue_def waiting_def)
    then show ?thesis using sends Some by (auto simp: publish_send_def enqueue_def pub_inv_def)
  qed (use sends in \<open>simp add: publish_send_def\<close>)
next
  case (runs st uuid t fate)
  show ?case
  proof (cases "pb_queue (pr_pub st)")
    case Nil
    then show ?thesis using runs by (auto simp: publisher_run_def pub_inv_def waiting_def)
  next
    case (Cons q qs)
    then show ?thesis using pub_inv_take [OF runs(4) Cons] by (simp add: publisher_run_def)
  qed
next
  case (closes st)
  then show ?case by (auto simp: publisher_Close_def pub_inv_def waiting_def)
next
  case (restarts st s d queueSize)
  then show ?case by (simp add: pub_inv_new)
qed (auto simp: pub_inv_def run_ack_def split: prod.splits)

lemma pub_step_out:
  assumes "pub_step cd enc st st'"
  shows "pr_out st' = pr_out st \<or> ob_step cd (pr_out st) (pr_out st')"
  using assms
proof (induction rule: pub_step.induct)
  case (emits st ev)
  then show ?case by (auto simp: publisher_Emit_def enqueue_def intro: ob_step.intros split: option.splits prod.splits)
next
  case (begins st i typeName p)
  then show ?case by (simp add: PublishCritical_def Let_def)
next
  case (sends st)
  then show ?case by (simp add: publish_send_def enqueue_def split: option.splits)
next
  case (runs st uuid t fate)
  then show ?case by (auto simp: publisher_run_def publisher_append_def Let_def intro: ob_step.append split: list.splits)
next
  case (closes st)
  then show ?case by (simp add: publisher_Close_def)
qed (auto intro: ob_step.intros)

lemma pub_reach_inv: "pub_reach cd enc maxBytes st \<Longrightarrow> pub_inv st \<and> ob_reach cd maxBytes (pr_out st)"
proof (induction rule: pub_reach.induct)
  case (start r queueSize)
  then show ?case by (simp add: pub_inv_new)
next
  case (more st st')
  then show ?case using pub_inv_step pub_step_out [OF more(2)] ob_reach.more by metis
qed

section \<open>Events that the agent converts\<close>

text \<open>What the bridge carries of an event, the rest is empty.\<close>

definition carried :: "Event \<Rightarrow> Event" where
  "carried ev =
     (let e = (new_event (ev_Type ev))\<lparr>ev_Time := ev_Time ev, ev_Server := ev_Server ev\<rparr>;
          room = e\<lparr>ev_RoomID := ev_RoomID ev\<rparr>
      in case ev_Type ev of
           EventMaintenance \<Rightarrow> e\<lparr>ev_Enabled := ev_Enabled ev, ev_Message := ev_Message ev\<rparr>
         | EventGameStart \<Rightarrow> room\<lparr>ev_ChartID := ev_ChartID ev, ev_ChartName := ev_ChartName ev, ev_UserCount := int (length (ev_Players ev)),
             ev_ChartDifficulty := ev_ChartDifficulty ev, ev_ChartCharter := ev_ChartCharter ev, ev_PlayerList := player_list (ev_Players ev),
             ev_ImageURL := ev_ImageURL ev, ev_Players := ev_Players ev\<rparr>
         | EventScoreSubmitted \<Rightarrow> room\<lparr>ev_ChartID := ev_ChartID ev, ev_ChartName := ev_ChartName ev, ev_PlayerScoreRank := ev_PlayerScoreRank ev\<rparr>
         | EventGameEnd \<Rightarrow> e
         | _ \<Rightarrow> room\<lparr>ev_UserCount := ev_UserCount ev, ev_UserID := ev_UserID ev, ev_UserName := (if ev_UserID ev = 0 then [] else ev_UserName ev)\<rparr>)"

lemmas carried_defs = carried_def new_event_def Let_def

text \<open>The events of the server come through whole; of a submitted score only the number of users is lost, which
  the hub adds and no text of a webhook shows.\<close>

lemma carried_game_start:
  "carried ((game_start_event rr w)\<lparr>ev_Time := t, ev_Server := host\<rparr>) = (game_start_event rr w)\<lparr>ev_Time := t, ev_Server := host\<rparr>"
  by (simp add: game_start_event_def carried_defs split: option.splits)

lemma carried_user_event:
  assumes "ty \<in> {EventRoomCreate, EventUserJoin, EventRoomDisband}" and "i \<noteq> 0 \<or> name = []"
  shows "carried ((new_event ty)\<lparr>ev_Time := t, ev_Server := host, ev_RoomID := r, ev_UserCount := k, ev_UserID := i, ev_UserName := name\<rparr>)
    = (new_event ty)\<lparr>ev_Time := t, ev_Server := host, ev_RoomID := r, ev_UserCount := k, ev_UserID := i, ev_UserName := name\<rparr>"
  using assms by (auto simp: carried_defs)


lemma carried_score:
  "carried ((new_event EventScoreSubmitted)\<lparr>ev_Time := t, ev_Server := host, ev_RoomID := r, ev_UserCount := k, ev_ChartID := c, ev_ChartName := n,
       ev_PlayerScoreRank := rk\<rparr>)
     = (new_event EventScoreSubmitted)\<lparr>ev_Time := t, ev_Server := host, ev_RoomID := r, ev_ChartID := c, ev_ChartName := n, ev_PlayerScoreRank := rk\<rparr>"
  by (simp add: carried_defs)


section \<open>The captured match in the statistics\<close>





section \<open>A recording of another game\<close>

text \<open>A game that is not recorded leaves the list of the last recorded game of the room name in place: its end
  publishes those recordings again and attaches them to its match.\<close>

lemma stale_recordings_published:
  assumes "map_of (keysByRoom r) (rID (heapR w rr)) = None" and "order [] = []" and "map_of (completed r) (rID (heapR w rr)) = Some files"
  shows "fst (OnGameEnd deflate order serverName rr w (r, fs)) = game_end_payloads serverName rr files w"
  using assms by (simp add: OnGameEnd_def EndRoom_def ListRoomFiles_def map_filter_simps AList.delete_conv' Let_def)

section \<open>Properties\<close>

text \<open>C23.  Every publication of the bridge gets an answer.  In every run of the publisher, with failing writes,
  acknowledgements and restarts, the outbox behind it is in a state that its own steps reach, a publication is
  answered at most once, an answer with an envelope means that the outbox accepted it, and while a
  publication has no answer the goroutine of the publisher has not ended and can go on: the queue holds an
  event, or the publication waits for a place that is free.\<close>

theorem publications_answered:
  assumes "pub_reach cd enc maxBytes st"
  shows "ob_reach cd maxBytes (pr_out st) \<and> distinct (map fst (pr_answers st)) \<and> fst ` set (pr_answers st) \<subseteq> set (pr_begun st)
    \<and> (\<forall>i e. (i, Inr e) \<in> set (pr_answers st) \<longrightarrow> e \<in> set (accepted (pr_out st)))
    \<and> (\<forall>i \<in> set (pr_begun st) - fst ` set (pr_answers st). \<not> pb_ended (pr_pub st)
        \<and> (pb_queue (pr_pub st) \<noteq> [] \<or> pb_sender (pr_pub st) \<noteq> None \<and> length (pb_queue (pr_pub st)) < pb_size (pr_pub st)))"
proof -
  have inv: "pub_inv st" and out: "ob_reach cd maxBytes (pr_out st)" using pub_reach_inv [OF assms] by auto
  have "\<not> pb_ended (pr_pub st) \<and> (pb_queue (pr_pub st) \<noteq> [] \<or> pb_sender (pr_pub st) \<noteq> None \<and> length (pb_queue (pr_pub st)) < pb_size (pr_pub st))"
    if "i \<in> set (pr_begun st) - fst ` set (pr_answers st)" for i
  proof -
    have "waiting (pr_pub st) \<noteq> []" using inv that by (auto simp: pub_inv_def)
    then have "pb_queue (pr_pub st) \<noteq> [] \<or> pb_sender (pr_pub st) \<noteq> None"
      by (auto simp: waiting_def map_filter_simps split: option.splits)
    then show ?thesis using inv by (auto simp: pub_inv_def)
  qed
  then show ?thesis using inv out by (auto simp: pub_inv_def)
qed

definition demo_published :: PublisherRun where
  "demo_published = publisher_run demo_codec (\<lambda>_. Some []) ''x'' 0 Written (publish_send
     (PublishCritical 3 ''t'' (PMaintenance \<lparr>mc_Server = [], mc_Enabled = True, mc_Message = []\<rparr>)
       \<lparr>pr_pub = publisher_New 1, pr_out = demo_open, pr_begun = [], pr_answers = []\<rparr>))"

lemma demo_published_reach: "pub_reach demo_codec (\<lambda>_. Some []) maxRecordSize demo_published"
proof -
  have "pub_reach demo_codec (\<lambda>_. Some []) maxRecordSize \<lparr>pr_pub = publisher_New 1, pr_out = demo_open, pr_begun = [], pr_answers = []\<rparr>"
    by (rule pub_reach.start [OF demo_open_reach])
  then show ?thesis unfolding demo_published_def
    by (intro pub_reach.more [OF _ pub_step.runs] pub_reach.more [OF _ pub_step.sends] pub_reach.more [OF _ pub_step.begins])
      (simp_all add: publisher_New_def PublishCritical_def publish_send_def enqueue_def demo_open_def)
qed

theorem publications_answered_witness:
  "demo_envelope 1 \<in> set (accepted (pr_out demo_published)) \<and> (3, Inr (demo_envelope 1)) \<in> set (pr_answers demo_published)"
proof -
  have "(3, Inr (demo_envelope 1)) \<in> set (pr_answers demo_published)"
    by (simp add: demo_published_def publisher_run_def publisher_append_def publish_send_def enqueue_def PublishCritical_def publisher_New_def
        demo_open_def ob_Append_def encodeRecord_def demo_codec_def next_seq_def demo_envelope_def maxRecordSize_def ob_limit_def headerSize_def Let_def)
  then show ?thesis using publications_answered [OF demo_published_reach] by blast
qed





end
