(* ===== verification/Go_Strings.thy ===== *)
theory Go_Strings
  imports Go_Strconv
begin

text \<open>
  The functions of the Go package \<open>strings\<close> that the program uses on texts from outside: \<open>TrimSpace\<close>, for
  all white space of Unicode in its UTF-8 form, and \<open>ToLower\<close>, as far as its result can be an ASCII
  text.
\<close>

text \<open>The encodings of the runes for which \<open>unicode.IsSpace\<close> holds.\<close>

definition space_texts :: "string list" where
  "space_texts = map (map char_of)
     ([[9], [10], [11], [12], [13], [32], [0xC2, 0x85], [0xC2, 0xA0], [0xE1, 0x9A, 0x80]]
      @ map (\<lambda>b. [0xE2, 0x80, b]) ([0x80 ..< 0x8B] @ [0xA8, 0xA9, 0xAF]) @ [[0xE2, 0x81, 0x9F], [0xE3, 0x80, 0x80 :: nat]])"

definition strip_one :: "string list \<Rightarrow> string \<Rightarrow> string option" where
  "strip_one ps s = map_option (\<lambda>p. drop (length p) s) (find (\<lambda>p. take (length p) s = p) ps)"

text \<open>Removing prefixes from a list of texts that are not empty.\<close>

function strip_all :: "string list \<Rightarrow> string \<Rightarrow> string" where
  "strip_all ps s = (case strip_one ps s of Some s' \<Rightarrow> if length s' < length s then strip_all ps s' else s | None \<Rightarrow> s)"
  by pat_completeness auto
termination by (relation "measure (\<lambda>(ps, s). length s)") auto

declare strip_all.simps [simp del]

definition TrimSpace :: "string \<Rightarrow> string" where
  "TrimSpace s = rev (strip_all (map rev space_texts) (rev (strip_all space_texts s)))"

text \<open>\<open>strings.ToLower\<close> for a comparison with an ASCII text: the only runes outside ASCII with a lower
  case inside it are the dotted capital I and the Kelvin sign.\<close>

fun ToLower :: "string \<Rightarrow> string" where
  "ToLower (a # b # s) =
     (if of_char a = (0xC4 :: nat) \<and> of_char b = (0xB0 :: nat) then CHR ''i'' # ToLower s
      else case s of
          c # s' \<Rightarrow> if of_char a = (0xE2 :: nat) \<and> of_char b = (0x84 :: nat) \<and> of_char c = (0xAA :: nat) then CHR ''k'' # ToLower s'
            else (if 65 \<le> (of_char a :: nat) \<and> (of_char a :: nat) \<le> 90 then char_of (of_char a + 32 :: nat) else a) # ToLower (b # s)
        | [] \<Rightarrow> (if 65 \<le> (of_char a :: nat) \<and> (of_char a :: nat) \<le> 90 then char_of (of_char a + 32 :: nat) else a) # ToLower (b # s))"
| "ToLower [a] = [if 65 \<le> (of_char a :: nat) \<and> (of_char a :: nat) \<le> 90 then char_of (of_char a + 32 :: nat) else a]"
| "ToLower [] = []"

lemma strip_one_shorter: "strip_one ps s = Some s' \<Longrightarrow> length s' \<le> length s"
  by (auto simp: strip_one_def)

lemma TrimSpace_empty [simp]: "TrimSpace [] = []"
  by (auto simp: TrimSpace_def strip_all.simps [of _ "[]"] strip_one_def split: option.splits)

text \<open>A text without a white space at its ends is its own trimming.\<close>

definition trimmed :: "string \<Rightarrow> bool" where
  "trimmed s \<longleftrightarrow> list_all (\<lambda>p. take (length p) s \<noteq> p \<and> take (length p) (rev s) \<noteq> rev p) space_texts"

lemma strip_all_none: "\<forall>p \<in> set ps. take (length p) s \<noteq> p \<Longrightarrow> strip_all ps s = s"
proof -
  assume "\<forall>p \<in> set ps. take (length p) s \<noteq> p"
  then have "find (\<lambda>p. take (length p) s = p) ps = None" by (auto simp: find_None_iff)
  then show ?thesis by (subst strip_all.simps) (simp add: strip_one_def)
qed

lemma TrimSpace_trimmed: "trimmed s \<Longrightarrow> TrimSpace s = s"
  by (simp add: TrimSpace_def trimmed_def list_all_iff strip_all_none)

end
