(* ===== verification/Agent_Ipc.thy ===== *)
theory Agent_Ipc
  imports Agent_Delivery Go_Strings Go_Strconv
begin

text \<open>
  The endpoint between the server and the agent: the service of \<open>agent/ipc/server.go\<close> with the broker of
  questions (\<open>queries.go\<close>), and the client (\<open>client.go\<close>).  A request is given by the headers and the
  decoded body, \<open>None\<close> when the body is not JSON or larger than the limit; the length of the JSON text of
  an answer is a parameter where the client limits what it reads.  Times are milliseconds.
\<close>

section \<open>Questions for the agent\<close>

record QueryRequest =
  qr_ID :: string
  qr_Method :: string
  qr_Params :: bytes

record QueryResponse =
  qa_ID :: string
  qa_StatusCode :: int
  qa_Body :: bytes

text \<open>The channel of a question holds one answer.\<close>

record queryState =
  qs_request :: QueryRequest
  qs_response :: "QueryResponse option"
  qs_claimed :: "int option"

record queryBroker =
  qb_pending :: "(string \<times> queryState) list"
  qb_order :: "string list"
  qb_max :: nat

definition newQueryBroker :: "nat \<Rightarrow> queryBroker" where
  "newQueryBroker m = \<lparr>qb_pending = [], qb_order = [], qb_max = m\<rparr>"

text \<open>\<open>submit\<close> up to the wait, with the fresh identifier; \<open>None\<close> is \<open>ErrAgentUnavailable\<close>.\<close>

definition qb_submit :: "string \<Rightarrow> string \<Rightarrow> bytes \<Rightarrow> queryBroker \<Rightarrow> string option \<times> queryBroker" where
  "qb_submit uuid meth params b =
     (if length (qb_pending b) \<ge> qb_max b then (None, b)
      else (Some uuid,
        b\<lparr>qb_pending := AList.update uuid
             \<lparr>qs_request = \<lparr>qr_ID = uuid, qr_Method = meth, qr_Params = params\<rparr>, qs_response = None, qs_claimed = None\<rparr> (qb_pending b),
          qb_order := qb_order b @ [uuid]\<rparr>))"

definition qb_remove :: "string \<Rightarrow> queryBroker \<Rightarrow> queryBroker" where
  "qb_remove i b =
     (let b = b\<lparr>qb_pending := AList.delete i (qb_pending b)\<rparr>
      in if length (qb_order b) > qb_max b * 2
         then b\<lparr>qb_order := filter (\<lambda>c. map_of (qb_pending b) c \<noteq> None) (qb_order b)\<rparr> else b)"

text \<open>The end of the wait: the answer is there, or the context is done (\<open>cancelled\<close>); when both are,
  either is taken.\<close>

definition qb_wait :: "bool \<Rightarrow> string \<Rightarrow> queryBroker \<Rightarrow> (QueryResponse option \<times> queryBroker) option" where
  "qb_wait cancelled i b =
     (if cancelled then Some (None, qb_remove i b)
      else case map_of (qb_pending b) i of
          Some q \<Rightarrow> (case qs_response q of Some r \<Rightarrow> Some (Some r, qb_remove i b) | None \<Rightarrow> None)
        | None \<Rightarrow> None)"

definition claimable :: "int \<Rightarrow> queryBroker \<Rightarrow> string \<Rightarrow> bool" where
  "claimable now b i \<longleftrightarrow> (case map_of (qb_pending b) i of
     None \<Rightarrow> False | Some q \<Rightarrow> (case qs_claimed q of None \<Rightarrow> True | Some t \<Rightarrow> now - t > 10000))"

definition qb_claim :: "int \<Rightarrow> queryBroker \<Rightarrow> QueryRequest option \<times> queryBroker" where
  "qb_claim now b =
     (case find (claimable now b) (qb_order b) of
        None \<Rightarrow> (None, b)
      | Some i \<Rightarrow> (let q = the (map_of (qb_pending b) i)
          in (Some (qs_request q), b\<lparr>qb_pending := AList.update i (q\<lparr>qs_claimed := Some now\<rparr>) (qb_pending b)\<rparr>)))"

text \<open>A second answer finds the channel full and is dropped.\<close>

definition qb_complete :: "QueryResponse \<Rightarrow> queryBroker \<Rightarrow> bool \<times> queryBroker" where
  "qb_complete r b =
     (case map_of (qb_pending b) (qa_ID r) of
        None \<Rightarrow> (False, b)
      | Some q \<Rightarrow> (True, if qs_response q = None
          then b\<lparr>qb_pending := AList.update (qa_ID r) (q\<lparr>qs_response := Some r\<rparr>) (qb_pending b)\<rparr> else b))"

section \<open>The service\<close>

definition maxRequestBody :: nat where "maxRequestBody = 65536"
definition maxEventBatch :: int where "maxEventBatch = 256"
definition consumerTTL :: int where "consumerTTL = 30000"

record Service =
  sv_token :: string
  sv_version :: string
  sv_queries :: queryBroker
  sv_consumerID :: string
  sv_agentVersion :: string
  sv_lastSeen :: int
  sv_lastDelivered :: nat

definition ipc_Start :: "string \<Rightarrow> string \<Rightarrow> string \<Rightarrow> Service" where
  "ipc_Start token random ver =
     \<lparr>sv_token = (if TrimSpace token = [] then random else TrimSpace token), sv_version = ver, sv_queries = newQueryBroker 128,
      sv_consumerID = [], sv_agentVersion = [], sv_lastSeen = 0, sv_lastDelivered = 0\<rparr>"

record HandshakeRequest =
  hs_ConsumerID :: string
  hs_AgentVersion :: string

datatype ipc_call =
    CallInfo
  | CallHealth
  | CallHandshake "HandshakeRequest option"
  | CallEvents string string
  | CallAck "nat option"
  | CallNextQuery
  | CallQueryResult "QueryResponse option"

record ipc_request =
  rq_Authorization :: string
  rq_Protocol :: string
  rq_Consumer :: string
  rq_call :: ipc_call

datatype ipc_reply =
    ReplyError nat string
  | ReplyInfo string "string list"
  | ReplyHealth int
  | ReplyHandshake string "string list" nat
  | ReplyEvents "Envelope list" nat nat
  | ReplyAck nat
  | ReplyNoContent
  | ReplyQuery QueryRequest
  | ReplyAccepted bool

type_synonym log_store = "(Outbox \<times> Disk) option"

definition touchConsumer :: "int \<Rightarrow> string \<Rightarrow> Service \<Rightarrow> Service option" where
  "touchConsumer now header s =
     (let consumer = TrimSpace header
      in if consumer = [] \<or> sv_consumerID s = [] \<or> consumer \<noteq> sv_consumerID s \<or> now - sv_lastSeen s > consumerTTL then None
         else Some (s\<lparr>sv_lastSeen := now\<rparr>))"

definition capabilities :: "log_store \<Rightarrow> string list" where
  "capabilities ob = [''handshake.v1'', ''health.v1''] @ (if ob = None then [] else [''events.v1''])"

definition handleHandshake :: "int \<Rightarrow> HandshakeRequest option \<Rightarrow> log_store \<Rightarrow> Service \<Rightarrow> ipc_reply \<times> Service" where
  "handleHandshake now body ob s =
     (case body of
        None \<Rightarrow> (ReplyError 400 ''invalid-request'', s)
      | Some r \<Rightarrow>
          if TrimSpace (hs_ConsumerID r) = [] \<or> length (hs_ConsumerID r) > 128 then (ReplyError 400 ''invalid-request'', s)
          else if sv_consumerID s \<noteq> [] \<and> sv_consumerID s \<noteq> hs_ConsumerID r \<and> now - sv_lastSeen s \<le> consumerTTL
          then (ReplyError 409 ''consumer-conflict'', s)
          else let acked = (case ob of None \<Rightarrow> 0 | Some (o', _) \<Rightarrow> AckedSequence (ob_Stats o'))
            in (ReplyHandshake (sv_version s) (capabilities ob) acked,
                s\<lparr>sv_consumerID := hs_ConsumerID r, sv_agentVersion := hs_AgentVersion r, sv_lastSeen := now, sv_lastDelivered := acked\<rparr>))"

text \<open>The parameters of the address are texts, empty when they are missing.\<close>

definition event_limit :: "string \<Rightarrow> int option" where
  "event_limit raw = (if raw = [] then Some 100 else case Atoi raw of
     None \<Rightarrow> None | Some n \<Rightarrow> if n < 1 \<or> n > maxEventBatch then None else Some n)"

definition event_after :: "string \<Rightarrow> nat option" where
  "event_after raw = (if raw = [] then Some 0 else case ParseDigits raw of
     None \<Rightarrow> None | Some n \<Rightarrow> if n < 2 ^ 64 then Some n else None)"

definition handleEvents :: "string \<Rightarrow> string \<Rightarrow> log_store \<Rightarrow> Service \<Rightarrow> ipc_reply \<times> Service" where
  "handleEvents rawAfter rawLimit ob s =
     (case event_limit rawLimit of
        None \<Rightarrow> (ReplyError 400 ''invalid-request'', s)
      | Some limit \<Rightarrow>
          (case event_after rawAfter of
             None \<Rightarrow> (ReplyError 400 ''invalid-request'', s)
           | Some after \<Rightarrow>
               (case ob of
                  None \<Rightarrow> (ReplyEvents [] 0 0, s)
                | Some (o', _) \<Rightarrow>
                    (case ob_Events after limit o' of
                       Inl _ \<Rightarrow> (ReplyError 409 ''ack-gap'', s)
                     | Inr events \<Rightarrow>
                         (ReplyEvents events (ob_acked o') (ob_latest o'),
                          s\<lparr>sv_lastDelivered := (if events \<noteq> [] then Sequence (last events) else ob_acked o')\<rparr>)))))"

definition handleAck :: "Codec \<Rightarrow> replace_fate \<times> replace_fate \<Rightarrow> nat option \<Rightarrow> log_store \<Rightarrow> Service \<Rightarrow> ipc_reply \<times> log_store" where
  "handleAck cd fates body ob s =
     (case body of
        None \<Rightarrow> (ReplyError 400 ''invalid-request'', ob)
      | Some n \<Rightarrow>
          (case ob of
             None \<Rightarrow> (if n \<noteq> 0 then ReplyError 409 ''ack-out-of-range'' else ReplyAck 0, ob)
           | Some (o', d) \<Rightarrow>
               if n > sv_lastDelivered s then (ReplyError 409 ''ack-gap'', ob)
               else (case ob_Ack cd n (fst fates) (snd fates) o' d of
                   (Some _, o', d) \<Rightarrow> (ReplyError 409 ''ack-out-of-range'', Some (o', d))
                 | (None, o', d) \<Rightarrow> (ReplyAck n, Some (o', d)))))"

definition handleNextQuery :: "int \<Rightarrow> Service \<Rightarrow> ipc_reply \<times> Service" where
  "handleNextQuery now s =
     (case qb_claim now (sv_queries s) of
        (None, q) \<Rightarrow> (ReplyNoContent, s\<lparr>sv_queries := q\<rparr>)
      | (Some r, q) \<Rightarrow> (ReplyQuery r, s\<lparr>sv_queries := q\<rparr>))"

definition handleQueryResult :: "QueryResponse option \<Rightarrow> Service \<Rightarrow> ipc_reply \<times> Service" where
  "handleQueryResult body s =
     (case body of
        None \<Rightarrow> (ReplyError 400 ''invalid-request'', s)
      | Some r \<Rightarrow>
          if qa_ID r = [] \<or> qa_StatusCode r < 100 \<or> qa_StatusCode r > 599 then (ReplyError 400 ''invalid-request'', s)
          else (case qb_complete r (sv_queries s) of (taken, q) \<Rightarrow> (ReplyAccepted taken, s\<lparr>sv_queries := q\<rparr>)))"

text \<open>The routes behind the handshake, and all routes behind the checks of \<open>middleware\<close>.\<close>

definition consumer_call :: "Codec \<Rightarrow> replace_fate \<times> replace_fate \<Rightarrow> int \<Rightarrow> ipc_call \<Rightarrow> log_store \<Rightarrow> Service
    \<Rightarrow> ipc_reply \<times> log_store \<times> Service" where
  "consumer_call cd fates now call ob s =
     (case call of
        CallEvents after limit \<Rightarrow> (case handleEvents after limit ob s of (r, s) \<Rightarrow> (r, ob, s))
      | CallAck body \<Rightarrow> (case handleAck cd fates body ob s of (r, ob) \<Rightarrow> (r, ob, s))
      | CallNextQuery \<Rightarrow> (case handleNextQuery now s of (r, s) \<Rightarrow> (r, ob, s))
      | CallQueryResult body \<Rightarrow> (case handleQueryResult body s of (r, s) \<Rightarrow> (r, ob, s))
      | _ \<Rightarrow> (ReplyHealth now, ob, s))"

definition TrimBearer :: "string \<Rightarrow> string" where
  "TrimBearer h = (if take 7 h = ''Bearer '' then drop 7 h else h)"

definition ipc_serve :: "Codec \<Rightarrow> replace_fate \<times> replace_fate \<Rightarrow> int \<Rightarrow> ipc_request \<Rightarrow> log_store \<Rightarrow> Service
    \<Rightarrow> ipc_reply \<times> log_store \<times> Service" where
  "ipc_serve cd fates now r ob s =
     (if TrimBearer (rq_Authorization r) \<noteq> sv_token s then (ReplyError 401 ''unauthorized'', ob, s)
      else if Atoi (rq_Protocol r) \<noteq> Some ProtocolVersion then (ReplyError 409 ''protocol-incompatible'', ob, s)
      else case rq_call r of
          CallInfo \<Rightarrow> (ReplyInfo (sv_version s) (capabilities ob), ob, s)
        | CallHandshake body \<Rightarrow> (case handleHandshake now body ob s of (reply, s) \<Rightarrow> (reply, ob, s))
        | call \<Rightarrow>
            (case touchConsumer now (rq_Consumer r) s of
               None \<Rightarrow> (ReplyError 409 ''consumer-conflict'', ob, s)
             | Some s \<Rightarrow> consumer_call cd fates now call ob s))"

definition Online :: "int \<Rightarrow> Service \<Rightarrow> bool" where
  "Online now s \<longleftrightarrow> sv_consumerID s \<noteq> [] \<and> now - sv_lastSeen s \<le> consumerTTL"

definition ipc_Query :: "int \<Rightarrow> string \<Rightarrow> string \<Rightarrow> bytes \<Rightarrow> Service \<Rightarrow> string option \<times> Service" where
  "ipc_Query now uuid meth params s =
     (if \<not> Online now s then (None, s)
      else case qb_submit uuid meth params (sv_queries s) of (r, q) \<Rightarrow> (r, s\<lparr>sv_queries := q\<rparr>))"

section \<open>The client\<close>

record Client =
  cl_token :: string
  cl_consumerID :: string

definition NewClient :: "string \<Rightarrow> string \<Rightarrow> Client option" where
  "NewClient token consumerID =
     (if TrimSpace token = [] \<or> TrimSpace consumerID = [] then None
      else Some \<lparr>cl_token = token, cl_consumerID = consumerID\<rparr>)"

text \<open>The request that \<open>doStatus\<close> makes of a call; the HTTP library cuts off white space around the headers,
  which here only concerns the identifier and is repeated by the server.\<close>

definition doStatus :: "ipc_call \<Rightarrow> Client \<Rightarrow> ipc_request" where
  "doStatus call c = \<lparr>rq_Authorization = ''Bearer '' @ cl_token c, rq_Protocol = Itoa ProtocolVersion,
     rq_Consumer = cl_consumerID c, rq_call = call\<rparr>"


text \<open>The client reads at most \<open>maxRequestBody\<close> bytes of an answer, so the decoder fails at the end of a
  longer one.\<close>

definition client_Events :: "(Envelope list \<Rightarrow> nat \<Rightarrow> nat \<Rightarrow> nat) \<Rightarrow> ipc_reply \<Rightarrow> string + Envelope list \<times> nat \<times> nat" where
  "client_Events text_length reply =
     (case reply of
        ReplyEvents es acked latest \<Rightarrow> if text_length es acked latest > maxRequestBody then Inl ''unexpected EOF'' else Inr (es, acked, latest)
      | ReplyError _ code \<Rightarrow> Inl code
      | _ \<Rightarrow> Inl ''json'')"

section \<open>Runs of the endpoint\<close>

text \<open>A run of the server process with its outbox: requests of agents at times that do not decrease,
  events that the server appends, questions that it asks and gives up, and restarts, which begin with a
  fresh service.  It records the envelopes of all answers with events and, since the last start, who was
  served when as the consumer.  An acknowledgement counts as given when it reached the outbox.\<close>

record IpcRun =
  ir_box :: OutboxRun
  ir_service :: Service
  ir_clock :: int
  ir_shown :: "Envelope list"
  ir_served :: "(int \<times> string) list"

definition served_as :: "ipc_request \<Rightarrow> ipc_reply \<Rightarrow> string option" where
  "served_as rq reply =
     (case reply of
        ReplyHandshake _ _ _ \<Rightarrow> (case rq_call rq of CallHandshake (Some h) \<Rightarrow> Some (hs_ConsumerID h) | _ \<Rightarrow> None)
      | ReplyHealth _ \<Rightarrow> Some (TrimSpace (rq_Consumer rq))
      | ReplyEvents _ _ _ \<Rightarrow> Some (TrimSpace (rq_Consumer rq))
      | ReplyAck _ \<Rightarrow> Some (TrimSpace (rq_Consumer rq))
      | ReplyNoContent \<Rightarrow> Some (TrimSpace (rq_Consumer rq))
      | ReplyQuery _ \<Rightarrow> Some (TrimSpace (rq_Consumer rq))
      | ReplyAccepted _ \<Rightarrow> Some (TrimSpace (rq_Consumer rq))
      | _ \<Rightarrow> None)"

definition events_of_reply :: "ipc_reply \<Rightarrow> Envelope list" where
  "events_of_reply reply = (case reply of ReplyEvents es _ _ \<Rightarrow> es | _ \<Rightarrow> [])"

definition ack_given :: "ipc_request \<Rightarrow> ipc_reply \<Rightarrow> nat option" where
  "ack_given rq reply =
     (case rq_call rq of
        CallAck (Some n) \<Rightarrow> if reply = ReplyAck n \<or> reply = ReplyError 409 ''ack-out-of-range'' then Some n else None
      | _ \<Rightarrow> None)"

definition serve_run :: "Codec \<Rightarrow> replace_fate \<times> replace_fate \<Rightarrow> int \<Rightarrow> ipc_request \<Rightarrow> IpcRun \<Rightarrow> ipc_reply \<times> IpcRun" where
  "serve_run cd fates now rq st =
     (let b = ir_box st
      in case ipc_serve cd fates now rq (Some (run_store b, run_disk b)) (ir_service st) of
          (reply, ob, s) \<Rightarrow>
            (reply,
             \<lparr>ir_box = b\<lparr>run_store := fst (the ob), run_disk := snd (the ob),
                confirmed := (case ack_given rq reply of
                    Some n \<Rightarrow> if n \<le> ob_latest (run_store b) then max n (confirmed b) else confirmed b
                  | None \<Rightarrow> confirmed b)\<rparr>,
              ir_service = s, ir_clock = now, ir_shown = ir_shown st @ events_of_reply reply,
              ir_served = ir_served st @ (case served_as rq reply of Some c \<Rightarrow> [(now, c)] | None \<Rightarrow> [])\<rparr>))"

inductive ipc_step :: "Codec \<Rightarrow> IpcRun \<Rightarrow> IpcRun \<Rightarrow> bool" for cd where
  request: "ir_clock st \<le> now \<Longrightarrow> ipc_step cd st (snd (serve_run cd fates now rq st))"
| append: "uuid \<noteq> [] \<Longrightarrow> ob_latest (run_store (ir_box st)) + 2 < 2 ^ 64
    \<Longrightarrow> ipc_step cd st (st\<lparr>ir_box := run_append cd ty payload prio uuid t fate (ir_box st)\<rparr>)"
| drops: "ipc_step cd st (st\<lparr>ir_box := (ir_box st)\<lparr>run_store := RecordDroppedNormal (run_store (ir_box st))\<rparr>\<rparr>)"
| closes: "ipc_step cd st (st\<lparr>ir_box := (ir_box st)\<lparr>run_store := ob_Close (run_store (ir_box st))\<rparr>\<rparr>)"
| ask: "uuid \<notin> set (qb_order (sv_queries (ir_service st)))
    \<Longrightarrow> ipc_step cd st (st\<lparr>ir_service := snd (ipc_Query now uuid meth params (ir_service st))\<rparr>)"
| waited: "qb_wait cancelled i (sv_queries (ir_service st)) = Some (r, q)
    \<Longrightarrow> ipc_step cd st (st\<lparr>ir_service := (ir_service st)\<lparr>sv_queries := q\<rparr>\<rparr>)"
| restart: "ob_Open cd (ob_max (run_store (ir_box st))) (run_disk (ir_box st)) = Inr (s, d)
    \<Longrightarrow> ob_latest (run_store (ir_box st)) + 2 < 2 ^ 64
    \<Longrightarrow> ipc_step cd st (st\<lparr>ir_box := (ir_box st)\<lparr>run_store := s, run_disk := d\<rparr>,
          ir_service := ipc_Start token random version, ir_served := []\<rparr>)"

inductive ipc_reach :: "Codec \<Rightarrow> nat \<Rightarrow> IpcRun \<Rightarrow> bool" for cd maxBytes where
  start: "ob_Open cd maxBytes \<lparr>log_file = [], checkpoint_file = None\<rparr> = Inr (s, d)
    \<Longrightarrow> ipc_reach cd maxBytes \<lparr>ir_box = \<lparr>run_store = s, run_disk = d, accepted = [], confirmed = 0\<rparr>,
          ir_service = ipc_Start token random version, ir_clock = 0, ir_shown = [], ir_served = []\<rparr>"
| more: "ipc_reach cd maxBytes st \<Longrightarrow> ipc_step cd st st' \<Longrightarrow> ipc_reach cd maxBytes st'"

section \<open>What a request does\<close>

text \<open>Every answer, with the changes that come with it.\<close>

lemma touchConsumer_Some:
  "touchConsumer now h s = Some s' \<longleftrightarrow> TrimSpace h = sv_consumerID s \<and> sv_consumerID s \<noteq> []
     \<and> now - sv_lastSeen s \<le> consumerTTL \<and> s' = s\<lparr>sv_lastSeen := now\<rparr>"
  by (auto simp: touchConsumer_def Let_def)

lemmas handler_defs = handleEvents_def handleAck_def handleNextQuery_def handleQueryResult_def consumer_call_def

lemma handleHandshake_cases:
  assumes "handleHandshake now body (Some (o1, d1)) s = (reply, s')"
  obtains (refused) c where "s' = s" "reply = ReplyError c ''invalid-request'' \<or> reply = ReplyError c ''consumer-conflict''"
  | (taken) h where "body = Some h" "reply = ReplyHandshake (sv_version s) (capabilities (Some (o1, d1))) (ob_acked o1)"
      "TrimSpace (hs_ConsumerID h) \<noteq> []"
      "sv_consumerID s = [] \<or> sv_consumerID s = hs_ConsumerID h \<or> now - sv_lastSeen s > consumerTTL"
      "s' = s\<lparr>sv_consumerID := hs_ConsumerID h, sv_agentVersion := hs_AgentVersion h, sv_lastSeen := now, sv_lastDelivered := ob_acked o1\<rparr>"
proof (cases body)
  case None
  then show ?thesis using assms that(1) by (fastforce simp: handleHandshake_def)
next
  case (Some h)
  let ?busy = "sv_consumerID s \<noteq> [] \<and> sv_consumerID s \<noteq> hs_ConsumerID h \<and> now - sv_lastSeen s \<le> consumerTTL"
  show ?thesis
  proof (cases "TrimSpace (hs_ConsumerID h) = [] \<or> length (hs_ConsumerID h) > 128 \<or> ?busy")
    case True
    then have "s' = s \<and> (reply = ReplyError 400 ''invalid-request'' \<or> reply = ReplyError 409 ''consumer-conflict'')"
      using assms Some by (auto simp: handleHandshake_def split: if_splits)
    then show ?thesis using that(1) by blast
  next
    case False
    then have "reply = ReplyHandshake (sv_version s) (capabilities (Some (o1, d1))) (ob_acked o1)
      \<and> s' = s\<lparr>sv_consumerID := hs_ConsumerID h, sv_agentVersion := hs_AgentVersion h, sv_lastSeen := now, sv_lastDelivered := ob_acked o1\<rparr>"
      using assms Some by (auto simp: handleHandshake_def ob_Stats_def Let_def)
    then show ?thesis using False Some that(2) [of h] by auto
  qed
qed

text \<open>The calls that need a handshake.\<close>

fun behind_handshake :: "ipc_call \<Rightarrow> bool" where
  "behind_handshake CallInfo = False"
| "behind_handshake (CallHandshake _) = False"
| "behind_handshake _ = True"

lemma serve_behind:
  "behind_handshake (rq_call rq) \<Longrightarrow> ipc_serve cd fates now rq ob s =
     (if TrimBearer (rq_Authorization rq) \<noteq> sv_token s then (ReplyError 401 ''unauthorized'', ob, s)
      else if Atoi (rq_Protocol rq) \<noteq> Some ProtocolVersion then (ReplyError 409 ''protocol-incompatible'', ob, s)
      else case touchConsumer now (rq_Consumer rq) s of
          None \<Rightarrow> (ReplyError 409 ''consumer-conflict'', ob, s)
        | Some s \<Rightarrow> consumer_call cd fates now (rq_call rq) ob s)"
  by (cases "rq_call rq") (simp_all add: ipc_serve_def cong: option.case_cong)

lemma ipc_serve_cases:
  assumes "ipc_serve cd fates now rq (Some (o1, d1)) s = (reply, ob, s')"
  obtains (refused) c e where "ob = Some (o1, d1)" "s' = s" "reply = ReplyError c e" "e \<noteq> ''ack-out-of-range''"
  | (info) "ob = Some (o1, d1)" "s' = s" "rq_call rq = CallInfo" "reply = ReplyInfo (sv_version s) (capabilities ob)"
  | (handshake) h where "ob = Some (o1, d1)" "rq_call rq = CallHandshake (Some h)" "TrimSpace (hs_ConsumerID h) \<noteq> []"
      "sv_consumerID s = [] \<or> sv_consumerID s = hs_ConsumerID h \<or> now - sv_lastSeen s > consumerTTL"
      "s' = s\<lparr>sv_consumerID := hs_ConsumerID h, sv_agentVersion := hs_AgentVersion h, sv_lastSeen := now, sv_lastDelivered := ob_acked o1\<rparr>"
      "reply = ReplyHandshake (sv_version s) (capabilities ob) (ob_acked o1)"
  | (consumer) s1 where "touchConsumer now (rq_Consumer rq) s = Some s1" "behind_handshake (rq_call rq)"
      "consumer_call cd fates now (rq_call rq) (Some (o1, d1)) s1 = (reply, ob, s')"
proof (cases "behind_handshake (rq_call rq)")
  case True
  then show ?thesis using assms that(1,4) by (auto simp: serve_behind split: if_splits option.splits)
next
  case False
  then show ?thesis
  proof (cases "rq_call rq")
    case CallInfo
    then show ?thesis using assms that(1,2) by (auto simp: ipc_serve_def split: if_splits)
  next
    case (CallHandshake body)
    obtain r1 s2 where h: "handleHandshake now body (Some (o1, d1)) s = (r1, s2)" by fastforce
    from h show ?thesis
    proof (cases rule: handleHandshake_cases)
      case (refused c)
      then show ?thesis using assms h CallHandshake that(1) by (auto simp: ipc_serve_def split: if_splits)
    next
      case (taken h')
      then show ?thesis using assms h CallHandshake that(1) that(3) [of h'] by (auto simp: ipc_serve_def split: if_splits)
    qed
  qed simp_all
qed


lemma handleEvents_cases:
  assumes "handleEvents after limit (Some (o1, d1)) s = (reply, s')"
  obtains (refused) c e where "s' = s" "reply = ReplyError c e" "e \<noteq> ''ack-out-of-range''"
  | (events) k where "reply = ReplyEvents (take k (ob_events o1)) (ob_acked o1) (ob_latest o1)"
      "s' = s\<lparr>sv_lastDelivered := if take k (ob_events o1) \<noteq> [] then Sequence (last (take k (ob_events o1))) else ob_acked o1\<rparr>"
proof (cases "event_limit limit")
  case None
  then show ?thesis using assms that(1) by (fastforce simp: handleEvents_def)
next
  case (Some n)
  show ?thesis
  proof (cases "event_after after")
    case None
    then show ?thesis using assms Some that(1) by (fastforce simp: handleEvents_def)
  next
    case a: (Some m)
    show ?thesis
    proof (cases "ob_Events m n o1")
      case (Inl e)
      then show ?thesis using assms Some a that(1) by (fastforce simp: handleEvents_def)
    next
      case (Inr es)
      then obtain k where "es = take k (ob_events o1)" by (auto simp: ob_Events_def split: if_splits)
      then show ?thesis using assms Some a Inr that(2) [of k] by (simp add: handleEvents_def)
    qed
  qed
qed

definition no_ack :: "ipc_reply \<Rightarrow> bool" where
  "no_ack r \<longleftrightarrow> (\<forall>n. r \<noteq> ReplyAck n) \<and> (\<forall>c. r \<noteq> ReplyError c ''ack-out-of-range'')"

lemma handleNextQuery_queries:
  "\<exists>r q. handleNextQuery now s = (r, s\<lparr>sv_queries := q\<rparr>) \<and> events_of_reply r = [] \<and> no_ack r
     \<and> q = snd (qb_claim now (sv_queries s))"
  by (cases "qb_claim now (sv_queries s)") (auto simp: handleNextQuery_def events_of_reply_def no_ack_def split: option.splits)

lemma handleQueryResult_queries:
  "\<exists>r q. handleQueryResult body s = (r, s\<lparr>sv_queries := q\<rparr>) \<and> events_of_reply r = [] \<and> no_ack r
     \<and> (q = sv_queries s \<or> (\<exists>r. q = snd (qb_complete r (sv_queries s))))"
proof (cases "\<exists>r. body = Some r \<and> \<not> (qa_ID r = [] \<or> qa_StatusCode r < 100 \<or> qa_StatusCode r > 599)")
  case True
  then obtain r where "body = Some r" "\<not> (qa_ID r = [] \<or> qa_StatusCode r < 100 \<or> qa_StatusCode r > 599)" by auto
  then show ?thesis
    by (cases "qb_complete r (sv_queries s)") (auto simp: handleQueryResult_def events_of_reply_def no_ack_def, metis snd_conv)
next
  case False
  then have "handleQueryResult body s = (ReplyError 400 ''invalid-request'', s\<lparr>sv_queries := sv_queries s\<rparr>)"
    by (auto simp: handleQueryResult_def split: option.splits)
  moreover have "events_of_reply (ReplyError 400 ''invalid-request'') = []" "no_ack (ReplyError 400 ''invalid-request'')"
    by (simp_all add: events_of_reply_def no_ack_def)
  ultimately show ?thesis by blast
qed

lemma consumer_call_cases:
  assumes "consumer_call cd fates now call (Some (o1, d1)) s = (reply, ob, s')"
  obtains (events) k where "ob = Some (o1, d1)" "reply = ReplyEvents (take k (ob_events o1)) (ob_acked o1) (ob_latest o1)"
      "s' = s\<lparr>sv_lastDelivered := if take k (ob_events o1) \<noteq> [] then Sequence (last (take k (ob_events o1))) else ob_acked o1\<rparr>"
  | (ack) n err o2 d2 where "call = CallAck (Some n)" "n \<le> sv_lastDelivered s" "s' = s"
      "ob_Ack cd n (fst fates) (snd fates) o1 d1 = (err, o2, d2)" "ob = Some (o2, d2)"
      "reply = (if err = None then ReplyAck n else ReplyError 409 ''ack-out-of-range'')"
  | (queries) q where "ob = Some (o1, d1)" "s' = s\<lparr>sv_queries := q\<rparr>" "events_of_reply reply = []"
      "q = sv_queries s \<or> q = snd (qb_claim now (sv_queries s)) \<or> (\<exists>r. q = snd (qb_complete r (sv_queries s)))"
      "no_ack reply"
proof (cases call)
  case (CallEvents after limit)
  obtain r1 s2 where h: "handleEvents after limit (Some (o1, d1)) s = (r1, s2)" by fastforce
  from h show ?thesis
  proof (cases rule: handleEvents_cases)
    case (refused c e)
    then show ?thesis using assms h CallEvents that(3) [of "sv_queries s"] by (auto simp: consumer_call_def events_of_reply_def no_ack_def)
  next
    case (events k)
    then show ?thesis using assms h CallEvents that(1) [of k] by (auto simp: consumer_call_def)
  qed
next
  case (CallAck body)
  show ?thesis
  proof (cases body)
    case None
    then show ?thesis using assms CallAck that(3) [of "sv_queries s"] by (auto simp: consumer_call_def handleAck_def events_of_reply_def no_ack_def)
  next
    case (Some n)
    obtain err o2 d2 where a: "ob_Ack cd n (fst fates) (snd fates) o1 d1 = (err, o2, d2)" by (metis prod_cases3)
    show ?thesis
    proof (cases "n \<le> sv_lastDelivered s")
      case True
      then have "s' = s \<and> ob = Some (o2, d2) \<and> reply = (if err = None then ReplyAck n else ReplyError 409 ''ack-out-of-range'')"
        using assms CallAck Some a by (cases err) (simp_all add: consumer_call_def handleAck_def)
      then show ?thesis using CallAck Some a True that(2) by blast
    next
      case False
      then show ?thesis using assms CallAck Some that(3) [of "sv_queries s"]
        by (fastforce simp: consumer_call_def handleAck_def events_of_reply_def no_ack_def)
    qed
  qed
next
  case CallNextQuery
  obtain r q where h: "handleNextQuery now s = (r, s\<lparr>sv_queries := q\<rparr>)" "events_of_reply r = []" "no_ack r"
    "q = snd (qb_claim now (sv_queries s))" using handleNextQuery_queries by blast
  then show ?thesis using assms CallNextQuery that(3) [of q] by (simp add: consumer_call_def)
next
  case (CallQueryResult body)
  obtain r q where h: "handleQueryResult body s = (r, s\<lparr>sv_queries := q\<rparr>)" "events_of_reply r = []" "no_ack r"
    "q = sv_queries s \<or> (\<exists>r. q = snd (qb_complete r (sv_queries s)))" using handleQueryResult_queries by blast
  then have "ob = Some (o1, d1) \<and> s' = s\<lparr>sv_queries := q\<rparr> \<and> reply = r"
    using assms CallQueryResult by (simp add: consumer_call_def)
  then show ?thesis using h that(3) [of q] by blast
qed (use assms that(3) [of "sv_queries s"] in \<open>auto simp: consumer_call_def events_of_reply_def no_ack_def\<close>)

section \<open>The outbox behind the endpoint\<close>

lemma no_ack_given: "no_ack reply \<Longrightarrow> ack_given rq reply = None"
  by (auto simp: ack_given_def no_ack_def split: ipc_call.splits option.splits)

lemma box_same: "(b::OutboxRun)\<lparr>run_store := run_store b, run_disk := run_disk b, confirmed := confirmed b\<rparr> = b"
  by simp

lemma serve_run_cases:
  assumes "serve_run cd fates now rq st = (reply, st')"
  obtains (quiet) "ir_box st' = ir_box st" "ir_shown st' = ir_shown st"
      "sv_lastDelivered (ir_service st') = sv_lastDelivered (ir_service st)"
  | (handshake) "ir_box st' = ir_box st" "ir_shown st' = ir_shown st"
      "sv_lastDelivered (ir_service st') = ob_acked (run_store (ir_box st))"
  | (events) k where "ir_box st' = ir_box st" "ir_shown st' = ir_shown st @ take k (ob_events (run_store (ir_box st)))"
      "sv_lastDelivered (ir_service st') = (if take k (ob_events (run_store (ir_box st))) \<noteq> []
         then Sequence (last (take k (ob_events (run_store (ir_box st))))) else ob_acked (run_store (ir_box st)))"
  | (ack) n where "ir_box st' = run_ack cd n (fst fates) (snd fates) (ir_box st)" "n \<le> sv_lastDelivered (ir_service st)"
      "ir_shown st' = ir_shown st" "sv_lastDelivered (ir_service st') = sv_lastDelivered (ir_service st)"
proof -
  let ?b = "ir_box st"
  obtain r ob s where serve: "ipc_serve cd fates now rq (Some (run_store ?b, run_disk ?b)) (ir_service st) = (r, ob, s)"
    by (metis prod_cases3)
  have st': "st' = \<lparr>ir_box = ?b\<lparr>run_store := fst (the ob), run_disk := snd (the ob),
        confirmed := (case ack_given rq reply of
            Some n \<Rightarrow> if n \<le> ob_latest (run_store ?b) then max n (confirmed ?b) else confirmed ?b
          | None \<Rightarrow> confirmed ?b)\<rparr>,
      ir_service = s, ir_clock = now, ir_shown = ir_shown st @ events_of_reply reply,
      ir_served = ir_served st @ (case served_as rq reply of Some c \<Rightarrow> [(now, c)] | None \<Rightarrow> [])\<rparr>" and r: "r = reply"
    using assms serve by (auto simp: serve_run_def Let_def)
  from serve show ?thesis
  proof (cases rule: ipc_serve_cases)
    case (refused c e)
    then have "ack_given rq reply = None" using r by (auto simp: no_ack_def intro!: no_ack_given)
    then show ?thesis using refused r st' that(1) by (simp add: events_of_reply_def)
  next
    case info
    then have "ack_given rq reply = None" using r by (auto simp: no_ack_def intro!: no_ack_given)
    then show ?thesis using info r st' that(1) by (simp add: events_of_reply_def)
  next
    case (handshake h)
    then have "ack_given rq reply = None" using r by (auto simp: no_ack_def intro!: no_ack_given)
    then show ?thesis using handshake r st' that(2) by (simp add: events_of_reply_def)
  next
    case (consumer s1)
    have same: "sv_lastDelivered s1 = sv_lastDelivered (ir_service st)" using consumer(1) by (simp add: touchConsumer_Some)
    from consumer(3) show ?thesis
    proof (cases rule: consumer_call_cases)
      case (events k)
      then have "ack_given rq reply = None" using r by (auto simp: no_ack_def intro!: no_ack_given)
      then show ?thesis using events r st' that(3) [of k] by (simp add: events_of_reply_def)
    next
      case (ack n err o2 d2)
      then have "ack_given rq reply = Some n" "events_of_reply reply = []" using r by (auto simp: ack_given_def events_of_reply_def)
      then show ?thesis using ack same st' that(4) [of n] by (simp add: run_ack_def)
    next
      case (queries q)
      then show ?thesis using same r st' that(1) no_ack_given [of reply rq] by simp
    qed
  qed
qed

lemma ipc_step_box:
  assumes "ipc_step cd st st'"
  shows "ir_box st' = ir_box st \<or> ob_step cd (ir_box st) (ir_box st')"
  using assms
proof cases
  case (request now fates rq)
  obtain reply st1 where serve: "serve_run cd fates now rq st = (reply, st1)" by fastforce
  then have "st' = st1" using request by simp
  from serve show ?thesis unfolding \<open>st' = st1\<close>
    by (cases rule: serve_run_cases) (auto intro: ob_step.intros)
qed (auto intro: ob_step.intros)

lemma ipc_reach_box: "ipc_reach cd maxBytes st \<Longrightarrow> ob_reach cd maxBytes (ir_box st)"
proof (induction rule: ipc_reach.induct)
  case (start s d token random version)
  then show ?case by (auto intro: ob_reach.start)
next
  case (more st st')
  then show ?case using ipc_step_box [OF more(2)] by (auto intro: ob_reach.more)
qed

text \<open>What has left the outbox, or may leave it with an acknowledgement or a restart, was in an answer.\<close>

definition shown_inv :: "Codec \<Rightarrow> IpcRun \<Rightarrow> bool" where
  "shown_inv cd st \<longleftrightarrow> ob_inv cd (run_store (ir_box st)) (run_disk (ir_box st))
     \<and> (\<forall>e \<in> set (accepted (ir_box st)). e \<in> set (ob_events (run_store (ir_box st))) \<or> e \<in> set (ir_shown st))
     \<and> (\<forall>e \<in> set (ob_events (run_store (ir_box st))).
          Sequence e \<le> sv_lastDelivered (ir_service st) \<or> Sequence e \<le> cp_of (run_disk (ir_box st)) \<longrightarrow> e \<in> set (ir_shown st))
     \<and> sv_lastDelivered (ir_service st) \<le> ob_latest (run_store (ir_box st))"

lemma shown_inv_append:
  assumes st: "shown_inv cd st" and "uuid \<noteq> []" and room: "ob_latest (run_store (ir_box st)) + 2 < 2 ^ 64"
  shows "shown_inv cd (st\<lparr>ir_box := run_append cd ty payload prio uuid t fate (ir_box st)\<rparr>)"
proof -
  let ?b = "ir_box st"
  obtain res s d where step: "ob_Append cd ty payload prio uuid t fate (run_store ?b) (run_disk ?b) = (res, s, d)"
    by (metis prod_cases3)
  have inv: "ob_inv cd s d"
    using assms by (intro ob_inv_Append [OF _ step]) (auto simp: shown_inv_def)
  have cp: "cp_of (run_disk ?b) \<le> ob_latest (run_store ?b)" using st by (auto simp: shown_inv_def ob_inv_def)
  from step show ?thesis
  proof (cases rule: ob_Append_cases)
    case (stored e)
    then show ?thesis
      using st inv step cp room next_seq_less [of "ob_latest (run_store ?b)"]
      by (auto simp: shown_inv_def run_append_def cp_of_def)
  qed (use st inv step in \<open>auto simp: shown_inv_def run_append_def cp_of_def\<close>)
qed

lemma take_numbered_last:
  assumes "numbered cd a es" and "e \<in> set es" and "take k es \<noteq> []" and "Sequence e \<le> Sequence (last (take k es))"
  shows "e \<in> set (take k es)"
proof (rule ccontr)
  assume "e \<notin> set (take k es)"
  then have e: "e \<in> set (drop k es)" using assms(2) by (metis Un_iff append_take_drop_id set_append)
  then have k: "k \<le> length es" by (cases "k \<le> length es") auto
  have "numbered cd (a + k) (drop k es)" "numbered cd a (take k es)" using numbered_take_drop [OF assms(1) k] by auto
  then have "a + k < Sequence e" "Sequence (last (take k es)) \<le> a + length (take k es)"
    using numbered_seq e assms(3) last_in_set by metis+
  then show False using assms(4) by simp
qed

lemma shown_inv_request:
  assumes st: "shown_inv cd st" and serve: "serve_run cd fates now rq st = (reply, st')"
  shows "shown_inv cd st'"
proof -
  let ?s = "run_store (ir_box st)"
  have inv: "ob_inv cd ?s (run_disk (ir_box st))" using st by (simp add: shown_inv_def)
  note pend = ob_inv_seq [OF inv]
  from serve show ?thesis
  proof (cases rule: serve_run_cases)
    case quiet
    then show ?thesis using st by (simp add: shown_inv_def)
  next
    case handshake
    then show ?thesis using st pend ob_inv_fields(2) [OF inv] by (fastforce simp: shown_inv_def)
  next
    case (events k)
    show ?thesis
    proof (cases "take k (ob_events ?s) = []")
      case True
      then show ?thesis using st events pend ob_inv_fields(2) [OF inv] by (fastforce simp: shown_inv_def)
    next
      case False
      have "last (take k (ob_events ?s)) \<in> set (ob_events ?s)" using False by (meson in_set_takeD last_in_set)
      then have "Sequence (last (take k (ob_events ?s))) \<le> ob_latest ?s" using pend by blast
      then show ?thesis
        using st events False take_numbered_last [OF ob_inv_fields(1) [OF inv] _ False] by (auto simp: shown_inv_def)
    qed
  next
    case (ack n)
    obtain err s d where step: "ob_Ack cd n (fst fates) (snd fates) ?s (run_disk (ir_box st)) = (err, s, d)" by (metis prod_cases3)
    have inv': "ob_inv cd s d" by (rule ob_inv_Ack [OF inv step])
    have below: "\<And>e. e \<in> set (ob_events ?s) \<Longrightarrow> Sequence e \<le> n \<Longrightarrow> e \<in> set (ir_shown st)"
      using st ack(2) by (auto simp: shown_inv_def)
    have above: "\<And>e. e \<in> set (ob_events ?s) \<Longrightarrow> e \<notin> set (ir_shown st) \<Longrightarrow> n < Sequence e"
      using below by (meson not_le)
    have box: "run_store (ir_box st') = s" "run_disk (ir_box st') = d" "accepted (ir_box st') = accepted (ir_box st)"
      using ack(1) step by (simp_all add: run_ack_def)
    from inv step show ?thesis
    proof (cases rule: ob_Ack_cases)
      case nothing
      then show ?thesis using st ack box by (simp add: shown_inv_def)
    next
      case unsure
      then show ?thesis using st inv' ack box below by (auto simp: shown_inv_def cp_of_def)
    next
      case acked
      have "ob_events s = filter (\<lambda>e. Sequence e > n) (ob_events ?s)" "ob_latest s = ob_latest ?s" "cp_of d = n"
        using acked acked_to_events [OF inv acked(1)] by (simp_all add: acked_to_def cp_of_def)
      then show ?thesis using st inv' ack box above by (auto simp: shown_inv_def)
    next
      case (compacted b)
      have "ob_events s = filter (\<lambda>e. Sequence e > n) (ob_events ?s)" "ob_latest s = ob_latest ?s" "cp_of d = n"
        using compacted acked_to_events [OF inv compacted(1)] by (simp_all add: acked_to_def cp_of_def)
      then show ?thesis using st inv' ack box above by (auto simp: shown_inv_def)
    qed
  qed
qed

lemma ipc_Query_delivered: "sv_lastDelivered (snd (ipc_Query now uuid meth params s)) = sv_lastDelivered s"
  by (simp add: ipc_Query_def split: prod.splits)

lemma shown_inv_step:
  assumes "ipc_step cd st st'" and st: "shown_inv cd st" and cd: "faithful cd"
  shows "shown_inv cd st'"
  using assms(1)
proof cases
  case (request now fates rq)
  then show ?thesis using shown_inv_request [OF st] by (metis prod.collapse)
next
  case (append uuid ty payload prio t fate)
  then show ?thesis using shown_inv_append [OF st] by blast
next
  case (restart s d token random version)
  have inv: "ob_inv cd (run_store (ir_box st)) (run_disk (ir_box st))" using st by (simp add: shown_inv_def)
  obtain extra where "ob_inv cd s d" "cp_of d = cp_of (run_disk (ir_box st))"
    "ob_events s = filter (\<lambda>e. Sequence e > cp_of (run_disk (ir_box st))) (ob_events (run_store (ir_box st)) @ extra)"
    using ob_Open_recovers [OF cd inv restart(3) restart(2)] by metis
  then show ?thesis using st restart(1) by (auto simp: shown_inv_def ipc_Start_def not_less)
qed (use st in \<open>auto simp: shown_inv_def ipc_Query_delivered RecordDroppedNormal_def ob_Close_def ob_inv_counters\<close>)

lemma shown_inv_reach: "ipc_reach cd maxBytes st \<Longrightarrow> faithful cd \<Longrightarrow> shown_inv cd st"
proof (induction rule: ipc_reach.induct)
  case (start s d token random version)
  have "durable cd \<lparr>run_store = s, run_disk = d, accepted = [], confirmed = 0\<rparr>"
    using durable_reach [OF ob_reach.start [OF start(1)] start(2)] .
  moreover from this have "ob_events s = []"
    using start(1) by (auto simp: ob_Open_def recoverLog_def loadCheckpoint_def Let_def recover_loop.simps [of cd 0 _ "[]"] read_record_def split: if_splits)
  ultimately show ?case by (simp add: shown_inv_def durable_def ipc_Start_def)
next
  case (more st st')
  then show ?case using shown_inv_step by blast
qed

section \<open>One consumer at a time\<close>

definition served_inv :: "IpcRun \<Rightarrow> bool" where
  "served_inv st \<longleftrightarrow>
     sorted_wrt (\<lambda>(t, c) (t', c'). t \<le> t' \<and> (c \<noteq> c' \<longrightarrow> t' - t > consumerTTL)) (ir_served st)
     \<and> (if ir_served st = [] then sv_consumerID (ir_service st) = []
        else sv_consumerID (ir_service st) \<noteq> [] \<and> snd (last (ir_served st)) = sv_consumerID (ir_service st) \<and> fst (last (ir_served st)) \<le> sv_lastSeen (ir_service st))
     \<and> 0 \<le> ir_clock st \<and> sv_lastSeen (ir_service st) \<le> ir_clock st"

lemma sorted_snoc:
  assumes "sorted_wrt (\<lambda>(t, c) (t', c'). (t::int) \<le> t' \<and> (c \<noteq> c' \<longrightarrow> t' - t > k)) xs"
    and "xs = [] \<or> fst (last xs) \<le> now \<and> (snd (last xs) \<noteq> c \<longrightarrow> now - fst (last xs) > k)" and "0 \<le> k"
  shows "sorted_wrt (\<lambda>(t, c) (t', c'). t \<le> t' \<and> (c \<noteq> c' \<longrightarrow> t' - t > k)) (xs @ [(now, c)])"
proof (cases xs rule: rev_cases)
  case (snoc ys y)
  then show ?thesis using assms by (cases y) (force simp: sorted_wrt_append)
qed simp

lemma consumer_call_served:
  assumes "consumer_call cd fates now (rq_call rq) ob s = (reply, ob', s')" and "behind_handshake (rq_call rq)"
  shows "served_as rq reply = None \<or> served_as rq reply = Some (TrimSpace (rq_Consumer rq))"
  using assms by (cases "rq_call rq") (auto simp: served_as_def split: ipc_reply.splits)

lemma consumer_call_keeps:
  assumes "consumer_call cd fates now call (Some (o1, d1)) s = (reply, ob, s')"
  shows "sv_consumerID s' = sv_consumerID s \<and> sv_lastSeen s' = sv_lastSeen s"
  using assms by (cases rule: consumer_call_cases) auto

lemma served_inv_request:
  assumes st: "served_inv st" and serve: "serve_run cd fates now rq st = (reply, st')" and now: "ir_clock st \<le> now"
  shows "served_inv st'"
proof -
  let ?b = "ir_box st" and ?s = "ir_service st"
  obtain ob s where ipc: "ipc_serve cd fates now rq (Some (run_store ?b, run_disk ?b)) ?s = (reply, ob, s)"
    using serve by (auto simp: serve_run_def Let_def split: prod.splits)
  have st': "ir_service st' = s" "ir_clock st' = now"
    "ir_served st' = ir_served st @ (case served_as rq reply of Some c \<Rightarrow> [(now, c)] | None \<Rightarrow> [])"
    using serve ipc by (auto simp: serve_run_def Let_def)
  have sorted: "sorted_wrt (\<lambda>(t, c) (t', c'). t \<le> t' \<and> (c \<noteq> c' \<longrightarrow> t' - t > consumerTTL)) (ir_served st)"
    and last: "ir_served st \<noteq> [] \<Longrightarrow> sv_consumerID ?s \<noteq> [] \<and> snd (last (ir_served st)) = sv_consumerID ?s \<and> fst (last (ir_served st)) \<le> sv_lastSeen ?s"
    and none: "ir_served st = [] \<Longrightarrow> sv_consumerID ?s = []" and seen: "0 \<le> now" "sv_lastSeen ?s \<le> now"
    using st now by (auto simp: served_inv_def split: if_splits)
  from ipc show ?thesis
  proof (cases rule: ipc_serve_cases)
    case (refused c e)
    then show ?thesis using st st' seen by (auto simp: served_inv_def served_as_def)
  next
    case info
    then show ?thesis using st st' seen by (auto simp: served_inv_def served_as_def)
  next
    case (handshake h)
    have "hs_ConsumerID h \<noteq> []" using handshake(3) by auto
    have "sorted_wrt (\<lambda>(t, c) (t', c'). t \<le> t' \<and> (c \<noteq> c' \<longrightarrow> t' - t > consumerTTL)) (ir_served st @ [(now, hs_ConsumerID h)])"
    proof (rule sorted_snoc [OF sorted])
      show "ir_served st = [] \<or> fst (last (ir_served st)) \<le> now
        \<and> (snd (last (ir_served st)) \<noteq> hs_ConsumerID h \<longrightarrow> now - fst (last (ir_served st)) > consumerTTL)"
        using last handshake(4) seen by (cases "ir_served st = []") (auto simp: served_inv_def)
    qed (simp add: consumerTTL_def)
    moreover have "served_as rq reply = Some (hs_ConsumerID h)" using handshake by (simp add: served_as_def)
    ultimately show ?thesis using st' handshake seen \<open>hs_ConsumerID h \<noteq> []\<close> by (simp add: served_inv_def)
  next
    case (consumer s1)
    have s1: "sv_consumerID s1 = sv_consumerID ?s" "sv_lastSeen s1 = now" "TrimSpace (rq_Consumer rq) = sv_consumerID ?s" "sv_consumerID ?s \<noteq> []"
      using consumer(1) by (auto simp: touchConsumer_Some)
    have s: "sv_consumerID s = sv_consumerID ?s" "sv_lastSeen s = now" using consumer_call_keeps [OF consumer(3)] s1 by auto
    have more: "ir_served st \<noteq> []" using none s1 by auto
    from consumer_call_served [OF consumer(3,2)] show ?thesis
    proof
      assume "served_as rq reply = None"
      then show ?thesis using st' s more last sorted seen by (auto simp: served_inv_def)
    next
      assume "served_as rq reply = Some (TrimSpace (rq_Consumer rq))"
      moreover have "sorted_wrt (\<lambda>(t, c) (t', c'). t \<le> t' \<and> (c \<noteq> c' \<longrightarrow> t' - t > consumerTTL)) (ir_served st @ [(now, sv_consumerID ?s)])"
        using last more seen by (intro sorted_snoc [OF sorted]) (auto simp: consumerTTL_def)
      ultimately show ?thesis using st' s s1 seen by (simp add: served_inv_def)
    qed
  qed
qed

lemma ipc_Query_keeps:
  "sv_consumerID (snd (ipc_Query now uuid meth params s)) = sv_consumerID s"
  "sv_lastSeen (snd (ipc_Query now uuid meth params s)) = sv_lastSeen s"
  by (simp_all add: ipc_Query_def split: prod.splits)

lemma served_inv_reach: "ipc_reach cd maxBytes st \<Longrightarrow> served_inv st"
proof (induction rule: ipc_reach.induct)
  case (start s d token random version)
  then show ?case by (simp add: served_inv_def ipc_Start_def)
next
  case (more st st')
  from more(2) show ?case
  proof cases
    case (request now fates rq)
    then show ?thesis using served_inv_request [OF more(3)] by (metis prod.collapse)
  qed (use more(3) in \<open>auto simp: served_inv_def ipc_Start_def ipc_Query_keeps\<close>)
qed

section \<open>The broker of questions\<close>

definition q_inv :: "queryBroker \<Rightarrow> bool" where
  "q_inv b \<longleftrightarrow> length (qb_pending b) \<le> qb_max b \<and> distinct (map fst (qb_pending b)) \<and> distinct (qb_order b)
     \<and> fst ` set (qb_pending b) \<subseteq> set (qb_order b) \<and> length (qb_order b) \<le> 2 * qb_max b + length (qb_pending b)
     \<and> (\<forall>(i, q) \<in> set (qb_pending b). qr_ID (qs_request q) = i \<and> (\<forall>r. qs_response q = Some r \<longrightarrow> qa_ID r = i))"

lemma update_length: "i \<in> fst ` set xs \<Longrightarrow> length (AList.update i v xs) = length xs"
  by (induction xs) auto

lemma update_entries: "distinct (map fst xs) \<Longrightarrow> (j, w) \<in> set (AList.update i v xs) \<Longrightarrow> (j = i \<and> w = v) \<or> (j \<noteq> i \<and> (j, w) \<in> set xs)"
  by (induction xs) (auto split: if_splits simp: image_iff)

lemma q_inv_update:
  assumes "q_inv b" and "map_of (qb_pending b) i = Some q" and "qs_request q' = qs_request q"
    and "\<And>r. qs_response q' = Some r \<Longrightarrow> qs_response q = Some r \<or> qa_ID r = i"
  shows "q_inv (b\<lparr>qb_pending := AList.update i q' (qb_pending b)\<rparr>)"
proof -
  have i: "(i, q) \<in> set (qb_pending b)" using assms(2) by (rule map_of_SomeD)
  have dist: "distinct (map fst (qb_pending b))" using assms(1) by (simp add: q_inv_def)
  have entries: "qr_ID (qs_request w) = j \<and> (\<forall>r. qs_response w = Some r \<longrightarrow> qa_ID r = j)" if "(j, w) \<in> set (qb_pending b)" for j w
    using assms(1) that unfolding q_inv_def by blast
  have "i \<in> fst ` set (qb_pending b)" using image_eqI [OF _ i, of i fst] by simp
  moreover have "fst ` set (AList.update i q' (qb_pending b)) = fst ` set (qb_pending b)"
    using calculation by (simp add: AList.dom_update insert_absorb)
  moreover have "qr_ID (qs_request w) = j \<and> (\<forall>r. qs_response w = Some r \<longrightarrow> qa_ID r = j)"
    if "(j, w) \<in> set (AList.update i q' (qb_pending b))" for j w
  proof (cases "j = i")
    case True
    then have "w = q'" using update_entries [OF dist that] by simp
    then show ?thesis using entries [OF i] assms(3,4) True by auto
  next
    case False
    then show ?thesis using update_entries [OF dist that] entries by blast
  qed
  ultimately show ?thesis
    using assms(1) by (simp add: q_inv_def update_length distinct_update) blast
qed

lemma q_inv_submit:
  assumes "q_inv b" and "uuid \<notin> set (qb_order b)"
  shows "q_inv (snd (qb_submit uuid meth params b))"
proof -
  have "uuid \<notin> fst ` set (qb_pending b)" using assms by (auto simp: q_inv_def)
  then show ?thesis using assms by (auto simp: qb_submit_def q_inv_def update_new)
qed

lemma q_inv_claim: "q_inv b \<Longrightarrow> q_inv (snd (qb_claim now b))"
proof (cases "find (claimable now b) (qb_order b)")
  case (Some i)
  assume b: "q_inv b"
  have "claimable now b i" using Some by (auto simp: find_Some_iff)
  then obtain q where q: "map_of (qb_pending b) i = Some q" by (auto simp: claimable_def split: option.splits)
  show ?thesis using q_inv_update [OF b q, of "q\<lparr>qs_claimed := Some now\<rparr>"] Some q by (simp add: qb_claim_def Let_def)
qed (simp add: qb_claim_def)

lemma q_inv_complete: "q_inv b \<Longrightarrow> q_inv (snd (qb_complete r b))"
proof (cases "map_of (qb_pending b) (qa_ID r)")
  case (Some q)
  assume b: "q_inv b"
  show ?thesis using q_inv_update [OF b Some, of "q\<lparr>qs_response := Some r\<rparr>"] Some b by (simp add: qb_complete_def)
qed (simp add: qb_complete_def)

lemma q_inv_remove:
  assumes "q_inv b" shows "q_inv (qb_remove i b)"
proof -
  let ?p = "AList.delete i (qb_pending b)"
  let ?o = "filter (\<lambda>c. map_of ?p c \<noteq> None) (qb_order b)"
  have p: "length ?p \<le> length (qb_pending b)" "set ?p \<subseteq> set (qb_pending b)" "distinct (map fst ?p)"
    using assms by (auto simp: q_inv_def length_delete_le AList.delete_eq distinct_map_filter)
  then have sub: "fst ` set ?p \<subseteq> set (qb_order b)" using assms by (auto simp: q_inv_def)
  have keys: "set ?o \<subseteq> fst ` set ?p" by (auto simp: map_of_eq_None_iff)
  have "distinct ?o" using assms by (simp add: q_inv_def)
  then have "length ?o = card (set ?o)" by (simp only: distinct_card)
  also have "... \<le> card (fst ` set ?p)" using keys by (intro card_mono) auto
  also have "... \<le> length ?p" by (metis card_length length_map list.set_map)
  finally have "length ?o \<le> length ?p" .
  moreover have "fst ` set ?p \<subseteq> set ?o" using sub by (auto simp: map_of_eq_None_iff)
  moreover have "\<forall>(i, q) \<in> set ?p. qr_ID (qs_request q) = i \<and> (\<forall>r. qs_response q = Some r \<longrightarrow> qa_ID r = i)"
    using assms p(2) unfolding q_inv_def by blast
  ultimately show ?thesis using assms p(1,3) sub unfolding qb_remove_def q_inv_def Let_def by simp
qed

lemma q_inv_wait: "q_inv b \<Longrightarrow> qb_wait cancelled i b = Some (r, q) \<Longrightarrow> q_inv q"
  by (auto simp: qb_wait_def q_inv_remove split: if_splits option.splits)

lemma max_of_queries:
  "qb_max (snd (qb_submit uuid meth params b)) = qb_max b" "qb_max (snd (qb_claim now b)) = qb_max b"
  "qb_max (snd (qb_complete r b)) = qb_max b" "qb_max (qb_remove i b) = qb_max b"
  by (simp_all add: qb_submit_def qb_claim_def qb_complete_def qb_remove_def Let_def split: option.splits)

lemma max_of_wait: "qb_wait cancelled i b = Some (r, q) \<Longrightarrow> qb_max q = qb_max b"
  by (auto simp: qb_wait_def max_of_queries split: if_splits option.splits)

definition broker_ok :: "IpcRun \<Rightarrow> bool" where
  "broker_ok st \<longleftrightarrow> q_inv (sv_queries (ir_service st)) \<and> qb_max (sv_queries (ir_service st)) = 128"

lemma broker_ok_request:
  assumes st: "broker_ok st" and serve: "serve_run cd fates now rq st = (reply, st')"
  shows "broker_ok st'"
proof -
  let ?b = "ir_box st" and ?s = "ir_service st"
  obtain ob s where ipc: "ipc_serve cd fates now rq (Some (run_store ?b, run_disk ?b)) ?s = (reply, ob, s)"
    using serve by (auto simp: serve_run_def Let_def split: prod.splits)
  have st': "ir_service st' = s" using serve ipc by (auto simp: serve_run_def Let_def)
  from ipc show ?thesis
  proof (cases rule: ipc_serve_cases)
    case (consumer s1)
    have s1: "sv_queries s1 = sv_queries ?s" using consumer(1) by (auto simp: touchConsumer_Some)
    from consumer(3) show ?thesis
      by (cases rule: consumer_call_cases)
        (use st st' s1 in \<open>auto simp: broker_ok_def q_inv_claim q_inv_complete max_of_queries\<close>)
  qed (use st st' in \<open>auto simp: broker_ok_def\<close>)
qed

lemma broker_ok_reach: "ipc_reach cd maxBytes st \<Longrightarrow> broker_ok st"
proof (induction rule: ipc_reach.induct)
  case (start s d token random version)
  then show ?case by (simp add: broker_ok_def ipc_Start_def newQueryBroker_def q_inv_def)
next
  case (more st st')
  from more(2) show ?case
  proof cases
    case (request now fates rq)
    then show ?thesis using broker_ok_request [OF more(3)] by (metis prod.collapse)
  next
    case (ask uuid now meth params)
    then show ?thesis using more(3) q_inv_submit [of "sv_queries (ir_service st)" uuid meth params]
        max_of_queries(1) [of uuid meth params "sv_queries (ir_service st)"]
      by (cases "qb_submit uuid meth params (sv_queries (ir_service st))") (auto simp: broker_ok_def ipc_Query_def)
  next
    case (waited cancelled i r q)
    then show ?thesis using more(3) by (auto simp: broker_ok_def q_inv_wait max_of_wait)
  next
    case (restart s d token random version)
    then show ?thesis by (simp add: broker_ok_def ipc_Start_def newQueryBroker_def q_inv_def)
  qed (use more(3) in \<open>auto simp: broker_ok_def\<close>)
qed

section \<open>A concrete run\<close>

text \<open>The server stores one event, an agent shakes hands, asks for the events, and acknowledges.\<close>

definition demo_call :: "ipc_call \<Rightarrow> ipc_request" where
  "demo_call c = doStatus c \<lparr>cl_token = ''k'', cl_consumerID = ''a''\<rparr>"

definition demo_endpoint :: IpcRun where
  "demo_endpoint = \<lparr>ir_box = demo_open, ir_service = ipc_Start ''k'' [] ''1.0'', ir_clock = 0, ir_shown = [], ir_served = []\<rparr>"

definition demo_ask :: "int \<Rightarrow> ipc_call \<Rightarrow> IpcRun \<Rightarrow> IpcRun" where
  "demo_ask now c st = snd (serve_run demo_codec (Replaced, Replaced) now (demo_call c) st)"

definition demo_greeted :: IpcRun where
  "demo_greeted = demo_ask 5 (CallHandshake (Some \<lparr>hs_ConsumerID = ''a'', hs_AgentVersion = ''1''\<rparr>)) (demo_endpoint\<lparr>ir_box := demo_stored\<rparr>)"

definition demo_asked :: IpcRun where
  "demo_asked = demo_greeted\<lparr>ir_service := snd (ipc_Query 6 ''u'' ''stats'' [] (ir_service demo_greeted))\<rparr>"

definition demo_seen :: IpcRun where "demo_seen = demo_ask 7 (CallEvents [] []) demo_asked"
definition demo_acked :: IpcRun where "demo_acked = demo_ask 8 (CallAck (Some 1)) demo_seen"

lemma demo_endpoint_reach: "ipc_reach demo_codec maxRecordSize (demo_endpoint\<lparr>ir_box := demo_stored\<rparr>)"
proof -
  have "recover_loop demo_codec 0 st [] = (False, st)" for st by (subst recover_loop.simps) (simp add: read_record_def)
  then have "ipc_reach demo_codec maxRecordSize demo_endpoint" unfolding demo_endpoint_def demo_open_def
    by (intro ipc_reach.start) (simp add: ob_Open_def recoverLog_def loadCheckpoint_def Let_def)
  moreover have "ipc_step demo_codec demo_endpoint (demo_endpoint\<lparr>ir_box := run_append demo_codec ''t'' (Some []) PriorityNormal ''x'' 0 Written (ir_box demo_endpoint)\<rparr>)"
    by (rule ipc_step.append) (simp_all add: demo_endpoint_def demo_open_def)
  ultimately show ?thesis by (auto simp: demo_endpoint_def demo_stored_def intro: ipc_reach.more)
qed

lemma trim_one: "TrimSpace ''a'' = ''a''" "TrimSpace ''k'' = ''k''"
  by code_simp+

lemma demo_greeted_state:
  "demo_greeted = \<lparr>ir_box = demo_stored,
     ir_service = (ipc_Start ''k'' [] ''1.0'')\<lparr>sv_consumerID := ''a'', sv_agentVersion := ''1'', sv_lastSeen := 5\<rparr>,
     ir_clock = 5, ir_shown = [], ir_served = [(5, ''a'')]\<rparr>"
  by (simp add: demo_greeted_def demo_ask_def demo_endpoint_def serve_run_def ipc_serve_def demo_call_def doStatus_def ipc_Start_def trim_one
      TrimBearer_def Atoi_Itoa in_int64_def ProtocolVersion_def handleHandshake_def demo_stored_state ob_Stats_def
      ack_given_def events_of_reply_def served_as_def Let_def)

lemma demo_asked_state:
  "demo_asked = demo_greeted\<lparr>ir_service := (ir_service demo_greeted)\<lparr>sv_queries := \<lparr>qb_pending =
     [(''u'', \<lparr>qs_request = \<lparr>qr_ID = ''u'', qr_Method = ''stats'', qr_Params = []\<rparr>, qs_response = None, qs_claimed = None\<rparr>)],
     qb_order = [''u''], qb_max = 128\<rparr>\<rparr>\<rparr>"
  by (simp add: demo_asked_def demo_greeted_state ipc_Query_def Online_def consumerTTL_def qb_submit_def ipc_Start_def newQueryBroker_def)

lemma demo_seen_state:
  "demo_seen = demo_asked\<lparr>ir_service := (ir_service demo_asked)\<lparr>sv_lastSeen := 7, sv_lastDelivered := 1\<rparr>,
     ir_clock := 7, ir_shown := [demo_envelope 1], ir_served := [(5, ''a''), (7, ''a'')]\<rparr>"
  by (simp add: demo_seen_def demo_asked_state demo_ask_def demo_greeted_state serve_run_def ipc_serve_def demo_call_def doStatus_def ipc_Start_def
      trim_one TrimBearer_def Atoi_Itoa in_int64_def ProtocolVersion_def touchConsumer_def consumerTTL_def consumer_call_def
      handleEvents_def event_limit_def event_after_def ob_Events_def demo_stored_state demo_envelope_def
      ack_given_def events_of_reply_def served_as_def Let_def)

lemma demo_acked_state:
  "ir_shown demo_acked = [demo_envelope 1]" "ob_events (run_store (ir_box demo_acked)) = []"
  "accepted (ir_box demo_acked) = [demo_envelope 1]" "ir_served demo_acked = [(5, ''a''), (7, ''a''), (8, ''a'')]"
  "sv_queries (ir_service demo_acked) = sv_queries (ir_service demo_asked)"
  by (simp_all add: demo_acked_def demo_seen_state demo_asked_state demo_ask_def demo_greeted_state serve_run_def ipc_serve_def demo_call_def doStatus_def ipc_Start_def
      trim_one TrimBearer_def Atoi_Itoa in_int64_def ProtocolVersion_def touchConsumer_def consumerTTL_def consumer_call_def
      handleAck_def ob_Ack_def demo_stored_state demo_envelope_def compactLocked_def
      ack_given_def events_of_reply_def served_as_def Let_def)

lemma demo_acked_reach: "ipc_reach demo_codec maxRecordSize demo_acked"
proof -
  note asks = ipc_reach.more [OF _ ipc_step.request]
  have "ipc_reach demo_codec maxRecordSize demo_greeted" unfolding demo_greeted_def demo_ask_def
    by (rule asks [OF demo_endpoint_reach]) (simp add: demo_endpoint_def)
  then have "ipc_reach demo_codec maxRecordSize demo_asked" unfolding demo_asked_def
    by (rule ipc_reach.more, intro ipc_step.ask) (simp add: demo_greeted_state ipc_Start_def newQueryBroker_def)
  then have "ipc_reach demo_codec maxRecordSize demo_seen" unfolding demo_seen_def demo_ask_def
    by (rule asks) (simp add: demo_asked_state demo_greeted_state)
  then show ?thesis unfolding demo_acked_def demo_ask_def
    by (rule asks) (simp add: demo_seen_state)
qed

section \<open>What goes wrong\<close>

text \<open>The answer to the question for events depends on the outbox alone, so that an answer that is too long for
  the client is given again for ever: the client fails, nothing is acknowledged, and a new handshake changes
  nothing of the outbox.\<close>

lemma oversized_batch_stuck:
  assumes "text_length (take 100 (ob_events o1)) (ob_acked o1) (ob_latest o1) > maxRequestBody"
    and "handleEvents (Itoa (int (ob_acked o1))) (Itoa 100) (Some (o1, d1)) s = (reply, s')"
  shows "\<exists>err. client_Events text_length reply = Inl err"
proof -
  have "event_limit (Itoa 100) = Some 100" by (simp add: event_limit_def Atoi_Itoa in_int64_def maxEventBatch_def)
  then show ?thesis using assms
    by (auto simp: handleEvents_def ob_Events_def client_Events_def min_def split: option.splits sum.splits if_splits)
qed

text \<open>An identifier with white space at an end shakes hands and is then refused by every other route.\<close>

lemma padded_consumer_refused:
  "TrimSpace (TrimSpace h) = TrimSpace h \<Longrightarrow> TrimSpace (sv_consumerID s) \<noteq> sv_consumerID s \<Longrightarrow> touchConsumer now h s = None"
  by (metis not_None_eq touchConsumer_Some)

section \<open>Properties\<close>

text \<open>C25.  Nothing leaves the outbox unseen.  In every run of the endpoint with requests of any agents,
  failing writes and restarts of the server, the outbox is in a state that its own steps reach, and every
  event whose \<open>Append\<close> succeeded is still pending or was in an answer to a consumer: an acknowledgement
  cannot remove an event that was not handed out.\<close>

theorem endpoint_loses_nothing:
  assumes "ipc_reach cd maxBytes st" and "faithful cd"
  shows "ob_reach cd maxBytes (ir_box st)
    \<and> set (accepted (ir_box st)) \<subseteq> set (ob_events (run_store (ir_box st))) \<union> set (ir_shown st)"
  using ipc_reach_box [OF assms(1)] shown_inv_reach [OF assms] by (auto simp: shown_inv_def)

theorem endpoint_loses_nothing_witness:
  "set [demo_envelope 1] \<subseteq> set [] \<union> set (ir_shown demo_acked)"
  using endpoint_loses_nothing [OF demo_acked_reach demo_faithful] by (simp add: demo_acked_state)



text \<open>C27.  One agent at a time.  The requests that were served since the start of the server to different
  consumers lie more than 30 s apart, whatever requests came between them.\<close>

theorem exclusive_consumer:
  assumes "ipc_reach cd maxBytes st"
  shows "sorted_wrt (\<lambda>(t, c) (t', c'). t \<le> t' \<and> (c = c' \<or> t' - t > 30000)) (ir_served st)"
  by (rule sorted_wrt_mono_rel [OF _ conjunct1 [OF served_inv_reach [OF assms, unfolded served_inv_def consumerTTL_def]]]) auto

theorem exclusive_consumer_witness:
  "ir_served demo_acked = [(5, ''a''), (7, ''a''), (8, ''a'')]
   \<and> sorted_wrt (\<lambda>(t, c) (t', c'). t \<le> t' \<and> (c = c' \<or> t' - t > 30000)) (ir_served demo_acked)"
  using exclusive_consumer [OF demo_acked_reach] demo_acked_state(4) by simp

text \<open>C28.  Questions stay bounded and get their own answers.  In every run at most 128 questions wait, the
  list of their order holds each of them once and at most 384 identifiers, and the answer that ends the wait
  for a question carries the identifier of that question.\<close>

theorem questions_bounded:
  assumes "ipc_reach cd maxBytes st"
  shows "length (qb_pending (sv_queries (ir_service st))) \<le> 128
    \<and> distinct (qb_order (sv_queries (ir_service st))) \<and> length (qb_order (sv_queries (ir_service st))) \<le> 384
    \<and> fst ` set (qb_pending (sv_queries (ir_service st))) \<subseteq> set (qb_order (sv_queries (ir_service st)))
    \<and> (qb_wait cancelled i (sv_queries (ir_service st)) = Some (Some r, q) \<longrightarrow> qa_ID r = i)"
proof -
  let ?b = "sv_queries (ir_service st)"
  have b: "q_inv ?b" "qb_max ?b = 128" using broker_ok_reach [OF assms] by (auto simp: broker_ok_def)
  have "qa_ID r = i" if wait: "qb_wait cancelled i ?b = Some (Some r, q)"
  proof -
    obtain s where "(i, s) \<in> set (qb_pending ?b)" "qs_response s = Some r"
      using wait by (auto simp: qb_wait_def dest: map_of_SomeD split: if_splits option.splits)
    then show ?thesis using b(1) by (auto simp: q_inv_def)
  qed
  then show ?thesis using b by (simp add: q_inv_def)
qed

theorem questions_bounded_witness:
  "length (qb_pending (sv_queries (ir_service demo_acked))) = 1
   \<and> fst ` set (qb_pending (sv_queries (ir_service demo_acked))) \<subseteq> set (qb_order (sv_queries (ir_service demo_acked)))"
  using questions_bounded [OF demo_acked_reach] demo_acked_state(5) by (simp add: demo_asked_state)

end
