(* ===== verification/Agent_Ratings.thy ===== *)
theory Agent_Ratings
  imports Agent_Stats
begin

text \<open>
  What the recorded numbers mean: the ranks of a match, the totals of a player over all matches and the
  direction in which a match moves the ratings.
\<close>

section \<open>Ranks\<close>

lemma mset_by_falling: "orders (se_order env) \<Longrightarrow> mset (by_falling env key xs) = mset xs"
proof -
  assume "orders (se_order env)"
  then have "mset (se_order env (map key xs)) = mset [0..<length xs]" by (metis orders_def length_map)
  then have "mset (by_falling env key xs) = mset (map (\<lambda>i. xs ! i) [0..<length xs])" by (simp add: by_falling_def)
  then show ?thesis by (simp add: map_nth)
qed

lemma sorted_by_falling: "orders (se_order env) \<Longrightarrow> sorted (map (\<lambda>x. - key x) (by_falling env key xs))"
proof -
  assume o: "orders (se_order env)"
  let ?is = "se_order env (map key xs)"
  have s: "sorted (map (\<lambda>i. - map key xs ! i) ?is)" using o by (simp add: orders_def)
  have "set_mset (mset ?is) = set_mset (mset [0..<length xs])" using o by (metis orders_def length_map)
  then have "map (\<lambda>x. - key x) (by_falling env key xs) = map (\<lambda>i. - map key xs ! i) ?is" by (auto simp: by_falling_def)
  with s show ?thesis by simp
qed

definition rank_in :: "RecordRow list \<Rightarrow> RecordRow \<Rightarrow> nat" where
  "rank_in rs r = 1 + length (filter (\<lambda>x. sr_Score x > sr_Score r) rs)"

definition falling :: "RecordRow list \<Rightarrow> bool" where
  "falling rs \<longleftrightarrow> sorted (map (\<lambda>r. - sr_Score r) rs)"

lemma rank_loop_ranks:
  "falling (pre @ rs) \<Longrightarrow> prev = (if pre = [] then None else Some (sr_Score (last pre), rank_in (pre @ rs) (last pre)))
    \<Longrightarrow> rank_loop (length pre) prev rs = map (\<lambda>r. \<lparr>rk_record = r, rk_rank = rank_in (pre @ rs) r\<rparr>) rs"
proof (induction rs arbitrary: pre prev)
  case (Cons r rs)
  have before: "\<forall>x \<in> set pre. sr_Score r \<le> sr_Score x \<and> sr_Score (last pre) \<le> sr_Score x"
    and behind: "\<forall>x \<in> set rs. sr_Score x \<le> sr_Score r"
  proof -
    show "\<forall>x \<in> set pre. sr_Score r \<le> sr_Score x \<and> sr_Score (last pre) \<le> sr_Score x"
      using Cons.prems(1) by (cases pre rule: rev_cases) (auto simp: falling_def sorted_append)
    show "\<forall>x \<in> set rs. sr_Score x \<le> sr_Score r" using Cons.prems(1) by (auto simp: falling_def sorted_append)
  qed
  have none: "filter (\<lambda>x. sr_Score x > sr_Score r) rs = []" using behind by (auto simp: filter_empty_conv)
  have rank: "(case prev of Some (score, k) \<Rightarrow> if sr_Score r = score then k else length pre + 1 | None \<Rightarrow> length pre + 1)
      = rank_in (pre @ r # rs) r"
  proof (cases "pre \<noteq> [] \<and> sr_Score r = sr_Score (last pre)")
    case True
    then show ?thesis using Cons.prems(2) by (simp add: rank_in_def)
  next
    case False
    have "filter (\<lambda>x. sr_Score x > sr_Score r) pre = pre"
    proof (cases "pre = []")
      case ne: False
      then have "sr_Score r < sr_Score (last pre)" using before False last_in_set [OF ne] by (metis order_le_less)
      then show ?thesis using before by (intro filter_True) fastforce
    qed simp
    then show ?thesis using False Cons.prems(2) none by (auto simp: rank_in_def)
  qed
  have "rank_loop (length (pre @ [r])) (Some (sr_Score r, rank_in (pre @ r # rs) r)) rs
      = map (\<lambda>x. \<lparr>rk_record = x, rk_rank = rank_in (pre @ r # rs) x\<rparr>) rs"
    using Cons.IH [of "pre @ [r]"] Cons.prems(1) by simp
  then show ?case using rank by (simp add: Let_def)
qed simp

definition taken :: "int list \<Rightarrow> (int \<rightharpoonup> RecordRow) \<Rightarrow> RecordRow list" where
  "taken userIDs results = List.map_filter results userIDs"

lemma rankByScore_eq:
  assumes "orders (se_order env)"
  obtains rs where "rankByScore env userIDs results = map (\<lambda>r. \<lparr>rk_record = r, rk_rank = rank_in rs r\<rparr>) rs"
    "mset rs = mset (taken userIDs results)" "falling rs"
proof -
  let ?entries = "List.map_filter (\<lambda>uid. map_option (\<lambda>rd. (uid, sr_Score rd)) (results uid)) userIDs"
  let ?order = "by_falling env (\<lambda>(_, score). of_int score) ?entries"
  let ?rs = "map (\<lambda>(uid, _). the (results uid)) ?order"
  have entry: "\<forall>(uid, score) \<in> set ?entries. results uid \<noteq> None \<and> score = sr_Score (the (results uid))"
    by (auto simp: map_filter_def)
  have same: "mset ?order = mset ?entries" by (rule mset_by_falling [OF assms])
  have "set_mset (mset ?order) = set_mset (mset ?entries)" by (simp only: same)
  then have entry': "\<forall>(uid, score) \<in> set ?order. score = sr_Score (the (results uid))" using entry by auto
  have "mset ?rs = image_mset (\<lambda>(uid, _). the (results uid)) (mset ?entries)" by (simp add: same)
  also have "\<dots> = mset (taken userIDs results)"
    by (induction userIDs) (auto simp: taken_def map_filter_def split: option.splits)
  finally have m: "mset ?rs = mset (taken userIDs results)" .
  have "map (\<lambda>r. - sr_Score r) ?rs = map (\<lambda>(_, score). - score) ?order" using entry' by auto
  moreover have "sorted (map (\<lambda>(_, score). - score) ?order)"
  proof -
    have "sorted (map (\<lambda>x. - (\<lambda>(_, score). of_int score :: rat) x) ?order)" by (rule sorted_by_falling [OF assms])
    then have "sorted (map (of_int :: int \<Rightarrow> rat) (map (\<lambda>(_, score). - score) ?order))" by (simp add: case_prod_beta' comp_def)
    then show ?thesis by (simp add: sorted_map)
  qed
  ultimately have f: "falling ?rs" unfolding falling_def by (simp only:)
  have "rankByScore env userIDs results = map (\<lambda>r. \<lparr>rk_record = r, rk_rank = rank_in ?rs r\<rparr>) ?rs"
    using rank_loop_ranks [of "[]" ?rs None] f by (simp add: rankByScore_def Let_def)
  with m f show ?thesis using that by blast
qed

section \<open>Totals of a player\<close>

definition ranking :: "StatsEnv \<Rightarrow> MatchData \<Rightarrow> rankedResult list" where
  "ranking env m = rankByScore env (md_userIDs m) (map_of (md_results m))"

definition of_player :: "int \<Rightarrow> rankedResult list \<Rightarrow> rankedResult list" where
  "of_player p rs = filter (\<lambda>rr. sr_Player (rk_record rr) = p) rs"

text \<open>\<open>row_of ps row\<close>: the row of a player sums up its results \<open>ps\<close>.\<close>

definition row_of :: "rankedResult list \<Rightarrow> PlayerRow option \<Rightarrow> bool" where
  "row_of ps row \<longleftrightarrow>
     (case row of
        None \<Rightarrow> ps = []
      | Some r \<Rightarrow> ps \<noteq> [] \<and> pl_games r = length ps \<and> pl_wins r = length (filter (\<lambda>rr. rk_rank rr = 1) ps)
          \<and> pl_total r = sum_list (map (\<lambda>rr. sr_Score (rk_record rr)) ps)
          \<and> pl_best r = Max (set (map (\<lambda>rr. sr_Score (rk_record rr)) ps)))"

definition totals :: "StatsDB \<Rightarrow> rankedResult list \<Rightarrow> bool" where
  "totals db rs \<longleftrightarrow> (\<forall>p. row_of (of_player p rs) (map_of (player_stats db) p))"

lemma Max_snoc: "ps \<noteq> [] \<Longrightarrow> Max (set (map f (ps @ [x]))) = max (Max (set (map f ps))) (f x)"
  by (simp add: max.commute)

lemma totals_upsert: "totals db rs \<Longrightarrow> totals (upsert_player now d rating rr db) (rs @ [rr])"
proof -
  assume t: "totals db rs"
  let ?uid = "sr_Player (rk_record rr)"
  have old: "row_of (of_player p rs) (map_of (player_stats db) p)" for p using t by (simp add: totals_def)
  have "row_of (of_player p (rs @ [rr])) (map_of (player_stats (upsert_player now d rating rr db)) p)" for p
  proof (cases "p = ?uid")
    case True
    then have p: "of_player p (rs @ [rr]) = of_player p rs @ [rr]" by (simp add: of_player_def)
    show ?thesis
    proof (cases "map_of (player_stats db) p")
      case None
      then show ?thesis using old [of p] True unfolding p
        by (simp add: upsert_player_def Let_def update_conv' row_of_def boolToInt_def)
    next
      case (Some r)
      note o = old [of p, unfolded Some row_of_def option.case]
      show ?thesis using o Some True Max_snoc [OF conjunct1 [OF o], of "\<lambda>rr. sr_Score (rk_record rr)" rr] unfolding p
        by (simp add: upsert_player_def Let_def update_conv' row_of_def boolToInt_def max.commute)
    qed
  next
    case False
    then have "of_player p (rs @ [rr]) = of_player p rs" by (simp add: of_player_def)
    then show ?thesis using old [of p] False by (simp add: upsert_player_def Let_def update_conv')
  qed
  then show ?thesis by (simp add: totals_def)
qed

lemma player_stats_parts:
  "player_stats (upsert_name now uid n db) = player_stats db" "player_stats (insert_result k rr db) = player_stats db"
  "player_stats (upsert_chart env now m db) = player_stats db" "player_stats (insert_match s m db) = player_stats db"
  "player_stats (claim_event i db) = player_stats db"
  by (simp_all add: upsert_name_def insert_result_def upsert_chart_def insert_match_def claim_event_def Let_def)

lemma totals_same: "player_stats db' = player_stats db \<Longrightarrow> totals db' rs = totals db rs"
  by (simp add: totals_def)

lemma totals_record_result: "totals db rs \<Longrightarrow> totals (record_result now m k old deltas rr db) (rs @ [rr])"
proof -
  assume "totals db rs"
  then have "totals (insert_result k rr db) rs" by (simp add: totals_same [OF player_stats_parts(2)])
  from totals_upsert [OF this] show ?thesis by (simp add: record_result_def Let_def totals_same [OF player_stats_parts(1)])
qed

lemma totals_fold: "totals db rs \<Longrightarrow> totals (fold (record_result now m k old deltas) rs' db) (rs @ rs')"
proof (induction rs' arbitrary: db rs)
  case (Cons r rs')
  from Cons.IH [OF totals_record_result [OF Cons.prems]] show ?case by simp
qed simp

lemma totals_record_match: "totals db rs \<Longrightarrow> totals (record_match env clock m db) (rs @ ranking env m)"
proof -
  assume "totals db rs"
  then have "totals (insert_match (snd clock) m (claim_event (md_eventID m) db)) rs"
    by (simp add: totals_same [OF player_stats_parts(4)] totals_same [OF player_stats_parts(5)])
  from totals_fold [OF this] show ?thesis
    by (simp add: record_match_def Let_def ranking_def totals_same [OF player_stats_parts(3)])
qed

lemma totals_book: "length clocks = length ms \<Longrightarrow> totals (book env clocks ms) (concat (map (ranking env) ms))"
proof (induction ms arbitrary: clocks rule: rev_induct)
  case Nil
  then show ?case by (simp add: book_def empty_db_def totals_def row_of_def of_player_def)
next
  case (snoc m ms)
  then obtain c cs where c: "clocks = cs @ [c]" "length cs = length ms" by (cases clocks rule: rev_cases) auto
  show ?case using totals_record_match [OF snoc.IH [OF c(2)]] by (simp add: c book_snoc)
qed

section \<open>The direction of a rating\<close>

definition positive_powers :: "StatsEnv \<Rightarrow> bool" where
  "positive_powers env \<longleftrightarrow> (\<forall>x. 0 \<le> se_pow10 env x)"

lemma expected_unit:
  assumes "positive_powers env"
  shows "0 \<le> expected env ra rb" "expected env ra rb \<le> 1"
proof -
  have "0 \<le> se_pow10 env x" for x using assms by (simp add: positive_powers_def)
  then have one: "1 \<le> flt (1 + se_pow10 env (flt (flt (rb - ra) / 400)))" by (intro flt_ge_1) simp
  then show "0 \<le> expected env ra rb" unfolding expected_def by (intro flt_nonneg) simp
  show "expected env ra rb \<le> 1" unfolding expected_def using one by (intro flt_le_1) (simp add: divide_le_eq_1)
qed

lemma gain_nonneg: "0 \<le> d \<Longrightarrow> e \<le> s \<Longrightarrow> 0 \<le> flt (d + flt (eloKFactor * flt (s - e)))"
  by (intro flt_nonneg add_nonneg_nonneg mult_nonneg_nonneg) (simp_all add: eloKFactor_def)

lemma gain_nonpos: "d \<le> 0 \<Longrightarrow> s \<le> e \<Longrightarrow> flt (d + flt (eloKFactor * flt (s - e))) \<le> 0"
  by (intro flt_nonpos add_nonpos_nonpos mult_nonneg_nonpos) (simp_all add: eloKFactor_def flt_nonpos)

lemma gain_nonpos0: "d \<le> 0 \<Longrightarrow> 0 \<le> e \<Longrightarrow> flt (d + flt (eloKFactor * flt (- e))) \<le> 0"
  using gain_nonpos [of d 0 e] by simp

definition player_of :: "rankedResult \<Rightarrow> int" where "player_of rr = sr_Player (rk_record rr)"

lemma elo_pair_up:
  assumes env: "positive_powers env" and d: "0 \<le> deltas p" and ne: "player_of a \<noteq> player_of b"
    and up: "player_of a = p \<Longrightarrow> rk_rank a < rk_rank b" "player_of b = p \<Longrightarrow> rk_rank b < rk_rank a"
  shows "0 \<le> elo_pair env old (a, b) deltas p"
proof -
  let ?e = "expected env (old (player_of a)) (old (player_of b))"
  have e: "0 \<le> ?e" "?e \<le> 1" using expected_unit [OF env] by auto
  have "flt (1 - ?e) \<le> 1" using e by (intro flt_le_1) simp
  then show ?thesis
    using d ne up e by (auto simp: elo_pair_def Let_def player_of_def [symmetric] intro: gain_nonneg)
qed

lemma elo_pair_down:
  assumes env: "positive_powers env" and d: "deltas p \<le> 0" and ne: "player_of a \<noteq> player_of b"
    and down: "player_of a = p \<Longrightarrow> rk_rank b < rk_rank a" "player_of b = p \<Longrightarrow> rk_rank a < rk_rank b"
  shows "elo_pair env old (a, b) deltas p \<le> 0"
proof -
  let ?e = "expected env (old (player_of a)) (old (player_of b))"
  have e: "0 \<le> ?e" "?e \<le> 1" using expected_unit [OF env] by auto
  have "0 \<le> flt (1 - ?e)" using e by (intro flt_nonneg) simp
  then show ?thesis
    using d ne down e by (auto simp: elo_pair_def Let_def player_of_def [symmetric] intro: gain_nonpos gain_nonpos0)
qed

lemma pairs_distinct: "(a, b) \<in> set (pairs rs) \<Longrightarrow> distinct (map f rs) \<Longrightarrow> a \<in> set rs \<and> b \<in> set rs \<and> f a \<noteq> f b"
  by (induction rs) (auto simp: image_iff)

lemma fold_invariant: "P s \<Longrightarrow> (\<And>x s. x \<in> set xs \<Longrightarrow> P s \<Longrightarrow> P (f x s)) \<Longrightarrow> P (fold f xs s)"
  by (induction xs arbitrary: s) simp_all

section \<open>Properties\<close>

definition demo_order :: "rat list \<Rightarrow> nat list" where
  "demo_order ks = sort_key (\<lambda>i. - ks ! i) [0..<length ks]"

definition demo_stats :: StatsEnv where
  "demo_stats = \<lparr>se_parse = (\<lambda>_. None), se_order = demo_order, se_pow10 = (\<lambda>_. 1), se_decay = (\<lambda>_ _. 1)\<rparr>"

lemma demo_orders: "orders (se_order demo_stats)" and demo_powers: "positive_powers demo_stats"
  by (simp_all add: orders_def demo_stats_def demo_order_def positive_powers_def)

definition demo_row :: "int \<Rightarrow> int \<Rightarrow> RecordRow" where
  "demo_row p score = \<lparr>sr_ID = 1, sr_Player = p, sr_Score = score, sr_Accuracy = 1, sr_Perfect = 1, sr_Good = 0, sr_Bad = 0,
     sr_Miss = 0, sr_MaxCombo = 1, sr_FullCombo = True, sr_Std = None, sr_StdScore = None\<rparr>"

text \<open>The ranking of a match lists the results of the players who have one, by falling score, and the rank of
  each is one more than the number of results with a higher score: equal scores share a rank and the
  following ranks are skipped.\<close>

theorem competition_ranks:
  assumes "orders (se_order env)"
  shows "mset (map rk_record (rankByScore env userIDs results)) = mset (List.map_filter results userIDs)
    \<and> sorted (map (\<lambda>rr. - sr_Score (rk_record rr)) (rankByScore env userIDs results))
    \<and> (\<forall>rr \<in> set (rankByScore env userIDs results).
         rk_rank rr = 1 + length (filter (\<lambda>x. sr_Score x > sr_Score (rk_record rr)) (map rk_record (rankByScore env userIDs results))))"
proof -
  obtain rs where rs: "rankByScore env userIDs results = map (\<lambda>r. \<lparr>rk_record = r, rk_rank = rank_in rs r\<rparr>) rs"
      "mset rs = mset (taken userIDs results)" "falling rs"
    using rankByScore_eq [OF assms] by blast
  have "map rk_record (rankByScore env userIDs results) = rs" by (simp add: rs(1) comp_def)
  moreover have "sorted (map (\<lambda>rr. - sr_Score (rk_record rr)) (rankByScore env userIDs results))"
    using rs(3) by (simp add: rs(1) comp_def falling_def)
  ultimately show ?thesis using rs(2) by (auto simp: rs(1) taken_def rank_in_def)
qed

theorem competition_ranks_witness:
  "mset (map rk_record (rankByScore demo_stats [1, 2] [1 \<mapsto> demo_row 1 5, 2 \<mapsto> demo_row 2 9])) = {#demo_row 1 5, demo_row 2 9#}"
  using competition_ranks [OF demo_orders, of "[1, 2]" "[1 \<mapsto> demo_row 1 5, 2 \<mapsto> demo_row 2 9]"]
  by (simp add: map_filter_def)

text \<open>C16.  After any sequence of matches the row of a player says what the matches say: the number of games is
  the number of its results, the wins are its first places, the total and the best score are the sum
  and the maximum of its scores; a player without a result has no row.\<close>

theorem career_totals:
  assumes "length clocks = length ms"
  shows "case map_of (player_stats (book env clocks ms)) p of
      None \<Rightarrow> of_player p (concat (map (ranking env) ms)) = []
    | Some r \<Rightarrow> (let ps = of_player p (concat (map (ranking env) ms)); scores = map (\<lambda>rr. sr_Score (rk_record rr)) ps
        in ps \<noteq> [] \<and> pl_games r = length ps \<and> pl_wins r = length (filter (\<lambda>rr. rk_rank rr = 1) ps)
          \<and> pl_total r = sum_list scores \<and> pl_best r = Max (set scores))"
  using totals_book [OF assms, of env]
  by (auto simp: totals_def row_of_def Let_def split: option.splits dest: spec [of _ p])

definition demo_match :: MatchData where
  "demo_match = \<lparr>md_eventID = ''e'', md_roomID = ''r'', md_chartID = 3, md_chartName = ''c'', md_userIDs = [1, 2],
     md_results = [(1, demo_row 1 9), (2, demo_row 2 5)], md_names = [1 \<mapsto> ''a''], md_duration = 90\<rparr>"

lemma demo_ranking: "of_player 1 (ranking demo_stats demo_match) = [\<lparr>rk_record = demo_row 1 9, rk_rank = 1\<rparr>]"
  by code_simp

theorem career_totals_witness:
  "case map_of (player_stats (book demo_stats [(''n'', ''s'')] [demo_match])) 1 of
     None \<Rightarrow> False | Some r \<Rightarrow> pl_games r = 1 \<and> pl_wins r = 1 \<and> pl_total r = 9 \<and> pl_best r = 9"
  using career_totals [of "[(''n'', ''s'')]" "[demo_match]", where env = demo_stats and p = 1]
  by (simp add: demo_ranking demo_row_def split: option.splits)

text \<open>C17.  A match moves the ratings in the right direction, whatever the ratings before: a player who is ranked
  before every other never loses, one who is ranked behind every other never gains.\<close>

theorem elo_direction:
  assumes "positive_powers env" "distinct (map player_of ranked)" "a \<in> set ranked"
  shows "((\<forall>b \<in> set ranked. b \<noteq> a \<longrightarrow> rk_rank a < rk_rank b) \<longrightarrow> 0 \<le> computeELO env ranked old (player_of a))
    \<and> ((\<forall>b \<in> set ranked. b \<noteq> a \<longrightarrow> rk_rank b < rk_rank a) \<longrightarrow> computeELO env ranked old (player_of a) \<le> 0)"
proof -
  have inj: "x \<in> set ranked \<Longrightarrow> player_of x = player_of a \<Longrightarrow> x = a" for x
    using assms(2,3) by (auto simp: distinct_map dest: inj_onD)
  have pair: "x \<in> set ranked \<and> y \<in> set ranked \<and> player_of x \<noteq> player_of y" if "(x, y) \<in> set (pairs ranked)" for x y
    using pairs_distinct [OF that assms(2)] .
  show ?thesis
    unfolding computeELO_def
  proof (intro conjI impI)
    assume up: "\<forall>b \<in> set ranked. b \<noteq> a \<longrightarrow> rk_rank a < rk_rank b"
    show "0 \<le> fold (elo_pair env old) (pairs ranked) (\<lambda>_. 0) (player_of a)"
    proof (rule fold_invariant [where P = "\<lambda>d. 0 \<le> d (player_of a)"])
      fix xy d assume xy: "xy \<in> set (pairs ranked)" and d: "0 \<le> (d :: int \<Rightarrow> rat) (player_of a)"
      obtain x y where p: "xy = (x, y)" by fastforce
      note q = pair [OF xy [unfolded p]]
      show "0 \<le> elo_pair env old xy d (player_of a)"
        unfolding p by (rule elo_pair_up [OF assms(1), where deltas = d and p = "player_of a", OF d]) (use q up inj in metis)+
    qed simp
  next
    assume down: "\<forall>b \<in> set ranked. b \<noteq> a \<longrightarrow> rk_rank b < rk_rank a"
    show "fold (elo_pair env old) (pairs ranked) (\<lambda>_. 0) (player_of a) \<le> 0"
    proof (rule fold_invariant [where P = "\<lambda>d. d (player_of a) \<le> 0"])
      fix xy d assume xy: "xy \<in> set (pairs ranked)" and d: "(d :: int \<Rightarrow> rat) (player_of a) \<le> 0"
      obtain x y where p: "xy = (x, y)" by fastforce
      note q = pair [OF xy [unfolded p]]
      show "elo_pair env old xy d (player_of a) \<le> 0"
        unfolding p by (rule elo_pair_down [OF assms(1), where deltas = d and p = "player_of a", OF d]) (use q down inj in metis)+
    qed simp
  qed
qed

theorem elo_direction_witness:
  "0 \<le> computeELO demo_stats [\<lparr>rk_record = demo_row 1 9, rk_rank = 1\<rparr>, \<lparr>rk_record = demo_row 2 5, rk_rank = 2\<rparr>] (\<lambda>_. 1500) 1"
  using elo_direction [OF demo_powers, of "[\<lparr>rk_record = demo_row 1 9, rk_rank = 1\<rparr>, \<lparr>rk_record = demo_row 2 5, rk_rank = 2\<rparr>]"
      "\<lparr>rk_record = demo_row 1 9, rk_rank = 1\<rparr>" "\<lambda>_. 1500"]
  by (simp add: player_of_def demo_row_def)

end
