(* ===== verification/Agent_Queries.thy ===== *)
theory Agent_Queries
  imports Agent_Ratings "HOL-Library.List_Lexorder" "HOL-Library.Char_ord"
begin

text \<open>
  The questions that the server hands to the agent: the reading half of \<open>stats_store/store.go\<close> and
  \<open>stats_processor/query.go\<close>.  A \<open>SELECT\<close> is the list of rows that it names, \<open>ORDER BY\<close> the order by
  falling keys of \<open>StatsEnv\<close>, and a limit below zero no limit, as in SQLite.  The parameters of a request
  are given decoded, \<open>None\<close> when they are not JSON.
\<close>

section \<open>Rows\<close>

record PlayerProfile =
  pp_UserID :: int
  pp_Name :: string
  pp_Games :: nat
  pp_Wins :: nat
  pp_AvgAcc :: rat
  pp_BestScore :: int
  pp_TotalScore :: int
  pp_PlayTimeSec :: int
  pp_Rating :: rat
  pp_UpdatedAt :: string

record PlayerLeaderboard =
  lb_Rank :: nat
  lb_UserID :: int
  lb_Name :: string
  lb_Games :: nat
  lb_Wins :: nat
  lb_AvgAcc :: rat
  lb_BestScore :: int
  lb_TotalScore :: int
  lb_PlayTimeSec :: int
  lb_Rating :: rat

record ChartPopularity =
  cp_ChartID :: int
  cp_ChartName :: string
  cp_Plays :: nat
  cp_AvgAcc :: rat
  cp_PassRate :: rat
  cp_LastPlayedAt :: string
  cp_Popularity :: rat

record RecentMatch =
  rt_MatchID :: nat
  rt_ChartID :: int
  rt_ChartName :: string
  rt_Score :: int
  rt_Accuracy :: rat
  rt_Rank :: nat
  rt_PlayedAt :: string

text \<open>\<open>math.Round\<close> rounds halves away from zero.\<close>

definition Round :: "rat \<Rightarrow> int" where
  "Round x = (if x < 0 then - \<lfloor>- x + 1 / 2\<rfloor> else \<lfloor>x + 1 / 2\<rfloor>)"

definition avgFromSum :: "rat \<Rightarrow> nat \<Rightarrow> rat" where
  "avgFromSum acc n = (if n = 0 then 0 else flt (of_int (Round (flt (flt (acc / of_nat n) * 10000))) / 10000))"

section \<open>Questions\<close>

datatype query_error = ErrNoRows | ErrScan

text \<open>A player whose name is missing yields \<open>NULL\<close>, which cannot be scanned into a string.\<close>

definition GetPlayerProfile :: "StatsDB \<Rightarrow> int \<Rightarrow> query_error + PlayerProfile" where
  "GetPlayerProfile db userID =
     (case map_of (player_stats db) userID of
        None \<Rightarrow> Inl ErrNoRows
      | Some r \<Rightarrow> (case map_of (user_names db) userID of
            None \<Rightarrow> Inl ErrScan
          | Some (name, _) \<Rightarrow>
              Inr \<lparr>pp_UserID = userID, pp_Name = name, pp_Games = pl_games r, pp_Wins = pl_wins r,
                   pp_AvgAcc = avgFromSum (pl_sum_acc r) (pl_games r), pp_BestScore = pl_best r, pp_TotalScore = pl_total r,
                   pp_PlayTimeSec = pl_time r, pp_Rating = pl_rating r, pp_UpdatedAt = pl_updated r\<rparr>))"

definition limited :: "int \<Rightarrow> 'a list \<Rightarrow> 'a list" where
  "limited limit xs = (if limit < 0 then xs else take (nat limit) xs)"

fun scanLeaderboard :: "StatsDB \<Rightarrow> nat \<Rightarrow> (int \<times> PlayerRow) list \<Rightarrow> query_error + PlayerLeaderboard list" where
  "scanLeaderboard db rank [] = Inr []"
| "scanLeaderboard db rank ((uid, r) # rows) =
     (case map_of (user_names db) uid of
        None \<Rightarrow> Inl ErrScan
      | Some (name, _) \<Rightarrow>
          (case scanLeaderboard db (rank + 1) rows of
             Inl err \<Rightarrow> Inl err
           | Inr out \<Rightarrow> Inr (\<lparr>lb_Rank = rank + 1, lb_UserID = uid, lb_Name = name, lb_Games = pl_games r, lb_Wins = pl_wins r,
               lb_AvgAcc = avgFromSum (pl_sum_acc r) (pl_games r), lb_BestScore = pl_best r, lb_TotalScore = pl_total r,
               lb_PlayTimeSec = pl_time r, lb_Rating = pl_rating r\<rparr> # out)))"

definition leaderboard :: "StatsEnv \<Rightarrow> (PlayerRow \<Rightarrow> rat) \<Rightarrow> StatsDB \<Rightarrow> int \<Rightarrow> query_error + PlayerLeaderboard list" where
  "leaderboard env key db limit =
     scanLeaderboard db 0 (limited limit (by_falling env (\<lambda>(_, r). key r) (filter (\<lambda>(_, r). pl_games r > 0) (player_stats db))))"

definition GetLeaderboardByRating :: "StatsEnv \<Rightarrow> StatsDB \<Rightarrow> int \<Rightarrow> query_error + PlayerLeaderboard list" where
  "GetLeaderboardByRating env = leaderboard env pl_rating"

definition GetLeaderboardByPlayTime :: "StatsEnv \<Rightarrow> StatsDB \<Rightarrow> int \<Rightarrow> query_error + PlayerLeaderboard list" where
  "GetLeaderboardByPlayTime env = leaderboard env (\<lambda>r. of_int (pl_time r))"

definition GetLeaderboardByTotalScore :: "StatsEnv \<Rightarrow> StatsDB \<Rightarrow> int \<Rightarrow> query_error + PlayerLeaderboard list" where
  "GetLeaderboardByTotalScore env = leaderboard env (\<lambda>r. of_int (pl_total r))"

definition chart_popularity :: "int \<times> ChartRow \<Rightarrow> ChartPopularity" where
  "chart_popularity = (\<lambda>(chartID, r).
     \<lparr>cp_ChartID = chartID, cp_ChartName = ch_name r, cp_Plays = ch_plays r, cp_AvgAcc = avgFromSum (ch_sum_acc r) (ch_plays r),
      cp_PassRate = ch_pass_rate r, cp_LastPlayedAt = ch_last_played r, cp_Popularity = ch_popularity r\<rparr>)"

definition GetChartPopularity :: "StatsEnv \<Rightarrow> StatsDB \<Rightarrow> int \<Rightarrow> ChartPopularity list" where
  "GetChartPopularity env db limit =
     map chart_popularity (limited limit (by_falling env (\<lambda>(_, r). ch_popularity r) (filter (\<lambda>(_, r). ch_plays r > 0) (chart_stats db))))"

definition GetChartStats :: "StatsDB \<Rightarrow> int \<Rightarrow> query_error + ChartPopularity" where
  "GetChartStats db chartID =
     (case map_of (chart_stats db) chartID of None \<Rightarrow> Inl ErrNoRows | Some r \<Rightarrow> Inr (chart_popularity (chartID, r)))"

text \<open>Texts are ordered byte by byte; the key of a text is the number of the texts below it.\<close>

definition text_key :: "string list \<Rightarrow> string \<Rightarrow> rat" where
  "text_key texts t = of_nat (length (filter (\<lambda>x. x < t) texts))"

definition GetRecentMatches :: "StatsEnv \<Rightarrow> StatsDB \<Rightarrow> int \<Rightarrow> int \<Rightarrow> RecentMatch list" where
  "GetRecentMatches env db userID limit =
     (let rows = [(r, m). r \<leftarrow> match_results db, m \<leftarrow> matches db, mr_id m = rw_match r \<and> sr_Player (rw_record r) = userID]
      in map (\<lambda>(r, m). \<lparr>rt_MatchID = rw_match r, rt_ChartID = mr_chart m, rt_ChartName = mr_chart_name m,
            rt_Score = sr_Score (rw_record r), rt_Accuracy = sr_Accuracy (rw_record r), rt_Rank = rw_rank r, rt_PlayedAt = mr_started m\<rparr>)
          (limited limit (by_falling env (\<lambda>(_, m). text_key (map mr_started (matches db)) (mr_started m)) rows)))"

section \<open>Requests\<close>

datatype stats_request =
    StatsPlayer "int option"
  | StatsRecent "(int \<times> int) option"
  | StatsLeaderboard "(string \<times> int) option"
  | StatsChart "int option"
  | StatsChartsHot "int option"
  | StatsUnknown

datatype stats_body =
    BodyError string
  | BodyPlayer PlayerProfile
  | BodyRecent int "RecentMatch list"
  | BodyLeaderboard string "PlayerLeaderboard list"
  | BodyChart ChartPopularity
  | BodyCharts int "ChartPopularity list"

definition queryStoreError :: "query_error \<Rightarrow> nat \<times> stats_body" where
  "queryStoreError err = (case err of ErrNoRows \<Rightarrow> (404, BodyError ''not-found'') | ErrScan \<Rightarrow> (500, BodyError ''scan''))"

definition stats_Handle :: "StatsEnv \<Rightarrow> StatsDB option \<Rightarrow> stats_request \<Rightarrow> nat \<times> stats_body" where
  "stats_Handle env store request =
     (case store of
        None \<Rightarrow> (503, BodyError ''stats-unavailable'')
      | Some db \<Rightarrow>
          (case request of
             StatsPlayer params \<Rightarrow>
               (case params of
                  Some i \<Rightarrow> if i \<le> 0 then (400, BodyError ''invalid-player-id'')
                    else (case GetPlayerProfile db i of Inl err \<Rightarrow> queryStoreError err | Inr p \<Rightarrow> (200, BodyPlayer p))
                | None \<Rightarrow> (400, BodyError ''invalid-player-id''))
           | StatsRecent params \<Rightarrow>
               (case params of
                  Some (i, limit) \<Rightarrow> if i \<le> 0 then (400, BodyError ''invalid-player-id'')
                    else (200, BodyRecent i (GetRecentMatches env db i limit))
                | None \<Rightarrow> (400, BodyError ''invalid-player-id''))
           | StatsLeaderboard params \<Rightarrow>
               (case params of
                  None \<Rightarrow> (400, BodyError ''invalid-request'')
                | Some (sort_, limit) \<Rightarrow>
                    let (name, entries) = (if sort_ = ''playtime'' then (sort_, GetLeaderboardByPlayTime env db limit)
                        else if sort_ = ''score'' then (sort_, GetLeaderboardByTotalScore env db limit)
                        else (''rating'', GetLeaderboardByRating env db limit))
                    in (case entries of Inl err \<Rightarrow> queryStoreError err | Inr out \<Rightarrow> (200, BodyLeaderboard name out)))
           | StatsChart params \<Rightarrow>
               (case params of
                  Some i \<Rightarrow> if i \<le> 0 then (400, BodyError ''invalid-chart-id'')
                    else (case GetChartStats db i of Inl err \<Rightarrow> queryStoreError err | Inr c \<Rightarrow> (200, BodyChart c))
                | None \<Rightarrow> (400, BodyError ''invalid-chart-id''))
           | StatsChartsHot params \<Rightarrow>
               (case params of
                  None \<Rightarrow> (400, BodyError ''invalid-request'')
                | Some limit \<Rightarrow> (200, BodyCharts limit (GetChartPopularity env db limit)))
           | StatsUnknown \<Rightarrow> (404, BodyError ''unknown-query'')))"

section \<open>The names are there\<close>

text \<open>Every player with statistics has a name, so that no question fails in reading one.\<close>

definition named :: "StatsDB \<Rightarrow> bool" where
  "named db \<longleftrightarrow> fst ` set (player_stats db) \<subseteq> fst ` set (user_names db)"

lemma keys_of_update: "fst ` set (AList.update k v al) = insert k (fst ` set al)"
proof -
  have "dom (map_of (AList.update k v al)) = insert k (dom (map_of al))" by (simp add: update_conv')
  then show ?thesis by (simp only: dom_map_of_conv_image_fst)
qed

lemma named_record_result: "named db \<Longrightarrow> named (record_result now m k old deltas rr db)"
  by (auto simp: named_def record_result_def upsert_player_def upsert_name_def insert_result_def Let_def keys_of_update)

lemma named_record_match: "named db \<Longrightarrow> named (record_match env clock m db)"
proof -
  assume n: "named db"
  have "named (fold (record_result now m k old deltas) rs db)" if "named db" for now k old deltas rs db
    using that by (induction rs arbitrary: db) (simp_all add: named_record_result)
  moreover have "named (insert_match (snd clock) m (claim_event (md_eventID m) db))"
    using n by (simp add: named_def insert_match_def claim_event_def)
  ultimately show ?thesis by (simp add: record_match_def Let_def named_def upsert_chart_def)
qed

lemma named_book: "named (book env clocks ms)"
proof -
  have "named (fold (\<lambda>(clock, m). record_match env clock m) xs db)" if "named db" for xs db
    using that by (induction xs arbitrary: db) (auto simp: named_record_match)
  then show ?thesis by (simp add: book_def named_def empty_db_def)
qed

lemma named_lookup: "named db \<Longrightarrow> p \<in> fst ` set (player_stats db) \<Longrightarrow> \<exists>n t. map_of (user_names db) p = Some (n, t)"
  by (metis (no_types, lifting) domIff dom_map_of_conv_image_fst named_def not_None_eq old.prod.exhaust subsetD)

lemma scan_named:
  "named db \<Longrightarrow> set rows \<subseteq> set (player_stats db) \<Longrightarrow>
     \<exists>out. scanLeaderboard db k rows = Inr out \<and> map lb_UserID out = map fst rows \<and> map lb_Rank out = [k + 1..<k + 1 + length rows]
       \<and> map lb_Rating out = map (\<lambda>(_, r). pl_rating r) rows"
proof (induction rows arbitrary: k)
  case (Cons row rows)
  obtain uid r where row: "row = (uid, r)" by fastforce
  then have "uid \<in> fst ` set (player_stats db)" using Cons.prems(2) by force
  then obtain n t where n: "map_of (user_names db) uid = Some (n, t)" using named_lookup [OF Cons.prems(1)] by blast
  obtain out where out: "scanLeaderboard db (k + 1) rows = Inr out" "map lb_UserID out = map fst rows"
      "map lb_Rank out = [k + 1 + 1..<k + 1 + 1 + length rows]" "map lb_Rating out = map (\<lambda>(_, r). pl_rating r) rows"
    using Cons.IH [of "k + 1"] Cons.prems by auto
  show ?case using n out by (simp add: row upt_conv_Cons del: upt_Suc)
qed simp

text \<open>The leaderboard by rating: after any sequence of matches the question is answered, with the numbers
  from one on as ranks, the ratings falling and no more entries than asked for.\<close>

lemma leaderboard_answers:
  assumes env: "orders (se_order env)" and db: "db = book env clocks ms"
  shows "\<exists>out. GetLeaderboardByRating env db limit = Inr out \<and> map lb_Rank out = [1..<1 + length out]
    \<and> sorted (map (\<lambda>e. - lb_Rating e) out) \<and> (0 \<le> limit \<longrightarrow> int (length out) \<le> limit)"
proof -
  let ?rows = "filter (\<lambda>(_, r). pl_games r > 0) (player_stats db)"
  let ?sorted = "by_falling env (\<lambda>(_, r). pl_rating r) ?rows"
  have "set_mset (mset ?sorted) = set_mset (mset ?rows)" by (simp only: mset_by_falling [OF env])
  then have "set ?sorted \<subseteq> set (player_stats db)" by auto
  then have sub: "set (limited limit ?sorted) \<subseteq> set (player_stats db)" by (auto simp: limited_def dest: in_set_takeD)
  obtain out where out: "scanLeaderboard db 0 (limited limit ?sorted) = Inr out" "map lb_UserID out = map fst (limited limit ?sorted)"
      "map lb_Rank out = [0 + 1..<0 + 1 + length (limited limit ?sorted)]"
      "map lb_Rating out = map (\<lambda>(_, r). pl_rating r) (limited limit ?sorted)"
    using scan_named [OF named_book sub [unfolded db], of 0] unfolding db by blast
  have len: "length out = length (limited limit ?sorted)" using out(2) by (metis length_map)
  have "sorted (map (\<lambda>x. - (\<lambda>(_, r). pl_rating r) x) ?sorted)" by (rule sorted_by_falling [OF env])
  then have "sorted (map (\<lambda>x. - (\<lambda>(_, r). pl_rating r) x) (limited limit ?sorted))"
    by (auto simp: limited_def take_map [symmetric] intro: sorted_wrt_take)
  moreover have "map (\<lambda>e. - lb_Rating e) out = map uminus (map lb_Rating out)" by simp
  ultimately have "sorted (map (\<lambda>e. - lb_Rating e) out)" unfolding out(4) by (simp add: comp_def)
  moreover have "0 \<le> limit \<longrightarrow> int (length out) \<le> limit" by (auto simp: len limited_def min_def)
  ultimately show ?thesis using out(1,3) len by (simp add: GetLeaderboardByRating_def leaderboard_def)
qed

end
