(* ===== verification/Agent_Upload.thy ===== *)
theory Agent_Upload
  imports Agent_Processor Replay_Store
begin

text \<open>
  The upload of recordings to a share station (\<open>agent/upload\<close>): the jobs, the results and the choices of
  the users, kept in memory and in a state file, and the processor that schedules the recordings of
  finished games.  The state file is a value, since its JSON text reads back as what was written; a
  save that fails leaves it as it was.  The tree of recordings is the one of \<open>Replay_Store\<close>; the answers
  of the station are arguments, and what it accepted is appended to a list that the code does not have.
\<close>

section \<open>The store\<close>

record UploadResult =
  ur_ReplayID :: string
  ur_ScoreID :: int
  ur_RecordID :: int

record diskState =
  ds_Show :: "string \<rightharpoonup> bool"
  ds_Jobs :: "(string \<times> int) list"
  ds_Results :: "string \<rightharpoonup> UploadResult"
  ds_Attempts :: "string \<Rightarrow> nat"

record Uploads =
  us_state :: diskState
  us_disk :: "diskState option"
  us_tree :: entries
  us_sent :: "(string \<times> bytes \<times> int) list"

record UploadConfig =
  uc_AutoUpload :: bool
  uc_DelayMS :: int
  uc_inflate :: "bytes \<Rightarrow> bytes option"
  uc_unzstd :: "bytes \<Rightarrow> bytes option"

definition empty_state :: diskState where
  "empty_state = \<lparr>ds_Show = Map.empty, ds_Jobs = [], ds_Results = Map.empty, ds_Attempts = (\<lambda>_. 0)\<rparr>"

definition openUploads :: "diskState option \<Rightarrow> entries \<Rightarrow> (string \<times> bytes \<times> int) list \<Rightarrow> Uploads" where
  "openUploads disk tree sent =
     \<lparr>us_state = (case disk of None \<Rightarrow> empty_state | Some d \<Rightarrow> d), us_disk = disk, us_tree = tree, us_sent = sent\<rparr>"

definition saveLocked :: "bool \<Rightarrow> Uploads \<Rightarrow> bool \<times> Uploads" where
  "saveLocked ok s = (if ok then (True, s\<lparr>us_disk := Some (us_state s)\<rparr>) else (False, s))"

definition Schedule :: "UploadConfig \<Rightarrow> bool \<Rightarrow> string \<Rightarrow> int \<Rightarrow> Uploads \<Rightarrow> string option \<times> Uploads" where
  "Schedule cfg save replayID createdAt s =
     (case ParseID replayID of
        Inl _ \<Rightarrow> (Some ''invalid replay ID'', s)
      | Inr _ \<Rightarrow>
          if ds_Results (us_state s) replayID \<noteq> None then (None, s)
          else if map_of (ds_Jobs (us_state s)) replayID \<noteq> None then (None, s)
          else (case saveLocked save
              (s\<lparr>us_state := (us_state s)\<lparr>ds_Jobs := AList.update replayID (createdAt + uc_DelayMS cfg) (ds_Jobs (us_state s))\<rparr>\<rparr>) of
              (True, s) \<Rightarrow> (None, s)
            | (False, s) \<Rightarrow> (Some ''save'', s)))"

definition AutoConfig :: "bool \<Rightarrow> int \<Rightarrow> bool option \<Rightarrow> Uploads \<Rightarrow> (string + bool) \<times> Uploads" where
  "AutoConfig save userID choice s =
     (if userID < 0 then (Inl ''invalid user ID'', s)
      else let key = Itoa userID;
               shown = (\<lambda>s. case ds_Show (us_state s) key of None \<Rightarrow> False | Some b \<Rightarrow> b)
        in case choice of
            None \<Rightarrow> (Inr (shown s), s)
          | Some b \<Rightarrow>
              (case saveLocked save (s\<lparr>us_state := (us_state s)\<lparr>ds_Show := (ds_Show (us_state s))(key \<mapsto> b)\<rparr>\<rparr>) of
                 (True, s) \<Rightarrow> (Inr (shown s), s)
               | (False, s) \<Rightarrow> (Inl ''save'', s)))"

record UploadFate =
  uf_cancelled :: bool
  uf_save_attempt :: bool
  uf_save_result :: bool
  uf_answer :: "(string \<times> int) option"
  uf_remove :: bool

definition remove_recording :: "bool \<Rightarrow> string list \<Rightarrow> entries \<Rightarrow> bool \<times> entries" where
  "remove_recording ok p es =
     (if \<not> ok then (False, es)
      else case Remove p es of Inr es' \<Rightarrow> (True, es') | Inl NotExist \<Rightarrow> (True, es) | Inl OtherError \<Rightarrow> (False, es))"

text \<open>The data to send: the file exists and its header names the user and the chart of the reference.\<close>

definition recording_of :: "UploadConfig \<Rightarrow> ID \<Rightarrow> entries \<Rightarrow> (bytes \<times> ReplayHeader) option" where
  "recording_of cfg i es =
     (case file_at (snd (FilePath [] (id_UserID i) (id_ChartID i) (id_Timestamp i))) es of
        None \<Rightarrow> None
      | Some raw \<Rightarrow>
          (case ReadReplayHeader (uc_inflate cfg) (uc_unzstd cfg) raw of
             Inl _ \<Rightarrow> None
           | Inr h \<Rightarrow> if rh_UserID h \<noteq> id_UserID i \<or> rh_ChartID h \<noteq> id_ChartID i then None else Some (raw, h)))"

definition count_attempt :: "string \<Rightarrow> Uploads \<Rightarrow> Uploads" where
  "count_attempt replayID s =
     s\<lparr>us_state := (us_state s)\<lparr>ds_Attempts := (ds_Attempts (us_state s))(replayID := ds_Attempts (us_state s) replayID + 1)\<rparr>\<rparr>"

definition store_upload :: "string \<Rightarrow> UploadResult \<Rightarrow> Uploads \<Rightarrow> Uploads" where
  "store_upload replayID r s =
     s\<lparr>us_state := (us_state s)\<lparr>ds_Results := (ds_Results (us_state s))(replayID \<mapsto> r), ds_Jobs := AList.delete replayID (ds_Jobs (us_state s))\<rparr>\<rparr>"

text \<open>The part of \<open>Upload\<close> behind the first save: the station is asked, its answer stored, and the file is
  removed once the result is saved.\<close>

definition send_recording :: "UploadConfig \<Rightarrow> UploadFate \<Rightarrow> string \<Rightarrow> ID \<Rightarrow> string list \<Rightarrow> Uploads
    \<Rightarrow> (string option \<times> UploadResult option) \<times> Uploads" where
  "send_recording cfg f replayID i path s =
     (case recording_of cfg i (us_tree s) of
        None \<Rightarrow> ((Some ''replay not found or invalid'', None), s)
      | Some (data, h) \<Rightarrow>
          (case uf_answer f of
             None \<Rightarrow> ((Some ''upload'', None), s)
           | Some (remoteID, scoreID) \<Rightarrow>
               let s = s\<lparr>us_sent := us_sent s @ [(replayID, data, scoreID)]\<rparr>
               in if scoreID = 0 then ((Some ''upload response has no score ID'', None), s)
                  else let result = \<lparr>ur_ReplayID = remoteID, ur_ScoreID = scoreID, ur_RecordID = rh_RecordID h\<rparr>
                    in (case saveLocked (uf_save_result f) (store_upload replayID result s) of
                        (False, s) \<Rightarrow> ((Some ''save'', None), s)
                      | (True, s) \<Rightarrow>
                          (case remove_recording (uf_remove f) path (us_tree s) of
                             (True, es) \<Rightarrow> ((None, Some result), s\<lparr>us_tree := es\<rparr>)
                           | (False, es) \<Rightarrow> ((Some ''remove'', Some result), s\<lparr>us_tree := es\<rparr>)))))"

definition Upload :: "UploadConfig \<Rightarrow> UploadFate \<Rightarrow> string \<Rightarrow> Uploads \<Rightarrow> (string option \<times> UploadResult option) \<times> Uploads" where
  "Upload cfg f replayID s =
     (if uf_cancelled f then ((Some ''context canceled'', None), s)
      else case ParseID replayID of
          Inl _ \<Rightarrow> ((Some ''invalid replay ID'', None), s)
        | Inr i \<Rightarrow>
            (case ID_Path [] i of
               Inl _ \<Rightarrow> ((Some ''invalid replay ID'', None), s)
             | Inr (_, path) \<Rightarrow>
                 (case ds_Results (us_state s) replayID of
                    Some result \<Rightarrow> ((None, Some result), s\<lparr>us_tree := snd (remove_recording (uf_remove f) path (us_tree s))\<rparr>)
                  | None \<Rightarrow>
                      (case saveLocked (uf_save_attempt f) (count_attempt replayID s) of
                         (False, s) \<Rightarrow> ((Some ''save'', None), s)
                       | (True, s) \<Rightarrow> send_recording cfg f replayID i path s))))"

definition backoff :: "nat \<Rightarrow> int" where
  "backoff attempt = 60 * 1000 * 2 ^ (if attempt > 8 then 8 else attempt)"

definition reschedule :: "int \<Rightarrow> bool \<Rightarrow> string \<Rightarrow> Uploads \<Rightarrow> Uploads" where
  "reschedule now save replayID s =
     (if map_of (ds_Jobs (us_state s)) replayID = None then s
      else snd (saveLocked save (s\<lparr>us_state := (us_state s)\<lparr>ds_Jobs :=
          AList.update replayID (now + backoff (ds_Attempts (us_state s) replayID)) (ds_Jobs (us_state s))\<rparr>\<rparr>)))"

text \<open>The due jobs, in the order of the list; \<open>fate\<close> gives the fate of the upload and of the save of a
  rescheduled job.\<close>

definition run_job :: "UploadConfig \<Rightarrow> int \<Rightarrow> (string \<Rightarrow> UploadFate \<times> bool) \<Rightarrow> string \<Rightarrow> Uploads \<Rightarrow> Uploads" where
  "run_job cfg now fate replayID s =
     (case ParseID replayID of
        Inl _ \<Rightarrow> s
      | Inr i \<Rightarrow>
          (case Upload cfg (fst (fate replayID)) replayID s of
             ((None, _), s) \<Rightarrow> s
           | ((Some _, _), s) \<Rightarrow> reschedule now (snd (fate replayID)) replayID s))"

definition runDue :: "UploadConfig \<Rightarrow> int \<Rightarrow> (string \<Rightarrow> UploadFate \<times> bool) \<Rightarrow> Uploads \<Rightarrow> Uploads" where
  "runDue cfg now fate s =
     fold (run_job cfg now fate) (map fst (filter (\<lambda>(_, due). due \<le> now) (ds_Jobs (us_state s)))) s"

section \<open>Requests and events\<close>

datatype upload_request = ReplayUpload "(string \<times> bool) option" | ReplayAutoConfig "(int \<times> bool option) option"

datatype upload_body =
    UploadError string
  | UploadDone ID UploadResult
  | UploadShow int bool bool

definition upload_Handle :: "UploadConfig \<Rightarrow> UploadFate \<Rightarrow> bool \<Rightarrow> upload_request \<Rightarrow> Uploads option \<Rightarrow> (nat \<times> upload_body) \<times> Uploads option" where
  "upload_Handle cfg f save request store =
     (case store of
        None \<Rightarrow> ((503, UploadError ''replay-upload-unavailable''), None)
      | Some s \<Rightarrow>
          (case request of
             ReplayUpload None \<Rightarrow> ((400, UploadError ''bad-request''), Some s)
           | ReplayUpload (Some (replayID, visible)) \<Rightarrow>
               (case ParseID replayID of
                  Inl _ \<Rightarrow> ((400, UploadError ''bad-request''), Some s)
                | Inr i \<Rightarrow>
                    (case Upload cfg f replayID s of
                       ((None, Some result), s) \<Rightarrow> ((200, UploadDone i result), Some s)
                     | (_, s) \<Rightarrow> ((500, UploadError ''upload-failed''), Some s)))
           | ReplayAutoConfig None \<Rightarrow> ((400, UploadError ''bad-request''), Some s)
           | ReplayAutoConfig (Some (userID, choice)) \<Rightarrow>
               if userID < 0 then ((400, UploadError ''bad-request''), Some s)
               else (case AutoConfig save userID choice s of
                   (Inl _, s) \<Rightarrow> ((500, UploadError ''config-failed''), Some s)
                 | (Inr shown, s) \<Rightarrow> ((200, UploadShow userID shown (uc_AutoUpload cfg)), Some s))))"

text \<open>The handling of an event; \<open>parse\<close> decodes the reference of the recording.\<close>

definition upload_handle :: "UploadConfig \<Rightarrow> (bytes \<Rightarrow> string option) \<Rightarrow> (bool, Uploads) handler" where
  "upload_handle cfg parse save e s =
     (if Type e = ''replay.completed.v1'' then
        (case parse (Envelope.Payload e) of
           None \<Rightarrow> (Some ''json'', s)
         | Some replayID \<Rightarrow> if uc_AutoUpload cfg then Schedule cfg save replayID (CreatedAt e) s else (None, s))
      else (None, s))"

definition upload_Process :: "Codec \<Rightarrow> UploadConfig \<Rightarrow> (bytes \<Rightarrow> string option) \<Rightarrow> int \<Rightarrow> (Envelope \<Rightarrow> bool \<times> replace_fate) \<Rightarrow> Inbox
    \<Rightarrow> InboxDisk \<Rightarrow> Uploads Proc \<Rightarrow> nat \<times> string option \<times> Uploads Proc" where
  "upload_Process cd cfg parse = Process cd (upload_handle cfg parse) (\<lambda>_ _ s. s)"

section \<open>No recording is lost\<close>

definition path_of :: "string \<Rightarrow> string list option" where
  "path_of i = (case ParseID i of Inl _ \<Rightarrow> None | Inr k \<Rightarrow> (case ID_Path [] k of Inl _ \<Rightarrow> None | Inr (_, p) \<Rightarrow> Some p))"

text \<open>The station accepted the data under the reference.\<close>

definition station_has :: "Uploads \<Rightarrow> string \<Rightarrow> bytes \<Rightarrow> bool" where
  "station_has s i data \<longleftrightarrow> (\<exists>score. (i, data, score) \<in> set (us_sent s) \<and> score \<noteq> 0)"

text \<open>The steps of the store, in any order, with any failing save, a restart that reads the state file
  again, and the server, which adds recordings under names that were not sent yet.\<close>

inductive upload_step :: "UploadConfig \<Rightarrow> Uploads \<Rightarrow> Uploads \<Rightarrow> bool" for cfg where
  schedule: "upload_step cfg s (snd (Schedule cfg save i t s))"
| config: "upload_step cfg s (snd (AutoConfig save u b s))"
| upload: "upload_step cfg s (snd (Upload cfg f i s))"
| due: "upload_step cfg s (runDue cfg now fate s)"
| restart: "upload_step cfg s (openUploads (us_disk s) (us_tree s) (us_sent s))"
| recorded: "(\<And>p data. file_at p (us_tree s) = Some data \<Longrightarrow> file_at p t = Some data) \<Longrightarrow>
    (\<And>p i data score. file_at p (us_tree s) = None \<Longrightarrow> file_at p t \<noteq> None \<Longrightarrow> path_of i = Some p \<Longrightarrow> (i, data, score) \<notin> set (us_sent s)) \<Longrightarrow>
    upload_step cfg s (s\<lparr>us_tree := t\<rparr>)"

text \<open>A result in memory or in the state file stands for accepted data.\<close>

definition results_sent :: "Uploads \<Rightarrow> bool" where
  "results_sent s \<longleftrightarrow> (\<forall>i r. ds_Results (us_state s) i = Some r \<longrightarrow> (\<exists>data. station_has s i data))
     \<and> (\<forall>d i r. us_disk s = Some d \<longrightarrow> ds_Results d i = Some r \<longrightarrow> (\<exists>data. station_has s i data))"

text \<open>What was sent from a place is what is or was there.\<close>

definition sent_matches :: "Uploads \<Rightarrow> bool" where
  "sent_matches s \<longleftrightarrow> (\<forall>i data score p. (i, data, score) \<in> set (us_sent s) \<longrightarrow> path_of i = Some p \<longrightarrow>
     file_at p (us_tree s) = None \<or> file_at p (us_tree s) = Some data)"

text \<open>A file is gone only if the station has accepted its content under its reference.\<close>

definition kept_or_sent :: "entries \<Rightarrow> Uploads \<Rightarrow> bool" where
  "kept_or_sent es s \<longleftrightarrow> (\<forall>p data. file_at p es = Some data \<longrightarrow> file_at p (us_tree s) = Some data \<or> (\<exists>i. path_of i = Some p \<and> station_has s i data))"

definition good :: "entries \<Rightarrow> Uploads \<Rightarrow> bool" where
  "good es s \<longleftrightarrow> results_sent s \<and> sent_matches s \<and> kept_or_sent es s"

lemma sent_update [simp]: "station_has (s\<lparr>us_disk := d\<rparr>) = station_has s" "station_has (s\<lparr>us_state := st\<rparr>) = station_has s"
  "station_has (s\<lparr>us_tree := t\<rparr>) = station_has s" "station_has (store_upload i r s) = station_has s"
  by (simp_all add: station_has_def store_upload_def fun_eq_iff)

lemma kept_update [simp]: "kept_or_sent es (s\<lparr>us_disk := d\<rparr>) = kept_or_sent es s" "kept_or_sent es (s\<lparr>us_state := st\<rparr>) = kept_or_sent es s"
  "kept_or_sent es (store_upload i r s) = kept_or_sent es s" "sent_matches (s\<lparr>us_disk := d\<rparr>) = sent_matches s"
  "sent_matches (s\<lparr>us_state := st\<rparr>) = sent_matches s" "sent_matches (store_upload i r s) = sent_matches s"
  by (simp_all add: kept_or_sent_def sent_matches_def store_upload_def)

lemma remove_files: "remove_recording ok p es = (b, es') \<Longrightarrow> q \<noteq> p \<Longrightarrow> file_at q es' = file_at q es"
  by (auto simp: remove_recording_def Remove_files split: if_splits sum.splits os_error.splits)

lemma remove_at: "remove_recording ok p es = (b, es') \<Longrightarrow> file_at p es' = None \<or> file_at p es' = file_at p es"
  by (auto simp: remove_recording_def Remove_files split: if_splits sum.splits os_error.splits)

lemma good_save: "good es s \<Longrightarrow> saveLocked ok s = (b, s') \<Longrightarrow> good es s'"
  by (auto simp: saveLocked_def good_def results_sent_def split: if_splits)

lemma good_state: "good es s \<Longrightarrow> ds_Results st = ds_Results (us_state s) \<Longrightarrow> good es (s\<lparr>us_state := st\<rparr>)"
  by (simp add: good_def results_sent_def)

lemma good_removed:
  assumes g: "good es s" and p: "path_of i = Some p" "station_has s i d" and r: "remove_recording ok p (us_tree s) = (b, t)"
  shows "good es (s\<lparr>us_tree := t\<rparr>)"
proof -
  have gone: "file_at q t = None \<or> file_at q t = file_at q (us_tree s)" for q
    using remove_files [OF r, of q] remove_at [OF r] by (cases "q = p") auto
  have at: "file_at p (us_tree s) = None \<or> file_at p (us_tree s) = Some d"
    using g p unfolding good_def sent_matches_def station_has_def by blast
  have m: "sent_matches (s\<lparr>us_tree := t\<rparr>)"
    unfolding sent_matches_def
  proof (intro allI impI)
    fix j data score q assume j: "(j, data, score) \<in> set (us_sent (s\<lparr>us_tree := t\<rparr>))" "path_of j = Some q"
    then have "file_at q (us_tree s) = None \<or> file_at q (us_tree s) = Some data" using g by (auto simp: good_def sent_matches_def)
    then show "file_at q (us_tree (s\<lparr>us_tree := t\<rparr>)) = None \<or> file_at q (us_tree (s\<lparr>us_tree := t\<rparr>)) = Some data"
      using gone [of q] by auto
  qed
  have "kept_or_sent es (s\<lparr>us_tree := t\<rparr>)"
    unfolding kept_or_sent_def sent_update
  proof (intro allI impI)
    fix q data assume "file_at q es = Some data"
    then have "file_at q (us_tree s) = Some data \<or> (\<exists>i. path_of i = Some q \<and> station_has s i data)" using g by (simp add: good_def kept_or_sent_def)
    then show "file_at q (us_tree (s\<lparr>us_tree := t\<rparr>)) = Some data \<or> (\<exists>i. path_of i = Some q \<and> station_has s i data)"
      using remove_files [OF r, of q] p at by (cases "q = p") auto
  qed
  then show ?thesis using g m by (simp add: good_def results_sent_def)
qed

lemma good_sent:
  assumes g: "good es s" and p: "path_of i = Some p" "file_at p (us_tree s) = Some data"
  shows "good es (s\<lparr>us_sent := us_sent s @ [(i, data, score)]\<rparr>)"
proof -
  let ?s = "s\<lparr>us_sent := us_sent s @ [(i, data, score)]\<rparr>"
  have more: "station_has s j d \<Longrightarrow> station_has ?s j d" for j d by (auto simp: station_has_def)
  have "results_sent ?s" using g more unfolding good_def results_sent_def by simp blast
  moreover have "sent_matches ?s" using g p by (auto simp: good_def sent_matches_def)
  moreover have "kept_or_sent es ?s" using g more unfolding good_def kept_or_sent_def by simp blast
  ultimately show ?thesis by (simp add: good_def)
qed

lemma good_store: "good es s \<Longrightarrow> station_has s i d \<Longrightarrow> good es (store_upload i r s)"
  unfolding good_def results_sent_def sent_update kept_update by (auto simp: store_upload_def)

lemma good_send:
  assumes g: "good es s" and p: "path_of i = Some path" "path = snd (FilePath [] (id_UserID k) (id_ChartID k) (id_Timestamp k))"
    and r: "send_recording cfg f i k path s = (res, s')"
  shows "good es s'"
proof (cases "recording_of cfg k (us_tree s)")
  case None
  then show ?thesis using g r by (simp add: send_recording_def)
next
  case (Some dh)
  obtain data h where dh: "dh = (data, h)" by fastforce
  have at: "file_at path (us_tree s) = Some data"
    using Some dh p by (auto simp: recording_of_def split: option.splits sum.splits if_splits)
  show ?thesis
  proof (cases "uf_answer f")
    case None
    then show ?thesis using g r Some dh by (simp add: send_recording_def)
  next
    case ans: (Some a)
    obtain remoteID scoreID where a: "a = (remoteID, scoreID)" by fastforce
    define s1 where "s1 = s\<lparr>us_sent := us_sent s @ [(i, data, scoreID)]\<rparr>"
    define result where "result = \<lparr>ur_ReplayID = remoteID, ur_ScoreID = scoreID, ur_RecordID = rh_RecordID h\<rparr>"
    have g1: "good es s1" using good_sent [OF g p(1) at] by (simp add: s1_def)
    show ?thesis
    proof (cases "scoreID = 0")
      case True
      then show ?thesis using g1 r Some dh ans a by (simp add: send_recording_def s1_def)
    next
      case False
      have sent: "station_has s1 i data" using False by (auto simp: station_has_def s1_def)
      obtain b s2 where save: "saveLocked (uf_save_result f) (store_upload i result s1) = (b, s2)" by fastforce
      have g2: "good es s2" using good_save [OF good_store [OF g1 sent] save] .
      have sent2: "station_has s2 i data" using sent save by (auto simp: saveLocked_def split: if_splits)
      obtain b' t where rem: "remove_recording (uf_remove f) path (us_tree s2) = (b', t)" by fastforce
      have step: "send_recording cfg f i k path s = (if \<not> b then ((Some ''save'', None), s2)
          else ((if b' then None else Some ''remove'', Some result), s2\<lparr>us_tree := t\<rparr>))"
        using Some dh ans a False save rem
        by (auto simp: send_recording_def s1_def [symmetric] result_def [symmetric] Let_def split: bool.splits)
      show ?thesis using r g2 good_removed [OF g2 p(1) sent2 rem] unfolding step by (auto split: if_splits)
    qed
  qed
qed

lemma good_Upload: "good es s \<Longrightarrow> Upload cfg f i s = (res, s') \<Longrightarrow> good es s'"
proof -
  assume g: "good es s" and u: "Upload cfg f i s = (res, s')"
  show ?thesis
  proof (cases "path_of i")
    case None
    then have "s' = s" using u by (auto simp: Upload_def path_of_def split: if_splits sum.splits prod.splits)
    then show ?thesis using g by simp
  next
    case (Some p)
    then obtain k b0 where k: "ParseID i = Inr k" "ID_Path [] k = Inr (b0, p)" by (auto simp: path_of_def split: sum.splits prod.splits)
    have path: "p = snd (FilePath [] (id_UserID k) (id_ChartID k) (id_Timestamp k))" using k by (auto simp: ID_Path_def split: sum.splits)
    show ?thesis
    proof (cases "uf_cancelled f")
      case True
      then show ?thesis using g u by (simp add: Upload_def)
    next
      case False
      show ?thesis
      proof (cases "ds_Results (us_state s) i")
        case (Some r)
        obtain b t where t: "remove_recording (uf_remove f) p (us_tree s) = (b, t)" by fastforce
        obtain d where d: "station_has s i d" using g Some by (auto simp: good_def results_sent_def)
        from good_removed [OF g \<open>path_of i = Some p\<close> d t] show ?thesis using u False k Some t by (simp add: Upload_def)
      next
        case None
        have "good es (count_attempt i s)" using good_state [OF g] by (simp add: count_attempt_def)
        moreover obtain b s1 where save: "saveLocked (uf_save_attempt f) (count_attempt i s) = (b, s1)" by fastforce
        ultimately have g1: "good es s1" using good_save by blast
        show ?thesis using u False k None save g1 good_send [OF g1 Some path] by (cases b) (auto simp: Upload_def)
      qed
    qed
  qed
qed

lemma good_reschedule: "good es s \<Longrightarrow> good es (reschedule now save i s)"
proof -
  assume g: "good es s"
  let ?s = "s\<lparr>us_state := (us_state s)\<lparr>ds_Jobs := AList.update i (now + backoff (ds_Attempts (us_state s) i)) (ds_Jobs (us_state s))\<rparr>\<rparr>"
  have "good es ?s" using good_state [OF g] by simp
  then have "good es (snd (saveLocked save ?s))" using good_save by (metis prod.collapse)
  then show ?thesis using g by (simp add: reschedule_def)
qed

lemma good_job: "good es s \<Longrightarrow> good es (run_job cfg now fate i s)"
proof -
  assume g: "good es s"
  obtain res s1 where u: "Upload cfg (fst (fate i)) i s = (res, s1)" by fastforce
  have g1: "good es s1" by (rule good_Upload [OF g u])
  show ?thesis using g g1 good_reschedule [OF g1] u by (cases res) (auto simp: run_job_def split: sum.splits option.splits)
qed

lemma good_due: "good es s \<Longrightarrow> good es (runDue cfg now fate s)"
proof -
  have "good es s \<Longrightarrow> good es (fold (run_job cfg now fate) is s)" for "is" s by (induction "is" arbitrary: s) (simp_all add: good_job)
  then show "good es s \<Longrightarrow> good es (runDue cfg now fate s)" by (simp add: runDue_def)
qed

lemma good_step: "upload_step cfg s s' \<Longrightarrow> good es s \<Longrightarrow> good es s'"
proof (induction rule: upload_step.induct)
  case (schedule s save i t)
  let ?s = "s\<lparr>us_state := (us_state s)\<lparr>ds_Jobs := AList.update i (t + uc_DelayMS cfg) (ds_Jobs (us_state s))\<rparr>\<rparr>"
  obtain b s1 where save: "saveLocked save ?s = (b, s1)" by fastforce
  have "good es s1" using good_save [OF good_state [OF schedule] save] by simp
  then show ?case using schedule save by (cases b) (auto simp: Schedule_def split: sum.splits)
next
  case (config s save u b)
  show ?case
  proof (cases b)
    case (Some c)
    let ?s = "s\<lparr>us_state := (us_state s)\<lparr>ds_Show := (ds_Show (us_state s))(Itoa u \<mapsto> c)\<rparr>\<rparr>"
    obtain ok s1 where save: "saveLocked save ?s = (ok, s1)" by fastforce
    have "good es s1" using good_save [OF good_state [OF config] save] by simp
    then show ?thesis using config save Some by (cases ok) (auto simp: AutoConfig_def Let_def)
  qed (use config in \<open>auto simp: AutoConfig_def Let_def\<close>)
next
  case (upload s f i)
  then show ?case using good_Upload by (metis prod.collapse)
next
  case (due s now fate)
  then show ?case by (rule good_due)
next
  case (restart s)
  then show ?case
    by (auto simp: good_def results_sent_def sent_matches_def kept_or_sent_def station_has_def openUploads_def empty_state_def split: option.splits)
next
  case (recorded s t)
  have "kept_or_sent es (s\<lparr>us_tree := t\<rparr>)" using recorded(1,3) unfolding good_def kept_or_sent_def sent_update by auto
  moreover have "sent_matches (s\<lparr>us_tree := t\<rparr>)"
    unfolding sent_matches_def
  proof (intro allI impI)
    fix i data score p assume i: "(i, data, score) \<in> set (us_sent (s\<lparr>us_tree := t\<rparr>))" "path_of i = Some p"
    then have "file_at p (us_tree s) = None \<or> file_at p (us_tree s) = Some data" using recorded(3) by (auto simp: good_def sent_matches_def)
    then show "file_at p (us_tree (s\<lparr>us_tree := t\<rparr>)) = None \<or> file_at p (us_tree (s\<lparr>us_tree := t\<rparr>)) = Some data"
      using recorded(1) recorded(2) [of p i data score] i by (cases "file_at p t") auto
  qed
  ultimately show ?case using recorded(3) by (simp add: good_def results_sent_def)
qed

lemma good_run: "(upload_step cfg)\<^sup>*\<^sup>* s s' \<Longrightarrow> good es s \<Longrightarrow> good es s'"
  by (induction rule: rtranclp_induct) (auto dest: good_step)


text \<open>C19.  A recording is never lost by the upload: whenever a file lies in the tree of recordings, it
  is there at every later time, or the share station has accepted its very content under a reference
  to its place, with a score.  This holds for every interleaving of scheduled jobs, requests, due jobs,
  failing saves and removals, new recordings of the server, and restarts of the agent.\<close>

theorem recording_kept_or_sent:
  assumes "(upload_step cfg)\<^sup>*\<^sup>* (openUploads None t []) s" and "(upload_step cfg)\<^sup>*\<^sup>* s s'"
    and "file_at p (us_tree s) = Some data"
  shows "file_at p (us_tree s') = Some data
    \<or> (\<exists>i score. path_of i = Some p \<and> (i, data, score) \<in> set (us_sent s') \<and> score \<noteq> 0)"
proof -
  have "good t (openUploads None t [])"
    by (simp add: good_def results_sent_def sent_matches_def kept_or_sent_def openUploads_def empty_state_def)
  from good_run [OF assms(1) this] have "good (us_tree s) s" by (simp add: good_def kept_or_sent_def)
  from good_run [OF assms(2) this] show ?thesis using assms(3) by (auto simp: good_def kept_or_sent_def station_has_def)
qed

definition demo_upload :: "nat \<times> bytes" where
  "demo_upload = (0, record_file id
     \<lparr>if_roomKey = ''r'', if_userID = 7, if_userName = [], if_chartID = 3, if_chartName = [], if_timestamp = 5, if_recordID = 0,
      if_path = ([], []), if_touches = [], if_judges = [], if_overflow = False\<rparr>)"

definition demo_uploads :: Uploads where
  "demo_uploads = openUploads None [(''7'', Dir [(''3'', Dir [(''5.phirarec'', File (snd demo_upload))])])] []"

definition demo_upload_cfg :: UploadConfig where
  "demo_upload_cfg = \<lparr>uc_AutoUpload = True, uc_DelayMS = 0, uc_inflate = Some, uc_unzstd = Some\<rparr>"

definition demo_fate :: UploadFate where
  "demo_fate = \<lparr>uf_cancelled = False, uf_save_attempt = True, uf_save_result = True, uf_answer = Some (''x'', 4), uf_remove = True\<rparr>"

lemma demo_path: "ParseID ''v1:7:3:5'' = Inr \<lparr>id_UserID = 7, id_ChartID = 3, id_Timestamp = 5\<rparr>" "path_of ''v1:7:3:5'' = Some [''7'', ''3'', ''5.phirarec'']"
  by code_simp+

lemma demo_names: "FilePath [] 7 3 5 = ([], [''7'', ''3'', ''5.phirarec''])"
  by code_simp

lemma demo_header: "ReadReplayHeader Some Some (snd demo_upload) =
    Inr \<lparr>rh_RecordID = 0, rh_Timestamp = 5, rh_ChartID = 3, rh_ChartName = [], rh_UserID = 7, rh_UserName = []\<rparr>"
  unfolding demo_upload_def snd_conv
  by (subst record_file_readable) (simp_all add: recording_ok_def string_ok_def array_ok_def header_of_def)

lemma demo_sent: "Upload demo_upload_cfg demo_fate ''v1:7:3:5'' demo_uploads =
    ((None, Some \<lparr>ur_ReplayID = ''x'', ur_ScoreID = 4, ur_RecordID = 0\<rparr>),
     snd (Upload demo_upload_cfg demo_fate ''v1:7:3:5'' demo_uploads))
  \<and> file_at [''7'', ''3'', ''5.phirarec''] (us_tree (snd (Upload demo_upload_cfg demo_fate ''v1:7:3:5'' demo_uploads))) = None"
proof -
  have path: "ID_Path [] \<lparr>id_UserID = 7, id_ChartID = 3, id_Timestamp = 5\<rparr> = Inr ([], [''7'', ''3'', ''5.phirarec''])"
    by code_simp
  show ?thesis
    by (simp add: Upload_def demo_path path demo_fate_def demo_uploads_def openUploads_def empty_state_def saveLocked_def count_attempt_def
        send_recording_def recording_of_def demo_names demo_header demo_upload_cfg_def file_at_Cons remove_recording_def Let_def store_upload_def
        Remove_entry_def update_conv')
qed

theorem recording_kept_or_sent_witness:
  "\<exists>i score. path_of i = Some [''7'', ''3'', ''5.phirarec'']
    \<and> (i, snd demo_upload, score) \<in> set (us_sent (snd (Upload demo_upload_cfg demo_fate ''v1:7:3:5'' demo_uploads))) \<and> score \<noteq> 0"
proof -
  have start: "(upload_step demo_upload_cfg)\<^sup>*\<^sup>* (openUploads None (us_tree demo_uploads) []) demo_uploads"
    by (simp add: demo_uploads_def openUploads_def)
  have sends: "(upload_step demo_upload_cfg)\<^sup>*\<^sup>* demo_uploads (snd (Upload demo_upload_cfg demo_fate ''v1:7:3:5'' demo_uploads))"
    by (rule r_into_rtranclp) (rule upload_step.upload)
  have there: "file_at [''7'', ''3'', ''5.phirarec''] (us_tree demo_uploads) = Some (snd demo_upload)"
    by (simp add: demo_uploads_def openUploads_def file_at_Cons)
  from recording_kept_or_sent [OF start sends there] demo_sent show ?thesis by auto
qed

section \<open>What a failing save does\<close>

text \<open>A job whose save fails stays in memory only: the next attempt of the event is answered with success
  while the state file knows nothing of it, and the cursor moves over the event.\<close>

lemma unsaved_job_forgotten:
  assumes "ParseID i = Inr k" and "ds_Results (us_state s) i = None" and "map_of (ds_Jobs (us_state s)) i = None"
    and "Schedule cfg False i t s = (r1, s1)" and "Schedule cfg save i t s1 = (r2, s2)"
  shows "r1 = Some ''save'' \<and> r2 = None \<and> us_disk s2 = us_disk s"
  using assms by (auto simp: Schedule_def saveLocked_def update_conv')

text \<open>A result whose save fails stays in memory only as well: the next request removes the file although
  the state file has no result, and after a restart the upload fails for lack of the file.\<close>

lemma unsaved_result_blocks:
  assumes i: "ParseID i = Inr k" "ID_Path [] k = Inr (b, p)" and new: "ds_Results (us_state s) i = None"
    and live: "\<not> uf_cancelled f" "\<not> uf_cancelled f'" "uf_save_attempt f" "\<not> uf_save_result f" "uf_remove f'"
    and ok: "recording_of cfg k (us_tree s) = Some (data, h)" "uf_answer f = Some (remote, score)" "score \<noteq> 0"
      "Remove p (us_tree s) = Inr t"
  obtains r s1 s2 where "Upload cfg f i s = ((Some ''save'', None), s1)" and "Upload cfg f' i s1 = ((None, Some r), s2)"
    and "us_tree s2 = t" and "\<exists>d. us_disk s2 = Some d \<and> ds_Results d i = None"
proof -
  have first: "Upload cfg f i s = ((Some ''save'', None), store_upload i \<lparr>ur_ReplayID = remote, ur_ScoreID = score, ur_RecordID = rh_RecordID h\<rparr>
      (count_attempt i s\<lparr>us_disk := Some (us_state (count_attempt i s)), us_sent := us_sent s @ [(i, data, score)]\<rparr>))"
    using assms by (simp add: Upload_def send_recording_def saveLocked_def Let_def count_attempt_def)
  show ?thesis
    by (rule that [OF first]) (use assms in \<open>auto simp: Upload_def remove_recording_def store_upload_def count_attempt_def\<close>)
qed

section \<open>Every finished recording is scheduled\<close>

text \<open>With saves that succeed the memory is what the state file says, so nothing scheduled is forgotten.\<close>

definition known :: "Uploads \<Rightarrow> string \<Rightarrow> bool" where
  "known w i \<longleftrightarrow> map_of (ds_Jobs (us_state w)) i \<noteq> None \<or> ds_Results (us_state w) i \<noteq> None"

definition saved :: "Uploads \<Rightarrow> bool" where
  "saved w \<longleftrightarrow> us_disk w = Some (us_state w) \<or> us_disk w = None \<and> us_state w = empty_state"

definition wants_upload :: "UploadConfig \<Rightarrow> (bytes \<Rightarrow> string option) \<Rightarrow> Envelope \<Rightarrow> string \<Rightarrow> bool" where
  "wants_upload cfg parse e i \<longleftrightarrow> Type e = ''replay.completed.v1'' \<and> uc_AutoUpload cfg \<and> parse (Envelope.Payload e) = Some i"

definition scheduled :: "UploadConfig \<Rightarrow> (bytes \<Rightarrow> string option) \<Rightarrow> Uploads \<Rightarrow> Envelope list \<Rightarrow> bool" where
  "scheduled cfg parse w es \<longleftrightarrow> saved w \<and> (\<forall>e \<in> set es. \<forall>i. wants_upload cfg parse e i \<longrightarrow> known w i)"

definition saving :: "UploadFate \<Rightarrow> bool" where
  "saving f \<longleftrightarrow> uf_save_attempt f \<and> uf_save_result f"

inductive upload_saved :: "UploadConfig \<Rightarrow> Uploads \<Rightarrow> Uploads \<Rightarrow> bool" for cfg where
  config: "upload_saved cfg w (snd (AutoConfig True u b w))"
| upload: "saving f \<Longrightarrow> upload_saved cfg w (snd (Upload cfg f i w))"
| due: "(\<And>i. saving (fst (fate i)) \<and> snd (fate i)) \<Longrightarrow> upload_saved cfg w (runDue cfg now fate w)"
| restart: "upload_saved cfg w (openUploads (us_disk w) (us_tree w) (us_sent w))"
| recorded: "upload_saved cfg w (w\<lparr>us_tree := t\<rparr>)"

text \<open>What the operations keep: the memory saved and everything known.\<close>

definition carries :: "Uploads \<Rightarrow> Uploads \<Rightarrow> bool" where
  "carries w w' \<longleftrightarrow> (saved w \<longrightarrow> saved w') \<and> (\<forall>i. known w i \<longrightarrow> known w' i)"

lemma carries_refl [simp]: "carries w w" and carries_trans: "carries w w' \<Longrightarrow> carries w' w'' \<Longrightarrow> carries w w''"
  by (auto simp: carries_def)

lemma carries_tree [simp]: "carries w (w\<lparr>us_tree := t\<rparr>)"
  by (simp add: carries_def saved_def known_def)

lemma carries_save: "saveLocked True w = (True, w\<lparr>us_disk := Some (us_state w)\<rparr>)" "(\<And>i. known w i \<Longrightarrow> known w' i)
    \<Longrightarrow> carries w (w'\<lparr>us_disk := Some (us_state w')\<rparr>)"
  by (auto simp: saveLocked_def carries_def saved_def known_def)

lemma carries_send: "saving f \<Longrightarrow> carries w (snd (send_recording cfg f i k p w))"
proof -
  assume f: "saving f"
  let ?stored = "\<lambda>r x. store_upload i r (w\<lparr>us_sent := us_sent w @ [x]\<rparr>)"
  have save: "carries w (?stored r x\<lparr>us_disk := Some (us_state (?stored r x))\<rparr>)" for r x
    by (rule carries_save) (auto simp: known_def store_upload_def delete_conv')
  have store: "carries w (?stored r x\<lparr>us_disk := Some (us_state (?stored r x)), us_tree := t\<rparr>)" for r x t
    by (rule carries_trans [OF save carries_tree])
  have sent: "carries w (w\<lparr>us_sent := l\<rparr>)" for l by (simp add: carries_def saved_def known_def)
  show ?thesis
    using f store sent by (auto simp: send_recording_def Let_def saving_def carries_save(1) split: option.splits prod.splits bool.splits)
qed

lemma carries_Upload: "saving f \<Longrightarrow> carries w (snd (Upload cfg f i w))"
proof -
  assume f: "saving f"
  let ?w = "(count_attempt i w)\<lparr>us_disk := Some (us_state (count_attempt i w))\<rparr>"
  have count: "carries w ?w" by (rule carries_save) (simp add: known_def count_attempt_def)
  have "carries w (snd (send_recording cfg f i k p ?w))" for k p by (rule carries_trans [OF count carries_send [OF f]])
  then show ?thesis
    using f by (auto simp: Upload_def saving_def carries_save(1) split: sum.splits prod.splits option.splits)
qed

lemma carries_due: "(\<And>i. saving (fst (fate i)) \<and> snd (fate i)) \<Longrightarrow> carries w (runDue cfg now fate w)"
proof -
  assume f: "\<And>i. saving (fst (fate i)) \<and> snd (fate i)"
  have again: "carries w (reschedule now True i w)" for i w
  proof -
    let ?w = "w\<lparr>us_state := (us_state w)\<lparr>ds_Jobs :=
        AList.update i (now + backoff (ds_Attempts (us_state w) i)) (ds_Jobs (us_state w))\<rparr>\<rparr>"
    have "carries w (?w\<lparr>us_disk := Some (us_state ?w)\<rparr>)" by (rule carries_save) (auto simp: known_def update_conv')
    then show ?thesis by (simp add: reschedule_def carries_save(1))
  qed
  have job: "carries w (run_job cfg now fate i w)" for i w
  proof -
    obtain res w1 where u: "Upload cfg (fst (fate i)) i w = (res, w1)" by fastforce
    have "carries w w1" using carries_Upload [of "fst (fate i)" w cfg i] f u by simp
    then show ?thesis
      using carries_trans [OF _ again] f u by (cases res) (auto simp: run_job_def split: sum.splits option.splits)
  qed
  have "carries w (fold (run_job cfg now fate) is w)" for "is" w
    by (induction "is" arbitrary: w) (auto intro: carries_trans [OF job])
  then show ?thesis by (simp add: runDue_def)
qed

lemma carries_saved: "upload_saved cfg w w' \<Longrightarrow> saved w \<Longrightarrow> carries w w'"
proof (induction rule: upload_saved.induct)
  case (config w u b)
  let ?w = "\<lambda>c. w\<lparr>us_state := (us_state w)\<lparr>ds_Show := (ds_Show (us_state w))(Itoa u \<mapsto> c)\<rparr>\<rparr>"
  have "carries w (?w c\<lparr>us_disk := Some (us_state (?w c))\<rparr>)" for c by (rule carries_save) (simp add: known_def)
  then show ?case by (auto simp: AutoConfig_def Let_def carries_save(1) split: option.splits)
next
  case (restart w)
  then show ?case by (auto simp: carries_def saved_def openUploads_def known_def split: option.splits)
qed (auto intro: carries_Upload carries_due)

lemma scheduled_carries: "carries w w' \<Longrightarrow> scheduled cfg parse w es \<Longrightarrow> scheduled cfg parse w' es"
  by (auto simp: carries_def scheduled_def)

lemma scheduled_other: "upload_saved cfg w w' \<Longrightarrow> scheduled cfg parse w es \<Longrightarrow> scheduled cfg parse w' es"
  using carries_saved scheduled_carries unfolding scheduled_def by blast

lemma scheduled_step:
  assumes c: "scheduled cfg parse w es" and h: "upload_handle cfg parse True e w = (r, w')"
  shows "scheduled cfg parse w' es" and "r = None \<Longrightarrow> scheduled cfg parse w' (es @ [e])"
proof -
  have "carries w w' \<and> (r = None \<longrightarrow> (\<forall>i. wants_upload cfg parse e i \<longrightarrow> known w' i))"
  proof (cases "\<exists>i. wants_upload cfg parse e i")
    case True
    then obtain i where i: "Type e = ''replay.completed.v1''" "uc_AutoUpload cfg" "parse (Envelope.Payload e) = Some i"
      by (auto simp: wants_upload_def)
    let ?w = "w\<lparr>us_state := (us_state w)\<lparr>ds_Jobs := AList.update i (CreatedAt e + uc_DelayMS cfg) (ds_Jobs (us_state w))\<rparr>\<rparr>"
    have "carries w (?w\<lparr>us_disk := Some (us_state ?w)\<rparr>)" by (rule carries_save) (auto simp: known_def update_conv')
    moreover have "known (?w\<lparr>us_disk := Some (us_state ?w)\<rparr>) i" by (simp add: known_def update_conv')
    ultimately show ?thesis
      using h i by (auto simp: upload_handle_def Schedule_def wants_upload_def carries_save(1) known_def split: sum.splits if_splits)
  next
    case False
    then show ?thesis using h by (auto simp: upload_handle_def wants_upload_def split: if_splits option.splits)
  qed
  then show "scheduled cfg parse w' es" "r = None \<Longrightarrow> scheduled cfg parse w' (es @ [e])"
    using c by (auto simp: scheduled_def carries_def)
qed

interpretation uploads: event_handler "\<lambda>_. upload_handle cfg parse True" "\<lambda>_ _ w. w" "upload_saved cfg" "scheduled cfg parse"
    "\<lambda>w es e. scheduled cfg parse w es" "\<lambda>w es e. scheduled cfg parse w (es @ [e])"
  for cfg parse
proof (unfold_locales, goal_cases)
  case (2 w es e)
  then show ?case by (simp add: scheduled_def)
next
  case (4 w es e f err w')
  then show ?case by (blast intro: scheduled_step(1))
next
  case (5 w es e f w')
  then show ?case by (blast intro: scheduled_step(2))
next
  case (6 w es e f err w')
  then show ?case by (blast intro: scheduled_step(1))
qed (auto intro: scheduled_other)

end
