(* ===== verification/Agent_Run.thy ===== *)
theory Agent_Run
  imports Agent_Webhook Agent_Upload
begin

text \<open>
  The agent as a whole: the loop \<open>poll\<close> of \<open>cmd/agent/main.go\<close> with the inbox of \<open>Agent_Delivery\<close> and
  a processor.  An event is acknowledged to the server only behind the cursor of the processor.  A
  start of the agent opens the inbox and then the processor over it.  Any step may fail in a write,
  and the agent may be started again at any moment.
\<close>

section \<open>Inbox and processor\<close>

text \<open>The check of \<open>poll\<close> in front of the acknowledgement.\<close>

definition agent_ack :: "Codec \<Rightarrow> nat \<Rightarrow> replace_fate \<Rightarrow> replace_fate \<Rightarrow> Delivery \<times> 'w Proc \<Rightarrow> Delivery \<times> 'w Proc" where
  "agent_ack cd n cf lf a = (if pr_cursor (snd a) < n then a else (poll_ack cd n cf lf (fst a), snd a))"

text \<open>The start of the agent over what the disk has.\<close>

definition agent_start :: "Codec \<Rightarrow> string \<Rightarrow> Delivery \<times> 'w Proc \<Rightarrow> string + Delivery \<times> 'w Proc" where
  "agent_start cd path a =
     (case ib_Open cd path (ib_max (inbox (fst a))) (inbox_disk (fst a)) of
        Inl err \<Rightarrow> Inl err
      | Inr (s, d) \<Rightarrow>
          (case OpenProcessor s (pr_file (snd a)) (pr_world (snd a)) of
             Inl err \<Rightarrow> Inl err
           | Inr p \<Rightarrow> Inr ((fst a)\<lparr>inbox := s, inbox_disk := d\<rparr>, p)))"

inductive agent_step :: "Codec \<Rightarrow> ('f, 'w) handler \<Rightarrow> ('f \<Rightarrow> Envelope \<Rightarrow> 'w \<Rightarrow> 'w) \<Rightarrow> ('w \<Rightarrow> 'w \<Rightarrow> bool)
    \<Rightarrow> Delivery \<times> 'w Proc \<Rightarrow> Delivery \<times> 'w Proc \<Rightarrow> bool" for cd handle finish other where
  server: "ob_step cd (srv st) r \<Longrightarrow> confirmed r = confirmed (srv st)
    \<Longrightarrow> agent_step cd handle finish other (st, p) (st\<lparr>srv := r\<rparr>, p)"
| fetch: "ib_last (inbox st) + 102 < 2 ^ 64 \<Longrightarrow> agent_step cd handle finish other (st, p) (poll_fetch cd acked fates st, p)"
| process: "Process cd handle finish limit fate (inbox st) (inbox_disk st) p = (n, err, p')
    \<Longrightarrow> agent_step cd handle finish other (st, p) (st, p')"
| ack: "agent_step cd handle finish other a (agent_ack cd n cf lf a)"
| restart: "ib_last (inbox (fst a)) + 2 < 2 ^ 64 \<Longrightarrow> agent_start cd path a = Inr a' \<Longrightarrow> agent_step cd handle finish other a a'"
| other: "other (pr_world p) w \<Longrightarrow> agent_step cd handle finish other (st, p) (st, p\<lparr>pr_world := w\<rparr>)"

text \<open>The runs from an empty inbox, with the world \<open>w\<close> at the start.\<close>

inductive agent_reach :: "Codec \<Rightarrow> ('f, 'w) handler \<Rightarrow> ('f \<Rightarrow> Envelope \<Rightarrow> 'w \<Rightarrow> 'w) \<Rightarrow> ('w \<Rightarrow> 'w \<Rightarrow> bool)
    \<Rightarrow> 'w \<Rightarrow> Delivery \<times> 'w Proc \<Rightarrow> bool" for cd handle finish other w where
  start: "ob_reach cd obMax r \<Longrightarrow> confirmed r = 0
    \<Longrightarrow> ib_Open cd path ibMax \<lparr>ib_file = [], baseline_file = None\<rparr> = Inr (s, d) \<Longrightarrow> OpenProcessor s None w = Inr p
    \<Longrightarrow> agent_reach cd handle finish other w (\<lparr>srv = r, inbox = s, inbox_disk = d\<rparr>, p)"
| more: "agent_reach cd handle finish other w a \<Longrightarrow> agent_step cd handle finish other a a'
    \<Longrightarrow> agent_reach cd handle finish other w a'"

lemma ack_confirmed: "confirmed (srv (poll_ack cd n cf lf st)) \<le> max n (confirmed (srv st))"
  by (auto simp: poll_ack_def run_ack_def split: prod.splits)

section \<open>The processor never falls behind what is acknowledged\<close>

text \<open>The invariant: the inbox in step with the server, the processor with the events of the inbox, and
  nothing acknowledged behind its cursor.\<close>

context event_handler
begin

definition agent_ok :: "Codec \<Rightarrow> Envelope list \<Rightarrow> Envelope list \<Rightarrow> Delivery \<times> 'w Proc \<Rightarrow> bool" where
  "agent_ok cd es extra a \<longleftrightarrow> in_step cd es extra (fst a) \<and> follows 0 (es @ extra) (snd a)
     \<and> confirmed (srv (fst a)) \<le> pr_cursor (snd a)"

lemma agent_ok_restart:
  assumes cd: "faithful cd" and a: "agent_ok cd es extra a" and room: "ib_last (inbox (fst a)) + 2 < 2 ^ 64"
    and start: "agent_start cd path a = Inr a'"
  shows "agent_ok cd (es @ extra) [] a'"
proof -
  have st: "in_step cd es extra (fst a)" and fol: "follows 0 (es @ extra) (snd a)"
    and conf: "confirmed (srv (fst a)) \<le> length es" using a by (auto simp: agent_ok_def in_step_def)
  obtain s d p where opened: "ib_Open cd path (ib_max (inbox (fst a))) (inbox_disk (fst a)) = Inr (s, d)"
      "OpenProcessor s (pr_file (snd a)) (pr_world (snd a)) = Inr p" "a' = ((fst a)\<lparr>inbox := s, inbox_disk := d\<rparr>, p)"
    using start by (auto simp: agent_start_def split: sum.splits prod.splits)
  note st' = in_step_reopen [OF st cd room opened(1)]
  then have s: "ib_baseline s = 0" "0 + length (es @ extra) \<le> ib_last s"
    using holds_length [of cd "es @ extra" "[]" s d] by (auto simp: in_step_def)
  have p: "follows 0 (es @ extra) p" using follows_open [OF fol s] opened(2) by simp
  have "pr_cursor (snd a) \<le> pr_cursor p"
    using fol opened(2) by cases (auto simp: OpenProcessor_def Let_def file_here_def s(1) split: if_splits)
  then show ?thesis using st' p a opened(3) by (simp add: agent_ok_def)
qed

lemma agent_ok_step:
  assumes cd: "faithful cd" and step: "agent_step cd handle finish other a a'" and a: "agent_ok cd es extra a"
  shows "\<exists>es extra. agent_ok cd es extra a'"
  using step
proof cases
  case (server st r p)
  then have "in_step cd es extra (st\<lparr>srv := r\<rparr>)" using a in_step_server [OF _ cd server(3,4)] by (simp add: agent_ok_def)
  then show ?thesis using a server by (intro exI [of _ es] exI [of _ extra]) (simp add: agent_ok_def)
next
  case (fetch st p acked fates)
  have st: "in_step cd es extra st" and fol: "follows 0 (es @ extra) p" using a fetch(1) by (simp_all add: agent_ok_def)
  from in_step_fetch [OF st cd fetch(3)] obtain new extra' where
    new: "in_step cd (es @ new) extra' (poll_fetch cd acked fates st)" "extra = [] \<or> new = [] \<and> extra' = extra" by blast
  have "follows 0 ((es @ new) @ extra') p"
    using new(2) follows_more [OF fol, of "new @ extra'"] fol by auto
  moreover have "confirmed (srv (poll_fetch cd acked fates st)) = confirmed (srv st)"
    by (auto simp: poll_fetch_def split: sum.splits prod.splits)
  ultimately show ?thesis using new(1) a fetch by (intro exI [of _ "es @ new"] exI [of _ extra']) (simp add: agent_ok_def)
next
  case (process limit fate st p n err p')
  have st: "in_step cd es extra st" using a process(1) by (simp add: agent_ok_def)
  then have h: "holds_events cd es extra (inbox st) (inbox_disk st)" "ib_baseline (inbox st) = 0" by (simp_all add: in_step_def)
  have fol: "follows (ib_baseline (inbox st)) (es @ extra) p" using a process(1) h(2) by (simp add: agent_ok_def)
  have "pr_cursor p \<le> pr_cursor p'" by (rule Process_forward [OF cd h(1) fol process(3)])
  then show ?thesis using follows_Process [OF cd h(1) fol process(3)] a process(1,2) h(2) by (auto simp: agent_ok_def)
next
  case (ack n cf lf)
  then show ?thesis
    using a in_step_ack ack_confirmed [of cd n cf lf "fst a"] by (auto simp: agent_ok_def agent_ack_def intro!: exI)
next
  case (restart path)
  then show ?thesis using agent_ok_restart [OF cd a] by blast
next
  case (other p w st)
  then have "follows 0 (es @ extra) (p\<lparr>pr_world := w\<rparr>)" using a follows_other [of 0 "es @ extra" p w] by (simp add: agent_ok_def)
  then show ?thesis using a other by (intro exI [of _ es] exI [of _ extra]) (simp add: agent_ok_def)
qed

lemma agent_ok_reach:
  assumes cd: "faithful cd" and w: "clean w []"
  shows "agent_reach cd handle finish other w a \<Longrightarrow> \<exists>es extra. agent_ok cd es extra a"
proof (induction rule: agent_reach.induct)
  case (start obMax r path ibMax s d p)
  have st: "in_step cd [] [] \<lparr>srv = r, inbox = s, inbox_disk = d\<rparr>" by (rule in_step_start [OF start(1,2,3) cd])
  then have s: "ib_baseline s = 0" "ib_last s = 0"
    using holds_length [of cd "[]" "[]" s d] by (auto simp: in_step_def)
  then have p: "p = \<lparr>pr_cursor = 0, pr_file = None, pr_world = w\<rparr>" using start(4) by (simp add: OpenProcessor_def)
  have "follows 0 [] p" by (rule follows.between [of 0 0]) (simp_all add: p file_here_def w)
  then show ?case using st start(2) by (auto simp: agent_ok_def intro!: exI [of _ "[]"])
next
  case (more a a')
  then show ?case using agent_ok_step [OF cd] by blast
qed

text \<open>What every run guarantees of the events that the inbox delivers: those before the cursor are handled,
  possibly with a part of the next, and every event that the server accepted and that was acknowledged
  is before the cursor.\<close>

lemma agent_guarantee:
  assumes "agent_reach cd handle finish other w a" and cd: "faithful cd" and w: "clean w []"
    and room: "ib_last (inbox (fst a)) + 2 < 2 ^ 64"
  obtains (at) evs where "reopened_events cd (fst a) = evs" "numbered cd 0 evs"
      "\<forall>e \<in> set (accepted (srv (fst a))). Sequence e \<le> confirmed (srv (fst a)) \<longrightarrow> e \<in> set (take (pr_cursor (snd a)) evs)"
      "pr_cursor (snd a) \<le> length evs" "clean (pr_world (snd a)) (take (pr_cursor (snd a)) evs)"
  | (within) evs where "reopened_events cd (fst a) = evs" "numbered cd 0 evs"
      "\<forall>e \<in> set (accepted (srv (fst a))). Sequence e \<le> confirmed (srv (fst a)) \<longrightarrow> e \<in> set (take (pr_cursor (snd a)) evs)"
      "pr_cursor (snd a) < length evs" "begun (pr_world (snd a)) (take (pr_cursor (snd a)) evs) (evs ! pr_cursor (snd a))"
proof -
  obtain es extra where ok: "agent_ok cd es extra a" using agent_ok_reach [OF cd w assms(1)] by blast
  then have st: "in_step cd es extra (fst a)" and fol: "follows 0 (es @ extra) (snd a)"
    and conf: "confirmed (srv (fst a)) \<le> pr_cursor (snd a)" by (auto simp: agent_ok_def)
  note evs = reopened_in_step [OF st cd room]
  have acc: "\<forall>e \<in> set (accepted (srv (fst a))). Sequence e \<le> confirmed (srv (fst a)) \<longrightarrow> e \<in> set (take (pr_cursor (snd a)) (es @ extra))"
  proof (intro ballI impI)
    fix e assume e: "e \<in> set (accepted (srv (fst a)))" "Sequence e \<le> confirmed (srv (fst a))"
    then have "e \<in> set (es @ extra)" using st by (auto simp: in_step_def)
    then obtain i where i: "i < length (es @ extra)" "e = (es @ extra) ! i" by (metis in_set_conv_nth)
    have "Sequence e = i + 1" using sequence_nth [of "es @ extra" 0 i] evs(2) i by (simp add: numbered_def)
    then have "i < pr_cursor (snd a)" using e(2) conf by simp
    then show "e \<in> set (take (pr_cursor (snd a)) (es @ extra))"
      unfolding in_set_conv_nth using i by (intro exI [of _ i]) (simp del: take_append)
  qed
  from fol show ?thesis
  proof (cases rule: follows_cases)
    case (1 i)
    then show ?thesis using acc evs by (intro at [of "es @ extra"]) simp_all
  next
    case (2 i)
    then show ?thesis using acc evs by (intro within [of "es @ extra"]) simp_all
  qed
qed

end

section \<open>A concrete run\<close>

text \<open>A run with one event of a given type: the server stores it, the agent fetches it, handles it and
  acknowledges it.\<close>

definition typed_event :: "string \<Rightarrow> nat \<Rightarrow> Envelope" where
  "typed_event ty n = \<lparr>Version = ProtocolVersion, ID = ''x'', Sequence = n, Type = ty, CreatedAt = 0, Payload = []\<rparr>"

definition typed_codec :: "string \<Rightarrow> Codec" where
  "typed_codec ty = \<lparr>Marshal = (\<lambda>e. if e = typed_event ty (Sequence e) then Some (replicate (Sequence e + 1) 0) else None),
     Unmarshal = (\<lambda>data. if data = [] then None else Some (typed_event ty (length data - 1)))\<rparr>"

lemma typed_faithful: "faithful (typed_codec ty)"
  by (auto simp: faithful_def typed_codec_def split: if_splits)

definition typed_stored :: "string \<Rightarrow> OutboxRun" where
  "typed_stored ty = run_append (typed_codec ty) ty (Some []) PriorityNormal ''x'' 0 Written demo_open"

lemma typed_stored_state:
  "accepted (typed_stored ty) = [typed_event ty 1]" "ob_events (run_store (typed_stored ty)) = [typed_event ty 1]"
  "ob_max (run_store (typed_stored ty)) = maxRecordSize" "ob_latest (run_store (typed_stored ty)) = 1"
  "ob_failed (run_store (typed_stored ty)) = None" "confirmed (typed_stored ty) = 0" "ob_acked (run_store (typed_stored ty)) = 0"
  by (simp_all add: typed_stored_def run_append_def demo_open_def ob_Append_def encodeRecord_def typed_codec_def
      next_seq_def typed_event_def maxRecordSize_def ob_limit_def headerSize_def Let_def)

lemma typed_reach: "ob_reach (typed_codec ty) maxRecordSize (typed_stored ty)"
proof -
  have "recover_loop cd 0 st [] = (False, st)" for cd st by (subst recover_loop.simps) (simp add: read_record_def)
  then have "ob_reach (typed_codec ty) maxRecordSize demo_open" unfolding demo_open_def
    by (intro ob_reach.start) (simp add: ob_Open_def recoverLog_def loadCheckpoint_def Let_def)
  then show ?thesis unfolding typed_stored_def by (rule ob_reach.more, intro ob_step.append) (simp_all add: demo_open_def)
qed

definition typed_delivery :: "string \<Rightarrow> Delivery" where
  "typed_delivery ty = poll_fetch (typed_codec ty) 0 [] (demo_delivery\<lparr>srv := typed_stored ty\<rparr>)"

lemma typed_delivery_state:
  "srv (typed_delivery ty) = typed_stored ty" "ib_last (inbox (typed_delivery ty)) = 1" "ib_failed (inbox (typed_delivery ty)) = None"
  "ib_baseline (inbox (typed_delivery ty)) = 0"
  "ib_file (inbox_disk (typed_delivery ty)) = rec_of (typed_codec ty) (typed_event ty 1)"
  by (simp_all add: typed_delivery_def poll_fetch_def demo_delivery_def ob_Events_def typed_stored_state ib_Accept_def accept_event_def
      typed_event_def next_seq_def encodeRecord_def typed_codec_def maxRecordSize_def headerSize_def rec_of_def)

lemma typed_read: "ReadAfter (typed_codec ty) 0 100 (inbox (typed_delivery ty)) (inbox_disk (typed_delivery ty)) = Inr [typed_event ty 1]"
proof -
  have e: "\<forall>e \<in> set [typed_event ty 1]. encodable (typed_codec ty) e"
    by (simp add: encodable_def encodeRecord_def typed_codec_def typed_event_def maxRecordSize_def)
  show ?thesis
    using read_loop_numbered [OF typed_faithful e, where t = "[]" and out = "[]" and n = 0 and limit = 100]
    by (simp add: ReadAfter_def typed_delivery_state log_of_def) (simp add: typed_event_def)
qed

text \<open>The run up to the cursor behind the event, and with the acknowledgement.\<close>

definition typed_end :: "string \<Rightarrow> 'w \<Rightarrow> Delivery \<times> 'w Proc" where
  "typed_end ty w = agent_ack (typed_codec ty) 1 Replaced Replaced
     (typed_delivery ty, \<lparr>pr_cursor = 1, pr_file = Some 1, pr_world = w\<rparr>)"

lemma typed_end_state:
  "snd (typed_end ty w) = \<lparr>pr_cursor = 1, pr_file = Some 1, pr_world = w\<rparr>" "ib_last (inbox (fst (typed_end ty w))) = 1"
  "accepted (srv (fst (typed_end ty w))) = [typed_event ty 1]" "confirmed (srv (fst (typed_end ty w))) = 1"
  by (auto simp: typed_end_def agent_ack_def poll_ack_def typed_delivery_state typed_stored_state run_ack_def split: prod.splits)

lemma typed_end_reach:
  assumes "handle f (typed_event ty 1) w = (None, w')"
  shows "agent_reach (typed_codec ty) handle finish other w (typed_end ty (finish f (typed_event ty 1) w'))"
proof -
  let ?reach = "agent_reach (typed_codec ty) handle finish other w" and ?step = "agent_step (typed_codec ty) handle finish other"
  let ?p0 = "\<lparr>pr_cursor = 0, pr_file = None, pr_world = w\<rparr>"
  let ?p1 = "\<lparr>pr_cursor = 1, pr_file = Some 1, pr_world = finish f (typed_event ty 1) w'\<rparr>"
  have "ib_recover_loop (typed_codec ty) 0 st [] = (False, 0, st)" for st
    by (subst ib_recover_loop.simps) (simp add: read_record_def)
  then have "?reach (demo_delivery\<lparr>srv := typed_stored ty\<rparr>, ?p0)"
    unfolding demo_delivery_def Delivery.update_convs
    by (intro agent_reach.start [OF typed_reach, where path = "''p''" and ibMax = maxRecordSize])
      (simp_all add: typed_stored_state ib_Open_def ib_recover_def loadBaseline_def OpenProcessor_def)
  moreover have "?step (demo_delivery\<lparr>srv := typed_stored ty\<rparr>, ?p0) (typed_delivery ty, ?p0)"
    unfolding typed_delivery_def by (rule agent_step.fetch) (simp add: demo_delivery_def)
  moreover have "?step (typed_delivery ty, ?p0) (typed_delivery ty, ?p1)"
  proof (rule agent_step.process [where limit = 100 and fate = "\<lambda>_. (f, Replaced)"])
    have one: "Sequence (typed_event ty 1) = 1" by (simp add: typed_event_def)
    show "Process (typed_codec ty) handle finish 100 (\<lambda>_. (f, Replaced)) (inbox (typed_delivery ty)) (inbox_disk (typed_delivery ty)) ?p0 = (1, None, ?p1)"
      by (simp only: Process_def Proc.simps typed_read sum.case process_loop.simps fst_conv snd_conv assms one writeCursor_def
          prod.case option.case replace_fate.case bool.case) simp
  qed
  moreover have "?step (typed_delivery ty, ?p1) (typed_end ty (finish f (typed_event ty 1) w'))"
    unfolding typed_end_def by (rule agent_step.ack)
  ultimately show ?thesis using agent_reach.more by metis
qed

section \<open>Every finished match is counted once\<close>

lemma recorded_start: "recorded env empty_db []"
  by (auto simp: recorded_def matches_of_def map_filter_def book_def intro!: exI [of _ "[]"])

lemma recorded_all: "recorded env db es \<Longrightarrow> numbered cd k evs \<Longrightarrow> set es \<subseteq> set evs
    \<Longrightarrow> \<exists>clocks. length clocks = length (matches_of env es) \<and> rollups db = rollups (book env clocks (matches_of env es))"
  by (auto simp: recorded_def numbered_def)

text \<open>C15.  A finished match counts exactly once, from the server to the statistics of the agent.  In
  every run with failing writes on either side, failing transactions, maintenance of the data base and
  restarts, the statistics (players, charts, names, consumed identifiers) are those of a book in which
  the matches among the first events of the inbox were recorded one after the other, each identifier
  once.  These are the events before the cursor and possibly the one behind it, whose commit was not
  reported; and every event that the server accepted and dropped after the acknowledgement is among them.\<close>

theorem matches_counted_once:
  assumes "agent_reach cd (stats_handle env) (\<lambda>_ _ db. db) maintained empty_db a" "faithful cd"
    and "ib_last (inbox (fst a)) + 2 < 2 ^ 64"
  shows "\<exists>k clocks. (k = pr_cursor (snd a) \<or> k = pr_cursor (snd a) + 1) \<and> k \<le> length (reopened_events cd (fst a))
    \<and> length clocks = length (matches_of env (take k (reopened_events cd (fst a))))
    \<and> rollups (pr_world (snd a)) = rollups (book env clocks (matches_of env (take k (reopened_events cd (fst a)))))
    \<and> {e \<in> set (accepted (srv (fst a))). Sequence e \<le> confirmed (srv (fst a))} \<subseteq> set (take k (reopened_events cd (fst a)))"
proof -
  let ?c = "pr_cursor (snd a)" and ?db = "pr_world (snd a)" and ?evs = "reopened_events cd (fst a)"
  have goal: ?thesis if k: "k = ?c \<or> k = ?c + 1" "k \<le> length ?evs" and rec: "recorded env ?db (take k ?evs)" and num: "numbered cd 0 ?evs"
    and acc: "\<forall>e \<in> set (accepted (srv (fst a))). Sequence e \<le> confirmed (srv (fst a)) \<longrightarrow> e \<in> set (take ?c ?evs)" for k
  proof -
    obtain clocks where "length clocks = length (matches_of env (take k ?evs))"
        "rollups ?db = rollups (book env clocks (matches_of env (take k ?evs)))"
      using recorded_all [OF rec num set_take_subset] by blast
    moreover have "set (take ?c ?evs) \<subseteq> set (take k ?evs)" by (rule set_take_subset_set_take) (use k in auto)
    moreover have "{e \<in> set (accepted (srv (fst a))). Sequence e \<le> confirmed (srv (fst a))} \<subseteq> set (take ?c ?evs)" using acc by blast
    ultimately show ?thesis using k by (intro exI [of _ k] exI [of _ clocks] conjI) (assumption | blast)+
  qed
  show ?thesis
  proof (cases rule: stats.agent_guarantee [OF assms(1,2) recorded_start assms(3)])
    case (1 evs)
    then show ?thesis by (intro goal [of ?c]) auto
  next
    case (2 evs)
    then have "recorded env ?db (take ?c ?evs) \<or> recorded env ?db (take (?c + 1) ?evs)"
      by (auto simp: stats_begun_def take_Suc_conv_app_nth)
    then show ?thesis using 2 goal [of ?c] goal [of "?c + 1"] by auto
  qed
qed

definition demo_finished :: MatchFinishedV1 where
  "demo_finished = \<lparr>mf_Server = ''s'', mf_RoomID = ''r'', mf_ChartID = 3, mf_ChartName = ''c'', mf_Duration = 90, mf_Results = []\<rparr>"

definition demo_match_stats :: StatsEnv where
  "demo_match_stats = \<lparr>se_parse = (\<lambda>_. Some demo_finished), se_order = (\<lambda>_. []), se_pow10 = (\<lambda>_. 1), se_decay = (\<lambda>_ _. 1)\<rparr>"

definition demo_counted :: StatsDB where
  "demo_counted = record_match demo_match_stats (''now'', ''day'') (match_data ''x'' demo_finished) empty_db"

lemma demo_handled: "stats_handle demo_match_stats (TxCommitted, ''now'', ''day'') (typed_event EventMatchFinishedV1 1) empty_db = (None, demo_counted)"
proof -
  have "md_eventID (match_data ''x'' demo_finished) \<notin> consumed empty_db" by (simp add: empty_db_def)
  then have "snd (RecordMatchEvent demo_match_stats TxCommitted (''now'', ''day'') (match_data ''x'' demo_finished) empty_db) = demo_counted"
      "\<exists>r. fst (RecordMatchEvent demo_match_stats TxCommitted (''now'', ''day'') (match_data ''x'' demo_finished) empty_db) = Inr r"
    by (simp_all add: RecordMatchEvent_def Let_def demo_counted_def)
  moreover have "se_parse demo_match_stats bs = Some demo_finished" for bs by (simp add: demo_match_stats_def)
  ultimately show ?thesis by (auto simp: stats_handle_def typed_event_def split: prod.split)
qed

lemma matches_of_in: "e \<in> set es \<Longrightarrow> match_of env e = Some m \<Longrightarrow> md_eventID m \<in> md_eventID ` set (matches_of env es)"
  unfolding matches_of_def distinct_matches_set by (force simp: map_filter_def simp del: match_of.simps)

text \<open>One match runs through: it is among those that count, so its identifier is consumed.\<close>

theorem matches_counted_once_witness: "''x'' \<in> consumed demo_counted"
proof -
  let ?e = "typed_event EventMatchFinishedV1 1" and ?a = "typed_end EventMatchFinishedV1 demo_counted"
  let ?evs = "\<lambda>k. take k (reopened_events (typed_codec EventMatchFinishedV1) (fst ?a))"
  note run = typed_end_reach [where handle = "stats_handle demo_match_stats" and finish = "\<lambda>_ _ db. db" and other = maintained, OF demo_handled]
  have room: "ib_last (inbox (fst ?a)) + 2 < 2 ^ 64" unfolding typed_end_state by simp
  have one: "Sequence ?e = 1" by (simp add: typed_event_def)
  from matches_counted_once [OF run typed_faithful room] obtain k clocks where
    k: "length clocks = length (matches_of demo_match_stats (?evs k))"
      "rollups demo_counted = rollups (book demo_match_stats clocks (matches_of demo_match_stats (?evs k)))" "?e \<in> set (?evs k)"
    unfolding typed_end_state Proc.simps using one by auto
  have "match_of demo_match_stats ?e = Some (match_data ''x'' demo_finished)" by (simp add: demo_match_stats_def typed_event_def)
  from matches_of_in [OF k(3) this] have "''x'' \<in> md_eventID ` set (matches_of demo_match_stats (?evs k))" by (simp add: match_data_def)
  moreover have "consumed demo_counted = md_eventID ` set (matches_of demo_match_stats (?evs k)) - {[]}"
    using k(1,2) by (metis rollups_sel(1) consumed_book)
  ultimately show ?thesis by simp
qed

section \<open>Every webhook target is served\<close>













section \<open>Every finished recording is scheduled\<close>





section \<open>The rounds of the processors end\<close>

text \<open>C21.  The inner loop of \<open>poll\<close> ends: on an inbox that did not fail, calling a processor until it
  handles no event returns after finitely many calls, whatever its handler does and whichever of its
  writes fail; without an error the cursor is then at the end of the inbox, so the acknowledgement that
  follows is allowed.\<close>

theorem processors_catch_up:
  assumes "delivery_reach cd obMax ibMax st" "faithful cd" "ib_failed (inbox st) = None" "pr_cursor p \<le> ib_last (inbox st)"
  shows "\<exists>err p'. process_all (\<lambda>i. Process cd handle finish 100 (fates i) (inbox st) (inbox_disk st)) 0 p = Some (err, p')
    \<and> pr_cursor p \<le> pr_cursor p' \<and> (err = None \<longrightarrow> pr_cursor p' = ib_last (inbox st))"
proof -
  obtain es extra where st: "in_step cd es extra st" using in_step_reach [OF assms(1,2)] by blast
  then have h: "holds_events cd es [] (inbox st) (inbox_disk st)" "ib_baseline (inbox st) = 0"
    using holds_clean [OF _ assms(3)] by (auto simp: in_step_def)
  show ?thesis using process_all_ends [OF assms(2) h(1) assms(3), of 100 p handle finish fates 0] h(2) assms(4) by simp
qed

theorem processors_catch_up_witness:
  "\<exists>err p'. process_all (\<lambda>i. Process (typed_codec EventMatchFinishedV1) (stats_handle demo_match_stats) (\<lambda>_ _ db. db) 100
      (\<lambda>_. ((TxCommitted, ''now'', ''day''), Replaced)) (inbox (typed_delivery EventMatchFinishedV1))
      (inbox_disk (typed_delivery EventMatchFinishedV1))) 0 \<lparr>pr_cursor = 0, pr_file = None, pr_world = empty_db\<rparr> = Some (err, p')"
proof -
  let ?ty = EventMatchFinishedV1
  have "ib_recover_loop (typed_codec ?ty) 0 st [] = (False, 0, st)" for st
    by (subst ib_recover_loop.simps) (simp add: read_record_def)
  then have "delivery_reach (typed_codec ?ty) maxRecordSize maxRecordSize (demo_delivery\<lparr>srv := typed_stored ?ty\<rparr>)"
    unfolding demo_delivery_def Delivery.update_convs
    by (intro delivery_reach.start [OF typed_reach, where path = "''p''"])
      (simp_all add: typed_stored_state ib_Open_def ib_recover_def loadBaseline_def)
  moreover have "delivery_step (typed_codec ?ty) (demo_delivery\<lparr>srv := typed_stored ?ty\<rparr>) (typed_delivery ?ty)"
    unfolding typed_delivery_def by (rule delivery_step.fetch) (simp add: demo_delivery_def)
  ultimately have "delivery_reach (typed_codec ?ty) maxRecordSize maxRecordSize (typed_delivery ?ty)" by (rule delivery_reach.more)
  from processors_catch_up [OF this typed_faithful, where p = "\<lparr>pr_cursor = 0, pr_file = None, pr_world = empty_db\<rparr>"
      and handle = "stats_handle demo_match_stats" and finish = "\<lambda>_ _ db. db" and fates = "\<lambda>_ _. ((TxCommitted, ''now'', ''day''), Replaced)"]
  show ?thesis by (auto simp: typed_delivery_state)
qed

end
