(* ===== verification/Conn_Limits.thy ===== *)
theory Conn_Limits
  imports Phira_Prelude
begin

text \<open>
  Limits on connections per address.  \<open>connectionRateLimiter\<close> is the limiter of the listener
  (\<open>network/connlimit.go\<close>): a fixed window of connections per address and a temporary ban.
  \<open>connRateLimiter\<close> is the limiter of the connection log (\<open>logging/connratelimit.go\<close>).  A
  \<open>time.Time\<close> is an integer number of nanoseconds, a Unix time of the log an integer number of
  milliseconds; a Go map is a finite map, and the loops over maps, whose iterations do not depend
  on each other, are pointwise.  The locale \<open>ban_list\<close> is the contract that both limiters promise:
  whatever else is asked of it, a ban holds until its end.
\<close>

type_synonym instant = int

section \<open>The limiter of the listener\<close>

record connWindow =
  cw_count :: int
  cw_resetAt :: instant

record connectionRateLimiter =
  windows :: "string \<rightharpoonup> connWindow"
  banned :: "string \<rightharpoonup> instant"
  maxConns :: int
  windowDur :: int
  banDur :: int

definition newConnectionRateLimiter :: "int \<Rightarrow> int \<Rightarrow> int \<Rightarrow> connectionRateLimiter" where
  "newConnectionRateLimiter n window ban =
     \<lparr>windows = Map.empty, banned = Map.empty, maxConns = n, windowDur = window, banDur = ban\<rparr>"

definition setMaxConns :: "int \<Rightarrow> connectionRateLimiter \<Rightarrow> connectionRateLimiter" where
  "setMaxConns n l = l\<lparr>maxConns := n\<rparr>"

text \<open>The part of \<open>allow\<close> behind the test of the ban.\<close>

definition allow_window :: "string \<Rightarrow> instant \<Rightarrow> connectionRateLimiter \<Rightarrow> bool \<times> connectionRateLimiter" where
  "allow_window ip now l =
     (let fresh = (True, l\<lparr>windows := (windows l)(ip \<mapsto> \<lparr>cw_count = 1, cw_resetAt = now + windowDur l\<rparr>)\<rparr>)
      in case windows l ip of
          None \<Rightarrow> fresh
        | Some w \<Rightarrow>
            if \<not> now < cw_resetAt w then fresh
            else let w = w\<lparr>cw_count := cw_count w + 1\<rparr>
                 in if cw_count w > maxConns l
                    then (False, l\<lparr>banned := (banned l)(ip \<mapsto> now + banDur l), windows := (windows l)(ip := None)\<rparr>)
                    else (True, l\<lparr>windows := (windows l)(ip \<mapsto> w)\<rparr>))"

definition conn_allow :: "string \<Rightarrow> instant \<Rightarrow> connectionRateLimiter \<Rightarrow> bool \<times> connectionRateLimiter" where
  "conn_allow ip now l =
     (case banned l ip of
        Some until \<Rightarrow>
          if now < until then (False, l)
          else allow_window ip now (l\<lparr>banned := (banned l)(ip := None)\<rparr>)
      | None \<Rightarrow> allow_window ip now l)"

definition live_window :: "instant \<Rightarrow> connWindow option \<Rightarrow> connWindow option" where
  "live_window now w = (case w of Some w \<Rightarrow> if \<not> now < cw_resetAt w then None else Some w | None \<Rightarrow> None)"

definition live_ban :: "instant \<Rightarrow> instant option \<Rightarrow> instant option" where
  "live_ban now b = (case b of Some until \<Rightarrow> if \<not> now < until then None else Some until | None \<Rightarrow> None)"

definition conn_cleanup :: "instant \<Rightarrow> connectionRateLimiter \<Rightarrow> connectionRateLimiter" where
  "conn_cleanup now l =
     l\<lparr>windows := (\<lambda>ip. live_window now (windows l ip)), banned := (\<lambda>ip. live_ban now (banned l ip))\<rparr>"

section \<open>The limiter of the connection log\<close>

definition connLogThreshold :: nat where "connLogThreshold = 10"
definition connLogWindow :: int where "connLogWindow = 1000"
definition connLogBlacklistDur :: int where "connLogBlacklistDur = 3600000"
definition connLogStaleTTL :: int where "connLogStaleTTL = 24 * 3600000"
definition connLogCleanupEvery :: int where "connLogCleanupEvery = 3600000"

lemmas connLog_consts = connLogThreshold_def connLogWindow_def connLogBlacklistDur_def
  connLogStaleTTL_def connLogCleanupEvery_def

record ipStat =
  timestamps :: "int list"
  blacklisted :: int
  lastAccess :: int

record connRateLimiter =
  ips :: "string \<rightharpoonup> ipStat"
  lastCleanup :: int

definition newConnRateLimiter :: connRateLimiter where
  "newConnRateLimiter = \<lparr>ips = Map.empty, lastCleanup = 0\<rparr>"

definition cleanupLocked :: "int \<Rightarrow> connRateLimiter \<Rightarrow> connRateLimiter" where
  "cleanupLocked now l =
     l\<lparr>lastCleanup := now,
       ips := (\<lambda>ip. case ips l ip of Some st \<Rightarrow> if now - lastAccess st > connLogStaleTTL then None else Some st
                                 | None \<Rightarrow> None)\<rparr>"

definition shouldLog :: "string \<Rightarrow> int \<Rightarrow> connRateLimiter \<Rightarrow> bool \<times> connRateLimiter" where
  "shouldLog ip now l =
     (let l = (if now - lastCleanup l > connLogCleanupEvery then cleanupLocked now l else l);
          st = (case ips l ip of None \<Rightarrow> \<lparr>timestamps = [], blacklisted = 0, lastAccess = 0\<rparr> | Some st \<Rightarrow> st);
          st = st\<lparr>lastAccess := now\<rparr>;
          store = (\<lambda>st. l\<lparr>ips := (ips l)(ip \<mapsto> st)\<rparr>)
      in if now < blacklisted st then (False, store st)
         else let st = st\<lparr>blacklisted := 0\<rparr>;
                  kept = filter (\<lambda>ts. ts > now - connLogWindow) (timestamps st) @ [now];
                  st = st\<lparr>timestamps := kept\<rparr>
              in if length kept > connLogThreshold
                 then (False, store (st\<lparr>blacklisted := now + connLogBlacklistDur, timestamps := []\<rparr>))
                 else (True, store st))"

text \<open>\<open>getBlacklisted\<close> with the iteration order of the map as an argument.\<close>

definition getBlacklisted :: "string list \<Rightarrow> int \<Rightarrow> connRateLimiter \<Rightarrow> (string \<times> int) list" where
  "getBlacklisted order now l =
     concat (map (\<lambda>ip. case ips l ip of
         Some st \<Rightarrow> if now < blacklisted st then [(ip, blacklisted st - now)] else []
       | None \<Rightarrow> []) order)"

definition log_remove :: "string \<Rightarrow> connRateLimiter \<Rightarrow> connRateLimiter" where
  "log_remove ip l =
     (case ips l ip of
        Some st \<Rightarrow> l\<lparr>ips := (ips l)(ip \<mapsto> st\<lparr>blacklisted := 0, timestamps := []\<rparr>)\<rparr>
      | None \<Rightarrow> l)"

definition log_clear :: "connRateLimiter \<Rightarrow> connRateLimiter" where
  "log_clear l = l\<lparr>ips := map_option (\<lambda>st. st\<lparr>blacklisted := 0, timestamps := []\<rparr>) \<circ> ips l\<rparr>"

section \<open>Sequences of requests\<close>

text \<open>Both limiters are used under a mutex, so an execution is a sequence of requests with the
  times at which they run.  \<open>run_log\<close> lists the verdicts, \<open>run_state\<close> is the state behind them.\<close>

datatype conn_op = AskConn string | CleanupConns | SetMaxConns int

fun conn_act :: "conn_op \<Rightarrow> instant \<Rightarrow> connectionRateLimiter \<Rightarrow> (string \<times> bool) option \<times> connectionRateLimiter" where
  "conn_act (AskConn ip) now l = (Some (ip, fst (conn_allow ip now l)), snd (conn_allow ip now l))"
| "conn_act CleanupConns now l = (None, conn_cleanup now l)"
| "conn_act (SetMaxConns n) now l = (None, setMaxConns n l)"

datatype log_op = AskLog string | RemoveIP string | ClearIPs

fun log_act :: "log_op \<Rightarrow> int \<Rightarrow> connRateLimiter \<Rightarrow> (string \<times> bool) option \<times> connRateLimiter" where
  "log_act (AskLog ip) now l = (Some (ip, fst (shouldLog ip now l)), snd (shouldLog ip now l))"
| "log_act (RemoveIP ip) now l = (None, log_remove ip l)"
| "log_act ClearIPs now l = (None, log_clear l)"

fun run_log :: "('op \<Rightarrow> int \<Rightarrow> 's \<Rightarrow> (string \<times> bool) option \<times> 's) \<Rightarrow> (int \<times> 'op) list \<Rightarrow> 's
    \<Rightarrow> (int \<times> string \<times> bool) list" where
  "run_log act [] s = []"
| "run_log act ((now, op) # ops) s =
     (case act op now s of
        (Some (ip, ok), s') \<Rightarrow> (now, ip, ok) # run_log act ops s'
      | (None, s') \<Rightarrow> run_log act ops s')"

fun run_state :: "('op \<Rightarrow> int \<Rightarrow> 's \<Rightarrow> (string \<times> bool) option \<times> 's) \<Rightarrow> (int \<times> 'op) list \<Rightarrow> 's \<Rightarrow> 's" where
  "run_state act [] s = s"
| "run_state act ((now, op) # ops) s = run_state act ops (snd (act op now s))"

definition from_time :: "int \<Rightarrow> (int \<times> 'op) list \<Rightarrow> bool" where
  "from_time c ops = sorted (c # map fst ops)"

lemma from_time_Nil [simp]: "from_time c []"
  by (simp add: from_time_def)

lemma from_time_Cons [simp]: "from_time c ((now, op) # ops) \<longleftrightarrow> c \<le> now \<and> from_time now ops"
  by (auto simp: from_time_def)

section \<open>The contract of a ban list\<close>

locale ban_list =
  fixes act :: "'op \<Rightarrow> int \<Rightarrow> 's \<Rightarrow> (string \<times> bool) option \<times> 's"
    and inv :: "int \<Rightarrow> 's \<Rightarrow> bool"
    and until :: "'s \<Rightarrow> string \<Rightarrow> int option"
    and lifts :: "string \<Rightarrow> 'op \<Rightarrow> bool"
  assumes inv_act: "inv c s \<Longrightarrow> c \<le> now \<Longrightarrow> inv now (snd (act op now s))"
    and ban_kept: "inv c s \<Longrightarrow> c \<le> now \<Longrightarrow> until s ip = Some t \<Longrightarrow> now < t \<Longrightarrow> \<not> lifts ip op
      \<Longrightarrow> until (snd (act op now s)) ip = Some t"
    and ban_refuses: "inv c s \<Longrightarrow> c \<le> now \<Longrightarrow> until s ip = Some t \<Longrightarrow> now < t
      \<Longrightarrow> fst (act op now s) = Some (ip, ok) \<Longrightarrow> \<not> ok"
begin

lemma inv_run: "inv c s \<Longrightarrow> from_time c ops \<Longrightarrow> \<exists>d. inv d (run_state act ops s)"
proof (induction ops arbitrary: c s)
  case (Cons x ops)
  then show ?case by (cases x) (auto intro: inv_act)
qed auto

lemma ban_enforced:
  assumes "inv c s" and "from_time c ops" and "until s ip = Some t"
    and "\<forall>(now, op) \<in> set ops. now < t \<and> \<not> lifts ip op"
    and "(now, ip, ok) \<in> set (run_log act ops s)"
  shows "\<not> ok"
  using assms
proof (induction ops arbitrary: c s)
  case (Cons x ops)
  obtain nw op where x: "x = (nw, op)" by fastforce
  obtain v s' where a: "act op nw s = (v, s')" by fastforce
  have keep: "until s' ip = Some t" "inv nw s'"
    using Cons.prems ban_kept [of c s nw ip t op] inv_act [of c s nw op] by (auto simp: x a)
  have here: "v = Some (ip, ok) \<Longrightarrow> \<not> ok" for ok
    using Cons.prems ban_refuses [of c s nw ip t op ok] by (auto simp: x a)
  show ?case
    using Cons.IH [OF keep(2) _ keep(1)] Cons.prems here
    by (auto simp: x a split: option.splits prod.splits)
qed auto

end

fun lifts_log :: "string \<Rightarrow> log_op \<Rightarrow> bool" where
  "lifts_log ip (RemoveIP ip') = (ip = ip')"
| "lifts_log ip ClearIPs = True"
| "lifts_log ip (AskLog _) = False"

definition log_until :: "connRateLimiter \<Rightarrow> string \<Rightarrow> int option" where
  "log_until l ip =
     (case ips l ip of Some st \<Rightarrow> if blacklisted st = 0 then None else Some (blacklisted st) | None \<Rightarrow> None)"

text \<open>A ban lasts an hour from an access, so the cleanup, which forgets addresses that were idle
  for a day, never meets a running ban.\<close>

definition log_inv :: "int \<Rightarrow> connRateLimiter \<Rightarrow> bool" where
  "log_inv c l = (\<forall>ip st. ips l ip = Some st \<longrightarrow> lastAccess st \<le> c
     \<and> (blacklisted st = 0 \<or> blacklisted st \<le> lastAccess st + connLogBlacklistDur))"

lemma banned_conn_allow:
  "banned l ip = Some t \<Longrightarrow> now < t \<Longrightarrow> banned (snd (conn_allow ip' now l)) ip = Some t"
  by (cases "ip = ip'") (auto simp: conn_allow_def allow_window_def Let_def split: option.splits)

interpretation conn_ban: ban_list conn_act "\<lambda>_ _. True" banned "\<lambda>_ _. False"
proof (unfold_locales, goal_cases)
  case (2 c s now ip t op)
  then show ?case
    by (cases op) (auto simp: conn_cleanup_def live_ban_def setMaxConns_def banned_conn_allow)
next
  case (3 c s now ip t op ok)
  then show ?case
    by (cases op) (auto simp: conn_allow_def split: prod.splits)
qed simp

lemma log_inv_cleanup: "log_inv c l \<Longrightarrow> log_inv c (cleanupLocked now l)"
  by (auto simp: log_inv_def cleanupLocked_def split: option.splits if_splits)

lemma log_until_cleanup:
  "log_inv c l \<Longrightarrow> c \<le> now \<Longrightarrow> log_until l ip = Some t \<Longrightarrow> now < t \<Longrightarrow> log_until (cleanupLocked now l) ip = Some t"
  by (fastforce simp: log_inv_def log_until_def cleanupLocked_def connLog_consts split: option.splits if_splits)

lemma log_inv_mono: "log_inv c l \<Longrightarrow> c \<le> d \<Longrightarrow> log_inv d l"
  by (fastforce simp: log_inv_def)

text \<open>\<open>shouldLog\<close> behind the cleanup.\<close>

definition log_base :: "int \<Rightarrow> connRateLimiter \<Rightarrow> connRateLimiter" where
  "log_base now l = (if now - lastCleanup l > connLogCleanupEvery then cleanupLocked now l else l)"

lemma log_base_inv [simp]: "log_inv c l \<Longrightarrow> log_inv c (log_base now l)"
  by (simp add: log_base_def log_inv_cleanup)

lemma log_base_until:
  "log_inv c l \<Longrightarrow> c \<le> now \<Longrightarrow> log_until l ip = Some t \<Longrightarrow> now < t \<Longrightarrow> log_until (log_base now l) ip = Some t"
  by (simp add: log_base_def log_until_cleanup)

lemma shouldLog_inv:
  assumes "log_inv c l" and "c \<le> now"
  shows "log_inv now (snd (shouldLog ip now l))"
proof -
  have "log_inv c (log_base now l)" using assms by simp
  with assms(2) show ?thesis
    unfolding shouldLog_def log_base_def [symmetric]
    by (fastforce simp: log_inv_def Let_def connLog_consts split: option.splits)
qed

lemma shouldLog_until:
  assumes "log_inv c l" and "c \<le> now" and "log_until l ip = Some t" and "now < t"
  shows "log_until (snd (shouldLog ip' now l)) ip = Some t" and "ip' = ip \<Longrightarrow> \<not> fst (shouldLog ip' now l)"
  using log_base_until [OF assms] assms(4) unfolding shouldLog_def log_base_def [symmetric]
  by (auto simp: log_until_def Let_def split: option.splits if_splits)

lemma log_inv_remove: "log_inv c l \<Longrightarrow> log_inv c (log_remove ip l)"
  by (auto simp: log_inv_def log_remove_def split: option.splits)

lemma log_inv_clear: "log_inv c l \<Longrightarrow> log_inv c (log_clear l)"
  by (auto simp: log_inv_def log_clear_def)

interpretation log_ban: ban_list log_act log_inv log_until lifts_log
proof (unfold_locales, goal_cases)
  case (1 c s now op)
  then show ?case
    by (cases op) (auto intro: shouldLog_inv log_inv_remove log_inv_clear log_inv_mono)
next
  case (2 c s now ip t op)
  then show ?case
    using shouldLog_until(1) [OF 2(1-4)]
    by (cases op) (auto simp: log_remove_def log_until_def split: option.splits prod.splits)
next
  case (3 c s now ip t op ok)
  then show ?case
    using shouldLog_until(2) [OF 3(1-4)]
    by (cases op) (auto split: prod.splits)
qed

section \<open>Cleaning up changes no verdict\<close>

text \<open>Two limiters are alike from a time on when they have the same live windows and bans.\<close>

definition alike :: "instant \<Rightarrow> connectionRateLimiter \<Rightarrow> connectionRateLimiter \<Rightarrow> bool" where
  "alike now l l' \<longleftrightarrow> (\<forall>ip. live_window now (windows l ip) = live_window now (windows l' ip)
      \<and> live_ban now (banned l ip) = live_ban now (banned l' ip))
     \<and> maxConns l = maxConns l' \<and> windowDur l = windowDur l' \<and> banDur l = banDur l'"

lemma live_later:
  "live_window c x = live_window c y \<Longrightarrow> c \<le> now \<Longrightarrow> live_window now x = live_window now y"
  "live_ban c a = live_ban c b \<Longrightarrow> c \<le> now \<Longrightarrow> live_ban now a = live_ban now b"
  by (auto simp: live_window_def live_ban_def split: option.splits if_splits)

lemma alike_later: "alike c l l' \<Longrightarrow> c \<le> now \<Longrightarrow> alike now l l'"
  unfolding alike_def using live_later by blast

lemma alike_cleanup: "alike now l l' \<Longrightarrow> alike now (conn_cleanup now l) l'"
  by (auto simp: alike_def conn_cleanup_def live_window_def live_ban_def split: option.splits if_splits)

text \<open>\<open>conn_allow\<close> reads only the live entries of its address.\<close>

lemma conn_allow_live:
  "conn_allow ip now l =
     (case live_ban now (banned l ip) of
        Some until \<Rightarrow> (False, l)
      | None \<Rightarrow>
         (case live_window now (windows l ip) of
            None \<Rightarrow> (True, l\<lparr>banned := (banned l)(ip := None),
                     windows := (windows l)(ip \<mapsto> \<lparr>cw_count = 1, cw_resetAt = now + windowDur l\<rparr>)\<rparr>)
          | Some w \<Rightarrow>
             if cw_count w + 1 > maxConns l
             then (False, l\<lparr>banned := (banned l)(ip \<mapsto> now + banDur l), windows := (windows l)(ip := None)\<rparr>)
             else (True, l\<lparr>banned := (banned l)(ip := None),
                     windows := (windows l)(ip \<mapsto> w\<lparr>cw_count := cw_count w + 1\<rparr>)\<rparr>)))"
  by (auto simp: conn_allow_def allow_window_def live_ban_def live_window_def Let_def fun_upd_idem
      split: option.splits)

lemma alike_allow:
  assumes "alike now l l'"
  shows "fst (conn_allow ip now l) = fst (conn_allow ip now l')"
    and "alike now (snd (conn_allow ip now l)) (snd (conn_allow ip now l'))"
proof -
  have eq: "live_window now (windows l ip) = live_window now (windows l' ip)"
    "live_ban now (banned l ip) = live_ban now (banned l' ip)" "maxConns l = maxConns l'"
    "windowDur l = windowDur l'" "banDur l = banDur l'"
    using assms by (auto simp: alike_def)
  show "fst (conn_allow ip now l) = fst (conn_allow ip now l')"
    by (simp add: conn_allow_live eq split: option.splits)
  show "alike now (snd (conn_allow ip now l)) (snd (conn_allow ip now l'))"
    using assms by (auto simp: conn_allow_live eq alike_def split: option.splits)
qed

lemma alike_runs:
  "alike c l l' \<Longrightarrow> from_time c ops
    \<Longrightarrow> run_log conn_act ops l = run_log conn_act (filter (\<lambda>(_, op). op \<noteq> CleanupConns) ops) l'"
proof (induction ops arbitrary: c l l')
  case (Cons x ops)
  obtain now op where x: "x = (now, op)" by fastforce
  have at: "alike now l l'" and rest: "from_time now ops"
    using Cons.prems alike_later by (auto simp: x)
  show ?case
  proof (cases op)
    case (AskConn ip)
    have "run_log conn_act ops (snd (conn_allow ip now l))
        = run_log conn_act (filter (\<lambda>(_, op). op \<noteq> CleanupConns) ops) (snd (conn_allow ip now l'))"
      by (rule Cons.IH [OF alike_allow(2) [OF at] rest])
    then show ?thesis
      using alike_allow(1) [OF at, of ip] by (auto simp: x AskConn split: prod.splits)
  next
    case CleanupConns
    then show ?thesis using Cons.IH [OF alike_cleanup [OF at] rest] by (simp add: x)
  next
    case (SetMaxConns n)
    have "alike now (setMaxConns n l) (setMaxConns n l')"
      using at by (auto simp: alike_def setMaxConns_def)
    from Cons.IH [OF this rest] show ?thesis by (simp add: x SetMaxConns)
  qed
qed simp

section \<open>Connections within one window length\<close>

text \<open>What an address may still open before the time \<open>e\<close>, one window length after the start of an
  observation.\<close>

definition budget :: "int \<Rightarrow> instant \<Rightarrow> string \<Rightarrow> connectionRateLimiter \<Rightarrow> int" where
  "budget M e ip l =
     (case banned l ip of
        Some until \<Rightarrow> if e \<le> until then 0 else M
      | None \<Rightarrow> (case windows l ip of
           None \<Rightarrow> M
         | Some w \<Rightarrow> if e \<le> cw_resetAt w then M - cw_count w else (M - cw_count w) + M))"

text \<open>At most \<open>M\<close> connections are counted in a window, and a banned address has none.\<close>

definition conn_inv :: "int \<Rightarrow> connectionRateLimiter \<Rightarrow> bool" where
  "conn_inv M l \<longleftrightarrow> 1 \<le> M \<and> maxConns l \<le> M \<and> windowDur l \<le> banDur l
     \<and> (\<forall>ip. banned l ip \<noteq> None \<longrightarrow> windows l ip = None)
     \<and> (\<forall>ip w. windows l ip = Some w \<longrightarrow> 1 \<le> cw_count w \<and> cw_count w \<le> M)"

lemma conn_inv_act [intro]:
  "conn_inv M l \<Longrightarrow> (\<forall>n. op = SetMaxConns n \<longrightarrow> n \<le> M) \<Longrightarrow> conn_inv M (snd (conn_act op now l))"
  by (cases op) (force simp: conn_inv_def conn_allow_def allow_window_def conn_cleanup_def setMaxConns_def
      live_window_def live_ban_def Let_def split: option.splits if_splits)+

lemma budget_bounds: "conn_inv M l \<Longrightarrow> 0 \<le> budget M e ip l \<and> budget M e ip l \<le> 2 * M"
  by (force simp: conn_inv_def budget_def split: option.splits)

lemma budget_act:
  assumes "conn_inv M l" and "now < e" and "e \<le> now + windowDur l"
  shows "(if fst (conn_act op now l) = Some (ip, True) then 1 else 0) + budget M e ip (snd (conn_act op now l))
    \<le> budget M e ip l"
proof (cases op)
  case (AskConn ip')
  show ?thesis
  proof (cases "ip' = ip")
    case True
    then show ?thesis
      using assms by (force simp: AskConn conn_inv_def budget_def conn_allow_def allow_window_def Let_def
          split: option.splits)
  next
    case False
    then show ?thesis
      by (auto simp: AskConn budget_def conn_allow_def allow_window_def Let_def split: option.splits)
  qed
next
  case CleanupConns
  then show ?thesis
    using assms by (force simp: conn_inv_def budget_def conn_cleanup_def live_ban_def live_window_def
        split: option.splits)
next
  case (SetMaxConns n)
  then show ?thesis by (simp add: setMaxConns_def budget_def split: option.splits)
qed

text \<open>The number of connections of an address that were let in.\<close>

definition admitted :: "string \<Rightarrow> (int \<times> string \<times> bool) list \<Rightarrow> int" where
  "admitted ip vs = int (length (filter (\<lambda>(_, ip', ok). ip' = ip \<and> ok) vs))"

lemma windowDur_act [simp]: "windowDur (snd (conn_act op now l)) = windowDur l"
  by (cases op) (auto simp: conn_allow_def allow_window_def conn_cleanup_def setMaxConns_def Let_def
      split: option.splits)

lemma admitted_budget:
  assumes "conn_inv M l" and "from_time c ops" and "e \<le> c + windowDur l"
    and "\<forall>(now, op) \<in> set ops. now < e \<and> (\<forall>n. op = SetMaxConns n \<longrightarrow> n \<le> M)"
  shows "admitted ip (run_log conn_act ops l) \<le> budget M e ip l"
  using assms
proof (induction ops arbitrary: c l)
  case Nil
  then show ?case using budget_bounds [of M l e ip] by (simp add: admitted_def)
next
  case (Cons x ops)
  obtain now op where x: "x = (now, op)" by fastforce
  obtain v l' where a: "conn_act op now l = (v, l')" by fastforce
  have l': "conn_inv M l'" "windowDur l' = windowDur l"
    using conn_inv_act [of M l op now] windowDur_act [of op now l] Cons.prems by (auto simp: x a)
  have "admitted ip (run_log conn_act ops l') \<le> budget M e ip l'"
    using Cons.prems l' by (intro Cons.IH [of l' now]) (auto simp: x)
  moreover have "(if v = Some (ip, True) then 1 else 0) + budget M e ip l' \<le> budget M e ip l"
    using budget_act [of M l now e op ip] Cons.prems by (auto simp: x a)
  ultimately show ?case
    by (auto simp: x a admitted_def split: option.splits)
qed

lemma conn_inv_new: "1 \<le> M \<Longrightarrow> n \<le> M \<Longrightarrow> w \<le> b \<Longrightarrow> conn_inv M (newConnectionRateLimiter n w b)"
  by (simp add: conn_inv_def newConnectionRateLimiter_def)

lemma conn_inv_run:
  "conn_inv M l \<Longrightarrow> \<forall>(now, op) \<in> set ops. (\<forall>n. op = SetMaxConns n \<longrightarrow> n \<le> M) \<Longrightarrow> conn_inv M (run_state conn_act ops l)"
proof (induction ops arbitrary: l)
  case (Cons x ops)
  then show ?case by (cases x) (auto intro!: Cons.IH conn_inv_act)
qed simp

section \<open>Properties\<close>

text \<open>A ban holds.  As long as the ban of an address has not run out, whatever other addresses
  ask for, however often the address itself tries, and whenever the tables are cleaned up or the
  limit is changed, the listener refuses every connection of the address; and the connection log
  suppresses it as long as no operator lifts the ban.\<close>

theorem bans_hold:
  assumes "from_time c ops" "\<forall>(now, op) \<in> set ops. now < t" "banned l ip = Some t"
    and "from_time c logops" "\<forall>(now, op) \<in> set logops. now < u \<and> \<not> lifts_log ip op"
    and "log_inv c g" "log_until g ip = Some u"
  shows "(now, ip, True) \<notin> set (run_log conn_act ops l) \<and> (now, ip, True) \<notin> set (run_log log_act logops g)"
proof -
  have "\<forall>(now, op) \<in> set ops. now < t \<and> \<not> False" using assms(2) by auto
  then show ?thesis
    using conn_ban.ban_enforced [OF _ assms(1,3), of now True] log_ban.ban_enforced [OF assms(6,4,7,5), of now True] by auto
qed

theorem bans_hold_witness:
  "(25, ''a'', True) \<notin> set (run_log conn_act [(20, CleanupConns), (25, AskConn ''a'')]
      (run_state conn_act [(0, AskConn ''a''), (1, AskConn ''a'')] (newConnectionRateLimiter 1 10 30)))
    \<and> (25, ''a'', True) \<notin> set (run_log log_act [(25, AskLog ''a'')]
      \<lparr>ips = [''a'' \<mapsto> \<lparr>timestamps = [], blacklisted = 3600010, lastAccess = 10\<rparr>], lastCleanup = 0\<rparr>)"
  by (rule bans_hold [where c = 20 and t = 31 and u = 3600010])
    (auto simp: newConnectionRateLimiter_def conn_allow_def allow_window_def log_inv_def connLog_consts log_until_def)

text \<open>The periodic cleanup is invisible: removing every cleanup from a sequence of requests (in
  the order of time) changes no verdict.\<close>

theorem cleanup_changes_no_verdict:
  assumes "from_time c ops"
  shows "run_log conn_act ops l = run_log conn_act (filter (\<lambda>(_, op). op \<noteq> CleanupConns) ops) l"
  using assms by (intro alike_runs) (simp_all add: alike_def)

theorem cleanup_changes_no_verdict_witness:
  "run_log conn_act [(1, AskConn ''a''), (20, CleanupConns), (21, AskConn ''a'')] (newConnectionRateLimiter 1 10 30)
    = run_log conn_act [(1, AskConn ''a''), (21, AskConn ''a'')] (newConnectionRateLimiter 1 10 30)"
  by (subst cleanup_changes_no_verdict [of 0]) simp_all

text \<open>Within any stretch of time as long as a window, whatever happened before, at most twice the
  limit of connections of one address is let in.  (The windows are fixed, not sliding, so once the
  limit is not the bound.)\<close>

theorem connections_per_window:
  assumes "1 \<le> M" "n \<le> M" "w \<le> b"
    and "\<forall>(now, op) \<in> set (before @ during). \<forall>m. op = SetMaxConns m \<longrightarrow> m \<le> M"
    and "from_time c during" "\<forall>(now, op) \<in> set during. now < c + w"
  shows "admitted ip (run_log conn_act during (run_state conn_act before (newConnectionRateLimiter n w b))) \<le> 2 * M"
proof -
  let ?l = "run_state conn_act before (newConnectionRateLimiter n w b)"
  have inv: "conn_inv M ?l" using assms(4) by (intro conn_inv_run conn_inv_new assms) auto
  have dur: "windowDur (run_state conn_act ops l) = windowDur l" for ops l
  proof (induction ops arbitrary: l)
    case (Cons x ops)
    then show ?case by (cases x) simp
  qed simp
  have "admitted ip (run_log conn_act during ?l) \<le> budget M (c + w) ip ?l"
    using assms(4-6) by (intro admitted_budget [OF inv]) (auto simp: dur newConnectionRateLimiter_def)
  then show ?thesis using budget_bounds [OF inv, of "c + w" ip] by linarith
qed

theorem connections_per_window_witness:
  "admitted ''a'' (run_log conn_act [(9, AskConn ''a''), (10, AskConn ''a'')]
     (run_state conn_act [(0, AskConn ''a'')] (newConnectionRateLimiter 2 10 30))) \<le> 2 * 2"
  by (rule connections_per_window [where c = 9]) auto

end
