(* ===== verification/Net_Accept.thy ===== *)
theory Net_Accept
  imports Conn_Limits
begin


text \<open>The value of an \<open>int32\<close> after an addition.\<close>

definition int32 :: "int \<Rightarrow> int" where "int32 n = signed_take_bit 31 n"


datatype accept_phase = Accepting | Claimed int string | Refused

record TcpServer =
  connLimiter :: connectionRateLimiter
  activeConns :: int
  accept_loops :: "accept_phase list"
  running :: nat


definition admit_claim :: "nat \<Rightarrow> string \<Rightarrow> TcpServer \<Rightarrow> TcpServer" where
  "admit_claim i ip s =
     (let n = int32 (activeConns s + 1)
      in s\<lparr>activeConns := n, accept_loops := (accept_loops s)[i := Claimed n ip]\<rparr>)"

text \<open>The two tests of \<open>admit\<close> behind the addition: the limit of connections, then the limiter.  An
  admitted connection starts a session and the loop goes on.\<close>

definition admit_check :: "int \<Rightarrow> (string \<Rightarrow> bool) \<Rightarrow> nat \<Rightarrow> int \<Rightarrow> string \<Rightarrow> instant \<Rightarrow> TcpServer \<Rightarrow> TcpServer" where
  "admit_check cap isLoopbackHost i n ip now s =
     (if cap \<ge> 1 \<and> n > cap then s\<lparr>accept_loops := (accept_loops s)[i := Refused]\<rparr>
      else if isLoopbackHost ip
      then s\<lparr>accept_loops := (accept_loops s)[i := Accepting], running := running s + 1\<rparr>
      else case conn_allow ip now (connLimiter s) of
          (False, l) \<Rightarrow> s\<lparr>connLimiter := l, accept_loops := (accept_loops s)[i := Refused]\<rparr>
        | (True, l) \<Rightarrow> s\<lparr>connLimiter := l, accept_loops := (accept_loops s)[i := Accepting],
                        running := running s + 1\<rparr>)"

definition give_back :: "nat \<Rightarrow> TcpServer \<Rightarrow> TcpServer" where
  "give_back i s = s\<lparr>activeConns := int32 (activeConns s - 1), accept_loops := (accept_loops s)[i := Accepting]\<rparr>"

definition session_end :: "TcpServer \<Rightarrow> TcpServer" where
  "session_end s = s\<lparr>activeConns := int32 (activeConns s - 1), running := running s - 1\<rparr>"

definition cleanup_tick :: "instant \<Rightarrow> TcpServer \<Rightarrow> TcpServer" where
  "cleanup_tick now s = s\<lparr>connLimiter := conn_cleanup now (connLimiter s)\<rparr>"

definition reload_rate :: "int \<Rightarrow> TcpServer \<Rightarrow> TcpServer" where
  "reload_rate n s = s\<lparr>connLimiter := setMaxConns n (connLimiter s)\<rparr>"

lemmas accept_defs = admit_claim_def admit_check_def give_back_def session_end_def cleanup_tick_def
  reload_rate_def



section \<open>Every place is accounted for\<close>














section \<open>Properties\<close>



end
