(* ===== verification/Token_Buckets.thy ===== *)
theory Token_Buckets
  imports Wire_Commands Conn_Limits Go_Float
begin

text \<open>
  The limiter of the commands of a session (\<open>network/ratelimit.go\<close>): two token buckets in
  \<open>float64\<close>, whose operations round as in \<open>Go_Float\<close>; the comparisons are exact.  Times are in
  nanoseconds.
\<close>

section \<open>The limiter\<close>

datatype rateCategory = catNone | catChat | catAPI | catRoom

fun categorize :: "ClientCommand \<Rightarrow> rateCategory" where
  "categorize (CmdChat _) = catChat"
| "categorize (CmdSelectChart _) = catAPI"
| "categorize (CmdPlayed _) = catAPI"
| "categorize (CmdCreateRoom _) = catRoom"
| "categorize (CmdJoinRoom _ _) = catRoom"
| "categorize CmdLeaveRoom = catRoom"
| "categorize (CmdLockRoom _) = catRoom"
| "categorize (CmdCycleRoom _) = catRoom"
| "categorize CmdRequestStart = catRoom"
| "categorize CmdReady = catRoom"
| "categorize CmdCancelReady = catRoom"
| "categorize CmdAbort = catRoom"
| "categorize _ = catNone"

record bucketSpec =
  capacity :: rat
  refillPerSec :: rat

definition opSpec :: bucketSpec where "opSpec = \<lparr>capacity = 2, refillPerSec = 2\<rparr>"
definition totalSpec :: bucketSpec where "totalSpec = \<lparr>capacity = 15, refillPerSec = 15\<rparr>"

record bucket =
  tokens :: rat
  last_refill :: instant

record commandRateLimiter =
  opBucket :: bucket
  totalBucket :: bucket

definition newCommandRateLimiter :: "instant \<Rightarrow> commandRateLimiter" where
  "newCommandRateLimiter now =
     \<lparr>opBucket = \<lparr>tokens = capacity opSpec, last_refill = now\<rparr>,
      totalBucket = \<lparr>tokens = capacity totalSpec, last_refill = now\<rparr>\<rparr>"

text \<open>\<open>Duration.Seconds\<close> of a positive duration: the whole seconds plus the rounded fraction.\<close>

definition Seconds :: "int \<Rightarrow> rat" where
  "Seconds d = rnd64 (of_int (d div 1000000000) + rnd64 (of_int (d mod 1000000000) / 1000000000))"

definition refill :: "bucketSpec \<Rightarrow> instant \<Rightarrow> bucket \<Rightarrow> bucket" where
  "refill spec now b =
     (if now - last_refill b > 0
      then \<lparr>tokens = min (capacity spec)
              (rnd64 (tokens b + rnd64 (Seconds (now - last_refill b) * refillPerSec spec))),
            last_refill = now\<rparr>
      else b)"

definition consume :: "bucketSpec \<Rightarrow> instant \<Rightarrow> bucket \<Rightarrow> bool \<times> bucket" where
  "consume spec now b =
     (let b = refill spec now b
      in if tokens b \<ge> 1 then (True, b\<lparr>tokens := rnd64 (tokens b - 1)\<rparr>) else (False, b))"

definition cmd_allow :: "rateCategory \<Rightarrow> instant \<Rightarrow> commandRateLimiter \<Rightarrow> bool \<times> commandRateLimiter" where
  "cmd_allow cat now l =
     (case consume totalSpec now (totalBucket l) of
        (False, b) \<Rightarrow> (False, l\<lparr>totalBucket := b\<rparr>)
      | (True, b) \<Rightarrow>
          if cat = catNone then (True, l\<lparr>totalBucket := b\<rparr>)
          else case consume opSpec now (opBucket l) of
              (ok, b') \<Rightarrow> (ok, l\<lparr>totalBucket := b, opBucket := b'\<rparr>))"

text \<open>The answer to a refused command; the text is \<open>l10n.TL(lang, "command-rate-limited", nil)\<close>.\<close>

fun rateLimitedResponse :: "string \<Rightarrow> ClientCommand \<Rightarrow> ServerCommand option" where
  "rateLimitedResponse msg (CmdChat _) = Some (SrvChat (Errr msg))"
| "rateLimitedResponse msg (CmdCreateRoom _) = Some (SrvCreateRoom (Errr msg))"
| "rateLimitedResponse msg (CmdJoinRoom _ _) = Some (SrvJoinRoom (Errr msg))"
| "rateLimitedResponse msg CmdLeaveRoom = Some (SrvLeaveRoom (Errr msg))"
| "rateLimitedResponse msg (CmdLockRoom _) = Some (SrvLockRoom (Errr msg))"
| "rateLimitedResponse msg (CmdCycleRoom _) = Some (SrvCycleRoom (Errr msg))"
| "rateLimitedResponse msg (CmdSelectChart _) = Some (SrvSelectChart (Errr msg))"
| "rateLimitedResponse msg CmdRequestStart = Some (SrvRequestStart (Errr msg))"
| "rateLimitedResponse msg CmdReady = Some (SrvReady (Errr msg))"
| "rateLimitedResponse msg CmdCancelReady = Some (SrvCancelReady (Errr msg))"
| "rateLimitedResponse msg (CmdPlayed _) = Some (SrvPlayed (Errr msg))"
| "rateLimitedResponse msg CmdAbort = Some (SrvAbort (Errr msg))"
| "rateLimitedResponse msg _ = None"

section \<open>What a bucket lets through\<close>

text \<open>The buckets of the server are small, so a call loses less than \<open>slack\<close> to rounding.\<close>

definition slack :: rat where "slack = 1 / 2 ^ 44"

lemma slack_ulp: "slack = 512 * ulp"
  by (simp add: slack_def ulp_def)

definition small_spec :: "bucketSpec \<Rightarrow> bool" where
  "small_spec spec \<longleftrightarrow> 1 \<le> capacity spec \<and> capacity spec \<le> 16 \<and> 0 \<le> refillPerSec spec \<and> refillPerSec spec \<le> 16"

definition bucket_ok :: "bucketSpec \<Rightarrow> bucket \<Rightarrow> bool" where
  "bucket_ok spec b \<longleftrightarrow> 0 \<le> tokens b \<and> tokens b \<le> capacity spec"

definition secs :: "int \<Rightarrow> rat" where "secs d = of_int d / 1000000000"

lemma secs_split: "of_int (d div 1000000000) + of_int (d mod 1000000000) / 1000000000 = secs d"
proof -
  have "d = d div 1000000000 * 1000000000 + d mod 1000000000" by simp
  then have "(of_int d :: rat) = of_int (d div 1000000000) * 1000000000 + of_int (d mod 1000000000)"
    by (metis of_int_add of_int_mult of_int_numeral)
  then show ?thesis by (simp add: secs_def field_simps)
qed

lemma Seconds_bounds:
  assumes "0 \<le> d"
  shows "0 \<le> Seconds d" and "Seconds d \<le> (secs d + ulp) * (1 + ulp)"
proof -
  define q r where "q = (of_int (d div 1000000000) :: rat)" and "r = (of_int (d mod 1000000000) / 1000000000 :: rat)"
  have q: "0 \<le> q" using assms by (simp add: q_def pos_imp_zdiv_nonneg_iff)
  have "(of_int (d mod 1000000000) :: rat) \<le> of_int 1000000000"
    unfolding of_int_le_iff by (simp add: less_imp_le)
  then have r: "0 \<le> r" "r \<le> 1" by (simp_all add: r_def divide_le_eq_1)
  have "r * ulp \<le> 1 * ulp" using r by (intro mult_right_mono) auto
  then have fr: "rnd64 r \<le> r + ulp" "0 \<le> rnd64 r"
    using rnd64_upper [OF r(1)] distrib_left [of r 1 ulp] by linarith+
  have "Seconds d \<le> (q + rnd64 r) * (1 + ulp)"
    using rnd64_upper(1) [of "q + rnd64 r"] q fr by (simp add: Seconds_def q_def r_def)
  also have "\<dots> \<le> (secs d + ulp) * (1 + ulp)"
    using fr by (intro mult_right_mono) (auto simp: secs_split [symmetric] q_def r_def add.assoc)
  finally show "Seconds d \<le> (secs d + ulp) * (1 + ulp)" .
  show "0 \<le> Seconds d" unfolding Seconds_def using q fr by (intro rnd64_upper(2)) (auto simp: q_def r_def)
qed

lemma rounding_chain:
  fixes a t u :: rat
  assumes "0 \<le> a" "a \<le> 16" "0 \<le> t" "t \<le> 16" "0 \<le> u" "u * 512 \<le> 1"
  shows "(t + (a + 16 * u) * (1 + u) * (1 + u)) * (1 + u) \<le> t + a + 256 * u"
proof -
  have sq: "u * u \<le> u" using assms by (intro mult_left_le) auto
  have "u * u * u \<le> u * u" "u * u * u * u \<le> u * u * u"
    using mult_right_mono [OF sq \<open>0 \<le> u\<close>] mult_right_mono [OF mult_right_mono [OF sq \<open>0 \<le> u\<close>] \<open>0 \<le> u\<close>] by auto
  with sq have u1: "u * u \<le> u" "u * u * u \<le> u" "u * u * u * u \<le> u" by auto
  have au: "a * u \<le> 16 * u" "a * (u * u) \<le> 16 * (u * u)" "a * (u * u * u) \<le> 16 * (u * u * u)" "t * u \<le> 16 * u"
    using assms by (auto intro!: mult_right_mono)
  have "(t + (a + 16 * u) * (1 + u) * (1 + u)) * (1 + u)
      = t + a + t * u + 3 * (a * u) + 3 * (a * (u * u)) + a * (u * u * u) + 16 * u
        + 48 * (u * u) + 48 * (u * u * u) + 16 * (u * u * u * u)"
    by (simp add: algebra_simps)
  also have "\<dots> \<le> t + a + 256 * u"
    using au u1 by linarith
  finally show ?thesis .
qed

lemma refill_ok: "small_spec spec \<Longrightarrow> bucket_ok spec b \<Longrightarrow> bucket_ok spec (refill spec now b)"
  using Seconds_bounds(1) [of "now - last_refill b"]
  by (auto simp: bucket_ok_def refill_def small_spec_def intro!: rnd64_upper(2) add_nonneg_nonneg mult_nonneg_nonneg)

lemma refill_tokens:
  assumes spec: "small_spec spec" and ok: "bucket_ok spec b" and later: "last_refill b < now"
  shows "tokens (refill spec now b) \<le> tokens b + refillPerSec spec * secs (now - last_refill b) + 256 * ulp"
proof -
  define d where "d = now - last_refill b"
  define a where "a = secs d * refillPerSec spec"
  have r: "0 \<le> refillPerSec spec" "refillPerSec spec \<le> 16" and t: "0 \<le> tokens b" "tokens b \<le> 16"
    using spec ok by (auto simp: small_spec_def bucket_ok_def)
  have d: "0 \<le> d" using later by (simp add: d_def)
  have a: "0 \<le> a" using r d by (simp add: a_def secs_def)
  have new: "tokens (refill spec now b) = min (capacity spec) (rnd64 (tokens b + rnd64 (Seconds d * refillPerSec spec)))"
    using later by (simp add: refill_def d_def)
  show ?thesis
  proof (cases "a \<le> 16")
    case True
    have S: "0 \<le> Seconds d * refillPerSec spec" using Seconds_bounds(1) [OF d] r by simp
    have "Seconds d * refillPerSec spec \<le> (secs d + ulp) * (1 + ulp) * refillPerSec spec"
      using Seconds_bounds(2) [OF d] r by (intro mult_right_mono)
    also have "\<dots> = (a + refillPerSec spec * ulp) * (1 + ulp)" by (simp add: a_def algebra_simps)
    also have "\<dots> \<le> (a + 16 * ulp) * (1 + ulp)"
      using r by (intro mult_right_mono add_left_mono) auto
    finally have "Seconds d * refillPerSec spec * (1 + ulp) \<le> (a + 16 * ulp) * (1 + ulp) * (1 + ulp)"
      by (intro mult_right_mono) auto
    then have F: "rnd64 (Seconds d * refillPerSec spec) \<le> (a + 16 * ulp) * (1 + ulp) * (1 + ulp)"
      using rnd64_upper(1) [OF S] by linarith
    have "rnd64 (tokens b + rnd64 (Seconds d * refillPerSec spec))
        \<le> (tokens b + rnd64 (Seconds d * refillPerSec spec)) * (1 + ulp)"
      using t rnd64_upper(2) [OF S] by (intro rnd64_upper(1)) auto
    also have "\<dots> \<le> (tokens b + (a + 16 * ulp) * (1 + ulp) * (1 + ulp)) * (1 + ulp)"
      using F by (intro mult_right_mono) auto
    also have "\<dots> \<le> tokens b + a + 256 * ulp"
      by (rule rounding_chain [OF a True t]) (use ulp_small in auto)
    finally show ?thesis by (simp add: new a_def d_def mult.commute)
  next
    case False
    then have "capacity spec \<le> tokens b + a + 256 * ulp"
      using spec t ulp_pos(1) unfolding small_spec_def by linarith
    then show ?thesis by (simp add: new a_def d_def mult.commute)
  qed
qed

text \<open>One call: the tokens that are left and the command that was let through are paid for by the
  tokens before and by the time that passed.\<close>

lemma consume_pays:
  assumes spec: "small_spec spec" and ok: "bucket_ok spec b"
  shows "bucket_ok spec (snd (consume spec now b))"
    and "last_refill (snd (consume spec now b)) = max (last_refill b) now"
    and "(if fst (consume spec now b) then 1 else 0) + tokens (snd (consume spec now b))
      \<le> tokens b + refillPerSec spec * secs (max (last_refill b) now - last_refill b) + slack"
    and "(if fst (consume spec now b) then 1 else 0) + tokens (snd (consume spec now b)) \<le> capacity spec + slack"
proof -
  define b' where "b' = refill spec now b"
  have ok': "bucket_ok spec b'" using refill_ok [OF spec ok] by (simp add: b'_def)
  have last: "last_refill b' = max (last_refill b) now" by (auto simp: b'_def refill_def)
  have gain: "tokens b' \<le> tokens b + refillPerSec spec * secs (max (last_refill b) now - last_refill b) + 256 * ulp"
    using refill_tokens [OF spec ok, of now] by (auto simp: b'_def refill_def max_def secs_def)
  have le: "tokens b' \<le> capacity spec" "tokens b' \<le> 16" using ok' spec by (auto simp: bucket_ok_def small_spec_def)
  have pay: "1 + rnd64 (tokens b' - 1) \<le> tokens b' + 16 * ulp" and pos: "0 \<le> rnd64 (tokens b' - 1)"
    if "1 \<le> tokens b'"
  proof -
    have nn: "0 \<le> tokens b' - 1" using that by simp
    define y where "y = (tokens b' - 1) * ulp"
    have "y \<le> 16 * ulp" unfolding y_def using le by (intro mult_right_mono) auto
    moreover have "rnd64 (tokens b' - 1) \<le> (tokens b' - 1) + y"
      using rnd64_upper(1) [OF nn] by (simp add: y_def distrib_left)
    ultimately show "1 + rnd64 (tokens b' - 1) \<le> tokens b' + 16 * ulp" by linarith
  qed (use that in \<open>auto intro: rnd64_upper(2)\<close>)
  have total: "(if fst (consume spec now b) then 1 else 0) + tokens (snd (consume spec now b)) \<le> tokens b' + 16 * ulp"
    using pay by (auto simp: consume_def b'_def [symmetric] Let_def)
  show "bucket_ok spec (snd (consume spec now b))"
    using ok' pos pay le ulp_small
    by (fastforce simp: consume_def b'_def [symmetric] Let_def bucket_ok_def)
  show "last_refill (snd (consume spec now b)) = max (last_refill b) now"
    using last by (simp add: consume_def b'_def [symmetric] Let_def)
  show "(if fst (consume spec now b) then 1 else 0) + tokens (snd (consume spec now b))
      \<le> tokens b + refillPerSec spec * secs (max (last_refill b) now - last_refill b) + slack"
    using total gain slack_ulp ulp_pos(1) by linarith
  show "(if fst (consume spec now b) then 1 else 0) + tokens (snd (consume spec now b)) \<le> capacity spec + slack"
    using total le(1) slack_ulp ulp_pos(1) by linarith
qed

section \<open>Sequences of calls\<close>

fun granted :: "bucketSpec \<Rightarrow> instant list \<Rightarrow> bucket \<Rightarrow> nat" where
  "granted spec [] b = 0"
| "granted spec (now # nows) b =
     (if fst (consume spec now b) then 1 else 0) + granted spec nows (snd (consume spec now b))"

text \<open>The contract of a bucket whose specification is small.\<close>

locale token_bucket =
  fixes spec :: bucketSpec
  assumes small: "small_spec spec"
begin

lemma granted_since:
  assumes "bucket_ok spec b" and "last_refill b \<le> e" and "\<forall>now \<in> set nows. now \<le> e"
  shows "of_nat (granted spec nows b) \<le> tokens b + refillPerSec spec * secs (e - last_refill b) + of_nat (length nows) * slack"
  using assms
proof (induction nows arbitrary: b)
  case Nil
  have "0 \<le> tokens b" "0 \<le> refillPerSec spec * secs (e - last_refill b)"
    using Nil small by (auto simp: bucket_ok_def small_spec_def secs_def)
  then show ?case by simp
next
  case (Cons now nows)
  define b' where "b' = snd (consume spec now b)"
  note pays = consume_pays [OF small Cons.prems(1), of now, folded b'_def]
  have "of_nat (granted spec nows b') \<le> tokens b' + refillPerSec spec * secs (e - last_refill b') + of_nat (length nows) * slack"
    using Cons.prems pays by (intro Cons.IH) auto
  moreover have "refillPerSec spec * secs (e - last_refill b')
      + refillPerSec spec * secs (last_refill b' - last_refill b) = refillPerSec spec * secs (e - last_refill b)"
    by (simp add: secs_def field_simps)
  ultimately show ?case
    using pays(2,3) by (auto simp: b'_def [symmetric] distrib_right split: if_splits)
qed

lemma granted_within:
  assumes "bucket_ok spec b" and "last_refill b \<le> s" and "s \<le> e" and "\<forall>now \<in> set nows. s \<le> now \<and> now \<le> e"
  shows "of_nat (granted spec nows b) \<le> capacity spec + refillPerSec spec * secs (e - s) + of_nat (length nows) * slack"
proof (cases nows)
  case Nil
  then show ?thesis using small assms(3) by (auto simp: small_spec_def secs_def)
next
  case (Cons now rest)
  define b' where "b' = snd (consume spec now b)"
  note pays = consume_pays [OF small assms(1), of now, folded b'_def]
  have rest: "of_nat (granted spec rest b') \<le> tokens b' + refillPerSec spec * secs (e - last_refill b') + of_nat (length rest) * slack"
    using assms(2-4) pays by (intro granted_since) (auto simp: Cons)
  have "refillPerSec spec * secs (e - last_refill b') \<le> refillPerSec spec * secs (e - s)"
    using small assms(4) pays(2)
    by (intro mult_left_mono) (auto simp: secs_def small_spec_def Cons divide_right_mono)
  then show ?thesis
    using rest pays(4) by (auto simp: Cons b'_def [symmetric] distrib_right split: if_splits)
qed

end

interpretation op_bucket: token_bucket opSpec
  by unfold_locales (simp add: small_spec_def opSpec_def)

interpretation total_bucket: token_bucket totalSpec
  by unfold_locales (simp add: small_spec_def totalSpec_def)

text \<open>A session asks its limiter once per command.\<close>

fun cmd_verdicts :: "(instant \<times> ClientCommand) list \<Rightarrow> commandRateLimiter \<Rightarrow> (ClientCommand \<times> bool) list" where
  "cmd_verdicts [] l = []"
| "cmd_verdicts ((now, cmd) # cmds) l =
     (cmd, fst (cmd_allow (categorize cmd) now l)) # cmd_verdicts cmds (snd (cmd_allow (categorize cmd) now l))"

fun cmd_state :: "(instant \<times> ClientCommand) list \<Rightarrow> commandRateLimiter \<Rightarrow> commandRateLimiter" where
  "cmd_state [] l = l"
| "cmd_state ((now, cmd) # cmds) l = cmd_state cmds (snd (cmd_allow (categorize cmd) now l))"

definition passed :: "(ClientCommand \<times> bool) list \<Rightarrow> nat" where
  "passed vs = length (filter snd vs)"

definition passed_ops :: "(ClientCommand \<times> bool) list \<Rightarrow> nat" where
  "passed_ops vs = length (filter (\<lambda>(cmd, ok). ok \<and> categorize cmd \<noteq> catNone) vs)"

lemma cmd_allow_total: "totalBucket (snd (cmd_allow cat now l)) = snd (consume totalSpec now (totalBucket l))"
  "fst (cmd_allow cat now l) \<Longrightarrow> fst (consume totalSpec now (totalBucket l))"
  by (auto simp: cmd_allow_def split: prod.splits bool.splits if_splits)

lemma passed_granted: "passed (cmd_verdicts cmds l) \<le> granted totalSpec (map fst cmds) (totalBucket l)"
proof (induction cmds arbitrary: l)
  case (Cons x cmds)
  obtain now cmd where x: "x = (now, cmd)" by fastforce
  show ?case
    using Cons.IH [of "snd (cmd_allow (categorize cmd) now l)"] cmd_allow_total(2) [of "categorize cmd" now l]
    by (auto simp: x passed_def cmd_allow_total(1))
qed (simp add: passed_def)

lemma passed_ops_granted:
  "\<exists>nows. set nows \<subseteq> fst ` set cmds \<and> length nows \<le> length cmds
     \<and> passed_ops (cmd_verdicts cmds l) = granted opSpec nows (opBucket l)"
proof (induction cmds arbitrary: l)
  case (Cons x cmds)
  obtain now cmd where x: "x = (now, cmd)" by fastforce
  let ?l = "snd (cmd_allow (categorize cmd) now l)"
  obtain nows where nows: "set nows \<subseteq> fst ` set cmds" "length nows \<le> length cmds"
    "passed_ops (cmd_verdicts cmds ?l) = granted opSpec nows (opBucket ?l)"
    using Cons.IH by blast
  show ?case
  proof (cases "fst (consume totalSpec now (totalBucket l)) \<and> categorize cmd \<noteq> catNone")
    case True
    then have eq: "opBucket ?l = snd (consume opSpec now (opBucket l))"
      "fst (cmd_allow (categorize cmd) now l) = fst (consume opSpec now (opBucket l))"
      by (auto simp: cmd_allow_def split: prod.splits)
    show ?thesis
      using nows True eq by (intro exI [of _ "now # nows"]) (auto simp: x passed_ops_def)
  next
    case False
    then have eq: "opBucket ?l = opBucket l" "\<not> (fst (cmd_allow (categorize cmd) now l) \<and> categorize cmd \<noteq> catNone)"
      by (auto simp: cmd_allow_def split: prod.splits bool.splits)
    show ?thesis
      using nows eq by (intro exI [of _ nows]) (auto simp: x passed_ops_def)
  qed
qed (simp add: passed_ops_def)

definition limiter_ok :: "instant \<Rightarrow> commandRateLimiter \<Rightarrow> bool" where
  "limiter_ok t l \<longleftrightarrow> bucket_ok opSpec (opBucket l) \<and> bucket_ok totalSpec (totalBucket l)
     \<and> last_refill (opBucket l) \<le> t \<and> last_refill (totalBucket l) \<le> t"

lemma limiter_ok_new: "limiter_ok t (newCommandRateLimiter t)"
  by (simp add: limiter_ok_def newCommandRateLimiter_def bucket_ok_def opSpec_def totalSpec_def)

lemma limiter_ok_allow: "limiter_ok t l \<Longrightarrow> t \<le> now \<Longrightarrow> limiter_ok now (snd (cmd_allow cat now l))"
  using consume_pays(1,2) [OF op_bucket.small, of "opBucket l" now]
    consume_pays(1,2) [OF total_bucket.small, of "totalBucket l" now]
  by (auto simp: limiter_ok_def cmd_allow_def split: prod.splits bool.splits)

lemma limiter_ok_state:
  "limiter_ok t l \<Longrightarrow> from_time t cmds \<Longrightarrow> \<forall>(now, cmd) \<in> set cmds. now \<le> s \<Longrightarrow> t \<le> s \<Longrightarrow> limiter_ok s (cmd_state cmds l)"
proof (induction cmds arbitrary: t l)
  case Nil
  then show ?case by (auto simp: limiter_ok_def)
next
  case (Cons x cmds)
  then show ?case by (cases x) (auto intro!: Cons.IH limiter_ok_allow)
qed

lemma passed_within:
  assumes "limiter_ok s l" and "s \<le> e" and "\<forall>(now, cmd) \<in> set cmds. s \<le> now \<and> now \<le> e"
  shows "of_nat (passed (cmd_verdicts cmds l)) \<le> 15 + 15 * secs (e - s) + of_nat (length cmds) * slack"
    and "of_nat (passed_ops (cmd_verdicts cmds l)) \<le> 2 + 2 * secs (e - s) + of_nat (length cmds) * slack"
proof -
  have times: "\<forall>now \<in> set (map fst cmds). s \<le> now \<and> now \<le> e" using assms(3) by auto
  have "(of_nat (passed (cmd_verdicts cmds l)) :: rat) \<le> of_nat (granted totalSpec (map fst cmds) (totalBucket l))"
    unfolding of_nat_le_iff by (rule passed_granted)
  also have "\<dots> \<le> 15 + 15 * secs (e - s) + of_nat (length cmds) * slack"
    using total_bucket.granted_within [of "totalBucket l" s e "map fst cmds"] assms(1,2) times
    by (auto simp: limiter_ok_def totalSpec_def)
  finally show "of_nat (passed (cmd_verdicts cmds l)) \<le> 15 + 15 * secs (e - s) + of_nat (length cmds) * slack" .
  obtain nows where nows: "set nows \<subseteq> fst ` set cmds" "length nows \<le> length cmds"
    "passed_ops (cmd_verdicts cmds l) = granted opSpec nows (opBucket l)"
    using passed_ops_granted by blast
  have "(of_nat (length nows) :: rat) * slack \<le> of_nat (length cmds) * slack"
    using nows(2) by (intro mult_right_mono) (auto simp: slack_def)
  moreover have "of_nat (granted opSpec nows (opBucket l)) \<le> 2 + 2 * secs (e - s) + of_nat (length nows) * slack"
    using op_bucket.granted_within [of "opBucket l" s e nows] assms(1,2) nows(1) times
    by (auto simp: limiter_ok_def opSpec_def)
  ultimately show "of_nat (passed_ops (cmd_verdicts cmds l)) \<le> 2 + 2 * secs (e - s) + of_nat (length cmds) * slack"
    using nows(3) by linarith
qed

section \<open>Properties\<close>

text \<open>C32.  The commands of a session are limited in rate.  After any earlier commands, of the commands
  that arrive within a stretch of time at most fifteen pass, plus fifteen for each second of it; of
  the discrete operations at most two, plus two for each second.  The rounding of the \<open>float64\<close>
  arithmetic adds less than \<open>2 ^ -44\<close> per command.\<close>

theorem command_rate_bounded:
  assumes "from_time t0 earlier" "\<forall>(now, cmd) \<in> set earlier. now \<le> s" "t0 \<le> s" "s \<le> e"
    and "\<forall>(now, cmd) \<in> set cmds. s \<le> now \<and> now \<le> e"
    and "vs = cmd_verdicts cmds (cmd_state earlier (newCommandRateLimiter t0))"
  shows "of_nat (passed vs) \<le> 15 + 15 * secs (e - s) + of_nat (length cmds) / 2 ^ 44
    \<and> of_nat (passed_ops vs) \<le> 2 + 2 * secs (e - s) + of_nat (length cmds) / 2 ^ 44"
  using passed_within [OF limiter_ok_state [OF limiter_ok_new assms(1,2,3)] assms(4,5)] assms(6)
  by (simp add: slack_def)

theorem command_rate_bounded_witness:
  "of_nat (passed_ops (cmd_verdicts [(7, CmdReady), (7, CmdReady), (8, CmdCancelReady)] (newCommandRateLimiter 3)))
    \<le> 2 + 2 * secs 1 + 3 / 2 ^ 44"
  using command_rate_bounded [of 3 "[]" 7 8 "[(7, CmdReady), (7, CmdReady), (8, CmdCancelReady)]"] by simp

end
