(* ===== verification/Session_Limits.thy ===== *)
theory Session_Limits
  imports Hub_Step Token_Buckets
begin

text \<open>
  \<open>onCommand\<close> of \<open>network/session_read.go\<close> with the limiter of its session: \<open>Session_Life\<close> takes the
  verdict and the answer of the limiter as arguments, here they are computed.  A heartbeat and the
  first authentication do not reach the limiter.
\<close>

definition session_command ::
  "Env \<Rightarrow> bool \<Rightarrow> instant \<Rightarrow> session_ref \<Rightarrow> ClientCommand \<Rightarrow> commandRateLimiter \<times> World \<Rightarrow> commandRateLimiter \<times> World" where
  "session_command env limits t s cmd lw =
     (case lw of (l, w) \<Rightarrow>
        (case sessUser w s of
           Some ur \<Rightarrow>
             if cmd \<noteq> CmdPing \<and> limits then
               (case cmd_allow (categorize cmd) t l of
                  (ok, l') \<Rightarrow> (l', onCommand env s cmd ok
                     (rateLimitedResponse (TL env (Lang (heapU w ur)) ''command-rate-limited'' []) cmd) w))
             else (l, onCommand env s cmd True None w)
         | None \<Rightarrow> (l, onCommand env s cmd True None w)))"

lemma session_command_step: "step env w (snd (session_command env limits t s cmd (l, w)))"
  by (auto simp: session_command_def split: option.splits prod.splits intro: step.command)

text \<open>The commands that are answered with an error are the discrete operations.\<close>

lemma limited_answer: "rateLimitedResponse msg cmd = None \<longleftrightarrow> categorize cmd = catNone"
  by (cases cmd) simp_all

lemma refused_command:
  assumes "sessUser w s = Some ur" and "cmd \<noteq> CmdPing" and "\<not> fst (cmd_allow (categorize cmd) t l)"
  shows "snd (session_command env True t s cmd (l, w)) =
    (case rateLimitedResponse (TL env (Lang (heapU w ur)) ''command-rate-limited'' []) cmd of
       Some resp \<Rightarrow> send_session s resp w | None \<Rightarrow> w)"
  using assms by (cases "cmd_allow (categorize cmd) t l") (simp add: session_command_def onCommand_def)

end
