(* ===== verification/Hub_Anomalies.thy ===== *)
theory Hub_Anomalies
  imports Demo_Run
begin

text \<open>
  Corners where the code does something other than its comments promise, each as a theorem about
  the model: a creator who was a monitor before, the notice for players who lost their connection,
  a host who leaves only monitors behind, and a move of a user to the room it is in already.
\<close>

section \<open>The host leaves only monitors behind\<close>

lemma host_gone_drops_room:
  assumes "host_gone (heapU w ur) (heapR w rr)" "w' = snd (OnUserLeave env rr ur w)"
  shows "fst (OnUserLeave env rr ur w) = (True, False) \<and> monitors (heapR w' rr) = monitors (remove_member (heapU w ur) (heapR w rr))
    \<and> (\<forall>u. u \<noteq> ur \<longrightarrow> uRoom (heapU w' u) = uRoom (heapU w u))"
  using assms by (simp add: OnUserLeave_split)

text \<open>A monitor left behind in a dropped room takes a new room of the same name with it when it
  leaves.\<close>

lemma left_behind_monitor_deletes_new_room:
  assumes "uRoom (heapU w ur) = Some old" "Monitor (heapU w ur)" "users (heapR w old) = []" "monitors (heapR w old) = [uID (heapU w ur)]"
    "HostID (heapR w old) \<noteq> uID (heapU w ur)" "State (heapR w old) = StateSelectChart"
    "rID (heapR w old) = rid" "map_of (Rooms w) rid = Some new" "new \<noteq> old"
  shows "map_of (Rooms (snd (handleLeaveRoom env ur w))) rid = None"
  using assms
  by (simp add: handleLeaveRoom_def with_room_def RequireRoom_def Let_def split_beta OnUserLeave_split host_gone_def
      finish_leave_def CheckAllReady_def IsEmpty_def remove_member_def removeInt_def delete_conv')

section \<open>A former monitor creates a room\<close>

text \<open>\<open>ProcessCreateRoom\<close> leaves the monitor flag of the user as it is, and \<open>OnUserLeave\<close> follows the flag.\<close>

lemma flagged_player_stays_listed:
  assumes "uRoom (heapU w ur) = Some rr" "Monitor (heapU w ur)" "users (heapR w rr) = [uID (heapU w ur)]"
    "HostID (heapR w rr) = uID (heapU w ur)" "State (heapR w rr) = StateSelectChart" "w' = snd (handleLeaveRoom env ur w)"
  shows "uRoom (heapU w' ur) = None \<and> Rooms w' = Rooms w \<and> users (heapR w' rr) = [uID (heapU w ur)]"
  using assms
  by (simp add: handleLeaveRoom_def with_room_def RequireRoom_def Let_def split_beta OnUserLeave_split host_gone_def
      finish_leave_def CheckAllReady_def IsEmpty_def remove_member_def hand_over_heapR)

lemma create_keeps_user:
  "Monitor (heapU (snd (ProcessCreateRoom env ur rid w)) ur) = Monitor (heapU w ur)"
  "uID (heapU (snd (ProcessCreateRoom env ur rid w)) ur) = uID (heapU w ur)"
  by (simp_all add: ProcessCreateRoom_def Let_def)

lemma ghost_room:
  assumes "may_create env ur rid w" "Monitor (heapU w ur)" "w1 = snd (ProcessCreateRoom env ur rid w)"
    "w2 = snd (handleLeaveRoom env ur w1)"
  shows "uRoom (heapU w2 ur) = None \<and> map_of (Rooms w2) rid = Some (nextR w) \<and> users (heapR w2 (nextR w)) = [uID (heapU w ur)]"
  using create_effect [OF assms(1,3)] flagged_player_stays_listed [of w1 ur "nextR w" w2 env] assms(2,4)
    create_keeps_user [where env = env and ur = ur and rid = rid and w = w, folded assms(3)]
  by simp

section \<open>A user is moved to its own room\<close>

lemma move_to_own_room:
  assumes "uRoom (heapU w ur) = Some rr" "session (heapU w ur) = None" "\<not> Monitor (heapU w ur)"
    "State (heapR w rr) = StateSelectChart" "\<not> Locked (heapR w rr)" "contest (heapR w rr) = None"
    "uID (heapU w ur) \<in> set (users (heapR w rr))" "distinct (users (heapR w rr))"
    "w' = snd (MoveUser env ur rr False w)"
  shows "fst (MoveUser env ur rr False w) = None \<and> uRoom (heapU w' ur) = Some rr \<and> uID (heapU w ur) \<notin> set (users (heapR w' rr))"
proof -
  have add: "fst (AddUser (heapU w ur) ur False (heapR w rr))" "users (snd (AddUser (heapU w ur) ur False (heapR w rr))) = users (heapR w rr)"
    "ValidateJoin env (heapR w rr) (heapU w ur) False = None"
    using assms(5-7) by (auto simp: AddUser_def Let_def ValidateJoin_def)
  show ?thesis
    unfolding assms(9) MoveUser_def Let_def split_beta
    using assms(1-8) add
    by (auto simp: IsConnected_def AddUser_fields OnUserLeave_split host_gone_def finish_leave_def Let_def split_beta hand_over_heapR
        remove_member_def removeInt_def)
qed

end
