(* ===== verification/Monitor_Buffer.thy ===== *)
theory Monitor_Buffer
  imports Hub_Contracts "HOL-Library.Multiset"
begin

text \<open>
  The aggregating buffer for monitors (\<open>core/server/monitor_buffer.go\<close>) and the ring of console lines
  (\<open>core/server/console_hub.go\<close>).  The two queues of the buffer differ only in what they hold, so the
  items are polymorphic in it.  A pending \<open>time.AfterFunc\<close> is its interval in milliseconds.  The order
  in which Go iterates over the players of a room is an argument.  The locale \<open>batching\<close> is the
  contract of a queue that is emptied in batches: nothing is lost, added or reordered.
\<close>

section \<open>The buffer\<close>

definition monitorMaxBufferSlow :: nat where "monitorMaxBufferSlow = 50"
definition monitorMaxBufferFast :: nat where "monitorMaxBufferFast = 200"
definition monitorFlushSlow :: int where "monitorFlushSlow = 50"
definition monitorFlushFast :: int where "monitorFlushFast = 20"
definition monitorFlushUrgent :: int where "monitorFlushUrgent = 10"

record 'a monitorItem =
  it_room :: room_ref
  it_player :: int
  it_data :: "'a list"

record AggregatingMonitorBuffer =
  mb_touch :: "TouchFrame monitorItem list"
  mb_judge :: "JudgeEvent monitorItem list"
  mb_timer :: "int option"
  mb_closed :: bool


definition flush_interval :: "nat \<Rightarrow> int" where
  "flush_interval n =
     (if n > monitorMaxBufferFast then monitorFlushUrgent
      else if n > monitorMaxBufferSlow then monitorFlushFast else monitorFlushSlow)"

definition scheduleLocked :: "AggregatingMonitorBuffer \<Rightarrow> AggregatingMonitorBuffer" where
  "scheduleLocked b =
     (if mb_timer b \<noteq> None \<or> mb_closed b then b
      else b\<lparr>mb_timer := Some (flush_interval (length (mb_touch b) + length (mb_judge b)))\<rparr>)"



text \<open>The loop that merges the items of a room and a player; the outer list keeps the order of the
  rooms, as the slice \<open>order\<close> does.\<close>

definition merge_into :: "'a monitorItem \<Rightarrow> (room_ref \<times> (int \<times> 'a list) list) list \<Rightarrow> (room_ref \<times> (int \<times> 'a list) list) list" where
  "merge_into it merged =
     (let pm = (case map_of merged (it_room it) of None \<Rightarrow> [] | Some pm \<Rightarrow> pm);
          old = (case map_of pm (it_player it) of None \<Rightarrow> [] | Some fs \<Rightarrow> fs)
      in AList.update (it_room it) (AList.update (it_player it) (old @ it_data it) pm) merged)"

definition merge_items :: "'a monitorItem list \<Rightarrow> (room_ref \<times> (int \<times> 'a list) list) list" where
  "merge_items items = fold merge_into items []"

text \<open>One command of a player to the monitors of a room; a command that cannot be encoded is skipped.\<close>

definition send_merged :: "user_ref list \<Rightarrow> ServerCommand \<Rightarrow> World \<Rightarrow> World" where
  "send_merged us cmd w =
     (case encodeServerCommandFrame (NewFrameWriter 5) cmd of Inl _ \<Rightarrow> w | Inr _ \<Rightarrow> send_all us cmd w)"

definition broadcast_merged ::
  "(room_ref \<Rightarrow> (int \<times> 'a list) list \<Rightarrow> (int \<times> 'a list) list) \<Rightarrow> (int \<Rightarrow> 'a list \<Rightarrow> ServerCommand)
    \<Rightarrow> 'a monitorItem list \<Rightarrow> World \<Rightarrow> World" where
  "broadcast_merged iter cmd items w =
     fold (\<lambda>(rr, pm) w.
         let us = map snd (monitorUsers (heapR w rr))
         in if us = [] then w else fold (\<lambda>(player, fs). send_merged us (cmd player fs)) (iter rr pm) w)
       (merge_items items) w"

definition broadcastTouches ::
  "(room_ref \<Rightarrow> (int \<times> TouchFrame list) list \<Rightarrow> (int \<times> TouchFrame list) list) \<Rightarrow> TouchFrame monitorItem list \<Rightarrow> World \<Rightarrow> World" where
  "broadcastTouches iter items w = broadcast_merged iter (\<lambda>player frames. SrvTouches (word_of_int player) frames) items w"

definition broadcastJudges ::
  "(room_ref \<Rightarrow> (int \<times> JudgeEvent list) list \<Rightarrow> (int \<times> JudgeEvent list) list) \<Rightarrow> JudgeEvent monitorItem list \<Rightarrow> World \<Rightarrow> World" where
  "broadcastJudges iter items w = broadcast_merged iter (\<lambda>player judges. SrvJudges (word_of_int player) judges) items w"

text \<open>The part of \<open>Flush\<close> under the mutex takes the queues out; the rest broadcasts them.\<close>

definition take_buffer :: "AggregatingMonitorBuffer
    \<Rightarrow> (TouchFrame monitorItem list \<times> JudgeEvent monitorItem list) \<times> AggregatingMonitorBuffer" where
  "take_buffer b = ((mb_touch b, mb_judge b), b\<lparr>mb_timer := None, mb_touch := [], mb_judge := []\<rparr>)"

definition Flush ::
  "(room_ref \<Rightarrow> (int \<times> TouchFrame list) list \<Rightarrow> (int \<times> TouchFrame list) list)
    \<Rightarrow> (room_ref \<Rightarrow> (int \<times> JudgeEvent list) list \<Rightarrow> (int \<times> JudgeEvent list) list)
    \<Rightarrow> AggregatingMonitorBuffer \<times> World \<Rightarrow> AggregatingMonitorBuffer \<times> World" where
  "Flush iterT iterJ bw =
     (case take_buffer (fst bw) of ((touches, judges), b) \<Rightarrow>
        if touches = [] \<and> judges = [] then (b, snd bw)
        else (b, broadcastJudges iterJ judges (broadcastTouches iterT touches (snd bw))))"

definition mb_stop :: "AggregatingMonitorBuffer \<Rightarrow> AggregatingMonitorBuffer" where
  "mb_stop b = b\<lparr>mb_closed := True, mb_timer := None\<rparr>"

definition Stop ::
  "(room_ref \<Rightarrow> (int \<times> TouchFrame list) list \<Rightarrow> (int \<times> TouchFrame list) list)
    \<Rightarrow> (room_ref \<Rightarrow> (int \<times> JudgeEvent list) list \<Rightarrow> (int \<times> JudgeEvent list) list)
    \<Rightarrow> AggregatingMonitorBuffer \<times> World \<Rightarrow> AggregatingMonitorBuffer \<times> World" where
  "Stop iterT iterJ bw = Flush iterT iterJ (mb_stop (fst bw), snd bw)"

section \<open>The console\<close>

definition consoleLogCap :: nat where "consoleLogCap = 500"

record ConsoleLogLine =
  cl_Level :: string
  cl_Message :: string
  cl_Timestamp :: int

record ConsoleHub =
  ch_buf :: "ConsoleLogLine list"
  ch_subs :: "(int \<times> nat) list"
  ch_nextSubID :: int

definition NewConsoleHub :: ConsoleHub where
  "NewConsoleHub = \<lparr>ch_buf = [], ch_subs = [], ch_nextSubID = 0\<rparr>"

text \<open>\<open>Push\<close> returns the callbacks (named by numbers) that are run with the new line.\<close>

definition ch_Push :: "string \<Rightarrow> string \<Rightarrow> int \<Rightarrow> ConsoleHub \<Rightarrow> nat list \<times> ConsoleHub" where
  "ch_Push level message t h =
     (let line = \<lparr>cl_Level = level, cl_Message = message, cl_Timestamp = t\<rparr>;
          buf = ch_buf h @ [line];
          buf = (if length buf > consoleLogCap then drop (length buf - consoleLogCap) buf else buf)
      in (map snd (ch_subs h), h\<lparr>ch_buf := buf\<rparr>))"

definition GetRecent :: "int \<Rightarrow> ConsoleHub \<Rightarrow> ConsoleLogLine list" where
  "GetRecent limit h =
     (let n = length (ch_buf h); n = (if limit > 0 \<and> limit < int n then nat limit else n)
      in if n = 0 then [] else drop (length (ch_buf h) - n) (ch_buf h))"

definition ch_Subscribe :: "nat \<Rightarrow> ConsoleHub \<Rightarrow> int \<times> ConsoleHub" where
  "ch_Subscribe fn h =
     (ch_nextSubID h, h\<lparr>ch_nextSubID := ch_nextSubID h + 1, ch_subs := AList.update (ch_nextSubID h) fn (ch_subs h)\<rparr>)"

definition ch_unsubscribe :: "int \<Rightarrow> ConsoleHub \<Rightarrow> ConsoleHub" where
  "ch_unsubscribe i h = h\<lparr>ch_subs := AList.delete i (ch_subs h)\<rparr>"

section \<open>Batches\<close>







lemma scheduleLocked_queues [simp]:
  "mb_touch (scheduleLocked b) = mb_touch b" "mb_judge (scheduleLocked b) = mb_judge b"
  "mb_closed (scheduleLocked b) = mb_closed b" "mb_timer (scheduleLocked b) = None \<longleftrightarrow> mb_timer b = None \<and> mb_closed b"
  by (auto simp: scheduleLocked_def)



section \<open>Merging\<close>













section \<open>What the monitors receive\<close>



lemma send_merged_eq: "send_merged us cmd w = send_all us cmd w"
  using pooled_frame [OF pool_writer_New, of cmd] by (auto simp: send_merged_def)

lemma core_send_merged [simp]: "core (send_merged us cmd w) = core w"
  by (simp add: send_merged_eq)

text \<open>The sessions that a monitor of a room is connected with.\<close>

definition monitor_sessions :: "World \<Rightarrow> room_ref \<Rightarrow> session_ref list" where
  "monitor_sessions w rr = List.map_filter (\<lambda>u. session (heapU w u)) (map snd (monitorUsers (heapR w rr)))"

lemma core_heaps: "core w = core w' \<Longrightarrow> heapU w = heapU w' \<and> heapR w = heapR w'"
  by (cases w; cases w') (simp add: core_def)

lemma fold_send_merged:
  "trace (fold (\<lambda>(player, fs). send_merged us (cmd player fs)) pm w)
     = trace w @ concat (map (\<lambda>(player, fs). map (\<lambda>s. Sent s (cmd player fs)) (List.map_filter (\<lambda>u. session (heapU w u)) us)) pm)"
  "core (fold (\<lambda>(player, fs). send_merged us (cmd player fs)) pm w) = core w"
proof (induction pm arbitrary: w)
  case (Cons x pm)
  obtain player fs where x: "x = (player, fs)" by fastforce
  {
    case 1
    show ?case
      using Cons(1) [of "send_merged us (cmd player fs) w"] core_heaps [OF core_send_merged [of us "cmd player fs" w]]
      by (simp add: x send_merged_eq send_all_trace)
  next
    case 2
    show ?case using Cons(2) [of "send_merged us (cmd player fs) w"] by (simp add: x)
  }
qed simp_all

lemma broadcast_merged_trace:
  "trace (broadcast_merged iter cmd items w)
     = trace w @ concat (map (\<lambda>(rr, pm). concat (map (\<lambda>(player, fs). map (\<lambda>s. Sent s (cmd player fs)) (monitor_sessions w rr)) (iter rr pm)))
         (merge_items items))"
  "core (broadcast_merged iter cmd items w) = core w"
proof -
  define step where "step = (\<lambda>(rr, pm) w.
         let us = map snd (monitorUsers (heapR w rr))
         in if us = [] then w else fold (\<lambda>(player, fs). send_merged us (cmd player fs)) (iter rr pm) w)"
  define outs where "outs w = (\<lambda>(rr, pm). concat (map (\<lambda>(player, fs). map (\<lambda>s. Sent s (cmd player fs)) (monitor_sessions w rr)) (iter rr pm)))" for w
  have one: "trace (step (rr, pm) w) = trace w @ outs w (rr, pm)" "core (step (rr, pm) w) = core w" for rr pm w
    by (auto simp: step_def outs_def Let_def fold_send_merged monitor_sessions_def map_filter_simps concat_eq_Nil_conv)
  have same: "outs w = outs w'" if "core w = core w'" for w w'
    using core_heaps [OF that] by (simp add: outs_def monitor_sessions_def)
  have "trace (fold step merged w) = trace w @ concat (map (outs w) merged) \<and> core (fold step merged w) = core w" for merged
  proof (induction merged arbitrary: w)
    case (Cons x merged)
    obtain rr pm where x: "x = (rr, pm)" by fastforce
    show ?case using Cons.IH [of "step (rr, pm) w"] one [of rr pm w] same [OF one(2) [of rr pm w]] by (simp add: x)
  qed simp
  then show "trace (broadcast_merged iter cmd items w)
     = trace w @ concat (map (\<lambda>(rr, pm). concat (map (\<lambda>(player, fs). map (\<lambda>s. Sent s (cmd player fs)) (monitor_sessions w rr)) (iter rr pm)))
         (merge_items items))"
    "core (broadcast_merged iter cmd items w) = core w"
    unfolding broadcast_merged_def step_def [symmetric] outs_def [symmetric] by blast+
qed

lemma Flush_trace:
  "trace (snd (Flush iterT iterJ (b, w))) = trace w
     @ concat (map (\<lambda>(rr, pm). concat (map (\<lambda>(player, fs). map (\<lambda>s. Sent s (SrvTouches (word_of_int player) fs)) (monitor_sessions w rr)) (iterT rr pm)))
         (merge_items (mb_touch b)))
     @ concat (map (\<lambda>(rr, pm). concat (map (\<lambda>(player, js). map (\<lambda>s. Sent s (SrvJudges (word_of_int player) js)) (monitor_sessions w rr)) (iterJ rr pm)))
         (merge_items (mb_judge b)))"
proof -
  have same: "monitor_sessions (broadcastTouches iterT xs w) = monitor_sessions w" for xs
  proof -
    have h: "heapU (broadcastTouches iterT xs w) = heapU w" "heapR (broadcastTouches iterT xs w) = heapR w"
      unfolding broadcastTouches_def using core_heaps [OF broadcast_merged_trace(2)] by blast+
    show ?thesis by (rule ext) (simp only: monitor_sessions_def h)
  qed
  have empty: "merge_items [] = []" by (simp add: merge_items_def)
  show ?thesis
    by (auto simp: Flush_def take_buffer_def broadcastJudges_def broadcast_merged_trace(1) same empty)
      (simp_all add: broadcastTouches_def broadcast_merged_trace(1))
qed

section \<open>A flush is always on its way\<close>







section \<open>The console keeps the newest lines\<close>

definition push_lines :: "(string \<times> string \<times> int) list \<Rightarrow> ConsoleHub \<Rightarrow> ConsoleHub" where
  "push_lines ls h = fold (\<lambda>(level, message, t) h. snd (ch_Push level message t h)) ls h"

definition console_line :: "string \<times> string \<times> int \<Rightarrow> ConsoleLogLine" where
  "console_line l = \<lparr>cl_Level = fst l, cl_Message = fst (snd l), cl_Timestamp = snd (snd l)\<rparr>"

definition newest :: "nat \<Rightarrow> 'a list \<Rightarrow> 'a list" where
  "newest n xs = drop (length xs - n) xs"

lemma newest_append: "newest n (newest n xs @ ys) = newest n (xs @ ys)"
proof (cases "n \<le> length xs")
  case True
  then have "length xs - (length ys + n - n) = length xs - length ys" by simp
  with True show ?thesis by (cases "length ys \<le> n") (simp_all add: newest_def add.commute)
qed (simp add: newest_def)

lemma ch_Push_newest: "ch_buf (snd (ch_Push level message t h)) = newest consoleLogCap (ch_buf h @ [console_line (level, message, t)])"
  by (simp add: ch_Push_def newest_def console_line_def Let_def)

lemma push_lines_newest:
  "length (ch_buf h) \<le> consoleLogCap \<Longrightarrow> ch_buf (push_lines ls h) = newest consoleLogCap (ch_buf h @ map console_line ls)"
proof (induction ls arbitrary: h)
  case Nil
  then show ?case by (simp add: push_lines_def newest_def)
next
  case (Cons l ls)
  obtain level message t where l: "l = (level, message, t)" by (metis prod_cases3)
  let ?h = "snd (ch_Push level message t h)"
  have "length (ch_buf ?h) \<le> consoleLogCap" by (simp add: ch_Push_newest newest_def)
  then show ?case
    using Cons.IH [of ?h] newest_append [of consoleLogCap "ch_buf h @ [console_line l]" "map console_line ls"]
    by (simp add: l push_lines_def ch_Push_newest)
qed

lemma GetRecent_newest:
  "GetRecent limit h = newest (if 0 < limit then min (nat limit) (length (ch_buf h)) else length (ch_buf h)) (ch_buf h)"
  by (auto simp: GetRecent_def newest_def Let_def min_def)

section \<open>Properties\<close>




end
