(* ===== verification/Ttl_Cache.thy ===== *)
theory Ttl_Cache
  imports Go_Strconv "HOL-Library.Multiset"
begin

text \<open>
  The cache with expiry of \<open>common/cache/cache.go\<close>, local backend: the entries in memory with the
  sampled eviction, the file behind it with its delayed saving, and \<open>GetOrSet\<close>, in which concurrent
  requests for a key share one call.  The memory is an association list with distinct keys; the
  order in which Go iterates over it and the random picks are arguments, the clock (milliseconds) is
  an argument, and the JSON text of the file is the map that it denotes.  The Redis backend is not
  modelled.
\<close>

definition lruSampleSize :: nat where "lruSampleSize = 5"

record 'v memEntry =
  me_value :: 'v
  cachedAt :: int
  lastAccessed :: int

record ('k, 'v) Cache =
  ttl :: int
  maxMem :: int
  persist :: bool
  mem :: "('k \<times> 'v memEntry) list"
  saveTimer :: bool
  save_pending :: bool
  accessCounter :: int

text \<open>\<open>Duration.Milliseconds\<close> truncates towards zero.\<close>

definition Milliseconds :: "int \<Rightarrow> int" where
  "Milliseconds d = sgn d * (\<bar>d\<bar> div 1000000)"

definition expired :: "int \<Rightarrow> ('k, 'v) Cache \<Rightarrow> int \<Rightarrow> bool" where
  "expired now c at \<longleftrightarrow> ttl c > 0 \<and> now - at > Milliseconds (ttl c)"

definition nextAccess :: "('k, 'v) Cache \<Rightarrow> int \<times> ('k, 'v) Cache" where
  "nextAccess c = (accessCounter c + 1, c\<lparr>accessCounter := accessCounter c + 1\<rparr>)"

section \<open>Reading and writing\<close>

definition memGet :: "int \<Rightarrow> 'k \<Rightarrow> ('k, 'v) Cache \<Rightarrow> 'v option \<times> ('k, 'v) Cache" where
  "memGet now key c =
     (case map_of (mem c) key of
        None \<Rightarrow> (None, c)
      | Some e \<Rightarrow>
          if expired now c (cachedAt e) then (None, c\<lparr>mem := AList.delete key (mem c)\<rparr>)
          else case nextAccess c of
              (a, c) \<Rightarrow> (Some (me_value e), c\<lparr>mem := AList.update key (e\<lparr>lastAccessed := a\<rparr>) (mem c)\<rparr>))"

text \<open>The loop of \<open>evictIfNeeded\<close>: the picks are the values of \<open>rand.IntN\<close>, one per round.\<close>

definition swap :: "nat \<Rightarrow> nat \<Rightarrow> 'a list \<Rightarrow> 'a list" where
  "swap i j xs = xs[i := xs ! j, j := xs ! i]"

definition access_of :: "('k \<times> 'v memEntry) list \<Rightarrow> 'k \<Rightarrow> int" where
  "access_of m k = (case map_of m k of None \<Rightarrow> 0 | Some e \<Rightarrow> lastAccessed e)"

fun sample_loop :: "('k \<times> 'v memEntry) list \<Rightarrow> nat \<Rightarrow> nat list \<Rightarrow> 'k list \<Rightarrow> int \<Rightarrow> 'k option \<Rightarrow> 'k option" where
  "sample_loop m i [] keys oldestTime oldestKey = oldestKey"
| "sample_loop m i (r # picks) keys oldestTime oldestKey =
     (let keys = swap i (i + r) keys; t = access_of m (keys ! i)
      in if t < oldestTime then sample_loop m (i + 1) picks keys t (Some (keys ! i))
         else sample_loop m (i + 1) picks keys oldestTime oldestKey)"

definition evictIfNeeded :: "'k list \<Rightarrow> nat list \<Rightarrow> ('k, 'v) Cache \<Rightarrow> ('k, 'v) Cache" where
  "evictIfNeeded keys picks c =
     (if int (length (mem c)) \<le> maxMem c then c
      else case sample_loop (mem c) 0 (take (min lruSampleSize (length keys)) picks) keys (2 ^ 63 - 1) None of
          Some k \<Rightarrow> c\<lparr>mem := AList.delete k (mem c)\<rparr>
        | None \<Rightarrow> c)"

definition scheduleSaveLocked :: "('k, 'v) Cache \<Rightarrow> ('k, 'v) Cache" where
  "scheduleSaveLocked c =
     (if \<not> persist c then c else c\<lparr>save_pending := True, saveTimer := True\<rparr>)"

text \<open>\<open>order\<close> is the iteration order over the keys of the memory.\<close>

definition cache_Set :: "int \<Rightarrow> ('k list \<Rightarrow> 'k list) \<Rightarrow> nat list \<Rightarrow> 'k \<Rightarrow> 'v \<Rightarrow> ('k, 'v) Cache \<Rightarrow> ('k, 'v) Cache" where
  "cache_Set now order picks key v c =
     (case nextAccess c of
        (a, c) \<Rightarrow>
          let c = c\<lparr>mem := AList.update key \<lparr>me_value = v, cachedAt = now, lastAccessed = a\<rparr> (mem c)\<rparr>
          in scheduleSaveLocked (evictIfNeeded (order (map fst (mem c))) picks c))"

definition cache_Delete :: "'k \<Rightarrow> ('k, 'v) Cache \<Rightarrow> ('k, 'v) Cache" where
  "cache_Delete key c = scheduleSaveLocked (c\<lparr>mem := AList.delete key (mem c)\<rparr>)"

definition KeysNearExpiry :: "('k list \<Rightarrow> 'k list) \<Rightarrow> int \<Rightarrow> int \<Rightarrow> ('k, 'v) Cache \<Rightarrow> 'k list" where
  "KeysNearExpiry order now remaining c =
     filter (\<lambda>k. ttl c > 0 \<and> (case map_of (mem c) k of
          Some e \<Rightarrow> now - cachedAt e \<ge> Milliseconds (ttl c - remaining) | None \<Rightarrow> False))
       (order (map fst (mem c)))"

section \<open>The file\<close>

type_synonym 'v cache_file = "(string \<times> 'v \<times> int) list option"

text \<open>A write that fails (\<open>written\<close> is false) leaves the file as it was: the new content goes to another
  file first.\<close>

definition flushToDiskLocked :: "bool \<Rightarrow> ('k \<Rightarrow> string) \<Rightarrow> ('k, 'v) Cache \<Rightarrow> 'v cache_file \<Rightarrow> 'v cache_file" where
  "flushToDiskLocked written keyStr c cf =
     (if \<not> written then cf else Some (map (\<lambda>(k, e). (keyStr k, me_value e, cachedAt e)) (mem c)))"

definition stopSaveTimerLocked :: "('k, 'v) Cache \<Rightarrow> ('k, 'v) Cache" where
  "stopSaveTimerLocked c = c\<lparr>save_pending := False, saveTimer := False\<rparr>"

definition cache_Clear :: "bool \<Rightarrow> ('k \<Rightarrow> string) \<Rightarrow> ('k, 'v) Cache \<times> 'v cache_file \<Rightarrow> ('k, 'v) Cache \<times> 'v cache_file" where
  "cache_Clear written keyStr cf =
     (let c = (fst cf)\<lparr>mem := []\<rparr>
      in if persist c then (stopSaveTimerLocked c, flushToDiskLocked written keyStr (stopSaveTimerLocked c) (snd cf)) else (c, snd cf))"

text \<open>The body of the timer of \<open>scheduleSaveLocked\<close>.\<close>

definition run_save :: "bool \<Rightarrow> ('k \<Rightarrow> string) \<Rightarrow> ('k, 'v) Cache \<times> 'v cache_file \<Rightarrow> ('k, 'v) Cache \<times> 'v cache_file" where
  "run_save written keyStr cf =
     (let c = (fst cf)\<lparr>saveTimer := False\<rparr>
      in if \<not> save_pending c then (c, snd cf)
         else let c = c\<lparr>save_pending := False\<rparr> in (c, flushToDiskLocked written keyStr c (snd cf)))"

definition load_entry :: "(string \<Rightarrow> 'k option) \<Rightarrow> int \<Rightarrow> string \<times> 'v \<times> int \<Rightarrow> ('k, 'v) Cache \<Rightarrow> ('k, 'v) Cache" where
  "load_entry keyParse now kve c =
     (case kve of (ks, v, at) \<Rightarrow>
        if expired now c at then c
        else case keyParse ks of
            None \<Rightarrow> c
          | Some key \<Rightarrow> (case nextAccess c of
              (a, c) \<Rightarrow> c\<lparr>mem := AList.update key \<lparr>me_value = v, cachedAt = at, lastAccessed = a\<rparr> (mem c)\<rparr>))"

definition loadFromDisk :: "(string \<Rightarrow> 'k option) \<Rightarrow> int \<Rightarrow> 'v cache_file \<Rightarrow> ('k, 'v) Cache \<Rightarrow> ('k, 'v) Cache" where
  "loadFromDisk keyParse now cf c = (case cf of None \<Rightarrow> c | Some es \<Rightarrow> fold (load_entry keyParse now) es c)"

text \<open>\<open>counter\<close> is the value of the global counter of accesses.\<close>

definition newCache :: "(string \<Rightarrow> 'k option) \<Rightarrow> int \<Rightarrow> int \<Rightarrow> int \<Rightarrow> bool \<Rightarrow> int \<Rightarrow> 'v cache_file \<Rightarrow> ('k, 'v) Cache" where
  "newCache keyParse now ttl_ns maxEntries isPersistent counter cf =
     (let c = \<lparr>ttl = ttl_ns, maxMem = (if maxEntries \<le> 0 then 100 else maxEntries), persist = isPersistent, mem = [],
               saveTimer = False, save_pending = False, accessCounter = counter\<rparr>
      in if isPersistent then loadFromDisk keyParse now cf c else c)"

section \<open>The sample\<close>

lemma length_swap [simp]: "length (swap i j xs) = length xs"
  by (simp add: swap_def)

lemma mset_swap_eq: "i < length xs \<Longrightarrow> j < length xs \<Longrightarrow> mset (swap i j xs) = mset xs"
  by (simp add: swap_def mset_swap)

text \<open>The picks of a Fisher-Yates shuffle from position \<open>i\<close> on.\<close>

fun picks_ok :: "nat \<Rightarrow> nat \<Rightarrow> nat list \<Rightarrow> bool" where
  "picks_ok n i [] = True"
| "picks_ok n i (r # rs) \<longleftrightarrow> i + r < n \<and> picks_ok n (i + 1) rs"

lemma swap_prefix: "i \<le> j \<Longrightarrow> j < length xs \<Longrightarrow> k < i \<Longrightarrow> swap i j xs ! k = xs ! k"
  by (simp add: swap_def)

lemma swap_head: "j < length xs \<Longrightarrow> i < length xs \<Longrightarrow> swap i j xs ! i = xs ! j"
  by (auto simp: swap_def nth_list_update)

text \<open>The key that is found is the least recently used one of the sample, which consists of distinct
  keys of the memory; the first components of the loop are the best candidate so far.\<close>

lemma sample_loop_min:
  assumes "picks_ok (length keys) i picks"
  shows "\<exists>sample. length sample = length picks \<and> (distinct keys \<longrightarrow> distinct sample) \<and> set sample \<subseteq> set (drop i keys)
    \<and> (case sample_loop m i picks keys t best of
         Some k \<Rightarrow> (best = Some k \<and> (\<forall>x \<in> set sample. t \<le> access_of m x)
             \<or> k \<in> set sample \<and> access_of m k < t \<and> (\<forall>x \<in> set sample. access_of m k \<le> access_of m x))
       | None \<Rightarrow> best = None \<and> (\<forall>x \<in> set sample. t \<le> access_of m x))"
  using assms
proof (induction picks arbitrary: i keys t best)
  case Nil
  show ?case by (rule exI [of _ "[]"]) (auto split: option.splits)
next
  case (Cons r picks)
  let ?keys = "swap i (i + r) keys" and ?x = "keys ! (i + r)"
  have i: "i + r < length keys" "i < length keys" using Cons.prems by auto
  have head: "?keys ! i = ?x" using i by (simp add: swap_head)
  have split: "drop i ?keys = ?x # drop (i + 1) ?keys" using i head by (metis Cons_nth_drop_Suc Suc_eq_plus1 length_swap)
  have ms: "mset (drop i ?keys) = mset (drop i keys)"
  proof -
    have "take i ?keys = take i keys" using i by (intro nth_equalityI) (auto simp: swap_prefix)
    moreover have "mset ?keys = mset keys" using i by (simp add: mset_swap_eq)
    ultimately show ?thesis
      by (metis add_left_cancel append_take_drop_id mset_append)
  qed
  let ?t = "if access_of m ?x < t then access_of m ?x else t" and ?best = "if access_of m ?x < t then Some ?x else best"
  obtain sample where s: "length sample = length picks" "distinct ?keys \<longrightarrow> distinct sample" "set sample \<subseteq> set (drop (i + 1) ?keys)"
    "case sample_loop m (i + 1) picks ?keys ?t ?best of
         Some k \<Rightarrow> (?best = Some k \<and> (\<forall>x \<in> set sample. ?t \<le> access_of m x)
             \<or> k \<in> set sample \<and> access_of m k < ?t \<and> (\<forall>x \<in> set sample. access_of m k \<le> access_of m x))
       | None \<Rightarrow> ?best = None \<and> (\<forall>x \<in> set sample. ?t \<le> access_of m x)"
    using Cons.IH [where keys = ?keys and i = "i + 1" and t = ?t and best = ?best] Cons.prems by auto
  have eq: "sample_loop m i (r # picks) keys t best = sample_loop m (i + 1) picks ?keys ?t ?best"
    using head by (simp add: Let_def)
  have "set (drop i keys) = insert ?x (set (drop (i + 1) ?keys))" using mset_eq_setD [OF ms] split by simp
  then have sub: "set (?x # sample) \<subseteq> set (drop i keys)" using s(3) by auto
  have "distinct (?x # sample)" if "distinct keys"
  proof -
    have "distinct ?keys" using that i mset_swap_eq by (metis mset_eq_imp_distinct_iff)
    moreover from this have "distinct (?x # drop (i + 1) ?keys)" using split by (metis distinct_drop)
    ultimately show ?thesis using s(2,3) by auto
  qed
  then show ?case
    using s sub unfolding eq
    by (intro exI [of _ "?x # sample"]) (auto split: option.splits if_splits)
qed

corollary sample_found:
  assumes "picks_ok (length keys) i picks"
  obtains sample where "length sample = length picks" "distinct keys \<Longrightarrow> distinct sample" "set sample \<subseteq> set (drop i keys)"
    "case sample_loop m i picks keys t None of
         Some k \<Rightarrow> k \<in> set sample \<and> access_of m k < t \<and> (\<forall>x \<in> set sample. access_of m k \<le> access_of m x)
       | None \<Rightarrow> (\<forall>x \<in> set sample. t \<le> access_of m x)"
  using sample_loop_min [OF assms, where m = m and t = t and best = None] by (auto split: option.splits)

section \<open>The invariant of the memory\<close>

definition cache_inv :: "('k, 'v) Cache \<Rightarrow> bool" where
  "cache_inv c \<longleftrightarrow> distinct (map fst (mem c)) \<and> 1 \<le> maxMem c
     \<and> (\<forall>k e. map_of (mem c) k = Some e \<longrightarrow> lastAccessed e \<le> accessCounter c)"

text \<open>What the Go runtime promises of an iteration over a map and of \<open>rand.IntN\<close>.\<close>

definition fair_choice :: "('k list \<Rightarrow> 'k list) \<Rightarrow> nat list \<Rightarrow> nat \<Rightarrow> bool" where
  "fair_choice order picks n \<longleftrightarrow> (\<forall>ks. mset (order ks) = mset ks)
     \<and> min lruSampleSize n \<le> length picks \<and> picks_ok n 0 (take (min lruSampleSize n) picks)"

lemma length_update: "distinct (map fst al) \<Longrightarrow> length (AList.update k v al) = (if k \<in> fst ` set al then length al else length al + 1)"
  by (induction al) auto

lemma delete_one:
  assumes "distinct (map fst al)" and "k \<in> fst ` set al"
  shows "length (AList.delete k al) = length al - 1"
proof -
  have "map fst (AList.delete k al) = filter (\<lambda>k'. k' \<noteq> k) (map fst al)" by (induction al) (auto simp: AList.delete_eq)
  also have "\<dots> = remove1 k (map fst al)" using assms(1) by (simp add: remove1_distinct_filter)
  finally have "length (AList.delete k al) = length (remove1 k (map fst al))" by (metis length_map)
  then show ?thesis using assms(2) by (simp add: length_remove1)
qed

text \<open>An eviction removes one entry, and never the one that was accessed last.\<close>

lemma evict_one:
  assumes inv: "distinct (map fst (mem c))" and full: "maxMem c < int (length (mem c))" and two: "2 \<le> length (mem c)"
    and fair: "fair_choice order picks (length (mem c))"
    and newest: "map_of (mem c) key = Some e" "\<And>k e'. map_of (mem c) k = Some e' \<Longrightarrow> k \<noteq> key \<Longrightarrow> lastAccessed e' < lastAccessed e"
    and small: "lastAccessed e < 2 ^ 63 - 1"
  obtains k where "k \<noteq> key" "k \<in> fst ` set (mem c)" "evictIfNeeded (order (map fst (mem c))) picks c = c\<lparr>mem := AList.delete k (mem c)\<rparr>"
proof -
  let ?keys = "order (map fst (mem c))" and ?n = "length (mem c)"
  let ?picks = "take (min lruSampleSize ?n) picks"
  have ms: "mset ?keys = mset (map fst (mem c))" using fair by (simp add: fair_choice_def)
  then have keys: "length ?keys = ?n" "set ?keys = fst ` set (mem c)" "distinct ?keys"
    using mset_eq_length [OF ms] mset_eq_setD [OF ms] mset_eq_imp_distinct_iff [OF ms] inv by simp_all
  have picks: "picks_ok (length ?keys) 0 ?picks" "2 \<le> length ?picks"
    using fair two by (auto simp: fair_choice_def keys lruSampleSize_def)
  obtain sample where s: "length sample = length ?picks" "distinct sample" "set sample \<subseteq> set ?keys"
    and found: "case sample_loop (mem c) 0 ?picks ?keys (2 ^ 63 - 1) None of
         Some k \<Rightarrow> k \<in> set sample \<and> access_of (mem c) k < 2 ^ 63 - 1 \<and> (\<forall>x \<in> set sample. access_of (mem c) k \<le> access_of (mem c) x)
       | None \<Rightarrow> (\<forall>x \<in> set sample. 2 ^ 63 - 1 \<le> access_of (mem c) x)"
    by (rule sample_found [OF picks(1), where m = "mem c" and t = "2 ^ 63 - 1"]) (use keys(3) in auto)
  have "\<exists>x \<in> set sample. x \<noteq> key"
  proof (rule ccontr)
    assume "\<not> ?thesis"
    then have "set sample \<subseteq> {key}" by auto
    then have "card (set sample) \<le> 1" using card_mono [of "{key}" "set sample"] by simp
    then show False using s(1) picks(2) distinct_card [OF s(2)] by linarith
  qed
  then obtain x where x: "x \<in> set sample" "x \<noteq> key" by blast
  then obtain ex where ex: "map_of (mem c) x = Some ex"
    using s(3) keys(2) by (metis (no_types, opaque_lifting) map_of_eq_None_iff not_None_eq subset_iff)
  have less: "access_of (mem c) x < lastAccessed e" "access_of (mem c) key = lastAccessed e"
    using newest(2) [OF ex x(2)] ex newest(1) by (auto simp: access_of_def)
  then obtain k where k: "sample_loop (mem c) 0 ?picks ?keys (2 ^ 63 - 1) None = Some k" "k \<in> set sample"
      "access_of (mem c) k \<le> access_of (mem c) x"
    using found x small by (fastforce split: option.splits)
  then have "k \<noteq> key" "k \<in> fst ` set (mem c)" using less s(3) keys(2) by auto
  moreover have "evictIfNeeded ?keys picks c = c\<lparr>mem := AList.delete k (mem c)\<rparr>"
    using full k(1) by (simp add: evictIfNeeded_def keys(1))
  ultimately show ?thesis by (rule that)
qed

lemma nextAccess_simps [simp]: "nextAccess c = (accessCounter c + 1, c\<lparr>accessCounter := accessCounter c + 1\<rparr>)"
  by (simp add: nextAccess_def)

lemma scheduleSave_simps [simp]: "mem (scheduleSaveLocked c) = mem c" "maxMem (scheduleSaveLocked c) = maxMem c"
  "accessCounter (scheduleSaveLocked c) = accessCounter c" "ttl (scheduleSaveLocked c) = ttl c" "persist (scheduleSaveLocked c) = persist c"
  by (simp_all add: scheduleSaveLocked_def)

text \<open>Writing an entry: the new entry is in the memory, at most one other entry is gone, and a memory
  within its limit stays within it.\<close>

lemma cache_Set_effect:
  assumes inv: "cache_inv c" and fair: "\<And>n. n = length (AList.update key x (mem c)) \<Longrightarrow> fair_choice order picks n"
    and small: "accessCounter c + 1 < 2 ^ 63 - 1"
    and new: "e = \<lparr>me_value = v, cachedAt = now, lastAccessed = accessCounter c + 1\<rparr>"
  obtains (kept) "mem (cache_Set now order picks key v c) = AList.update key e (mem c)"
      "int (length (AList.update key e (mem c))) \<le> maxMem c"
  | (evicted) k where "k \<noteq> key" "mem (cache_Set now order picks key v c) = AList.delete k (AList.update key e (mem c))"
      "length (AList.delete k (AList.update key e (mem c))) \<le> length (mem c)"
proof -
  let ?m = "AList.update key e (mem c)" and ?c = "c\<lparr>accessCounter := accessCounter c + 1, mem := AList.update key e (mem c)\<rparr>"
  have eq: "mem (cache_Set now order picks key v c) = mem (evictIfNeeded (order (map fst ?m)) picks ?c)"
    by (simp add: cache_Set_def new Let_def)
  have dist: "distinct (map fst ?m)" using inv by (simp add: cache_inv_def distinct_update)
  show ?thesis
  proof (cases "int (length ?m) \<le> maxMem c")
    case True
    show ?thesis by (rule kept) (use True eq in \<open>simp_all add: evictIfNeeded_def\<close>)
  next
    case False
    have len: "length (AList.update key x (mem c)) = length ?m" using inv by (simp add: cache_inv_def length_update)
    have two: "2 \<le> length ?m" using False inv by (simp add: cache_inv_def)
    have "map_of ?m key = Some e" by (simp add: update_conv')
    moreover have "lastAccessed e' < lastAccessed e" if "map_of ?m k = Some e'" "k \<noteq> key" for k e'
      using that inv by (force simp: update_conv' cache_inv_def new)
    ultimately obtain k where k: "k \<noteq> key" "k \<in> fst ` set ?m" "evictIfNeeded (order (map fst ?m)) picks ?c = ?c\<lparr>mem := AList.delete k ?m\<rparr>"
      using evict_one [of ?c order picks key e] dist False two fair [OF len [symmetric]] small by (auto simp: new)
    then have "length (AList.delete k ?m) = length ?m - 1" using delete_one [OF dist] by blast
    then have "length (AList.delete k ?m) \<le> length (mem c)"
      using inv by (auto simp: cache_inv_def length_update)
    then show ?thesis using evicted k eq by simp
  qed
qed

section \<open>Sequences of operations\<close>

text \<open>Every operation of a cache runs under its mutex.  The clock, the iteration order and the random
  picks come with the operation; other caches may advance the shared counter.  \<open>written\<close> is the last
  value that was set for a key and not deleted, with the time of the writing.\<close>

datatype ('k, 'v) cache_op = SetOp int "'k list \<Rightarrow> 'k list" "nat list" 'k 'v | GetOp int 'k | DeleteOp 'k | ClearOp | AccessOp

fun cache_act :: "('k, 'v) cache_op \<Rightarrow> ('k, 'v) Cache \<Rightarrow> ('k, 'v) Cache" where
  "cache_act (SetOp now order picks k v) c = cache_Set now order picks k v c"
| "cache_act (GetOp now k) c = snd (memGet now k c)"
| "cache_act (DeleteOp k) c = cache_Delete k c"
| "cache_act ClearOp c = fst (cache_Clear True (\<lambda>_. []) (c, None))"
| "cache_act AccessOp c = snd (nextAccess c)"

fun written_act :: "('k, 'v) cache_op \<Rightarrow> ('k \<rightharpoonup> 'v \<times> int) \<Rightarrow> 'k \<rightharpoonup> 'v \<times> int" where
  "written_act (SetOp now order picks k v) h = h(k \<mapsto> (v, now))"
| "written_act (DeleteOp k) h = h(k := None)"
| "written_act ClearOp h = Map.empty"
| "written_act _ h = h"

text \<open>The operations that may come next: fair choices and a counter that does not overflow.\<close>

fun admissible :: "('k, 'v) cache_op \<Rightarrow> ('k, 'v) Cache \<Rightarrow> bool" where
  "admissible (SetOp now order picks k v) c \<longleftrightarrow> accessCounter c + 1 < 2 ^ 63 - 1
     \<and> fair_choice order picks (if k \<in> fst ` set (mem c) then length (mem c) else length (mem c) + 1)"
| "admissible _ c \<longleftrightarrow> True"

inductive cache_reach :: "('k, 'v) Cache \<Rightarrow> ('k, 'v) Cache \<Rightarrow> ('k \<rightharpoonup> 'v \<times> int) \<Rightarrow> bool" for c0 where
  start: "cache_reach c0 c0 (\<lambda>k. map_option (\<lambda>e. (me_value e, cachedAt e)) (map_of (mem c0) k))"
| more: "cache_reach c0 c h \<Longrightarrow> admissible op c \<Longrightarrow> cache_reach c0 (cache_act op c) (written_act op h)"

definition agrees :: "('k \<rightharpoonup> 'v \<times> int) \<Rightarrow> ('k, 'v) Cache \<Rightarrow> bool" where
  "agrees h c \<longleftrightarrow> (\<forall>k e. map_of (mem c) k = Some e \<longrightarrow> h k = Some (me_value e, cachedAt e))"

text \<open>The relation between the caches before and behind an operation.\<close>

definition cache_ok :: "int \<Rightarrow> int \<Rightarrow> int \<Rightarrow> ('k, 'v) Cache \<Rightarrow> ('k \<rightharpoonup> 'v \<times> int) \<Rightarrow> bool" where
  "cache_ok t m n c h \<longleftrightarrow> cache_inv c \<and> agrees h c \<and> ttl c = t \<and> maxMem c = m \<and> int (length (mem c)) \<le> max m n"

lemma map_of_delete: "map_of (AList.delete k al) = (map_of al)(k := None)"
  by (simp add: delete_conv')

lemma distinct_delete: "distinct (map fst al) \<Longrightarrow> distinct (map fst (AList.delete k al))"
  by (simp add: AList.distinct_delete)

lemma cache_inv_mono:
  assumes "cache_inv c" and "distinct (map fst (mem c'))" and "maxMem c' = maxMem c" and "accessCounter c \<le> accessCounter c'"
    and "\<And>k e. map_of (mem c') k = Some e \<Longrightarrow> lastAccessed e \<le> accessCounter c' \<or> map_of (mem c) k = Some e"
  shows "cache_inv c'"
  using assms unfolding cache_inv_def by (metis order_trans)

lemma cache_Set_fields [simp]: "ttl (cache_Set now order picks k v c) = ttl c" "maxMem (cache_Set now order picks k v c) = maxMem c"
  "accessCounter (cache_Set now order picks k v c) = accessCounter c + 1"
  by (simp_all add: cache_Set_def evictIfNeeded_def Let_def split: option.splits)

lemma cache_ok_Set:
  assumes ok: "cache_ok t m n c h" and adm: "admissible (SetOp now order picks k v) c"
  shows "cache_ok t m n (cache_Set now order picks k v c) (h(k \<mapsto> (v, now)))"
    and "map_of (mem (cache_Set now order picks k v c)) k = Some \<lparr>me_value = v, cachedAt = now, lastAccessed = accessCounter c + 1\<rparr>"
proof -
  let ?e = "\<lparr>me_value = v, cachedAt = now, lastAccessed = accessCounter c + 1\<rparr>" and ?c = "cache_Set now order picks k v c"
  have inv: "cache_inv c" and dist: "distinct (map fst (mem c))" using ok by (auto simp: cache_ok_def cache_inv_def)
  have fair: "fair_choice order picks n" if "n = length (AList.update k ?e (mem c))" for n
    using adm that dist by (auto simp: length_update split: if_splits)
  have small: "accessCounter c + 1 < 2 ^ 63 - 1" using adm by simp
  obtain d where d: "d = None \<or> (\<exists>k'. d = Some k' \<and> k' \<noteq> k)" "distinct (map fst (mem ?c))"
    "\<And>x. map_of (mem ?c) x = (if d = Some x then None else ((map_of (mem c))(k \<mapsto> ?e)) x)"
    "int (length (mem ?c)) \<le> max m n"
  proof (rule cache_Set_effect [OF inv fair small refl, where now = now and v = v])
    assume "mem ?c = AList.update k ?e (mem c)" "int (length (AList.update k ?e (mem c))) \<le> maxMem c"
    then show ?thesis using that [of None] ok dist by (auto simp: update_conv' distinct_update cache_ok_def)
  next
    fix k' assume "k' \<noteq> k" "mem ?c = AList.delete k' (AList.update k ?e (mem c))"
      "length (AList.delete k' (AList.update k ?e (mem c))) \<le> length (mem c)"
    then show ?thesis
      using that [of "Some k'"] ok dist by (auto simp: update_conv' map_of_delete distinct_update distinct_delete cache_ok_def)
  qed
  show "map_of (mem ?c) k = Some ?e" using d(1) d(3) [of k] by auto
  have sub: "map_of (mem ?c) x = Some e \<Longrightarrow> x = k \<and> e = ?e \<or> x \<noteq> k \<and> map_of (mem c) x = Some e" for x e
    using d(3) [of x] by (auto split: if_splits)
  have "cache_inv ?c"
    by (rule cache_inv_mono [OF inv d(2)]) (use sub in \<open>auto dest!: sub\<close>)
  moreover have "agrees (h(k \<mapsto> (v, now))) ?c" using ok sub by (fastforce simp: agrees_def cache_ok_def)
  ultimately show "cache_ok t m n ?c (h(k \<mapsto> (v, now)))" using ok d(4) by (simp add: cache_ok_def)
qed

lemma cache_ok_delete:
  assumes "cache_ok t m n c h" and "h' = h \<or> h' = h(k := None)"
  shows "cache_ok t m n (c\<lparr>mem := AList.delete k (mem c)\<rparr>) h'"
proof -
  have "int (length (AList.delete k (mem c))) \<le> max m n"
    using assms(1) length_delete_le [of k "mem c"] by (simp add: cache_ok_def)
  then show ?thesis
    using assms unfolding cache_ok_def
    by (auto simp: cache_inv_def agrees_def map_of_delete distinct_delete)
qed

lemma cache_ok_access:
  assumes ok: "cache_ok t m n c h" and e: "map_of (mem c) k = Some e"
  shows "cache_ok t m n (c\<lparr>accessCounter := accessCounter c + 1, mem := AList.update k (e\<lparr>lastAccessed := accessCounter c + 1\<rparr>) (mem c)\<rparr>) h"
proof -
  let ?c = "c\<lparr>accessCounter := accessCounter c + 1, mem := AList.update k (e\<lparr>lastAccessed := accessCounter c + 1\<rparr>) (mem c)\<rparr>"
  have inv: "cache_inv c" using ok by (simp add: cache_ok_def)
  have "k \<in> fst ` set (mem c)" using e by (metis map_of_eq_None_iff option.distinct(1))
  then have "length (mem ?c) = length (mem c)" using inv by (simp add: cache_inv_def length_update)
  moreover have "cache_inv ?c"
    by (rule cache_inv_mono [OF inv]) (use inv in \<open>auto simp: cache_inv_def distinct_update update_conv' split: if_splits\<close>)
  moreover have "agrees h ?c" using ok e by (auto simp: agrees_def cache_ok_def update_conv')
  ultimately show ?thesis using ok by (simp add: cache_ok_def)
qed

lemma cache_ok_Get: "cache_ok t m n c h \<Longrightarrow> cache_ok t m n (snd (memGet now k c)) h"
  using cache_ok_delete [of t m n c h h k] cache_ok_access [of t m n c h k]
  by (auto simp: memGet_def split: option.splits)

lemma cache_ok_frame:
  "cache_ok t m n c h \<Longrightarrow> cache_ok t m n (c\<lparr>save_pending := p, saveTimer := s\<rparr>) h"
  "cache_ok t m n c h \<Longrightarrow> cache_ok t m n (scheduleSaveLocked c) h"
  "cache_ok t m n c h \<Longrightarrow> accessCounter c \<le> a \<Longrightarrow> cache_ok t m n (c\<lparr>accessCounter := a\<rparr>) h"
  by (auto simp: cache_ok_def cache_inv_def agrees_def scheduleSaveLocked_def)
    (metis order_trans)

lemma cache_ok_act: "cache_ok t m n c h \<Longrightarrow> admissible op c \<Longrightarrow> cache_ok t m n (cache_act op c) (written_act op h)"
proof (cases op)
  case (SetOp now order picks k v)
  assume "cache_ok t m n c h" "admissible op c"
  then show ?thesis unfolding SetOp cache_act.simps written_act.simps by (rule cache_ok_Set(1))
next
  case (GetOp now k)
  assume "cache_ok t m n c h"
  then show ?thesis by (simp add: GetOp cache_ok_Get)
next
  case (DeleteOp k)
  assume "cache_ok t m n c h"
  then show ?thesis
    using cache_ok_delete [of t m n c h "h(k := None)" k] by (simp add: DeleteOp cache_Delete_def cache_ok_frame(2))
next
  case ClearOp
  assume "cache_ok t m n c h"
  then have "cache_ok t m n (c\<lparr>mem := []\<rparr>) Map.empty" by (auto simp: cache_ok_def cache_inv_def agrees_def)
  then show ?thesis by (simp add: ClearOp cache_Clear_def Let_def stopSaveTimerLocked_def cache_ok_frame(1))
next
  case AccessOp
  assume "cache_ok t m n c h"
  then show ?thesis by (simp add: AccessOp cache_ok_frame(3))
qed

lemma cache_ok_reach:
  "cache_reach c0 c h \<Longrightarrow> cache_inv c0 \<Longrightarrow> cache_ok (ttl c0) (maxMem c0) (int (length (mem c0))) c h"
proof (induction rule: cache_reach.induct)
  case start
  then show ?case by (simp add: cache_ok_def agrees_def)
next
  case (more c h op)
  then show ?case by (simp add: cache_ok_act)
qed

text \<open>A lookup: a hit is the last value written, and not expired; the value just written is found.\<close>

lemma memGet_hit:
  assumes "cache_ok t m n c h" and "fst (memGet now k c) = Some v"
  shows "\<exists>at. h k = Some (v, at) \<and> (t > 0 \<longrightarrow> now - at \<le> Milliseconds t)"
  using assms by (auto simp: memGet_def cache_ok_def agrees_def expired_def split: option.splits if_splits)

section \<open>The file\<close>

lemma load_entry_fields [simp]: "ttl (load_entry parse now x c) = ttl c" "maxMem (load_entry parse now x c) = maxMem c"
  by (auto simp: load_entry_def split: prod.splits option.splits)

lemma load_entry_inv:
  assumes c: "cache_inv c"
  shows "cache_inv (load_entry parse now x c)"
proof -
  obtain ks v at where x: "x = (ks, v, at)" by (metis prod_cases3)
  show ?thesis
  proof (cases "expired now c at \<or> parse ks = None")
    case True
    then show ?thesis using c by (auto simp: x load_entry_def)
  next
    case False
    then obtain k where k: "parse ks = Some k" by auto
    let ?c = "c\<lparr>accessCounter := accessCounter c + 1,
      mem := AList.update k \<lparr>me_value = v, cachedAt = at, lastAccessed = accessCounter c + 1\<rparr> (mem c)\<rparr>"
    have "cache_inv ?c"
      by (rule cache_inv_mono [OF c]) (use c in \<open>auto simp: cache_inv_def distinct_update update_conv' split: if_splits\<close>)
    then show ?thesis using False k by (simp add: x load_entry_def)
  qed
qed

lemma load_fold_inv: "cache_inv c \<Longrightarrow> cache_inv (fold (load_entry parse now) es c)"
  by (induction es arbitrary: c) (simp_all add: load_entry_inv)

lemma newCache_inv: "cache_inv (newCache parse now t n p a cf)"
proof -
  have "cache_inv \<lparr>ttl = t, maxMem = (if n \<le> 0 then 100 else n), persist = p, mem = [],
               saveTimer = False, save_pending = False, accessCounter = a\<rparr>"
    by (simp add: cache_inv_def)
  then show ?thesis unfolding newCache_def loadFromDisk_def Let_def
    by (cases p; cases cf) (auto intro: load_fold_inv)
qed

text \<open>What was saved and is not expired is there again when the cache is created from the file.\<close>

context text_key
begin

lemma load_fold_lookup:
  assumes "distinct (map fst es)" and "\<forall>k \<in> fst ` set es. valid k"
  shows "map_option (\<lambda>e. (me_value e, cachedAt e))
      (map_of (mem (fold (load_entry keyParse now) (map (\<lambda>(k, e). (keyStr k, me_value e, cachedAt e)) es) c)) k)
    = (case map_of es k of
         Some e \<Rightarrow> if expired now c (cachedAt e) then map_option (\<lambda>e. (me_value e, cachedAt e)) (map_of (mem c) k)
                    else Some (me_value e, cachedAt e)
       | None \<Rightarrow> map_option (\<lambda>e. (me_value e, cachedAt e)) (map_of (mem c) k))"
  using assms
proof (induction es arbitrary: c)
  case (Cons x es)
  obtain k0 e0 where x: "x = (k0, e0)" by fastforce
  have parse: "keyParse (keyStr k0) = Some k0" using Cons.prems(2) by (auto simp: x intro: parse_str)
  let ?c = "load_entry keyParse now (keyStr k0, me_value e0, cachedAt e0) c"
  have exp: "expired now ?c at = expired now c at" for at by (simp add: expired_def)
  have look: "map_option (\<lambda>e. (me_value e, cachedAt e)) (map_of (mem ?c) k) =
      (if k = k0 \<and> \<not> expired now c (cachedAt e0) then Some (me_value e0, cachedAt e0)
       else map_option (\<lambda>e. (me_value e, cachedAt e)) (map_of (mem c) k))"
    by (auto simp: load_entry_def parse update_conv')
  have "k0 \<notin> fst ` set es" using Cons.prems(1) by (simp add: x)
  then have none: "map_of es k0 = None" by (simp add: map_of_eq_None_iff)
  show ?case
    using Cons.IH [of ?c] Cons.prems look none by (auto simp: x exp split: option.splits)
qed simp

end

section \<open>The properties\<close>

lemma load_fold_fields [simp]: "ttl (fold (load_entry parse now) es c) = ttl c" "maxMem (fold (load_entry parse now) es c) = maxMem c"
  by (induction es arbitrary: c) simp_all

lemma newCache_fields [simp]: "ttl (newCache parse now t n p a cf) = t"
  "maxMem (newCache parse now t n p a cf) = (if n \<le> 0 then 100 else n)"
  by (simp_all add: newCache_def loadFromDisk_def Let_def split: option.split)

lemma fst_memGet: "fst (memGet now k c) =
    (case map_of (mem c) k of None \<Rightarrow> None | Some e \<Rightarrow> if expired now c (cachedAt e) then None else Some (me_value e))"
  by (simp add: memGet_def split: option.split)

text \<open>C38.  What a cache answers.  After any sequence of writes, lookups, deletions and clears, with any
  iteration order and any random picks of the eviction: the memory holds no more entries than its
  limit (or than it was loaded with); a hit is the last value that was written for the key and not
  deleted, and it is not older than the time to live; and a value just written is found for as long
  as it has not expired, whatever was evicted for it.\<close>

theorem cache_answers:
  assumes "cache_reach (newCache parse now0 t n p a cf) c h"
  shows "int (length (mem c)) \<le> max (maxMem c) (int (length (mem (newCache parse now0 t n p a cf))))
    \<and> (\<forall>now k v. fst (memGet now k c) = Some v \<longrightarrow> (\<exists>at. h k = Some (v, at) \<and> (t > 0 \<longrightarrow> now - at \<le> Milliseconds t)))
    \<and> (\<forall>now now' order picks k v. admissible (SetOp now order picks k v) c \<and> (t > 0 \<longrightarrow> now' - now \<le> Milliseconds t)
         \<longrightarrow> fst (memGet now' k (cache_Set now order picks k v c)) = Some v)"
proof -
  let ?c0 = "newCache parse now0 t n p a cf"
  note ok = cache_ok_reach [OF assms newCache_inv]
  have t: "ttl c = t" and m: "maxMem c = maxMem ?c0" using ok by (simp_all add: cache_ok_def)
  have "fst (memGet now' k (cache_Set now order picks k v c)) = Some v"
    if "admissible (SetOp now order picks k v) c" "t > 0 \<longrightarrow> now' - now \<le> Milliseconds t" for now now' order picks k v
    using cache_ok_Set(2) [OF ok that(1)] that(2) by (auto simp: fst_memGet expired_def t)
  moreover have "int (length (mem c)) \<le> max (maxMem c) (int (length (mem ?c0)))"
    using ok by (simp add: cache_ok_def m)
  moreover have "\<exists>at. h k = Some (v, at) \<and> (t > 0 \<longrightarrow> now - at \<le> Milliseconds t)" if "fst (memGet now k c) = Some v" for now k v
    using memGet_hit [OF ok that] by simp
  ultimately show ?thesis by blast
qed

text \<open>A cache for two entries with a time to live of one second takes its third entry.\<close>

definition small_cache :: "(int, int) Cache" where "small_cache = newCache Atoi 0 1000000000 2 False 0 None"

definition small_run :: "(int, int) cache_op list" where
  "small_run = [SetOp 10 id [0] 1 100, SetOp 20 id [0, 0] 2 200, GetOp 30 1, SetOp 40 id [1, 0, 0] 3 300]"

lemma small_run_reach:
  "\<exists>h. cache_reach small_cache (fold cache_act small_run small_cache) h"
proof -
  note run = small_cache_def newCache_def cache_Set_def evictIfNeeded_def scheduleSaveLocked_def memGet_def
    fair_choice_def lruSampleSize_def expired_def Milliseconds_def
  let ?a = "SetOp 10 id [0] 1 100" and ?b = "SetOp 20 id [0, 0] 2 200" and ?g = "GetOp 30 1" and ?d = "SetOp 40 id [1, 0, 0] (3::int) (300::int)"
  obtain h where "cache_reach small_cache small_cache h" using cache_reach.start by blast
  moreover have "admissible ?a small_cache" by (simp add: run numeral_2_eq_2)
  moreover have "admissible ?b (cache_act ?a small_cache)" by (simp add: run numeral_2_eq_2 Let_def)
  moreover have "admissible ?g (cache_act ?b (cache_act ?a small_cache))" by simp
  moreover have "admissible ?d (cache_act ?g (cache_act ?b (cache_act ?a small_cache)))"
    by (simp add: run numeral_2_eq_2 numeral_3_eq_3 Let_def)
  ultimately have "\<exists>h. cache_reach small_cache (cache_act ?d (cache_act ?g (cache_act ?b (cache_act ?a small_cache)))) h"
    by (metis cache_reach.more)
  then show ?thesis by (simp add: small_run_def)
qed

theorem cache_answers_witness:
  "\<exists>h at. cache_reach small_cache (fold cache_act small_run small_cache) h
    \<and> fst (memGet 50 1 (fold cache_act small_run small_cache)) = Some 100
    \<and> fst (memGet 50 2 (fold cache_act small_run small_cache)) = None
    \<and> h 1 = Some (100, at) \<and> 50 - at \<le> Milliseconds 1000000000"
proof -
  let ?c = "fold cache_act small_run small_cache"
  obtain h where h: "cache_reach small_cache ?c h" using small_run_reach by blast
  have look: "fst (memGet 50 1 ?c) = Some 100" "fst (memGet 50 2 ?c) = None"
    by (simp_all add: small_run_def small_cache_def newCache_def cache_Set_def evictIfNeeded_def scheduleSaveLocked_def memGet_def
      lruSampleSize_def expired_def Milliseconds_def Let_def swap_def access_of_def)
  then obtain at where "h 1 = Some (100, at)" "(1000000000::int) > 0 \<longrightarrow> 50 - at \<le> Milliseconds 1000000000"
    using cache_answers [OF h [unfolded small_cache_def]] unfolding small_cache_def by blast
  then show ?thesis using h look by auto
qed

text \<open>A restart does not change what the cache answers: the cache that is created from the file of
  an \<open>int\<close> cache with the same time to live, at whatever time and with whatever limit, finds for every
  key what the saved cache would have found at that time.\<close>

theorem cache_survives_restart:
  assumes "cache_reach (newCache Atoi now0 t n p a cf) c h" and "\<forall>k \<in> fst ` set (mem c). in_int64 k"
  shows "fst (memGet now k (newCache Atoi now t n' True a' (flushToDiskLocked True Itoa c cf'))) = fst (memGet now k c)"
proof -
  note ok = cache_ok_reach [OF assms(1) newCache_inv]
  have c: "distinct (map fst (mem c))" "ttl c = t" using ok by (simp_all add: cache_ok_def cache_inv_def)
  let ?e = "\<lparr>ttl = t, maxMem = (if n' \<le> 0 then 100 else n'), persist = True, mem = [],
               saveTimer = False, save_pending = False, accessCounter = a'\<rparr> :: (int, 'a) Cache"
  let ?c' = "newCache Atoi now t n' True a' (flushToDiskLocked True Itoa c cf')"
  have "map_option (\<lambda>e. (me_value e, cachedAt e)) (map_of (mem ?c') k) =
      (case map_of (mem c) k of Some e \<Rightarrow> if expired now ?e (cachedAt e) then None else Some (me_value e, cachedAt e) | None \<Rightarrow> None)"
    using int_key.load_fold_lookup [OF c(1) assms(2), of now ?e k]
    by (simp add: newCache_def loadFromDisk_def flushToDiskLocked_def split: option.splits)
  then show ?thesis
    by (auto simp: fst_memGet expired_def c(2) split: option.splits if_splits)
qed

theorem cache_survives_restart_witness:
  "fst (memGet 60 1 (newCache Atoi 60 1000000000 5 True 9 (flushToDiskLocked True Itoa (fold cache_act small_run small_cache) None))) = Some 100"
proof -
  let ?c = "fold cache_act small_run small_cache"
  obtain h where h: "cache_reach small_cache ?c h" using small_run_reach by blast
  have "\<forall>k \<in> fst ` set (mem ?c). in_int64 k" "fst (memGet 60 1 ?c) = Some 100"
    by (simp_all add: small_run_def small_cache_def newCache_def cache_Set_def evictIfNeeded_def scheduleSaveLocked_def memGet_def
      lruSampleSize_def expired_def Milliseconds_def Let_def swap_def access_of_def in_int64_def)
  then show ?thesis
    using cache_survives_restart [OF h [unfolded small_cache_def], of 60 1 5 9 None] by (simp add: small_cache_def)
qed

end
