(* ===== verification/Cache_Flights.thy ===== *)
theory Cache_Flights
  imports Ttl_Cache
begin

text \<open>
  \<open>GetOrSet\<close> of \<open>common/cache/cache.go\<close>: concurrent requests for a key that is not in the cache share
  one call of their factory.  A request is a thread of atomic actions: its lookup, the registration
  under the mutex (as the leader of a new flight, or as a waiter of a running one), the end of its
  factory with the writing of the cache, the closing of the channel, the removal of the flight, and
  the wake-up of a waiter.  Any interleaving of any number of requests is a sequence of steps.
\<close>

type_synonym 'v outcome = "string + 'v"

datatype ('k, 'v) call_phase =
    Ready 'k
  | Missed 'k
  | Leading 'k nat
  | Stored 'k nat "'v outcome"
  | Closed 'k nat "'v outcome"
  | Waiting 'k nat
  | Returned 'k "nat option" "'v outcome"

record ('k, 'v) FlightState =
  fs_cache :: "('k, 'v) Cache"
  inFlight :: "'k \<rightharpoonup> nat"
  flight_result :: "nat \<rightharpoonup> 'v outcome"
  next_flight :: nat
  calls :: "nat \<Rightarrow> ('k, 'v) call_phase"









section \<open>The invariant\<close>

text \<open>The flight that a call leads, from its registration to its removal, and whether its channel is
  still open.\<close>

fun leads :: "('k, 'v) call_phase \<Rightarrow> ('k \<times> nat) option" where
  "leads (Leading k f) = Some (k, f)"
| "leads (Stored k f r) = Some (k, f)"
| "leads (Closed k f r) = Some (k, f)"
| "leads _ = None"

fun flying :: "('k, 'v) call_phase \<Rightarrow> nat option" where
  "flying (Leading k f) = Some f"
| "flying (Stored k f r) = Some f"
| "flying _ = None"

fun joined :: "('k, 'v) call_phase \<Rightarrow> (nat \<times> 'v outcome) option" where
  "joined (Closed k f r) = Some (f, r)"
| "joined (Returned k (Some f) r) = Some (f, r)"
| "joined _ = None"

definition flights_ok :: "('k, 'v) FlightState \<Rightarrow> bool" where
  "flights_ok s \<longleftrightarrow>
     (\<forall>i k f. leads (calls s i) = Some (k, f) \<longrightarrow> inFlight s k = Some f \<and> f < next_flight s)
     \<and> (\<forall>i j k f k' f'. leads (calls s i) = Some (k, f) \<and> leads (calls s j) = Some (k', f') \<and> (k = k' \<or> f = f') \<longrightarrow> i = j)
     \<and> (\<forall>i f. flying (calls s i) = Some f \<longrightarrow> flight_result s f = None)
     \<and> (\<forall>k f. inFlight s k = Some f \<longrightarrow> (\<exists>i. leads (calls s i) = Some (k, f)))
     \<and> (\<forall>i k f. calls s i = Waiting k f \<longrightarrow> f < next_flight s \<and> (flight_result s f \<noteq> None \<or> (\<exists>j. flying (calls s j) = Some f)))
     \<and> (\<forall>i f r. joined (calls s i) = Some (f, r) \<longrightarrow> flight_result s f = Some r)
     \<and> (\<forall>f \<ge> next_flight s. flight_result s f = None)"

lemma flights_ok_parts:
  assumes "flights_ok s"
  shows flight_registered: "leads (calls s i) = Some (k, f) \<Longrightarrow> inFlight s k = Some f \<and> f < next_flight s"
    and flight_unique: "leads (calls s i) = Some (k, f) \<Longrightarrow> leads (calls s j) = Some (k', f') \<Longrightarrow> k = k' \<or> f = f' \<Longrightarrow> i = j"
    and flight_open: "flying (calls s i) = Some f \<Longrightarrow> flight_result s f = None"
    and flight_led: "inFlight s k = Some f \<Longrightarrow> \<exists>i. leads (calls s i) = Some (k, f)"
    and flight_awaited: "calls s i = Waiting k f \<Longrightarrow> f < next_flight s \<and> (flight_result s f \<noteq> None \<or> (\<exists>j. flying (calls s j) = Some f))"
    and flight_shared: "joined (calls s i) = Some (f, r) \<Longrightarrow> flight_result s f = Some r"
    and flight_fresh: "next_flight s \<le> f \<Longrightarrow> flight_result s f = None"
  using assms unfolding flights_ok_def by metis+



















section \<open>No waiter is left behind\<close>




section \<open>The property\<close>








end
