(* ===== verification/Proxy_Header.thy ===== *)
theory Proxy_Header
  imports Go_Strconv
begin

text \<open>
  The PROXY protocol header in front of a connection, \<open>server/network/proxyprotocol.go\<close>: the text
  header of version 1 and the binary header of version 2.  A buffered reader is the list of the bytes
  that arrive before its deadline; \<open>Peek\<close> looks at its first bytes and fails on a short read and on a
  request larger than the buffer, \<open>Discard\<close> drops them.  The textual forms of addresses follow
  \<open>net.IP.String\<close> of the Go library (a dotted quad, or groups of hexadecimal digits with the first
  longest run of at least two zero groups elided).
\<close>

section \<open>The buffered reader\<close>

definition readChunk :: nat where "readChunk = 16 * 1024"

definition Peek :: "nat \<Rightarrow> bytes \<Rightarrow> bytes \<times> bool" where
  "Peek n r = (if n > readChunk then (take readChunk r, False) else (take n r, n \<le> length r))"

definition Discard :: "nat \<Rightarrow> bytes \<Rightarrow> bytes" where
  "Discard n r = drop n r"

text \<open>\<open>bytes.Index(buf, "\\r\\n")\<close>.\<close>

fun crlf_index :: "bytes \<Rightarrow> nat option" where
  "crlf_index (a # b # bs) = (if a = 13 \<and> b = 10 then Some 0 else map_option Suc (crlf_index (b # bs)))"
| "crlf_index _ = None"

section \<open>Addresses as text\<close>

definition IPv4_String :: "bytes \<Rightarrow> string" where
  "IPv4_String b = Join (CHR ''.'') (map (\<lambda>x. Itoa (uint x)) (take 4 b))"

definition hex_digit :: "nat \<Rightarrow> char" where
  "hex_digit n = char_of (if n < 10 then 48 + n else 87 + n)"

fun hex_nat :: "nat \<Rightarrow> string" where
  "hex_nat n = (if n < 16 then [hex_digit n] else hex_nat (n div 16) @ [hex_digit (n mod 16)])"

declare hex_nat.simps [simp del]

fun groups :: "bytes \<Rightarrow> nat list" where
  "groups (a # b # bs) = (256 * unat a + unat b) # groups bs"
| "groups _ = []"

definition zero_run :: "nat list \<Rightarrow> nat" where
  "zero_run gs = length (takeWhile (\<lambda>g. g = 0) gs)"

text \<open>The first longest run of at least two zero groups: its start and its length (0 if there is none).\<close>

fun best_run :: "nat \<Rightarrow> nat list \<Rightarrow> nat \<times> nat \<Rightarrow> nat \<times> nat" where
  "best_run i [] best = best"
| "best_run i (g # gs) best =
     (let l = zero_run (g # gs) in best_run (i + 1) gs (if l \<ge> 2 \<and> l > snd best then (i, l) else best))"

definition groups_String :: "nat list \<Rightarrow> string" where
  "groups_String gs =
     (case best_run 0 gs (0, 0) of
        (st, 0) \<Rightarrow> Join (CHR '':'') (map hex_nat gs)
      | (st, l) \<Rightarrow> Join (CHR '':'') (map hex_nat (take st gs)) @ '':'' @ '':'' @ Join (CHR '':'') (map hex_nat (drop (st + l) gs)))"

definition ipv6String :: "bytes \<Rightarrow> string" where
  "ipv6String b =
     (if take 10 b = replicate 10 0 \<and> b ! 10 = 255 \<and> b ! 11 = 255 then IPv4_String (drop 12 b)
      else groups_String (groups (take 16 b)))"

section \<open>The header\<close>

record ProxyInfo =
  SourceAddr :: string
  SourcePort :: int
  DestAddr :: string
  DestPort :: int
  Family :: string

definition proxyV2Signature :: bytes where
  "proxyV2Signature = [0x0d, 0x0a, 0x0d, 0x0a, 0x00, 0x0d, 0x0a, 0x51, 0x55, 0x49, 0x54, 0x0a]"

definition proxyV1MaxLen :: nat where "proxyV1MaxLen = 108"

definition Uint16_at :: "bytes \<Rightarrow> nat \<Rightarrow> nat" where
  "Uint16_at b i = unat (be_decode (take 2 (drop i b)) :: u16)"

definition parseProxyV2 :: "bytes \<Rightarrow> ProxyInfo option \<times> bytes" where
  "parseProxyV2 r =
     (case Peek 16 r of (head, ok) \<Rightarrow>
        if \<not> ok \<or> take 12 head \<noteq> proxyV2Signature then (None, r)
        else let verCmd = head ! 12
          in if drop_bit 4 verCmd \<noteq> 2 then (None, r)
          else let command = verCmd AND 0x0f; famProto = head ! 13; addrLen = Uint16_at head 14; total = 16 + addrLen
            in (case Peek total r of (full, ok) \<Rightarrow>
              if \<not> ok then (None, r)
              else let r = Discard total r
                in if command \<noteq> 1 then (None, r)
                else let family = drop_bit 4 famProto; proto = famProto AND 0x0f
                  in if family = 1 \<and> proto = 1 then
                       (if addrLen < 12 then None
                        else Some \<lparr>SourceAddr = IPv4_String (drop 16 full), SourcePort = int (Uint16_at full 24),
                                   DestAddr = IPv4_String (drop 20 full), DestPort = int (Uint16_at full 26), Family = ''TCP4''\<rparr>, r)
                     else if family = 2 \<and> proto = 1 then
                       (if addrLen < 36 then None
                        else Some \<lparr>SourceAddr = ipv6String (drop 16 full), SourcePort = int (Uint16_at full 48),
                                   DestAddr = ipv6String (drop 32 full), DestPort = int (Uint16_at full 50), Family = ''TCP6''\<rparr>, r)
                     else (None, r)))"

definition parseProxyV1Line :: "string \<Rightarrow> ProxyInfo option" where
  "parseProxyV1Line line =
     (let parts = Split (CHR '' '') line
      in if length parts < 2 \<or> parts ! 1 = ''UNKNOWN'' then None
         else if length parts \<noteq> 6 then None
         else let family = parts ! 1
           in if family \<noteq> ''TCP4'' \<and> family \<noteq> ''TCP6'' then None
           else if parts ! 2 = [] \<or> parts ! 3 = [] then None
           else case (Atoi (parts ! 4), Atoi (parts ! 5)) of
               (Some srcPort, Some dstPort) \<Rightarrow>
                 Some \<lparr>SourceAddr = parts ! 2, SourcePort = srcPort, DestAddr = parts ! 3, DestPort = dstPort, Family = family\<rparr>
             | _ \<Rightarrow> None)"

definition parseProxyV1 :: "bytes \<Rightarrow> ProxyInfo option \<times> bytes" where
  "parseProxyV1 r =
     (let buf = fst (Peek proxyV1MaxLen r)
      in case crlf_index buf of
          None \<Rightarrow> (None, r)
        | Some idx \<Rightarrow>
            let line = string_of_bytes (take idx buf)
            in if take 6 line \<noteq> ''PROXY '' then (None, r)
               else (parseProxyV1Line line, Discard (idx + 2) r))"

definition ParseProxyHeader :: "bytes \<Rightarrow> ProxyInfo option \<times> bytes" where
  "ParseProxyHeader r =
     (case Peek 1 r of (first, ok) \<Rightarrow>
        if \<not> ok then (None, r)
        else if first ! 0 = proxyV2Signature ! 0 then parseProxyV2 r
        else if first ! 0 = 80 then parseProxyV1 r
        else (None, r))"

section \<open>What is a header\<close>

lemma crlf_index_found: "crlf_index b = Some i \<Longrightarrow> i + 2 \<le> length b \<and> take 2 (drop i b) = [13, 10] \<and> crlf_index (take (i + 1) b) = None"
proof (induction b arbitrary: i rule: crlf_index.induct)
  case (1 a b bs)
  then show ?case by (cases i) (auto split: if_splits)
qed auto

lemma crlf_index_line: "13 \<notin> set l \<Longrightarrow> crlf_index (l @ 13 # 10 # rest) = Some (length l)"
proof (induction l)
  case (Cons a l)
  then show ?case by (cases l) auto
qed simp

lemma crlf_index_take: "crlf_index b = Some i \<Longrightarrow> i + 2 \<le> n \<Longrightarrow> crlf_index (take n b) = Some i"
proof (induction b arbitrary: i n rule: crlf_index.induct)
  case (1 a b bs)
  obtain m where n: "n = Suc (Suc m)" using "1.prems"(2) by (metis add_2_eq_Suc' le_Suc_ex plus_nat.simps(2) add.commute)
  show ?case using "1.IH" [of _ "Suc m"] "1.prems" by (auto simp: n split: if_splits)
qed auto

definition v1_header :: "bytes \<Rightarrow> bool" where
  "v1_header h \<longleftrightarrow> take 6 h = bytes_of_string ''PROXY '' \<and> crlf_index h = Some (length h - 2) \<and> length h \<le> proxyV1MaxLen"

definition v2_header :: "bytes \<Rightarrow> bool" where
  "v2_header h \<longleftrightarrow> take 12 h = proxyV2Signature \<and> drop_bit 4 (h ! 12) = 2 \<and> length h = 16 + Uint16_at h 14"

lemma parseProxyV1_consumes:
  "case parseProxyV1 r of (info, rest) \<Rightarrow> info = None \<and> rest = r \<or> (\<exists>h. r = h @ rest \<and> v1_header h)"
proof (cases "crlf_index (fst (Peek proxyV1MaxLen r))")
  case None
  then show ?thesis by (simp add: parseProxyV1_def Let_def)
next
  case (Some idx)
  let ?buf = "take proxyV1MaxLen r"
  have buf: "fst (Peek proxyV1MaxLen r) = ?buf" by (simp add: Peek_def readChunk_def proxyV1MaxLen_def)
  have idx: "crlf_index ?buf = Some idx" using Some buf by simp
  have len: "idx + 2 \<le> length ?buf" using crlf_index_found [OF idx] by blast
  show ?thesis
  proof (cases "take 6 (string_of_bytes (take idx ?buf)) = ''PROXY ''")
    case False
    then show ?thesis by (simp add: parseProxyV1_def buf idx Let_def)
  next
    case True
    let ?h = "take (idx + 2) r"
    have le: "idx + 2 \<le> proxyV1MaxLen" using len by simp
    then have h: "take (idx + 2) ?buf = ?h" by (simp add: min_absorb1 del: add_2_eq_Suc')
    have six: "6 \<le> idx" using arg_cong [OF True, of length] by simp
    have "take 6 ?h = take 6 (take idx ?buf)" using six le by (simp add: min_absorb1)
    also have "\<dots> = bytes_of_string (take 6 (string_of_bytes (take idx ?buf)))"
      by (metis bytes_of_string_def bytes_of_string_of_bytes take_map)
    finally have "take 6 ?h = bytes_of_string ''PROXY ''" using True by simp
    moreover have "crlf_index ?h = Some idx" using crlf_index_take [OF idx, of "idx + 2"] h by simp
    moreover have "length ?h = idx + 2" "idx + 2 \<le> proxyV1MaxLen" using len by simp_all
    ultimately have "v1_header ?h" by (simp add: v1_header_def)
    then show ?thesis
      using True by (auto simp: parseProxyV1_def buf idx Let_def Discard_def intro!: exI [of _ ?h])
  qed
qed

lemma Uint16_take: "i + 2 \<le> n \<Longrightarrow> Uint16_at (take n b) i = Uint16_at b i"
  by (simp add: Uint16_at_def drop_take min_def)

lemma parseProxyV2_consumes:
  "case parseProxyV2 r of (info, rest) \<Rightarrow> info = None \<and> rest = r \<or> (\<exists>h. r = h @ rest \<and> v2_header h)"
proof (cases "16 \<le> length r \<and> take 12 r = proxyV2Signature \<and> drop_bit 4 (r ! 12) = 2 \<and> snd (Peek (16 + Uint16_at r 14) r)")
  case False
  then show ?thesis
    by (auto simp: parseProxyV2_def Let_def Uint16_take Peek_def readChunk_def min_def split: if_splits)
next
  case True
  let ?n = "16 + Uint16_at r 14"
  have n: "?n \<le> length r" "?n \<le> readChunk" using True by (auto simp: Peek_def split: if_splits)
  have rest: "snd (parseProxyV2 r) = drop ?n r"
    using True by (simp add: parseProxyV2_def Let_def Uint16_take Peek_def readChunk_def min_def Discard_def split: if_splits prod.splits)
  have "v2_header (take ?n r)" using True n by (simp add: v2_header_def Uint16_take min_def)
  moreover have "r = take ?n r @ snd (parseProxyV2 r)" by (simp add: rest)
  ultimately show ?thesis by (auto split: prod.split)
qed

section \<open>Headers that are understood\<close>

text \<open>The headers a proxy sends: the text line, and the binary form with the addresses, the ports and
  any further fields.\<close>

definition v1_text :: "string \<Rightarrow> string \<Rightarrow> string \<Rightarrow> int \<Rightarrow> int \<Rightarrow> bytes" where
  "v1_text family src dst sport dport =
     bytes_of_string (Join (CHR '' '') [''PROXY'', family, src, dst, Itoa sport, Itoa dport]) @ [13, 10]"

definition v2_binary :: "u8 \<Rightarrow> bytes \<Rightarrow> bytes \<Rightarrow> u16 \<Rightarrow> u16 \<Rightarrow> bytes \<Rightarrow> bytes" where
  "v2_binary famProto src dst sport dport tlv =
     (let body = src @ dst @ be_encode 2 sport @ be_encode 2 dport @ tlv
      in proxyV2Signature @ [0x21, famProto] @ be_encode 2 (word_of_nat (length body) :: u16) @ body)"

definition v1_info :: "string \<Rightarrow> string \<Rightarrow> string \<Rightarrow> int \<Rightarrow> int \<Rightarrow> ProxyInfo" where
  "v1_info family src dst sport dport =
     \<lparr>SourceAddr = src, SourcePort = sport, DestAddr = dst, DestPort = dport, Family = family\<rparr>"

lemma digits_plain: "list_all is_digit s \<Longrightarrow> CHR '' '' \<notin> set s \<and> CHR 0x0D \<notin> set s"
  by (auto simp: list_all_iff is_digit_def)

lemma Itoa_plain: "CHR '' '' \<notin> set (Itoa n)" "CHR 0x0D \<notin> set (Itoa n)"
  using digits_plain [OF nat_digits_value(2)] by (auto simp: Itoa_def)

lemma byte_of_string: "13 \<in> set (bytes_of_string s) \<longleftrightarrow> CHR 0x0D \<in> set s"
proof -
  have "word_of_nat (of_char c) = (13 :: u8) \<longleftrightarrow> c = CHR 0x0D" for c
  proof
    assume "word_of_nat (of_char c) = (13 :: u8)"
    then have "unat (word_of_nat (of_char c) :: u8) = unat (13 :: u8)" by (rule arg_cong)
    then have "of_char c = (13 :: nat)" unfolding unat_of_char by simp
    moreover have "of_char (CHR 0x0D) = (13 :: nat)" by simp
    ultimately have "of_char c = (of_char (CHR 0x0D) :: nat)" by (rule trans [OF _ sym])
    then show "c = CHR 0x0D" by (simp only: of_char_eq_iff)
  qed simp
  then show ?thesis unfolding bytes_of_string_def set_map image_iff by metis
qed

lemma v1_understood:
  assumes family: "family = ''TCP4'' \<or> family = ''TCP6''"
    and src: "src \<noteq> []" "CHR '' '' \<notin> set src" "CHR 0x0D \<notin> set src"
    and dst: "dst \<noteq> []" "CHR '' '' \<notin> set dst" "CHR 0x0D \<notin> set dst"
    and ports: "in_int64 sport" "in_int64 dport"
    and short: "length (v1_text family src dst sport dport) \<le> proxyV1MaxLen"
  shows "ParseProxyHeader (v1_text family src dst sport dport @ rest) = (Some (v1_info family src dst sport dport), rest)"
proof -
  let ?parts = "[''PROXY'', family, src, dst, Itoa sport, Itoa dport]"
  let ?line = "Join (CHR '' '') ?parts" and ?r = "v1_text family src dst sport dport @ rest"
  have split: "Split (CHR '' '') ?line = ?parts"
    by (rule Split_Join) (use family src dst Itoa_plain in auto)
  have line: "parseProxyV1Line ?line = Some (v1_info family src dst sport dport)"
    unfolding parseProxyV1Line_def split using family src dst ports by (auto simp: Atoi_Itoa v1_info_def)
  have cr: "13 \<notin> set (bytes_of_string ?line)"
    using family src dst Itoa_plain by (auto simp: byte_of_string)
  have r: "?r = bytes_of_string ?line @ 13 # 10 # rest" by (simp add: v1_text_def)
  have len: "length ?line + 2 \<le> proxyV1MaxLen" using short by (simp add: v1_text_def)
  have "crlf_index (take proxyV1MaxLen ?r) = Some (length ?line)"
    using crlf_index_take [OF crlf_index_line [OF cr, of rest], of proxyV1MaxLen] len by (simp add: r)
  moreover have "take (length ?line) (take proxyV1MaxLen ?r) = bytes_of_string ?line" using len by (simp add: r min_def)
  moreover have "Peek proxyV1MaxLen ?r = (take proxyV1MaxLen ?r, proxyV1MaxLen \<le> length ?r)"
    by (simp add: Peek_def readChunk_def proxyV1MaxLen_def)
  moreover have "take 6 ?line = ''PROXY ''" by simp
  moreover have "Discard (length ?line + 2) ?r = rest" by (simp add: r Discard_def)
  ultimately have "parseProxyV1 ?r = (Some (v1_info family src dst sport dport), rest)"
    using line by (simp add: parseProxyV1_def Let_def del: Join.simps)
  moreover have "Peek 1 ?r = ([80], True)" by (simp add: Peek_def readChunk_def r bytes_of_string_def)
  ultimately show ?thesis by (simp add: ParseProxyHeader_def proxyV2Signature_def)
qed

lemma v2_understood_aux:
  assumes "length body \<le> readChunk - 16" and r: "r = proxyV2Signature @ [0x21, famProto] @ be_encode 2 (word_of_nat (length body) :: u16) @ body @ rest"
  shows "Peek 16 r = (take 16 r, True)" "take 12 r = proxyV2Signature" "r ! 12 = 0x21" "r ! 13 = famProto"
    "Uint16_at r 14 = length body" "Peek (16 + length body) r = (take (16 + length body) r, True)" "drop 16 r = body @ rest"
proof -
  have sig: "length proxyV2Signature = 12" by (simp add: proxyV2Signature_def)
  have len: "length r = 16 + length body + length rest" by (simp add: r sig)
  have nat: "unat (word_of_nat (length body) :: u16) = length body"
    using assms(1) by (simp add: readChunk_def unat_of_nat take_bit_eq_mod)
  show "Peek 16 r = (take 16 r, True)" "Peek (16 + length body) r = (take (16 + length body) r, True)"
    using assms(1) len by (simp_all add: Peek_def readChunk_def)
  show "take 12 r = proxyV2Signature" "r ! 12 = 0x21" "r ! 13 = famProto" by (simp_all add: r sig nth_append)
  show "Uint16_at r 14 = length body" by (simp add: Uint16_at_def r sig nat)
  show "drop 16 r = body @ rest" by (simp add: r sig)
qed

lemma v2_parse:
  assumes "length body \<le> readChunk - 16" and r: "r = proxyV2Signature @ [0x21, famProto] @ be_encode 2 (word_of_nat (length body) :: u16) @ body @ rest"
  shows "famProto = 0x11 \<Longrightarrow> 12 \<le> length body \<Longrightarrow> ParseProxyHeader r =
      (Some \<lparr>SourceAddr = IPv4_String body, SourcePort = int (Uint16_at body 8),
             DestAddr = IPv4_String (drop 4 body), DestPort = int (Uint16_at body 10), Family = ''TCP4''\<rparr>, rest)"
    and "famProto = 0x21 \<Longrightarrow> 36 \<le> length body \<Longrightarrow> ParseProxyHeader r =
      (Some \<lparr>SourceAddr = ipv6String body, SourcePort = int (Uint16_at body 32),
             DestAddr = ipv6String (drop 16 body), DestPort = int (Uint16_at body 34), Family = ''TCP6''\<rparr>, rest)"
proof -
  note parts = v2_understood_aux [OF assms]
  let ?full = "take (16 + length body) r"
  have "drop (16 + length body) r = drop (length body) (drop 16 r)" by (simp add: add.commute)
  then have full: "drop 16 ?full = body" "drop (16 + length body) r = rest" by (simp_all add: drop_take parts(7))
  have at: "Uint16_at ?full (16 + i) = Uint16_at body i" "drop (16 + i) ?full = drop i body" for i
    using full(1) by (simp_all add: Uint16_at_def flip: drop_drop add: add.commute)
  have "take 12 (take 16 r) = proxyV2Signature" "take 16 r ! 12 = 0x21" "take 16 r ! 13 = famProto" "Uint16_at (take 16 r) 14 = length body"
    using parts by (simp_all add: Uint16_take min_def)
  then have v2: "parseProxyV2 r = (let family = drop_bit 4 famProto; proto = famProto AND 0x0f
      in if family = 1 \<and> proto = 1 then
           (if length body < 12 then None
            else Some \<lparr>SourceAddr = IPv4_String (drop 16 ?full), SourcePort = int (Uint16_at ?full 24),
                       DestAddr = IPv4_String (drop 20 ?full), DestPort = int (Uint16_at ?full 26), Family = ''TCP4''\<rparr>, rest)
         else if family = 2 \<and> proto = 1 then
           (if length body < 36 then None
            else Some \<lparr>SourceAddr = ipv6String (drop 16 ?full), SourcePort = int (Uint16_at ?full 48),
                       DestAddr = ipv6String (drop 32 ?full), DestPort = int (Uint16_at ?full 50), Family = ''TCP6''\<rparr>, rest)
         else (None, rest))"
    using parts(1,6) full(2) unfolding parseProxyV2_def Discard_def Let_def by simp
  have "Peek 1 r = ([0x0d], True)" by (simp add: Peek_def readChunk_def r proxyV2Signature_def)
  then have top: "ParseProxyHeader r = parseProxyV2 r" by (simp add: ParseProxyHeader_def proxyV2Signature_def)
  show "famProto = 0x11 \<Longrightarrow> 12 \<le> length body \<Longrightarrow> ParseProxyHeader r =
      (Some \<lparr>SourceAddr = IPv4_String body, SourcePort = int (Uint16_at body 8),
             DestAddr = IPv4_String (drop 4 body), DestPort = int (Uint16_at body 10), Family = ''TCP4''\<rparr>, rest)"
    using at [of 0] at [of 4] at [of 8] at [of 10] by (simp add: top v2)
  show "famProto = 0x21 \<Longrightarrow> 36 \<le> length body \<Longrightarrow> ParseProxyHeader r =
      (Some \<lparr>SourceAddr = ipv6String body, SourcePort = int (Uint16_at body 32),
             DestAddr = ipv6String (drop 16 body), DestPort = int (Uint16_at body 34), Family = ''TCP6''\<rparr>, rest)"
    using at [of 0] at [of 16] at [of 32] at [of 34] by (simp add: top v2)
qed

section \<open>The properties\<close>

lemma ParseProxyHeader_consumes:
  "case ParseProxyHeader r of (info, rest) \<Rightarrow>
     info = None \<and> rest = r \<or> (\<exists>h. r = h @ rest \<and> (v1_header h \<or> v2_header h))"
  using parseProxyV1_consumes [of r] parseProxyV2_consumes [of r]
  by (auto simp: ParseProxyHeader_def split: prod.splits if_splits)

text \<open>C40.  The PROXY header is consumed exactly or not at all.  Whatever a connection sends first,
  parsing either takes nothing from it (and then yields no address) or removes exactly one complete
  header: a line \<open>PROXY ...\<close> up to its first line end, of at most 108 bytes, or a binary header of the
  length that it announces.  What follows is left for the handshake, so client data is never lost; in
  particular the handshake of a client without a proxy (any first byte but \<open>P\<close> and carriage return) is
  untouched.\<close>

theorem proxy_header_exact:
  "(case ParseProxyHeader r of (info, rest) \<Rightarrow>
      info = None \<and> rest = r \<or> (\<exists>h. r = h @ rest \<and> (v1_header h \<or> v2_header h)))
    \<and> (hd r \<in> {13, 80} \<or> ParseProxyHeader r = (None, r))"
proof -
  have "ParseProxyHeader r = (None, r)" if "hd r \<notin> {13, 80}"
    using that by (cases r) (auto simp: ParseProxyHeader_def Peek_def readChunk_def proxyV2Signature_def)
  then show ?thesis using ParseProxyHeader_consumes [of r] by blast
qed

text \<open>The header a proxy sends is understood: the addresses and the ports of a version 1 line, and
  those of a version 2 header for TCP over IPv4 or IPv6 with any further fields, are what the session
  gets, and the bytes behind the header are what it reads next.\<close>

theorem proxy_header_understood:
  assumes family: "family = ''TCP4'' \<or> family = ''TCP6''"
    and src: "src \<noteq> []" "CHR '' '' \<notin> set src" "CHR 0x0D \<notin> set src"
    and dst: "dst \<noteq> []" "CHR '' '' \<notin> set dst" "CHR 0x0D \<notin> set dst"
    and ports: "in_int64 sport" "in_int64 dport"
    and short: "length (v1_text family src dst sport dport) \<le> proxyV1MaxLen"
    and v4: "length s4 = 4" "length d4 = 4" and v6: "length s6 = 16" "length d6 = 16" and tlv: "length tlv \<le> 16000"
  shows "ParseProxyHeader (v1_text family src dst sport dport @ rest) = (Some (v1_info family src dst sport dport), rest)
    \<and> ParseProxyHeader (v2_binary 0x11 s4 d4 sp dp tlv @ rest)
        = (Some (v1_info ''TCP4'' (IPv4_String s4) (IPv4_String d4) (uint sp) (uint dp)), rest)
    \<and> ParseProxyHeader (v2_binary 0x21 s6 d6 sp dp tlv @ rest)
        = (Some (v1_info ''TCP6'' (ipv6String s6) (ipv6String d6) (uint sp) (uint dp)), rest)"
proof (intro conjI)
  show "ParseProxyHeader (v1_text family src dst sport dport @ rest) = (Some (v1_info family src dst sport dport), rest)"
    by (rule v1_understood) (fact assms)+
next
  let ?body = "s4 @ d4 @ be_encode 2 sp @ be_encode 2 dp @ tlv"
  have short: "length ?body \<le> readChunk - 16" using v4 tlv by (simp add: readChunk_def)
  have at: "Uint16_at ?body 8 = unat sp" "Uint16_at ?body 10 = unat dp" using v4 by (simp_all add: Uint16_at_def)
  have ip: "IPv4_String ?body = IPv4_String s4" "IPv4_String (drop 4 ?body) = IPv4_String d4"
    using v4 by (simp_all add: IPv4_String_def)
  show "ParseProxyHeader (v2_binary 0x11 s4 d4 sp dp tlv @ rest)
        = (Some (v1_info ''TCP4'' (IPv4_String s4) (IPv4_String d4) (uint sp) (uint dp)), rest)"
    using v2_parse(1) [OF short refl refl, of rest] v4
    by (simp only: at ip v2_binary_def Let_def v1_info_def uint_nat append_assoc) simp
next
  let ?body = "s6 @ d6 @ be_encode 2 sp @ be_encode 2 dp @ tlv"
  have short: "length ?body \<le> readChunk - 16" using v6 tlv by (simp add: readChunk_def)
  have at: "Uint16_at ?body 32 = unat sp" "Uint16_at ?body 34 = unat dp" using v6 by (simp_all add: Uint16_at_def)
  have ip: "ipv6String ?body = ipv6String s6" "ipv6String (drop 16 ?body) = ipv6String d6"
    using v6 by (simp_all add: ipv6String_def IPv4_String_def nth_append)
  show "ParseProxyHeader (v2_binary 0x21 s6 d6 sp dp tlv @ rest)
        = (Some (v1_info ''TCP6'' (ipv6String s6) (ipv6String d6) (uint sp) (uint dp)), rest)"
    using v2_parse(2) [OF short refl refl, of rest] v6
    by (simp only: at ip v2_binary_def Let_def v1_info_def uint_nat append_assoc) simp
qed

theorem proxy_header_understood_witness:
  "ParseProxyHeader (v1_text ''TCP4'' ''192.0.2.1'' ''10.0.0.1'' 56324 443 @ [1]) =
     (Some (v1_info ''TCP4'' ''192.0.2.1'' ''10.0.0.1'' 56324 443), [1])
   \<and> ParseProxyHeader (v2_binary 0x21 (replicate 15 0 @ [1]) (replicate 16 0) 80 443 [] @ [1]) =
       (Some (v1_info ''TCP6'' ''::1'' ''::'' 80 443), [1])"
proof -
  have ip: "ipv6String (replicate 15 0 @ [1]) = ''::1''" "ipv6String (replicate 16 0) = ''::''"
    by code_simp+
  show ?thesis
    using proxy_header_understood [of "''TCP4''" "''192.0.2.1''" "''10.0.0.1''" 56324 443 "[192,0,2,1]" "[10,0,0,1]"
        "replicate 15 0 @ [1]" "replicate 16 0" "[]" "[1]" 80 443] ip
    by (simp add: in_int64_def v1_text_def proxyV1MaxLen_def Itoa_def nat_digits.simps)
qed

end
