(* ===== verification/Http_Replay.thy ===== *)
theory Http_Replay
  imports Replay_Store Go_Strings
begin

text \<open>
  The public part of the HTTP service: the limit of requests per address of \<open>httpapi/server.go\<close> and the
  access of players to their recordings, \<open>httpapi/replay.go\<close>.  A player shows its token, which the
  upstream API resolves to a user (the parameter \<open>fetch\<close>), and gets a session for half an hour with
  which recordings are downloaded and deleted.  The texts of the query and the decoded fields of a body
  are arguments.
\<close>

section \<open>The limit of requests\<close>

record ipWindow =
  iw_count :: nat
  iw_reset :: int

record rateLimiter =
  rl_max :: int
  rl_window :: int
  rl_hits :: "(string \<times> ipWindow) list"

definition newRateLimiter :: "int \<Rightarrow> int \<Rightarrow> rateLimiter" where
  "newRateLimiter maxReq win = \<lparr>rl_max = maxReq, rl_window = win, rl_hits = []\<rparr>"

definition setOptions :: "int \<Rightarrow> int \<Rightarrow> rateLimiter \<Rightarrow> rateLimiter" where
  "setOptions maxReq win r = r\<lparr>rl_max := maxReq, rl_window := win\<rparr>"

definition rl_gc :: "int \<Rightarrow> rateLimiter \<Rightarrow> rateLimiter" where
  "rl_gc now r = (if length (rl_hits r) < 1024 then r else r\<lparr>rl_hits := filter (\<lambda>(ip, w). \<not> now > iw_reset w) (rl_hits r)\<rparr>)"

definition rl_allow :: "int \<Rightarrow> string \<Rightarrow> rateLimiter \<Rightarrow> bool \<times> rateLimiter" where
  "rl_allow now ip r =
     (case map_of (rl_hits r) ip of
        Some w \<Rightarrow>
          if now > iw_reset w then
            (True, rl_gc now (r\<lparr>rl_hits := AList.update ip \<lparr>iw_count = 1, iw_reset = now + rl_window r\<rparr> (rl_hits r)\<rparr>))
          else if int (iw_count w) \<ge> rl_max r then (False, r)
          else (True, r\<lparr>rl_hits := AList.update ip (w\<lparr>iw_count := iw_count w + 1\<rparr>) (rl_hits r)\<rparr>)
      | None \<Rightarrow> (True, rl_gc now (r\<lparr>rl_hits := AList.update ip \<lparr>iw_count = 1, iw_reset = now + rl_window r\<rparr> (rl_hits r)\<rparr>)))"

section \<open>Sessions\<close>

definition replaySessionTTL :: int where "replaySessionTTL = 30 * 60 * 1000"

record replaySession =
  rs_userID :: int
  rs_expiresAt :: int

type_synonym replay_sessions = "string \<rightharpoonup> replaySession"

definition pruneReplaySessionsLocked :: "int \<Rightarrow> replay_sessions \<Rightarrow> replay_sessions" where
  "pruneReplaySessionsLocked now m = (\<lambda>k. case m k of Some v \<Rightarrow> if now > rs_expiresAt v then None else Some v | None \<Rightarrow> None)"

definition createReplaySession :: "int \<Rightarrow> int \<Rightarrow> string \<Rightarrow> replay_sessions \<Rightarrow> (string \<times> int) \<times> replay_sessions" where
  "createReplaySession now userID token m =
     (let expiresAt = now + replaySessionTTL
      in ((token, expiresAt), (pruneReplaySessionsLocked now m)(token \<mapsto> \<lparr>rs_userID = userID, rs_expiresAt = expiresAt\<rparr>)))"

definition getReplaySession :: "int \<Rightarrow> string \<Rightarrow> replay_sessions \<Rightarrow> replaySession option" where
  "getReplaySession now token m = (case m token of Some sess \<Rightarrow> if now > rs_expiresAt sess then None else Some sess | None \<Rightarrow> None)"

definition verifyUserToken :: "(string \<Rightarrow> int option) \<Rightarrow> string \<Rightarrow> int option" where
  "verifyUserToken fetch token =
     (if token = [] then None else case fetch token of Some n \<Rightarrow> if n \<le> 0 then None else Some n | None \<Rightarrow> None)"

section \<open>The handlers\<close>

datatype 'a http_reply = HttpErr nat string | HttpOk 'a

type_synonym codecs = "(bytes \<Rightarrow> bytes option) \<times> (bytes \<Rightarrow> bytes option)"

definition handleReplayAuth :: "codecs \<Rightarrow> (string \<Rightarrow> int option) \<Rightarrow> int \<Rightarrow> string \<Rightarrow> string \<Rightarrow> entries \<Rightarrow> replay_sessions
    \<Rightarrow> (int \<times> (int \<times> ReplayEntry list) list \<times> string \<times> int) http_reply \<times> replay_sessions" where
  "handleReplayAuth cs fetch now rawToken fresh es m =
     (let token = TrimSpace rawToken
      in if token = [] then (HttpErr 400 ''bad-token'', m)
         else case verifyUserToken fetch token of
             None \<Rightarrow> (HttpErr 401 ''unauthorized'', m)
           | Some userID \<Rightarrow>
               (let charts = sort_key fst (ListReplaysForUser (fst cs) (snd cs) userID es)
                in case createReplaySession now userID fresh m of
                     ((token2, expiresAt), m) \<Rightarrow> (HttpOk (userID, charts, token2, expiresAt), m)))"

text \<open>The check of a recording against the session: the file exists and its header names the user and
  the chart.\<close>

definition owned_by :: "codecs \<Rightarrow> int \<Rightarrow> int \<Rightarrow> bytes \<Rightarrow> bool" where
  "owned_by cs userID chartID raw =
     (case ReadReplayHeader (fst cs) (snd cs) raw of Inr h \<Rightarrow> rh_UserID h = userID \<and> rh_ChartID h = chartID | Inl _ \<Rightarrow> False)"

definition handleReplayDownload :: "codecs \<Rightarrow> int \<Rightarrow> string \<Rightarrow> string \<Rightarrow> string \<Rightarrow> entries \<Rightarrow> replay_sessions \<Rightarrow> bytes http_reply" where
  "handleReplayDownload cs now rawToken chartText tsText es m =
     (let sessionToken = TrimSpace rawToken
      in case (Atoi chartText, Atoi tsText) of
          (Some chartID, Some ts) \<Rightarrow>
            if sessionToken = [] \<or> chartID < 0 \<or> ts \<le> 0 then HttpErr 400 ''bad-request''
            else (case getReplaySession now sessionToken m of
                None \<Rightarrow> HttpErr 401 ''unauthorized''
              | Some sess \<Rightarrow>
                  (case file_at (snd (FilePath [] (rs_userID sess) chartID ts)) es of
                     None \<Rightarrow> HttpErr 404 ''not-found''
                   | Some raw \<Rightarrow> if owned_by cs (rs_userID sess) chartID raw then HttpOk raw else HttpErr 404 ''not-found''))
        | _ \<Rightarrow> HttpErr 400 ''bad-request'')"

definition handleReplayDelete :: "codecs \<Rightarrow> int \<Rightarrow> string \<Rightarrow> int option \<Rightarrow> int option \<Rightarrow> entries \<Rightarrow> replay_sessions \<Rightarrow> unit http_reply \<times> entries" where
  "handleReplayDelete cs now rawToken chart time es m =
     (let sessionToken = TrimSpace rawToken
      in case (chart, time) of
          (Some chartID, Some ts) \<Rightarrow>
            if sessionToken = [] \<or> chartID < 0 \<or> ts \<le> 0 then (HttpErr 400 ''bad-request'', es)
            else (case getReplaySession now sessionToken m of
                None \<Rightarrow> (HttpErr 401 ''unauthorized'', es)
              | Some sess \<Rightarrow>
                  (case file_at (snd (FilePath [] (rs_userID sess) chartID ts)) es of
                     None \<Rightarrow> (HttpErr 404 ''not-found'', es)
                   | Some raw \<Rightarrow>
                       if \<not> owned_by cs (rs_userID sess) chartID raw then (HttpErr 404 ''not-found'', es)
                       else (case DeleteReplayForUser (rs_userID sess) chartID ts es of
                           (Inr True, es) \<Rightarrow> (HttpOk (), es)
                         | (_, es) \<Rightarrow> (HttpErr 404 ''not-found'', es))))
        | _ \<Rightarrow> (HttpErr 400 ''bad-request'', es))"

text \<open>Uploads and the switch of the automatic upload are handed to the agent.  The connection to the agent
  is the argument \<open>query\<close>, absent when the server has none; its reply passes through.\<close>

datatype agent_params = ReplayUploadParams string bool | ReplayAutoConfigParams int "bool option"

datatype query_result = AgentUnavailable | QueryFailed | QueryResponse nat bytes

type_synonym agent_query = "(string \<Rightarrow> agent_params \<Rightarrow> query_result) option"

definition queryReplayAgent :: "agent_query \<Rightarrow> string \<Rightarrow> agent_params \<Rightarrow> (nat \<times> bytes) http_reply" where
  "queryReplayAgent query method params =
     (case query of
        None \<Rightarrow> HttpErr 503 ''agent-unavailable''
      | Some q \<Rightarrow> (case q method params of
            AgentUnavailable \<Rightarrow> HttpErr 503 ''agent-unavailable''
          | QueryFailed \<Rightarrow> HttpErr 502 ''agent-unavailable''
          | QueryResponse code body \<Rightarrow> HttpOk (code, body)))"

definition handleReplayUpload :: "agent_query \<Rightarrow> (string \<Rightarrow> int option) \<Rightarrow> string \<Rightarrow> int option \<Rightarrow> int option \<Rightarrow> (nat \<times> bytes) http_reply" where
  "handleReplayUpload query fetch rawToken chart time =
     (let token = TrimSpace rawToken
      in case (chart, time) of
          (Some chartID, Some ts) \<Rightarrow>
            if token = [] \<or> chartID < 0 \<or> ts \<le> 0 then HttpErr 400 ''bad-request''
            else (case verifyUserToken fetch token of
                None \<Rightarrow> HttpErr 401 ''unauthorized''
              | Some userID \<Rightarrow>
                  queryReplayAgent query ''replay.upload''
                    (ReplayUploadParams (ID_String \<lparr>id_UserID = userID, id_ChartID = chartID, id_Timestamp = ts\<rparr>) True))
        | _ \<Rightarrow> HttpErr 400 ''bad-request'')"

datatype auto_request = AutoGet string | AutoPost string "bool option" | AutoOther

definition handleAutoUploadConfig :: "agent_query \<Rightarrow> (string \<Rightarrow> int option) \<Rightarrow> auto_request \<Rightarrow> (nat \<times> bytes) http_reply" where
  "handleAutoUploadConfig query fetch req =
     (let serve = (\<lambda>raw setShow.
        let token = TrimSpace raw
        in if token = [] then HttpErr 400 ''bad-token''
           else (case verifyUserToken fetch token of
               None \<Rightarrow> HttpErr 401 ''unauthorized''
             | Some userID \<Rightarrow> queryReplayAgent query ''replay.auto_config'' (ReplayAutoConfigParams userID setShow)))
      in case req of
           AutoGet raw \<Rightarrow> serve raw None
         | AutoPost raw show_ \<Rightarrow> serve raw show_
         | AutoOther \<Rightarrow> HttpErr 400 ''bad-request'')"

section \<open>What a deletion removes\<close>

lemma dir_no_file: "dir_at p es = Some d \<Longrightarrow> file_at p es = None"
  by (induction p es rule: dir_at.induct) (auto simp: file_at_Cons split: option.splits node.splits)

lemma remove_dir_files: "file_at q (remove_dir_if_empty p es) = file_at q es"
proof (cases "dir_at p es = Some []")
  case True
  then show ?thesis
    using dir_no_file [OF True] Remove_files [of p es] by (auto simp: remove_dir_if_empty_def split: sum.split)
qed (auto simp: remove_dir_if_empty_def split: option.split list.split)

lemma DeleteReplay_files:
  "DeleteReplayForUser u c ts es = (Inr True, es') \<Longrightarrow> file_at q es' = (if q = snd (FilePath b u c ts) then None else file_at q es)"
  "DeleteReplayForUser u c ts es = (r, es') \<Longrightarrow> r \<noteq> Inr True \<Longrightarrow> es' = es"
proof -
  assume d: "DeleteReplayForUser u c ts es = (Inr True, es')"
  then obtain es1 where r: "Remove (snd (FilePath [] u c ts)) es = Inr es1"
    and es': "es' = remove_dir_if_empty [Itoa u] (remove_dir_if_empty [Itoa u, Itoa c] es1)"
    by (auto simp: DeleteReplayForUser_def split: sum.splits os_error.splits)
  show "file_at q es' = (if q = snd (FilePath b u c ts) then None else file_at q es)"
    using Remove_files [OF r, of q] by (simp add: es' remove_dir_files FilePath_def)
next
  show "DeleteReplayForUser u c ts es = (r, es') \<Longrightarrow> r \<noteq> Inr True \<Longrightarrow> es' = es"
    by (auto simp: DeleteReplayForUser_def split: sum.splits os_error.splits)
qed

section \<open>Only one's own recordings\<close>

text \<open>The sessions that successful authentications opened: the session, the token of the player, the
  user it stands for and the time.\<close>

inductive session_reach :: "codecs \<Rightarrow> (string \<Rightarrow> int option) \<Rightarrow> replay_sessions \<Rightarrow> (string \<times> string \<times> int \<times> int) list \<Rightarrow> bool" for cs fetch where
  start: "session_reach cs fetch Map.empty []"
| opened: "session_reach cs fetch m h \<Longrightarrow> handleReplayAuth cs fetch now raw fresh es m = (HttpOk (u, charts, tok, e), m')
    \<Longrightarrow> session_reach cs fetch m' (h @ [(tok, TrimSpace raw, u, now)])"
| refused: "session_reach cs fetch m h \<Longrightarrow> handleReplayAuth cs fetch now raw fresh es m = (HttpErr c e, m') \<Longrightarrow> session_reach cs fetch m' h"
| pruned: "session_reach cs fetch m h \<Longrightarrow> session_reach cs fetch (pruneReplaySessionsLocked now m) h"

definition session_known :: "(string \<Rightarrow> int option) \<Rightarrow> (string \<times> string \<times> int \<times> int) list \<Rightarrow> string \<Rightarrow> replaySession \<Rightarrow> bool" where
  "session_known fetch h k v \<longleftrightarrow>
     (\<exists>token at. (k, token, rs_userID v, at) \<in> set h \<and> fetch token = Some (rs_userID v) \<and> rs_expiresAt v = at + replaySessionTTL)"

lemma sessions_known: "session_reach cs fetch m h \<Longrightarrow> m k = Some v \<Longrightarrow> session_known fetch h k v"
proof (induction arbitrary: k v rule: session_reach.induct)
  case (opened m h now raw fresh es u charts tok e m')
  have a: "tok = fresh" "m' = (pruneReplaySessionsLocked now m)(fresh \<mapsto> \<lparr>rs_userID = u, rs_expiresAt = now + replaySessionTTL\<rparr>)"
      "fetch (TrimSpace raw) = Some u"
    using opened.hyps(2) by (auto simp: handleReplayAuth_def createReplaySession_def verifyUserToken_def Let_def split: if_splits option.splits)
  have old: "session_known fetch h k v \<Longrightarrow> session_known fetch (h @ [(tok, TrimSpace raw, u, now)]) k v" by (auto simp: session_known_def)
  show ?case
  proof (cases "k = fresh")
    case True
    then show ?thesis using opened.prems a by (auto simp: session_known_def)
  next
    case False
    then have "m k = Some v" using opened.prems a(2) by (auto simp: pruneReplaySessionsLocked_def split: option.splits if_splits)
    then show ?thesis using opened.IH old by blast
  qed
next
  case (refused m h now raw fresh es c e m')
  then have "m' = m" by (auto simp: handleReplayAuth_def createReplaySession_def Let_def split: if_splits option.splits)
  then show ?case using refused by blast
next
  case (pruned m h now)
  then show ?case by (auto simp: pruneReplaySessionsLocked_def split: option.splits if_splits)
qed simp

lemma getReplaySession_known:
  "session_reach cs fetch m h \<Longrightarrow> getReplaySession now k m = Some v \<Longrightarrow> session_known fetch h k v \<and> now \<le> rs_expiresAt v"
  using sessions_known by (auto simp: getReplaySession_def split: option.splits if_splits)

text \<open>C35.  A player reaches only its own recordings.  What a download returns is a file of the user whose
  token opened the session at most half an hour before, and the header of the file names that user and
  the chart asked for.  A deletion that succeeds removes exactly such a file; every other request for a
  deletion leaves all files as they are.\<close>

theorem replay_access_own:
  assumes "session_reach cs fetch m h"
  shows "(\<forall>data. handleReplayDownload cs now raw chartText tsText es m = HttpOk data \<longrightarrow>
      (\<exists>token u at c ts. (TrimSpace raw, token, u, at) \<in> set h \<and> fetch token = Some u \<and> now \<le> at + replaySessionTTL
         \<and> Atoi chartText = Some c \<and> Atoi tsText = Some ts
         \<and> file_at [Itoa u, Itoa c, Itoa ts @ ''.phirarec''] es = Some data \<and> owned_by cs u c data))
    \<and> (case handleReplayDelete cs now raw chart time es m of
         (HttpOk _, es') \<Rightarrow>
           (\<exists>token u at c ts data. (TrimSpace raw, token, u, at) \<in> set h \<and> fetch token = Some u \<and> now \<le> at + replaySessionTTL
              \<and> chart = Some c \<and> time = Some ts
              \<and> file_at [Itoa u, Itoa c, Itoa ts @ ''.phirarec''] es = Some data \<and> owned_by cs u c data
              \<and> (\<forall>q. file_at q es' = (if q = [Itoa u, Itoa c, Itoa ts @ ''.phirarec''] then None else file_at q es)))
       | (HttpErr _ _, es') \<Rightarrow> es' = es)"
proof (intro conjI allI impI)
  fix data assume "handleReplayDownload cs now raw chartText tsText es m = HttpOk data"
  then obtain c ts v where v: "Atoi chartText = Some c" "Atoi tsText = Some ts" "getReplaySession now (TrimSpace raw) m = Some v"
      "file_at [Itoa (rs_userID v), Itoa c, Itoa ts @ ''.phirarec''] es = Some data" "owned_by cs (rs_userID v) c data"
    by (auto simp: handleReplayDownload_def Let_def FilePath_def split: option.splits if_splits)
  obtain token at where "(TrimSpace raw, token, rs_userID v, at) \<in> set h" "fetch token = Some (rs_userID v)" "now \<le> at + replaySessionTTL"
    using getReplaySession_known [OF assms v(3)] unfolding session_known_def by metis
  with v show "\<exists>token u at c ts. (TrimSpace raw, token, u, at) \<in> set h \<and> fetch token = Some u \<and> now \<le> at + replaySessionTTL
         \<and> Atoi chartText = Some c \<and> Atoi tsText = Some ts
         \<and> file_at [Itoa u, Itoa c, Itoa ts @ ''.phirarec''] es = Some data \<and> owned_by cs u c data" by blast
next
  obtain r es' where d: "handleReplayDelete cs now raw chart time es m = (r, es')" by fastforce
  show "case handleReplayDelete cs now raw chart time es m of
         (HttpOk _, es') \<Rightarrow>
           (\<exists>token u at c ts data. (TrimSpace raw, token, u, at) \<in> set h \<and> fetch token = Some u \<and> now \<le> at + replaySessionTTL
              \<and> chart = Some c \<and> time = Some ts
              \<and> file_at [Itoa u, Itoa c, Itoa ts @ ''.phirarec''] es = Some data \<and> owned_by cs u c data
              \<and> (\<forall>q. file_at q es' = (if q = [Itoa u, Itoa c, Itoa ts @ ''.phirarec''] then None else file_at q es)))
       | (HttpErr _ _, es') \<Rightarrow> es' = es"
  proof (cases r)
    case (HttpErr c e)
    then have "es' = es"
      using d DeleteReplay_files(2) by (auto simp: handleReplayDelete_def Let_def split: option.splits if_splits prod.splits sum.splits bool.splits)
    then show ?thesis by (simp add: d HttpErr)
  next
    case (HttpOk x)
    then obtain c ts v data where v: "chart = Some c" "time = Some ts" "getReplaySession now (TrimSpace raw) m = Some v"
        "file_at [Itoa (rs_userID v), Itoa c, Itoa ts @ ''.phirarec''] es = Some data" "owned_by cs (rs_userID v) c data"
        "DeleteReplayForUser (rs_userID v) c ts es = (Inr True, es')"
      using d by (auto simp: handleReplayDelete_def Let_def FilePath_def split: option.splits if_splits prod.splits sum.splits bool.splits)
    obtain token at where k: "(TrimSpace raw, token, rs_userID v, at) \<in> set h" "fetch token = Some (rs_userID v)" "now \<le> at + replaySessionTTL"
      using getReplaySession_known [OF assms v(3)] unfolding session_known_def by metis
    have "\<forall>q. file_at q es' = (if q = [Itoa (rs_userID v), Itoa c, Itoa ts @ ''.phirarec''] then None else file_at q es)"
      using DeleteReplay_files(1) [OF v(6), of _ "[]"] by (simp add: FilePath_def)
    with k v show ?thesis unfolding d HttpOk prod.case http_reply.case by blast
  qed
qed

text \<open>User 7 signs in at time 1000, downloads its recording of chart 3 and deletes it.\<close>

definition demo_recording :: bytes where
  "demo_recording = record_file id
     \<lparr>if_roomKey = ''r'', if_userID = 7, if_userName = [], if_chartID = 3, if_chartName = [], if_timestamp = 5, if_recordID = 0,
      if_path = ([], []), if_touches = [], if_judges = [], if_overflow = False\<rparr>"

definition demo_tree :: entries where
  "demo_tree = [(''7'', Dir [(''3'', Dir [(''5.phirarec'', File demo_recording)])])]"

definition demo_fetch :: "string \<Rightarrow> int option" where
  "demo_fetch t = (if t = ''tok'' then Some 7 else None)"

definition demo_sessions :: replay_sessions where
  "demo_sessions = [''s'' \<mapsto> \<lparr>rs_userID = 7, rs_expiresAt = 1000 + replaySessionTTL\<rparr>]"

lemma demo_session_reach: "session_reach (Some, Some) demo_fetch demo_sessions [(''s'', ''tok'', 7, 1000)]"
proof -
  have t: "TrimSpace '' tok'' = ''tok''" by code_simp
  have "handleReplayAuth (Some, Some) demo_fetch 1000 '' tok'' ''s'' [] Map.empty = (HttpOk (7, [], ''s'', 1000 + replaySessionTTL), demo_sessions)"
    by (simp add: handleReplayAuth_def t verifyUserToken_def demo_fetch_def createReplaySession_def demo_sessions_def
        pruneReplaySessionsLocked_def ListReplaysForUser_def Let_def)
  from session_reach.opened [OF session_reach.start this] show ?thesis by (simp add: t)
qed

lemma demo_download: "handleReplayDownload (Some, Some) 2000 ''s'' ''3'' ''5'' demo_tree demo_sessions = HttpOk demo_recording"
  by code_simp

lemma demo_delete: "handleReplayDelete (Some, Some) 2000 ''s'' (Some 3) (Some 5) demo_tree demo_sessions = (HttpOk (), [])"
  by code_simp

theorem replay_access_own_witness:
  "\<exists>c. Atoi ''3'' = Some c \<and> demo_fetch ''tok'' = Some 7 \<and> owned_by (Some, Some) 7 c demo_recording"
  using replay_access_own [OF demo_session_reach, of 2000 "''s''" "''3''" "''5''" demo_tree "Some 3" "Some 5"]
  unfolding demo_download demo_delete by (auto 0 3)

end
