(* ===== verification/Spec2Isabelle.thy ===== *)
theory Spec2Isabelle
  imports Agent_Bridge Agent_Ipc Agent_Queries Agent_Run Net_Accept Session_Limits Hub_Anomalies Monitor_Buffer Cache_Flights Proxy_Header Replay_Recorder Admin_Access Http_Replay
begin

text \<open>
  A verification development for the Phira multiplayer server (\<open>gooophira-mp\<close>, Go).

  \<^bold>\<open>The program.\<close>  Clients speak a framed binary protocol over TCP (\<open>internal/common/protocol\<close>).  A
  session (\<open>internal/server/network\<close>) reads frames, decodes commands, authenticates its user
  against the Phira API and hands each command to the hub (\<open>internal/core/server\<close>), which keeps the
  tables of users and rooms.  A room is a state machine SelectChart, WaitForReady, Playing with a
  host, players and monitors; timers start a game after the ready countdown and end it after the
  deadline that follows the first result.  A lost connection leaves its user dangling for a grace
  period before it is removed.

  \<^bold>\<open>The wire protocol.\<close>  \<open>Wire_Binary\<close> models the reader and writer of \<open>binary.go\<close> (a reader is a
  state passing function with errors), LEB128, options, arrays, maps and results.  Its locales
  \<open>wire_reader\<close> (a reader stays in its buffer) and \<open>wire_codec\<close> (what was encoded decodes to itself)
  are interpreted for every codec of the protocol.  \<open>Wire_Ids\<close> has room names and UUIDs (\<open>roomid.go\<close>,
  \<open>uuid.go\<close>), \<open>Wire_Half\<close> the half precision floats on their bit patterns (\<open>half.go\<close>), \<open>Wire_Framing\<close>
  the length prefix, the frame decoder and the read loop of a session (\<open>framing.go\<close>,
  \<open>session_read.go\<close>), \<open>Wire_Commands\<close> all messages, client and server commands with their codecs
  (\<open>commands.go\<close>).  \<open>Utf8_Text\<close> models the conversion of a Go string to runes.

  \<^bold>\<open>The hub.\<close>  \<open>Room_Model\<close> has the records \<open>Room\<close> and \<open>User\<close> in a heap of references, the tables and
  the operations of \<open>model_room.go\<close>, \<open>model_user.go\<close>, \<open>room_validate.go\<close>; \<open>Room_Lifecycle\<close> the life of
  a room (\<open>room_lifecycle.go\<close>, \<open>room_events.go\<close>, \<open>hub_broadcast.go\<close>); \<open>Hub_Ops\<close> creating, joining,
  contests, administration, the countdowns and the protocol compensations; \<open>Hub_Dispatch\<close> one
  definition per client command and the router; \<open>Session_Life\<close> authentication, reconnection, the
  grace period and the bodies that timers and goroutines run later.  What the code does to the
  outside is appended to a trace, what it leaves for later to a list of pending bodies, so any
  interleaving of timers, goroutines and commands is a sequence of steps of \<open>Hub_Step\<close>.

  \<^bold>\<open>The proofs about the hub.\<close>  \<open>Hub_Frame\<close> has the contracts of operations that only talk to the
  outside (\<open>quiet_op\<close>) or only advance the state machine (\<open>progress_op\<close>), with an interpretation per
  operation; \<open>Hub_Inv\<close> the invariant; \<open>Hub_Preserve\<close> and \<open>Hub_Preserve_Ops\<close> its preservation by every
  operation; \<open>Hub_Step\<close> the transition system and its reachable states.  \<open>Hub_Facts\<close> states the
  abstract state machine that \<open>CheckAllReady\<close> implements, \<open>Hub_Game\<close> the two countdowns, \<open>Hub_Evolve\<close>
  the phases of a room along steps, \<open>Hub_Contracts\<close> what the operations promise their callers, and
  \<open>Hub_Anomalies\<close> the corners where code and comments differ.  \<open>Demo_Run\<close> is a concrete reachable run
  on which the theorems below are applied.

  \<^bold>\<open>Admission and limits.\<close>  \<open>Conn_Limits\<close> has the windows and bans per address (\<open>network/connlimit.go\<close>,
  \<open>logging/connratelimit.go\<close>), \<open>Net_Accept\<close> the accept loops with their shared counter (\<open>network/server.go\<close>),
  \<open>Token_Buckets\<close> the buckets of a session with the rounding of float64 (\<open>network/ratelimit.go\<close>),
  \<open>Session_Limits\<close> their place in \<open>onCommand\<close>, \<open>Proxy_Header\<close> both versions of the PROXY header
  (\<open>proxyprotocol.go\<close>).  \<open>Admin_Access\<close> models the tokens, one time codes and approvals of the
  administration (\<open>httpapi/admin.go\<close>, \<open>otp.go\<close>, \<open>cli/cli_approval.go\<close>), \<open>Http_Replay\<close> the replay sessions
  and the request limiter of the HTTP interface (\<open>httpapi/replay.go\<close>, \<open>server.go\<close>).

  \<^bold>\<open>Recordings, caches and buffers.\<close>  \<open>Replay_Format\<close>, \<open>Replay_Store\<close> and \<open>Replay_Recorder\<close> model
  \<open>core/replay\<close>: the file format, the directory tree with its clean-up, and the recorder that fills files
  during a game.  \<open>Ttl_Cache\<close> is the cache with its eviction and its file, \<open>Cache_Flights\<close> the shared
  lookups of \<open>GetOrSet\<close> as a transition system (\<open>common/cache/cache.go\<close>), \<open>Monitor_Buffer\<close> the
  batching of frames for monitors and the ring of console lines.

  \<^bold>\<open>The agent.\<close>  The agent is a second process that the server feeds with events.  \<open>Agent_Log\<close> has
  records with checksums, \<open>Agent_Outbox\<close> the log of the server (\<open>agent/outbox\<close>), \<open>Agent_Inbox\<close> that of
  the agent (\<open>agent/inbox\<close>), \<open>Agent_Delivery\<close> both with the fetches and acknowledgements of \<open>poll\<close> in
  \<open>cmd/agent/main.go\<close>.  \<open>Agent_Processor\<close> has the loop that the three processors share, with the
  cursor file, and the locale \<open>event_handler\<close>: what a handler owes so that the events before the cursor
  are handled, whatever write fails and whenever the process is started again.  \<open>Agent_Stats\<close> (the data
  base of matches with the ratings, \<open>agent/stats_store\<close>, \<open>stats_processor\<close>), \<open>Agent_Webhook\<close> (plan,
  retries and ledger, \<open>agent/webhook_processor\<close>, \<open>integration/webhook\<close>) and \<open>Agent_Upload\<close> (jobs and
  results of uploads, \<open>agent/upload\<close>) interpret it.  \<open>Agent_Ratings\<close> proves what the ratings and totals
  mean, \<open>Agent_Queries\<close> has the questions that the server may ask, \<open>Agent_Run\<close> composes the server's log,
  the inbox and a processor into one system: a match counts once, no webhook target is passed over, every
  recording is scheduled, nothing is acknowledged before it is handled.
  \<open>Agent_Bridge\<close> is the way from the hub into the log (\<open>agent/bridge/publisher.go\<close> and the hooks of
  \<open>cmd/server/main.go\<close>): the queue with the mutex, the translation of events, the capture of a finished
  game; a publication is answered once and never stuck, and the results of a game are those that the
  statistics count.  \<open>Agent_Ipc\<close> is the endpoint between server and agent (\<open>agent/ipc\<close>): the routes behind
  the token and the protocol version, the one consumer, the broker of questions and the client; nothing
  leaves the log before it was handed out, consumers are exclusive, and the endpoint is transparent for
  the fetch and the acknowledgement of the delivery.

  \<^bold>\<open>Correspondence.\<close>  A Go map is an association list with distinct keys, a map or a set; a pointer is a
  reference into the heap; an error is its key; a panic is the effect \<open>Panic\<close>.  The critical sections
  of the code (under \<open>state.Mu\<close> or \<open>room.Mu\<close>) are atomic steps.  The localisation, the upstream API,
  the configuration and the compressors are parameters.  Identifiers of users are unbounded integers,
  converted to 32 bits with the check or the wrap of the source; a float64 is the rational number it
  stands for, rounded by \<open>rnd64\<close> of \<open>Go_Float\<close> where the code rounds.  A file is the list of its bytes or
  the value it decodes to; what a write, a flush or a replacement does when it fails is an argument of
  the step, so the theorems hold for every failure.  The text of JSON documents and SQL statements
  is not modelled: codecs and tables are parameters or values.

  \<^bold>\<open>Bounds.\<close>  No definition needs fuel: every loop is structural recursion or has a termination
  proof (LEB128 and the length prefix shrink the word, the frame loop shrinks the buffer, the loops over
  logs shrink the file).  The rounds of \<open>poll\<close> over a processor are a \<open>partial_function\<close>, and
  \<open>processors_catch_up\<close> proves that they end.

  \<^bold>\<open>Not modelled.\<close>  Sockets and goroutine scheduling, debug logging, data races between handlers
  that hold different locks, the Redis back end of the cache, the routing and the JSON of the HTTP
  interface, the transport below the endpoint of the agent, the Feishu platform, the command line, the parsing
  of the configuration, the text of the localisation and of messages, and the benchmarking tools.
\<close>

section \<open>The wire protocol\<close>

text \<open>C1.  Whatever way the network splits the bytes, the read loop of a session decodes exactly
  the commands the client encoded, in their order, keeps no byte back and reports no error, as
  long as each command respects the protocol's limits and its payload fits the frame limit.\<close>

theorem client_stream_reassembled:
  assumes "list_all (sendable m) cmds" "concat chunks = client_stream cmds"
  shows "readLoop decodeClientPacket m [] chunks = (cmds, [], None)"
  using assms by (rule readLoop_client_stream)

theorem client_stream_reassembled_witness:
  "readLoop decodeClientPacket 0 [] [[5, 2, 3, 111], [108, 97, 1], [7]] = ([CmdChat ''ola'', CmdLeaveRoom], [], None)"
proof -
  have b: "EncodePacket (CmdChat ''ola'') client_writer = [2, 3, 111, 108, 97]"
    "EncodePacket CmdLeaveRoom client_writer = [7]"
    by code_simp+
  have s: "client_stream [CmdChat ''ola'', CmdLeaveRoom] = [5, 2, 3, 111, 108, 97, 1, 7]"
    by code_simp
  have "list_all (sendable 0) [CmdChat ''ola'', CmdLeaveRoom]"
    by (simp add: sendable_def b payload_limit_def DefaultMaxPayloadBytes_def)
  then show ?thesis
    using s by (intro client_stream_reassembled) simp_all
qed

text \<open>C2.  A server command that is well formed survives the way to the client: any pooled writer
  turns it into a frame, the frame decoder finds exactly its payload and leaves what follows, and
  the command decoder gives the command back.\<close>

theorem server_frame_roundtrip:
  assumes "pool_writer wr" "server_ok cmd" "int (length (EncodePacket cmd EncodeServerCommand)) \<le> payload_limit m"
    "length (EncodePacket cmd EncodeServerCommand) < 2 ^ 32"
  shows "\<exists>frame payload. encodeServerFrame wr cmd = Inr frame \<and> TryDecodeFrame (frame @ rest) m = frame_ok payload rest
    \<and> DecodePacket payload DecodeServerCommand = Inr cmd"
  using assms frame_decode [OF assms(3,4)] encodeServerFrame_ok [OF assms(1), of cmd] cServer.roundtrip [OF assms(2), of "[]"]
  by auto

theorem server_frame_roundtrip_witness:
  "\<exists>frame payload. encodeServerFrame (NewFrameWriter 5) (SrvChangeHost True) = Inr frame
    \<and> TryDecodeFrame (frame @ [7]) 0 = frame_ok payload [7] \<and> DecodePacket payload DecodeServerCommand = Inr (SrvChangeHost True)"
proof -
  have b: "EncodePacket (SrvChangeHost True) EncodeServerCommand = [7, 1]" by code_simp
  show ?thesis
    by (rule server_frame_roundtrip [OF pool_writer_New])
       (simp_all add: b payload_limit_def DefaultMaxPayloadBytes_def)
qed

text \<open>C4.  For any stream, also a malformed one, the commands and the error a session sees do not
  depend on how the network cut the stream into chunks.\<close>

theorem chunk_independence:
  assumes "concat chunks = concat chunks'"
  shows "map_prod id snd (readLoop dec m [] chunks) = map_prod id snd (readLoop dec m [] chunks')"
proof -
  obtain c r e c' r' e' where r: "readLoop dec m [] chunks = (c, r, e)" "readLoop dec m [] chunks' = (c', r', e')"
    by (metis prod_cases3)
  from readLoop_drain [OF drain_empty r(1)] readLoop_drain [OF drain_empty r(2)] assms show ?thesis
    by (auto simp: r)
qed

theorem chunk_independence_witness:
  "map_prod id snd (readLoop decodeClientPacket 0 [] [[1], [7, 255]]) = map_prod id snd (readLoop decodeClientPacket 0 [] [[1, 7, 255]])"
  by (rule chunk_independence) simp

text \<open>The frame decoder never looks beyond its buffer: a frame it reports is a prefix of at least
  one byte, a payload within the limit, and the rest of the buffer.\<close>

theorem frame_within_buffer:
  assumes "Kind (TryDecodeFrame b m) = FrameOK"
  shows "\<exists>k>0. b = take k b @ Payload (TryDecodeFrame b m) @ Remaining (TryDecodeFrame b m)
    \<and> int (length (Payload (TryDecodeFrame b m))) \<le> payload_limit m"
proof (cases rule: TryDecodeFrame_cases [of b m])
  case (frame len k)
  have "b = take k b @ take len (drop k b) @ drop (k + len) b"
    by (metis append_take_drop_id drop_drop add.commute)
  with frame show ?thesis by (intro exI [of _ k]) simp
qed (use assms in auto)

theorem frame_within_buffer_witness:
  "\<exists>k>0. [1, 7, 9] = take k [1, 7, 9] @ Payload (TryDecodeFrame [1, 7, 9] 0) @ Remaining (TryDecodeFrame [1, 7, 9] 0)
    \<and> int (length (Payload (TryDecodeFrame [1, 7, 9] 0))) \<le> payload_limit 0"
proof (rule frame_within_buffer)
  show "Kind (TryDecodeFrame [1, 7, 9] 0) = FrameOK" by code_simp
qed

text \<open>C3.  Whatever bytes a client sends, a command that is decoded respects the limits the server
  relies on: token, chat text and room names.\<close>

theorem decoded_command_limits:
  assumes "DecodePacket data DecodeClientCommand = Inr cmd"
  shows "client_limits cmd"
  using assms DecodeClientCommand_limits
  by (cases "DecodeClientCommand (NewBinaryReader data)") (auto simp: DecodePacket_def)

theorem decoded_command_limits_witness: "client_limits (CmdChat ''ola'')"
proof (rule decoded_command_limits)
  show "DecodePacket [2, 3, 111, 108, 97] DecodeClientCommand = Inr (CmdChat ''ola'')" by code_simp
qed

text \<open>The client encoder fails exactly on a token over 32 bytes or a chat text over 200 bytes.\<close>

theorem client_encoder_error:
  "EncodeClientCommand w cmd = Inl e \<longleftrightarrow> e = ProtocolError ''binary-string-too-long'' \<and>
     ((\<exists>t. cmd = CmdAuthenticate t \<and> 32 < length t) \<or> (\<exists>m. cmd = CmdChat m \<and> 200 < length m))"
  by (rule EncodeClientCommand_error)

text \<open>C5.  Half precision coordinates: every binary16 pattern that is no NaN survives the way to
  binary32 and back; all NaN patterns become one.\<close>

theorem half_precision_roundtrip:
  "F32ToF16Bits (F16BitsToF32 h) = (if half_nan h then 0x7E00 else h)"
  using half_roundtrip half_nan_canonical by auto

text \<open>The textual form of a UUID has 36 characters and parses back to the same 16 bytes.\<close>

theorem uuid_text_roundtrip:
  assumes "length b = 16"
  shows "parseUUID (formatUUID b) = Inr b \<and> length (formatUUID b) = 36"
  using parse_format [OF assms] length_formatUUID [OF assms] by simp

theorem uuid_text_roundtrip_witness:
  "parseUUID (formatUUID (replicate 16 0xAB)) = Inr (replicate 16 0xAB) \<and> length (formatUUID (replicate 16 0xAB)) = 36"
  by (rule uuid_text_roundtrip) simp

text \<open>The encoding of a map does not depend on the order in which Go iterates it.\<close>

theorem sorted_map_deterministic:
  assumes "distinct (map fst m)" "distinct (map fst m')" "map_of m = map_of m'"
  shows "WriteSortedMap WriteI32 eV w m = WriteSortedMap WriteI32 eV w m'"
  using assms by (rule WriteSortedMap_deterministic)

theorem sorted_map_deterministic_witness:
  "WriteSortedMap WriteI32 WriteBool NewBinaryWriter [(1, True), (2, False)] =
   WriteSortedMap WriteI32 WriteBool NewBinaryWriter [(2, False), (1, True)]"
  by (rule sorted_map_deterministic) (auto simp: fun_eq_iff)

text \<open>A text cut to \<open>n\<close> runes has exactly the first \<open>n\<close> runes of the original, so a cut never
  splits an encoding and never exceeds the limit.\<close>

theorem truncated_text_runes:
  "runes (truncateRunes s n) = take n (runes s) \<and> length (runes (truncateRunes s n)) \<le> n"
  by (simp add: runes_truncateRunes)

section \<open>The rooms of the server\<close>



text \<open>In every reachable state a broadcast to a room sends the command exactly to the connected
  members, players and monitors, of that room.\<close>

theorem broadcast_reaches_members:
  assumes "reachable env w" "map_of (Rooms w) rid = Some rr"
  shows "set (trace (BroadcastRoom rr cmd w)) = set (trace w) \<union>
    {Sent s cmd |s. \<exists>i u. member_ref (heapR w rr) i u \<and> session (heapU w u) = Some s}"
proof -
  have inv: "hub_inv w" using assms(1) by (rule reachable_inv)
  then have "members_ok (heapR w rr)" using inv_Rooms [OF inv assms(2)] inv_room [OF inv, of rr] by (simp add: room_ok_def)
  then show ?thesis by (rule broadcast_sent)
qed

theorem broadcast_reaches_members_witness:
  "set (trace (BroadcastRoom 0 SrvPong demo_lost)) = set (trace demo_lost) \<union>
    {Sent s SrvPong |s. \<exists>i u. member_ref (heapR demo_lost 0) i u \<and> session (heapU demo_lost u) = Some s}"
  by (rule broadcast_reaches_members [of demo_env _ "''r''"]) simp_all

text \<open>C7.  A request to join succeeds exactly when the user is not banned, the server is not in
  maintenance, the user is in no room and not banned from this one, the room exists, is not locked,
  has the user on its whitelist if it is a contest, and has a place left (a monitor needs the
  permission to monitor instead); a refusal changes nothing.\<close>

theorem join_exactly_when_admitted:
  "(isl (fst (ProcessJoinRoom env ur rid monitor w)) \<longleftrightarrow> \<not> may_join env ur rid monitor w)
    \<and> (may_join env ur rid monitor w \<or> snd (ProcessJoinRoom env ur rid monitor w) = w)"
  using join_succeeds_iff join_refused by blast

text \<open>After a successful join the user points to the room it asked for, has the role it asked
  for, and is on the list of that role.\<close>

theorem join_makes_member:
  assumes "may_join env ur rid monitor w" "w' = snd (ProcessJoinRoom env ur rid monitor w)"
  shows "\<exists>rr. map_of (Rooms w) rid = Some rr \<and> uRoom (heapU w' ur) = Some rr \<and> Monitor (heapU w' ur) = monitor
    \<and> uID (heapU w ur) \<in> set (if monitor then monitors (heapR w' rr) else users (heapR w' rr))"
  using assms by (rule join_effect)

theorem join_makes_member_witness:
  "\<exists>rr. map_of (Rooms demo_created) ''r'' = Some rr
    \<and> uRoom (heapU (snd (ProcessJoinRoom demo_env 1 ''r'' False demo_created)) 1) = Some rr
    \<and> Monitor (heapU (snd (ProcessJoinRoom demo_env 1 ''r'' False demo_created)) 1) = False
    \<and> uID (heapU demo_created 1) \<in> set (if False then monitors (heapR (snd (ProcessJoinRoom demo_env 1 ''r'' False demo_created)) rr)
        else users (heapR (snd (ProcessJoinRoom demo_env 1 ''r'' False demo_created)) rr))"
  by (rule join_makes_member) (simp_all add: may_join_def room_admits_def bob_def room_r_def)

text \<open>A request to create a room succeeds exactly when the user is not banned, creation is open,
  the user is in no room, the name is free and the limit on rooms is not reached; the new room has
  the creator as only player and host, and the limit still holds.\<close>

theorem create_exactly_when_allowed:
  "(fst (ProcessCreateRoom env ur rid w) = None \<longleftrightarrow> may_create env ur rid w)
    \<and> (may_create env ur rid w \<or> snd (ProcessCreateRoom env ur rid w) = w)"
  using create_succeeds_iff create_refused by blast

text \<open>What a successful creation leaves: a room under the asked name with its creator as only
  player and host, in the chart selection, and the limit on rooms still respected.\<close>

theorem created_room:
  assumes "may_create env ur rid w" "w' = snd (ProcessCreateRoom env ur rid w)"
  shows "map_of (Rooms w') rid = Some (nextR w) \<and> uRoom (heapU w' ur) = Some (nextR w)
    \<and> users (heapR w' (nextR w)) = [uID (heapU w ur)] \<and> HostID (heapR w' (nextR w)) = uID (heapU w ur)
    \<and> State (heapR w' (nextR w)) = StateSelectChart \<and> (MaxRooms env \<ge> 1 \<longrightarrow> int (length (Rooms w')) \<le> MaxRooms env)"
  using assms by (rule create_effect)

theorem created_room_witness:
  "let w' = snd (ProcessCreateRoom demo_env 0 ''r'' demo_4)
   in map_of (Rooms w') ''r'' = Some 0 \<and> uRoom (heapU w' 0) = Some 0 \<and> users (heapR w' 0) = [1] \<and> HostID (heapR w' 0) = 1
     \<and> State (heapR w' 0) = StateSelectChart \<and> int (length (Rooms w')) \<le> 10"
  using created_room [of demo_env 0 "''r''" demo_4] by (simp add: may_create_def alice_def Let_def)

text \<open>The next host is the player with the smallest identifier above the old host's, or with
  the smallest of all when there is none.\<close>

theorem next_host_choice:
  "pickNextHost ids old = (if ids = [] then None else Some (next_host_of (set ids) old))"
  by (rule pickNextHost_eq)



text \<open>C9.  \<open>CheckAllReady\<close> implements the abstract state machine in every reachable state: a waiting
  room starts exactly when all its members are ready and it is not started by hand, a game ends
  exactly when every player has a result or has aborted, in cycle mode the host moves on, and the
  caller is told to disband exactly when a contest with automatic disbanding ended.\<close>

theorem state_machine_refined:
  assumes "reachable env w" "map_of (Rooms w) rid = Some rr"
  defines "r \<equiv> heapR w rr" and "w' \<equiv> snd (CheckAllReady env rr w)"
  shows "fst (CheckAllReady env rr w) = (game_over r \<and> auto_disband r)
    \<and> State (heapR w' rr) = next_state (now w) r \<and> HostID (heapR w' rr) = next_host r
    \<and> (\<forall>rr'. rr' \<noteq> rr \<longrightarrow> State (heapR w' rr') = State (heapR w rr') \<and> HostID (heapR w' rr') = HostID (heapR w rr'))"
proof -
  have inv: "hub_inv w" using assms(1) by (rule reachable_inv)
  have "ReconnectNotified st = None" if "State (heapR w rr) = StatePlaying st" for st
    using inv_playing [OF inv _ that] inv_Rooms [OF inv assms(2)] by (simp add: playing_ok_def)
  then show ?thesis
    using CheckAllReady_machine [of w rr env] by (simp add: r_def w'_def)
qed

theorem state_machine_refined_witness:
  "State (heapR (snd (CheckAllReady demo_env 0 demo_wait)) 0) = StateWaitForReady {1}
    \<and> fst (CheckAllReady demo_env 0 demo_result) = False"
  using state_machine_refined [OF demo_reachable(3), of "''r''" 0] state_machine_refined [OF demo_reachable(5), of "''r''" 0]
  by (simp add: next_state_def room_r_def all_ready_def AllParticipantIDs_def auto_disband_def)

section \<open>The course of a game\<close>

text \<open>C10.  Along any step of the server, a running game either ends or goes on with its start time,
  every result handed in so far and every player who gave up; in particular no step replaces a
  result, restarts a running game or sends it back to the ready check.\<close>

theorem running_game_keeps_results:
  assumes "reachable env w" "step env w w'" "map_of (Rooms w) rid = Some rr" "State (heapR w rr) = StatePlaying p"
  shows "State (heapR w' rr) = StateSelectChart \<or> (\<exists>p'. State (heapR w' rr) = StatePlaying p' \<and> game_keeps p p')"
  using step_playing [OF assms(2) _ assms(4)] inv_Rooms [OF reachable_inv [OF assms(1)] assms(3)] by blast

theorem running_game_keeps_results_witness:
  "State (heapR demo_lost 0) = StateSelectChart \<or> (\<exists>p'. State (heapR demo_lost 0) = StatePlaying p' \<and> game_keeps demo_game p')"
proof (rule running_game_keeps_results [OF demo_reachable(5), of _ "''r''"])
  show "step demo_env demo_result demo_lost" unfolding demo_lost_def by (rule step.close)
qed (simp_all add: room_r_def)

text \<open>C11.  When the deadline after the first result fires in time, the game is over: the room is
  back in the chart selection, whatever the remaining players did.\<close>

theorem play_deadline_ends_game:
  assumes "reachable env w" "ctx \<notin> cancelled w" "map_of (Rooms w) rid = Some rr" "State (heapR w rr) = StatePlaying st"
  shows "State (heapR (run_play_deadline env ctx rr rid w) rr) = StateSelectChart"
  using run_play_deadline_ends [OF reachable_inv [OF assms(1)] assms(2-4)] .

theorem play_deadline_ends_game_witness:
  "State (heapR (run_play_deadline demo_env 1 0 ''r'' demo_lost) 0) = StateSelectChart"
  by (rule play_deadline_ends_game [OF demo_lost_reachable]) (simp_all add: room_r_def)

text \<open>C12.  When the ready countdown fires in time, the game starts without results, and exactly the
  players who were not ready are marked as aborted.\<close>

theorem ready_countdown_starts_game:
  assumes "ctx \<notin> cancelled w" "map_of (Rooms w) rid = Some rr" "State (heapR w rr) = StateWaitForReady started"
  shows "State (heapR (run_ready_timeout env ctx rr rid w) rr) =
    StatePlaying \<lparr>Results = [], Aborted = set (users (heapR w rr)) - started, ReconnectNotified = None, StartedAt = now w\<rparr>"
  using assms by (rule run_ready_timeout_starts)

theorem ready_countdown_starts_game_witness:
  "State (heapR (run_ready_timeout demo_env 0 0 ''r'' demo_wait) 0) =
    StatePlaying \<lparr>Results = [], Aborted = {2}, ReconnectNotified = None, StartedAt = 0\<rparr>"
  using ready_countdown_starts_game [of 0 demo_wait "''r''" 0 "{1}" demo_env] by (simp add: room_r_def)

text \<open>A cancelled countdown does nothing when its timer still fires.\<close>

theorem cancelled_countdowns_are_dead:
  assumes "ctx \<in> cancelled w"
  shows "run_ready_timeout env ctx rr rid w = w \<and> run_play_deadline env ctx rr rid w = w
    \<and> run_ready_reminder env ctx rr rid sec w = w"
  using assms by (simp add: run_ready_timeout_def run_play_deadline_def run_ready_reminder_def)

theorem cancelled_countdowns_are_dead_witness:
  "run_ready_timeout demo_env 0 0 ''r'' demo_play = demo_play \<and> run_play_deadline demo_env 0 0 ''r'' demo_play = demo_play
    \<and> run_ready_reminder demo_env 0 0 ''r'' 5 demo_play = demo_play"
  by (rule cancelled_countdowns_are_dead) simp

text \<open>The ranking lists every player with a result once, by falling score, equal scores by
  rising identifier.\<close>

theorem ranking_is_ordered:
  assumes "distinct (map fst (Results st))"
  shows "distinct (ranking_ids st) \<and> set (ranking_ids st) = fst ` set (Results st)
    \<and> (\<forall>a b. a < b \<longrightarrow> b < length (ranking_ids st) \<longrightarrow>
        (let sa = rec_Score (the (map_of (Results st) (ranking_ids st ! a)));
             sb = rec_Score (the (map_of (Results st) (ranking_ids st ! b)))
         in sb < sa \<or> sb = sa \<and> ranking_ids st ! a < ranking_ids st ! b))"
proof -
  have d: "distinct (ranking_ids st)" using assms by (rule ranking_members)
  have "(let sa = rec_Score (the (map_of (Results st) (ranking_ids st ! a)));
             sb = rec_Score (the (map_of (Results st) (ranking_ids st ! b)))
         in sb < sa \<or> sb = sa \<and> ranking_ids st ! a < ranking_ids st ! b)"
    if "a < b" "b < length (ranking_ids st)" for a b
    using sorted_nth_mono [OF ranking_sorted [of st], of a b] nth_eq_iff_index_eq [OF d, of a b] that
    by (auto simp: Let_def order_le_less)
  with d show ?thesis using ranking_members(1) by blast
qed

theorem ranking_is_ordered_witness: "distinct (ranking_ids demo_game) \<and> set (ranking_ids demo_game) = {1}"
  using ranking_is_ordered [of demo_game] by (simp add: demo_game_def)

text \<open>A record is only accepted from the player it belongs to: the record of another player is
  refused and changes nothing.\<close>

theorem foreign_record_refused:
  assumes "uRoom (heapU w ur) = Some rr" "\<not> already_done (heapR w rr) (uID (heapU w ur))"
    "FetchRecord env (sint rid) = Inr rc" "rec_Player rc \<noteq> uID (heapU w ur)"
  shows "handlePlayed env ur rid w = (Some ''record-invalid'', w)"
  using assms by (simp add: handlePlayed_def with_room_def RequireRoom_def Let_def)

theorem foreign_record_refused_witness: "handlePlayed demo_env 0 2 demo_play = (Some ''record-invalid'', demo_play)"
  by (rule foreign_record_refused [where rr = 0 and rc = "projr (demo_record 2)"])
     (simp_all add: alice_def room_r_def already_done_def has_finished_def new_playing_def FetchRecord_def demo_record_def)

text \<open>C13.  Only the host may lock the room, switch the cycle mode, select the chart or ask for a start;
  anybody else is refused and nothing changes.\<close>

theorem host_only_commands:
  assumes "uRoom (heapU w ur) = Some rr" "HostID (heapR w rr) \<noteq> uID (heapU w ur)"
  shows "handleLockRoom env ur b w = (Some ''room-only-host'', w) \<and> handleCycleRoom env ur b w = (Some ''room-only-host'', w)
    \<and> handleSelectChart env ur cid w = (Some ''room-only-host'', w) \<and> handleRequestStart env ur w = (Some ''room-only-host'', w)"
  using assms
  by (simp add: handleLockRoom_def handleCycleRoom_def handleSelectChart_def handleRequestStart_def with_room_def
      RequireRoom_def ValidateSelectChart_def ValidateStart_def CheckHost_def)

theorem host_only_commands_witness:
  "handleLockRoom demo_env 1 True demo_chart = (Some ''room-only-host'', demo_chart)
    \<and> handleCycleRoom demo_env 1 True demo_chart = (Some ''room-only-host'', demo_chart)
    \<and> handleSelectChart demo_env 1 7 demo_chart = (Some ''room-only-host'', demo_chart)
    \<and> handleRequestStart demo_env 1 demo_chart = (Some ''room-only-host'', demo_chart)"
  by (rule host_only_commands [of _ _ 0]) (simp_all add: bob_def room_r_def)

section \<open>Connections and departures\<close>

text \<open>A reconnection wins over the timer of the grace period: once the session is replaced, the
  timer's body does nothing, whatever token it carries.\<close>

theorem reconnect_beats_timer: "processDangle env ur token (SetSession ur (Some s) w) = SetSession ur (Some s) w"
  by (rule processDangle_other) (simp add: SetSession_def)

text \<open>A user who does not come back in the grace period is gone from the table of users and
  from its room.\<close>

theorem dangling_user_removed:
  assumes "map_of (Users w) (uID (heapU w ur)) \<noteq> None" "dangleToken (heapU w ur) = Some token"
    "w' = processDangle env ur token w"
  shows "map_of (Users w') (uID (heapU w ur)) = None \<and> uRoom (heapU w' ur) = None"
  using assms by (rule dangle_expires)

theorem dangling_user_removed_witness:
  "map_of (Users (processDangle demo_env 1 2 demo_lost)) 2 = None \<and> uRoom (heapU (processDangle demo_env 1 2 demo_lost) 1) = None"
  using dangling_user_removed [of demo_lost 1 2 _ demo_env] by (simp add: bob_def)

text \<open>Disbanding takes the room out of the table and every member the room still knows out of
  the room.\<close>

theorem disband_empties_room:
  assumes "reachable env w" "map_of (Rooms w) rid = Some rr"
  shows "map_of (Rooms (DisbandRoom env rr w)) rid = None
    \<and> (\<forall>i u. member_ref (heapR w rr) i u \<longrightarrow> uRoom (heapU w u) = Some rr \<longrightarrow> uRoom (heapU (DisbandRoom env rr w) u) = None)"
proof -
  have inv: "hub_inv w" using assms(1) by (rule reachable_inv)
  then have "members_ok (heapR w rr)" using inv_Rooms [OF inv assms(2)] inv_room [OF inv, of rr] by (simp add: room_ok_def)
  then show ?thesis
    using DisbandRoom_gone [of env rr w] DisbandRoom_leaves snapshot_members inv_Rooms [OF inv assms(2)] by blast
qed

theorem disband_empties_room_witness:
  "map_of (Rooms (DisbandRoom demo_env 0 demo_chart)) ''r'' = None
    \<and> uRoom (heapU (DisbandRoom demo_env 0 demo_chart) 0) = None \<and> uRoom (heapU (DisbandRoom demo_env 0 demo_chart) 1) = None"
proof -
  have "member_ref (heapR demo_chart 0) 1 0" "member_ref (heapR demo_chart 0) 2 1"
    by (simp_all add: member_ref_def room_r_def)
  then show ?thesis
    using disband_empties_room [OF demo_reachable(2), of "''r''" 0] by (auto simp: alice_def bob_def)
qed

text \<open>The log of a room never holds more than 50 entries, a logged message never has more than
  1003 characters, and the newest entry is the last one.\<close>

theorem room_log_bounded:
  "length (roomLogs (AddLog rr message t w) rr) \<le> 50
    \<and> log_Timestamp (last (roomLogs (AddLog rr message t w) rr)) = t
    \<and> length (log_Message (last (roomLogs (AddLog rr message t w) rr))) \<le> 1003"
  by (simp add: AddLog_def Let_def maxRecentLogs_def maxLogMessageLen_def)

section \<open>Where code and comments differ\<close>

text \<open>C14.  A user who was a monitor before and creates a room without having joined another as a player
  leaves a ghost behind: after creating and leaving, the user is in no room, but the room is still
  in the table with the user as its only player.\<close>

theorem former_monitor_leaves_ghost:
  assumes "may_create env ur rid w" "Monitor (heapU w ur)" "w1 = snd (ProcessCreateRoom env ur rid w)"
    "w2 = snd (handleLeaveRoom env ur w1)"
  shows "uRoom (heapU w2 ur) = None \<and> map_of (Rooms w2) rid = Some (nextR w) \<and> users (heapR w2 (nextR w)) = [uID (heapU w ur)]"
  using assms by (rule ghost_room)

theorem former_monitor_leaves_ghost_witness:
  "let w = upd_user 0 (\<lambda>u. u\<lparr>Monitor := True\<rparr>) demo_4;
       w2 = snd (handleLeaveRoom demo_env 0 (snd (ProcessCreateRoom demo_env 0 ''r'' w)))
   in uRoom (heapU w2 0) = None \<and> map_of (Rooms w2) ''r'' = Some 0 \<and> users (heapR w2 0) = [1]"
  using former_monitor_leaves_ghost [of demo_env 0 "''r''" "upd_user 0 (\<lambda>u. u\<lparr>Monitor := True\<rparr>) demo_4"]
  by (simp add: may_create_def alice_def Let_def)

text \<open>A monitor left behind in a room that was dropped takes a new room of the same name with it:
  when it leaves, the entry of the new room is deleted although the new room is in use.\<close>

theorem stale_monitor_deletes_new_room:
  assumes "uRoom (heapU w ur) = Some old" "Monitor (heapU w ur)" "users (heapR w old) = []"
    "monitors (heapR w old) = [uID (heapU w ur)]" "HostID (heapR w old) \<noteq> uID (heapU w ur)"
    "State (heapR w old) = StateSelectChart" "rID (heapR w old) = rid" "map_of (Rooms w) rid = Some new" "new \<noteq> old"
  shows "map_of (Rooms (snd (handleLeaveRoom env ur w))) rid = None"
  using assms by (rule left_behind_monitor_deletes_new_room)

theorem stale_monitor_deletes_new_room_witness:
  "map_of (Rooms (snd (handleLeaveRoom demo_env 1 (upd_user 1 (\<lambda>u. u\<lparr>Monitor := True, uRoom := Some 0\<rparr>)
      (upd_room 0 (\<lambda>r. r\<lparr>users := [], monitors := [2]\<rparr>) (demo_created\<lparr>Rooms := [(''r'', 5)]\<rparr>)))))) ''r'' = None"
  by (rule stale_monitor_deletes_new_room [where old = 0 and new = 5]) (simp_all add: bob_def room_r_def)

end
